(* ===== verification/Prelude.thy ===== *)
theory Prelude
  imports Main "HOL-Library.Word" "HOL-Library.Monad_Syntax"
begin

text \<open>
  Vocabulary shared by the theories of this development: the machine integers of the C
  code as words, checked reads and writes of byte buffers, the big-endian readers of
  \<^verbatim>\<open>util/macro.h\<close>, and the generic lemmas the component theories use.

  A C function that may run into undefined behaviour (a read or write outside a buffer, a
  shift by the width or more, a null pointer) returns a value of type \<open>'a ub\<close>: \<open>None\<close>
  is undefined behaviour, \<open>Some r\<close> a normal return of \<open>r\<close>.  What the C code itself
  reports as an error (\<open>-1\<close>, \<open>NULL\<close>) is part of \<open>r\<close>, never \<open>None\<close> of \<open>ub\<close>.
\<close>

unbundle bit_operations_syntax

section \<open>Machine types\<close>

type_synonym byte = "8 word"
type_synonym u16 = "16 word"
type_synonym u32 = "32 word"
type_synonym u64 = "64 word"

type_synonym 'a ub = "'a option"

type_synonym 'a ptr = "'a option"

named_theorems buf_simps "reads and writes of byte buffers"

section \<open>Byte buffers\<close>

definition rd :: "byte list \<Rightarrow> nat \<Rightarrow> byte ub" where
  "rd buf i = (if i < length buf then Some (buf ! i) else None)"

definition rdn :: "byte list \<Rightarrow> nat \<Rightarrow> nat \<Rightarrow> byte list ub" where
  "rdn buf off n = (if off + n \<le> length buf then Some (take n (drop off buf)) else None)"

text \<open>\<open>memcpy (dst + off, src, length src)\<close>\<close>

definition memcpy_at :: "byte list \<Rightarrow> nat \<Rightarrow> byte list \<Rightarrow> byte list ub" where
  "memcpy_at dst off src =
     (if off + length src \<le> length dst
      then Some (take off dst @ src @ drop (off + length src) dst) else None)"

definition zeros :: "nat \<Rightarrow> byte list" where
  "zeros n = replicate n 0"

text \<open>A buffer compares equal to \<open>empty_key\<close> exactly when all its bytes are zero.\<close>

definition is_zero :: "byte list \<Rightarrow> bool" where
  "is_zero xs \<longleftrightarrow> xs = zeros (length xs)"

definition xor_bytes :: "byte list \<Rightarrow> byte list \<Rightarrow> byte list" where
  "xor_bytes xs ys = map2 (XOR) xs ys"

lemma rd_Some [buf_simps]: "i < length buf \<Longrightarrow> rd buf i = Some (buf ! i)"
  by (simp add: rd_def)

lemma rd_eq_Some_iff: "rd buf i = Some b \<longleftrightarrow> i < length buf \<and> b = buf ! i"
  by (auto simp: rd_def)

lemma rdn_Some [buf_simps]: "off + n \<le> length buf \<Longrightarrow> rdn buf off n = Some (take n (drop off buf))"
  by (simp add: rdn_def)

lemma rdn_eq_Some_iff:
  "rdn buf off n = Some xs \<longleftrightarrow> off + n \<le> length buf \<and> xs = take n (drop off buf)"
  by (auto simp: rdn_def)

lemma rdn_eq_None_iff: "rdn buf off n = None \<longleftrightarrow> length buf < off + n"
  by (auto simp: rdn_def)

lemma rdn_length: "rdn buf off n = Some xs \<Longrightarrow> length xs = n"
  by (auto simp: rdn_eq_Some_iff)

lemma rdn_append_left: "off + n \<le> length xs \<Longrightarrow> rdn (xs @ ys) off n = rdn xs off n"
  by (simp add: rdn_def)

lemma rdn_append_right: "rdn (xs @ ys) (length xs + off) n = rdn ys off n"
  by (simp add: rdn_def)

lemma rd_append_right: "rd (xs @ ys) (length xs + i) = rd ys i"
  by (simp add: rd_def nth_append)

lemma memcpy_at_Some [buf_simps]:
  "off + length src \<le> length dst \<Longrightarrow>
     memcpy_at dst off src = Some (take off dst @ src @ drop (off + length src) dst)"
  by (simp add: memcpy_at_def)

lemma memcpy_at_length: "memcpy_at dst off src = Some r \<Longrightarrow> length r = length dst"
  by (auto simp: memcpy_at_def split: if_splits)

lemma length_zeros [simp]: "length (zeros n) = n"
  by (simp add: zeros_def)

lemma zeros_numeral: "zeros (numeral k) = 0 # zeros (pred_numeral k)" "zeros 0 = []" "zeros (Suc n) = 0 # zeros n"
  by (simp_all add: zeros_def numeral_eq_Suc)

lemma is_zero_iff: "is_zero xs \<longleftrightarrow> (\<forall>x \<in> set xs. x = 0)"
  by (metis is_zero_def zeros_def in_set_replicate replicate_length_same)

lemma is_zero_zeros [simp]: "is_zero (zeros n)"
  by (simp add: is_zero_def)

lemma length_xor_bytes [simp]: "length (xor_bytes xs ys) = min (length xs) (length ys)"
  by (simp add: xor_bytes_def)

lemma xor_bytes_cancel: "length xs = length ys \<Longrightarrow> xor_bytes (xor_bytes xs ys) ys = xs"
  by (rule nth_equalityI) (simp_all add: xor_bytes_def xor.assoc)

section \<open>Big-endian integers\<close>

text \<open>
  The macros \<open>MKINT_BE16\<close> to \<open>MKINT_BE48\<close> of \<^verbatim>\<open>util/macro.h\<close>, as shifts and ors on the
  widths the C code uses.  Their argument is the list of bytes they read.
\<close>

definition mkint_be16 :: "byte list \<Rightarrow> u32" where
  "mkint_be16 x = push_bit 8 (ucast (x ! 0)) OR ucast (x ! 1)"

definition mkint_be24 :: "byte list \<Rightarrow> u32" where
  "mkint_be24 x = push_bit 16 (ucast (x ! 0)) OR push_bit 8 (ucast (x ! 1)) OR ucast (x ! 2)"

definition mkint_be32 :: "byte list \<Rightarrow> u32" where
  "mkint_be32 x = push_bit 24 (ucast (x ! 0)) OR push_bit 16 (ucast (x ! 1)) OR
     push_bit 8 (ucast (x ! 2)) OR ucast (x ! 3)"

definition mkint_be48 :: "byte list \<Rightarrow> u64" where
  "mkint_be48 x = push_bit 40 (ucast (x ! 0)) OR push_bit 32 (ucast (x ! 1)) OR
     push_bit 24 (ucast (x ! 2)) OR push_bit 16 (ucast (x ! 3)) OR
     push_bit 8 (ucast (x ! 4)) OR ucast (x ! 5)"

definition rd_be16 :: "byte list \<Rightarrow> nat \<Rightarrow> nat ub" where
  "rd_be16 buf off = map_option (\<lambda>x. unat (mkint_be16 x)) (rdn buf off 2)"

definition rd_be24 :: "byte list \<Rightarrow> nat \<Rightarrow> nat ub" where
  "rd_be24 buf off = map_option (\<lambda>x. unat (mkint_be24 x)) (rdn buf off 3)"

definition rd_be32 :: "byte list \<Rightarrow> nat \<Rightarrow> nat ub" where
  "rd_be32 buf off = map_option (\<lambda>x. unat (mkint_be32 x)) (rdn buf off 4)"

definition rd_be48 :: "byte list \<Rightarrow> nat \<Rightarrow> nat ub" where
  "rd_be48 buf off = map_option (\<lambda>x. unat (mkint_be48 x)) (rdn buf off 6)"

text \<open>The value a big-endian byte string denotes, and its inverse at a fixed width.\<close>

fun be_val :: "byte list \<Rightarrow> nat" where
  "be_val [] = 0"
| "be_val (b # bs) = unat b * 256 ^ length bs + be_val bs"

fun be_enc :: "nat \<Rightarrow> nat \<Rightarrow> byte list" where
  "be_enc 0 v = []"
| "be_enc (Suc n) v = word_of_nat (v div 256 ^ n) # be_enc n (v mod 256 ^ n)"

lemma length_be_enc [simp]: "length (be_enc n v) = n"
  by (induction n arbitrary: v) auto

lemma be_enc_numeral:
  "be_enc (numeral k) v =
     word_of_nat (v div 256 ^ pred_numeral k) # be_enc (pred_numeral k) (v mod 256 ^ pred_numeral k)"
  by (simp add: numeral_eq_Suc)

lemma be_val_zeros [simp]: "be_val (zeros n) = 0"
  by (induction n) (simp_all add: zeros_def)

lemma be_val_less: "be_val bs < 256 ^ length bs"
proof (induction bs)
  case Nil
  show ?case by simp
next
  case (Cons b bs)
  have "unat b \<le> 255" using unsigned_less [of b, where 'a = nat] by simp
  then have "unat b * 256 ^ length bs \<le> 255 * 256 ^ length bs" by (rule mult_le_mono1)
  with Cons show ?case by (simp only: be_val.simps list.size power_Suc add_0_right add_Suc_right)
qed

lemma be_val_be_enc: "v < 256 ^ n \<Longrightarrow> be_val (be_enc n v) = v"
proof (induction n arbitrary: v)
  case 0
  then show ?case by simp
next
  case (Suc n)
  from Suc.prems have "v div 256 ^ n < 256" by (simp add: less_mult_imp_div_less mult.commute)
  then have "unat (word_of_nat (v div 256 ^ n) :: byte) = v div 256 ^ n"
    by (simp add: unat_of_nat)
  moreover have "be_val (be_enc n (v mod 256 ^ n)) = v mod 256 ^ n"
    by (rule Suc.IH) simp
  ultimately have "be_val (be_enc (Suc n) v) = v div 256 ^ n * 256 ^ n + v mod 256 ^ n"
    by simp
  then show ?case by (simp only: div_mult_mod_eq)
qed

lemma be_enc_be_val: "be_enc (length bs) (be_val bs) = bs"
proof (induction bs)
  case Nil
  show ?case by simp
next
  case (Cons b bs)
  have "be_val bs < 256 ^ length bs" by (rule be_val_less)
  with Cons show ?case by simp
qed

text \<open>Each reader returns the value its bytes denote.\<close>

lemma or_push_bit_nat:
  fixes a b :: nat
  assumes "b < 2 ^ k"
  shows "push_bit k a OR b = a * 2 ^ k + b"
proof -
  have b: "take_bit k b = b" using assms by (simp add: take_bit_nat_eq_self)
  have "push_bit k a AND take_bit k b = 0"
    by (rule bit_eqI) (auto simp: bit_simps)
  with b have "push_bit k a + b = push_bit k a OR b" by (simp add: disjunctive_add_eq_or)
  then show ?thesis by (simp add: push_bit_eq_mult)
qed

lemma byte_less [simp]: "unat (b :: byte) < 256"
  using unsigned_less [of b, where 'a = nat] by simp

lemma unat_ucast_byte:
  "8 \<le> LENGTH('a::len) \<Longrightarrow> unat (ucast (b :: byte) :: 'a word) = unat b"
proof -
  assume "8 \<le> LENGTH('a)"
  then have "(2::nat) ^ 8 \<le> 2 ^ LENGTH('a)" by (rule power_increasing) simp
  then have "256 \<le> (2::nat) ^ LENGTH('a)" by simp
  with byte_less have "unat b < 2 ^ LENGTH('a)" by (rule less_le_trans)
  then show ?thesis by (simp add: unsigned_ucast_eq take_bit_nat_eq_self)
qed

lemma unat_push_or:
  fixes w :: "'a::len word"
  assumes "unat v < 2 ^ (LENGTH('a) - k)" and "k \<le> LENGTH('a)" and "unat w < 2 ^ k"
  shows "unat (push_bit k v OR w) = unat v * 2 ^ k + unat w"
proof -
  have "unat v * 2 ^ k < 2 ^ (LENGTH('a) - k) * 2 ^ k" using assms(1) by simp
  also have "\<dots> = 2 ^ LENGTH('a)" using assms(2) by (simp flip: power_add)
  finally have "take_bit LENGTH('a) (push_bit k (unat v)) = push_bit k (unat v)"
    by (simp add: push_bit_eq_mult take_bit_nat_eq_self)
  then show ?thesis
    using assms(3) by (simp add: unsigned_or_eq unsigned_push_bit_eq or_push_bit_nat)
qed

lemma unat_mkint_be16: "unat (mkint_be16 [a, b]) = be_val [a, b]"
  by (simp add: mkint_be16_def unat_push_or unat_ucast_byte less_trans [OF byte_less])

lemma unat_mkint_be24: "unat (mkint_be24 [a, b, c]) = be_val [a, b, c]"
proof -
  have "unat (push_bit 8 (ucast b) OR ucast c :: u32) = unat b * 256 + unat c"
    by (simp add: unat_push_or unat_ucast_byte less_trans [OF byte_less])
  moreover have "unat b * 256 + unat c < 65536" using byte_less [of b] byte_less [of c] by linarith
  ultimately show ?thesis
    by (simp add: mkint_be24_def unat_push_or unat_ucast_byte less_trans [OF byte_less] power2_eq_square)
qed

lemma unat_mkint_be32: "unat (mkint_be32 [a, b, c, d]) = be_val [a, b, c, d]"
proof -
  let ?w2 = "push_bit 8 (ucast c) OR ucast d :: u32"
  let ?w3 = "push_bit 16 (ucast b) OR ?w2 :: u32"
  have 2: "unat ?w2 = unat c * 256 + unat d"
    by (simp add: unat_push_or unat_ucast_byte less_trans [OF byte_less])
  moreover have "unat c * 256 + unat d < 65536" using byte_less [of c] byte_less [of d] by linarith
  ultimately have 3: "unat ?w3 = unat b * 65536 + (unat c * 256 + unat d)"
    by (simp add: unat_push_or unat_ucast_byte less_trans [OF byte_less])
  have "unat ?w3 < 16777216"
    using 3 byte_less [of b] byte_less [of c] byte_less [of d] by linarith
  then show ?thesis
    by (simp add: mkint_be32_def unat_push_or unat_ucast_byte 3 power3_eq_cube power2_eq_square)
qed

lemma unat_mkint_be48: "unat (mkint_be48 [a, b, c, d, e, f]) = be_val [a, b, c, d, e, f]"
proof -
  let ?w2 = "push_bit 8 (ucast e) OR ucast f :: u64"
  let ?w3 = "push_bit 16 (ucast d) OR ?w2 :: u64"
  let ?w4 = "push_bit 24 (ucast c) OR ?w3 :: u64"
  let ?w5 = "push_bit 32 (ucast b) OR ?w4 :: u64"
  note bytes = byte_less [of a] byte_less [of b] byte_less [of c] byte_less [of d]
    byte_less [of e] byte_less [of f]
  have 2: "unat ?w2 = unat e * 256 + unat f"
    by (simp add: unat_push_or unat_ucast_byte less_trans [OF byte_less])
  then have "unat ?w2 < 65536" using bytes by linarith
  then have 3: "unat ?w3 = unat d * 65536 + unat ?w2"
    by (simp add: unat_push_or unat_ucast_byte less_trans [OF byte_less])
  with 2 have "unat ?w3 < 16777216" using bytes by linarith
  then have 4: "unat ?w4 = unat c * 16777216 + unat ?w3"
    by (simp add: unat_push_or unat_ucast_byte less_trans [OF byte_less])
  with 2 3 have "unat ?w4 < 4294967296" using bytes by linarith
  then have 5: "unat ?w5 = unat b * 4294967296 + unat ?w4"
    by (simp add: unat_push_or unat_ucast_byte less_trans [OF byte_less])
  with 2 3 4 have "unat ?w5 < 1099511627776" using bytes by linarith
  then have "unat (push_bit 40 (ucast a) OR ?w5) = unat a * 1099511627776 + unat ?w5"
    using unat_push_or [of "ucast a :: u64" 40 ?w5]
    by (simp add: unat_ucast_byte less_trans [OF byte_less])
  then have "unat (mkint_be48 [a, b, c, d, e, f]) = unat a * 1099511627776 + unat ?w5"
    by (simp add: mkint_be48_def)
  with 2 3 4 5 show ?thesis by simp
qed

lemma rd_be16_eq: "rd_be16 buf off = map_option be_val (rdn buf off 2)"
proof -
  have "unat (mkint_be16 xs) = be_val xs" if "length xs = 2" for xs
  proof -
    from that obtain a b where "xs = [a, b]"
      by (auto simp: eval_nat_numeral length_Suc_conv)
    then show ?thesis by (simp only: unat_mkint_be16)
  qed
  then show ?thesis by (auto simp: rd_be16_def rdn_def)
qed

lemma rd_be24_eq: "rd_be24 buf off = map_option be_val (rdn buf off 3)"
proof -
  have "unat (mkint_be24 xs) = be_val xs" if "length xs = 3" for xs
  proof -
    from that obtain a b c where "xs = [a, b, c]"
      by (auto simp: eval_nat_numeral length_Suc_conv)
    then show ?thesis by (simp only: unat_mkint_be24)
  qed
  then show ?thesis by (auto simp: rd_be24_def rdn_def)
qed

lemma rd_be32_eq: "rd_be32 buf off = map_option be_val (rdn buf off 4)"
proof -
  have "unat (mkint_be32 xs) = be_val xs" if "length xs = 4" for xs
  proof -
    from that obtain a b c d where "xs = [a, b, c, d]"
      by (auto simp: eval_nat_numeral length_Suc_conv)
    then show ?thesis by (simp only: unat_mkint_be32)
  qed
  then show ?thesis by (auto simp: rd_be32_def rdn_def)
qed

lemma rd_be48_eq: "rd_be48 buf off = map_option be_val (rdn buf off 6)"
proof -
  have "unat (mkint_be48 xs) = be_val xs" if "length xs = 6" for xs
  proof -
    from that obtain a b c d e f where "xs = [a, b, c, d, e, f]"
      by (auto simp: eval_nat_numeral length_Suc_conv)
    then show ?thesis by (simp only: unat_mkint_be48)
  qed
  then show ?thesis by (auto simp: rd_be48_def rdn_def)
qed

lemmas rd_be_eq = rd_be16_eq rd_be24_eq rd_be32_eq rd_be48_eq

lemma rd_be16_less: "rd_be16 buf off = Some v \<Longrightarrow> v < 65536"
  using be_val_less [of "take 2 (drop off buf)"] by (auto simp: rd_be16_eq rdn_def split: if_splits)

lemma rd_be24_less: "rd_be24 buf off = Some v \<Longrightarrow> v < 16777216"
  using be_val_less [of "take 3 (drop off buf)"] by (auto simp: rd_be24_eq rdn_def split: if_splits)

lemma rd_be32_less: "rd_be32 buf off = Some v \<Longrightarrow> v < 4294967296"
  using be_val_less [of "take 4 (drop off buf)"] by (auto simp: rd_be32_eq rdn_def split: if_splits)

lemma rd_be_defined [buf_simps]:
  "off + 2 \<le> length buf \<Longrightarrow> rd_be16 buf off = Some (be_val (take 2 (drop off buf)))"
  "off + 3 \<le> length buf \<Longrightarrow> rd_be24 buf off = Some (be_val (take 3 (drop off buf)))"
  "off + 4 \<le> length buf \<Longrightarrow> rd_be32 buf off = Some (be_val (take 4 (drop off buf)))"
  "off + 6 \<le> length buf \<Longrightarrow> rd_be48 buf off = Some (be_val (take 6 (drop off buf)))"
  by (simp_all add: rd_be_eq rdn_def)

end
