(* ===== verification/StrUtl.thy ===== *)
theory StrUtl
  imports Prelude
begin

text \<open>
  The string helpers of \<^verbatim>\<open>src/util/strutl.c\<close>: hexadecimal printing and parsing, and the
  line scanner the key files are read with.  A buffer of characters is a \<open>string\<close>; a
  NUL-terminated string is the list of its characters without the terminator, and a pointer
  into it is the remaining suffix.  \<open>alloc n\<close> tells whether an allocation of \<open>n\<close> bytes
  succeeds.
\<close>

section \<open>Characters\<close>

definition rdc :: "string \<Rightarrow> nat \<Rightarrow> char ub" where
  "rdc s i = (if i < length s then Some (s ! i) else None)"

text \<open>Reading a NUL-terminated string: the terminator is the last readable character.\<close>

definition rdz :: "string \<Rightarrow> nat \<Rightarrow> char ub" where
  "rdz s i = (if i < length s then Some (s ! i)
              else if i = length s then Some (CHR 0x00) else None)"

definition isxdigit :: "char \<Rightarrow> bool" where
  "isxdigit c \<longleftrightarrow> c \<in> set ''0123456789abcdefABCDEF''"

section \<open>Hexadecimal digits\<close>

text \<open>The cases of the switch in \<open>_hexstring_to_unsigned_char\<close>, in its order.\<close>

definition hex_cases :: "(char \<times> byte) list" where
  "hex_cases =
     [(CHR ''0'', 0), (CHR ''1'', 1), (CHR ''2'', 2), (CHR ''3'', 3), (CHR ''4'', 4),
      (CHR ''5'', 5), (CHR ''6'', 6), (CHR ''7'', 7), (CHR ''8'', 8), (CHR ''9'', 9),
      (CHR ''a'', 10), (CHR ''A'', 10), (CHR ''b'', 11), (CHR ''B'', 11),
      (CHR ''c'', 12), (CHR ''C'', 12), (CHR ''d'', 13), (CHR ''D'', 13),
      (CHR ''e'', 14), (CHR ''E'', 14), (CHR ''f'', 15), (CHR ''F'', 15)]"

text \<open>The value stored through the pointer, and the return value (nonzero for a digit).\<close>

definition hexstring_to_unsigned_char :: "char \<Rightarrow> byte \<times> bool" where
  "hexstring_to_unsigned_char c =
     (case map_of hex_cases c of None \<Rightarrow> (0, False) | Some v \<Rightarrow> (v, True))"

text \<open>
  The loop of \<open>hexstring_to_hex_array\<close>: the array after the loop and the return value.
  An invalid digit leaves the bytes converted so far in the array.
\<close>

function hex_array_loop :: "byte list \<Rightarrow> nat \<Rightarrow> string \<Rightarrow> nat \<Rightarrow> (byte list \<times> bool) ub" where
  "hex_array_loop hex_array sz hexstring i =
     (if i < sz then do {
        c1 \<leftarrow> rdc hexstring (i * 2);
        let (tmp1, ok1) = hexstring_to_unsigned_char c1;
        if \<not> ok1 then Some (hex_array, False)
        else do {
          c2 \<leftarrow> rdc hexstring (i * 2 + 1);
          let (tmp2, ok2) = hexstring_to_unsigned_char c2;
          if \<not> ok2 then Some (hex_array, False)
          else if i < length hex_array
          then hex_array_loop (hex_array[i := tmp1 * 16 + tmp2]) sz hexstring (i + 1)
          else None
        }
      } else Some (hex_array, True))"
  by pat_completeness auto
termination
  by (relation "measure (\<lambda>(a, sz, s, i). sz - i)") auto

definition hexstring_to_hex_array :: "byte list \<Rightarrow> nat \<Rightarrow> string \<Rightarrow> (byte list \<times> bool) ub" where
  "hexstring_to_hex_array hex_array sz hexstring = hex_array_loop hex_array sz hexstring 0"

definition nibble :: string where
  "nibble = ''0123456789abcdef''"

fun print_hex_loop :: "byte list \<Rightarrow> string" where
  "print_hex_loop [] = []"
| "print_hex_loop (b # bs) =
     nibble ! unat (drop_bit 4 b AND 0xf) # nibble ! unat (b AND 0x0f) # print_hex_loop bs"

text \<open>
  \<open>str_print_hex\<close> writes \<open>2 * count\<close> digits and a NUL into a buffer of \<open>cap\<close> characters; the
  result is the string without the NUL.
\<close>

definition str_print_hex :: "nat \<Rightarrow> byte list \<Rightarrow> nat \<Rightarrow> string ub" where
  "str_print_hex cap buf count =
     (if 2 * count + 1 \<le> cap then map_option print_hex_loop (rdn buf 0 count) else None)"

section \<open>Allocated strings\<close>

definition str_dup :: "(nat \<Rightarrow> bool) \<Rightarrow> string ptr \<Rightarrow> string ptr" where
  "str_dup alloc str =
     (case str of None \<Rightarrow> None
      | Some s \<Rightarrow> if alloc (length s + 1) then Some s else None)"

text \<open>
  \<open>str_printf\<close> for arguments that format to \<open>out\<close>: \<open>vsnprintf\<close> returns the length of the
  complete output, and the loop reallocates until it fits.
\<close>

function str_printf_loop :: "(nat \<Rightarrow> bool) \<Rightarrow> string \<Rightarrow> nat \<Rightarrow> string ptr" where
  "str_printf_loop alloc out sz =
     (if \<not> alloc sz then None
      else if length out < sz then Some out
      else str_printf_loop alloc out (length out + 1))"
  by pat_completeness auto
termination
  by (relation "measure (\<lambda>(alloc, out, sz). if length out < sz then 0 else 1)") auto

definition str_printf :: "(nat \<Rightarrow> bool) \<Rightarrow> string \<Rightarrow> string ptr" where
  "str_printf alloc out = str_printf_loop alloc out 100"

section \<open>Scanning lines\<close>

fun skip_to_eol :: "string \<Rightarrow> string" where
  "skip_to_eol [] = []"
| "skip_to_eol (c # p) = (if c \<noteq> CHR 0x0D \<and> c \<noteq> CHR 0x0A then skip_to_eol p else c # p)"

fun skip_eol :: "string \<Rightarrow> string" where
  "skip_eol [] = []"
| "skip_eol (c # p) =
     (if c = CHR 0x0D \<or> c = CHR 0x0A \<or> c = CHR '' '' then skip_eol p else c # p)"

definition str_next_line :: "string \<Rightarrow> string" where
  "str_next_line p = skip_eol (skip_to_eol p)"

fun str_skip_space :: "string \<Rightarrow> string" where
  "str_skip_space [] = []"
| "str_skip_space (c # p) =
     (if c = CHR '' '' \<or> c = CHR 0x0D \<or> c = CHR 0x0A \<or> c = CHR 0x09 then str_skip_space p
      else c # p)"

function is_hex_loop :: "string \<Rightarrow> nat \<Rightarrow> nat \<Rightarrow> bool ub" where
  "is_hex_loop str len ii =
     (if ii < len then do {
        c \<leftarrow> rdz str ii;
        if \<not> isxdigit c then Some False else is_hex_loop str len (ii + 1)
      } else do {
        c \<leftarrow> rdz str ii;
        Some (\<not> isxdigit c)
      })"
  by pat_completeness auto
termination
  by (relation "measure (\<lambda>(str, len, ii). len - ii)") auto

definition str_is_hex_string :: "string \<Rightarrow> nat \<Rightarrow> bool ub" where
  "str_is_hex_string str len = is_hex_loop str len 0"

definition str_get_hex_string :: "(nat \<Rightarrow> bool) \<Rightarrow> string \<Rightarrow> nat \<Rightarrow> string ptr ub" where
  "str_get_hex_string alloc p n =
     (let p = str_skip_space p in do {
        ok \<leftarrow> str_is_hex_string p n;
        if \<not> ok then Some None
        else if alloc (n + 1) then Some (Some (take n p)) else Some None
      })"

declare hex_array_loop.simps [simp del] is_hex_loop.simps [simp del]
  str_printf_loop.simps [simp del]

section \<open>What the conversions compute\<close>

lemma hexdigit_iff: "snd (hexstring_to_unsigned_char c) \<longleftrightarrow> isxdigit c"
proof -
  have "isxdigit c \<longleftrightarrow> c \<in> fst ` set hex_cases"
    by (auto simp: isxdigit_def hex_cases_def)
  also have "\<dots> \<longleftrightarrow> map_of hex_cases c \<noteq> None"
    by (simp add: map_of_eq_None_iff)
  finally show ?thesis
    by (auto simp: hexstring_to_unsigned_char_def split: option.splits)
qed

lemma nibble_roundtrip:
  assumes "n < 16"
  shows "hexstring_to_unsigned_char (nibble ! n) = (word_of_nat n, True)"
proof -
  have "\<forall>n \<in> set [0..<16]. hexstring_to_unsigned_char (nibble ! n) = (word_of_nat n, True)"
    by code_simp
  with assms show ?thesis by simp
qed

lemma nibble_xdigit: "n < 16 \<Longrightarrow> isxdigit (nibble ! n)"
  by (metis hexdigit_iff nibble_roundtrip snd_conv)

lemma nibbles_of_byte:
  fixes b :: byte
  shows "unat (drop_bit 4 b) mod 16 = unat b div 16" and "unat (b AND 0x0f) = unat b mod 16"
proof -
  have "unat b div 16 < 16" using byte_less [of b] by (simp only: less_mult_imp_div_less)
  then show "unat (drop_bit 4 b) mod 16 = unat b div 16"
    by (simp add: drop_bit_eq_div unat_div_distrib)
  have "b AND 0x0f = take_bit 4 b" by (simp add: take_bit_eq_mask mask_eq_exp_minus_1)
  then show "unat (b AND 0x0f) = unat b mod 16"
    by (simp only: unsigned_take_bit_eq) (simp add: take_bit_eq_mod)
qed

text \<open>The reference decoder: the bytes of the leading valid digit pairs, and whether all were.\<close>

fun unhex :: "string \<Rightarrow> byte list \<times> bool" where
  "unhex (a # b # cs) =
     (if isxdigit a \<and> isxdigit b
      then (let (r, ok) = unhex cs in
        ((fst (hexstring_to_unsigned_char a) * 16 + fst (hexstring_to_unsigned_char b)) # r, ok))
      else ([], False))"
| "unhex _ = ([], True)"

lemma unhex_print_hex [simp]: "unhex (print_hex_loop xs @ cs) = (xs @ fst (unhex cs), snd (unhex cs))"
proof (induction xs)
  case Nil
  show ?case by simp
next
  case (Cons b bs)
  have lt: "unat b div 16 < 16" using byte_less [of b] by (simp only: less_mult_imp_div_less)
  have "(word_of_nat (unat b div 16) * 16 + word_of_nat (unat b mod 16) :: byte)
      = word_of_nat (unat b div 16 * 16 + unat b mod 16)"
    by (simp only: of_nat_add of_nat_mult of_nat_numeral)
  also have "\<dots> = b" by (simp only: div_mult_mod_eq of_nat_unat ucast_id)
  finally have byte: "(word_of_nat (unat b div 16) * 16 + word_of_nat (unat b mod 16) :: byte) = b" .
  have "print_hex_loop (b # bs) @ cs =
      nibble ! (unat b div 16) # nibble ! (unat b mod 16) # print_hex_loop bs @ cs"
    by (simp only: print_hex_loop.simps nibbles_of_byte append_Cons)
  with Cons lt byte show ?case
    by (simp add: nibble_xdigit nibble_roundtrip case_prod_beta del: print_hex_loop.simps)
qed

lemma unhex_print_hex_all [simp]: "unhex (print_hex_loop xs) = (xs, True)"
  using unhex_print_hex [of xs "[]"] by simp

lemma length_unhex: "2 * length (fst (unhex s)) \<le> length s"
  by (induction s rule: unhex.induct) (auto simp: case_prod_beta)

lemma unhex_ok_iff: "snd (unhex s) \<longleftrightarrow> (\<forall>c \<in> set (take (2 * (length s div 2)) s). isxdigit c)"
  by (induction s rule: unhex.induct) (auto simp: case_prod_beta)

lemma length_unhex_ok: "snd (unhex s) \<Longrightarrow> length (fst (unhex s)) = length s div 2"
  by (induction s rule: unhex.induct) (auto simp: case_prod_beta split: if_splits)

lemma length_print_hex [simp]: "length (print_hex_loop xs) = 2 * length xs"
  by (induction xs) auto

lemma print_hex_xdigits: "c \<in> set (print_hex_loop xs) \<Longrightarrow> isxdigit c"
  by (induction xs)
    (auto simp: nibbles_of_byte intro!: nibble_xdigit less_mult_imp_div_less)

lemma hex_array_loop_unhex:
  assumes "length hex_array = sz" and "2 * sz \<le> length s" and "i \<le> sz"
  shows "hex_array_loop hex_array sz s i =
    (let (d, ok) = unhex (take (2 * (sz - i)) (drop (2 * i) s))
     in Some (take i hex_array @ d @ drop (i + length d) hex_array, ok))"
  using assms
proof (induction hex_array sz s i rule: hex_array_loop.induct)
  case (1 arr sz s i)
  show ?case
  proof (cases "i < sz")
    case False
    with "1.prems" show ?thesis by (simp add: hex_array_loop.simps)
  next
    case True
    let ?c1 = "s ! (2 * i)" and ?c2 = "s ! (2 * i + 1)"
    let ?v = "fst (hexstring_to_unsigned_char ?c1) * 16 + fst (hexstring_to_unsigned_char ?c2)"
    from True "1.prems" have rd: "rdc s (i * 2) = Some ?c1" "rdc s (i * 2 + 1) = Some ?c2"
      by (simp_all add: rdc_def mult.commute)
    from True "1.prems" have "drop (2 * i) s = ?c1 # ?c2 # drop (2 * (i + 1)) s"
      by (simp add: Cons_nth_drop_Suc)
    moreover from True have "2 * (sz - i) = Suc (Suc (2 * (sz - (i + 1))))" by simp
    ultimately have front: "take (2 * (sz - i)) (drop (2 * i) s)
        = ?c1 # ?c2 # take (2 * (sz - (i + 1))) (drop (2 * (i + 1)) s)" by simp
    show ?thesis
    proof (cases "isxdigit ?c1 \<and> isxdigit ?c2")
      case False
      with True rd front show ?thesis
        by (subst hex_array_loop.simps) (auto simp: case_prod_beta hexdigit_iff)
    next
      case ok: True
      let ?u = "unhex (take (2 * (sz - (i + 1))) (drop (2 * (i + 1)) s))"
      have "hex_array_loop arr sz s i = hex_array_loop (arr[i := ?v]) sz s (i + 1)"
        using True rd ok "1.prems"
        by (subst hex_array_loop.simps) (simp add: case_prod_beta hexdigit_iff)
      also have "\<dots> = Some (take (i + 1) (arr[i := ?v]) @ fst ?u
          @ drop (i + 1 + length (fst ?u)) (arr[i := ?v]), snd ?u)"
      proof -
        have "hex_array_loop (arr[i := ?v]) sz s (i + 1) =
            (let (d, ok) = ?u in
             Some (take (i + 1) (arr[i := ?v]) @ d @ drop (i + 1 + length d) (arr[i := ?v]), ok))"
          using True rd ok "1.prems"
          by (intro "1.IH" [OF True rd(1) refl prod.collapse _ rd(2) refl prod.collapse])
            (simp_all add: hexdigit_iff)
        then show ?thesis by (simp add: case_prod_beta)
      qed
      also have "\<dots> = Some (take i arr @ (?v # fst ?u) @ drop (i + length (?v # fst ?u)) arr, snd ?u)"
        using True "1.prems" by (simp add: take_Suc_conv_app_nth take_update_swap list_update_append)
      finally show ?thesis using front ok by (simp add: case_prod_beta)
    qed
  qed
qed

lemma hexstring_to_hex_array_unhex:
  "length hex_array = sz \<Longrightarrow> 2 * sz \<le> length s \<Longrightarrow>
   hexstring_to_hex_array hex_array sz s =
     (let (d, ok) = unhex (take (2 * sz) s) in Some (d @ drop (length d) hex_array, ok))"
  by (simp add: hexstring_to_hex_array_def hex_array_loop_unhex)

lemma str_print_hex_Some:
  "2 * n + 1 \<le> cap \<Longrightarrow> n \<le> length buf \<Longrightarrow>
     str_print_hex cap buf n = Some (print_hex_loop (take n buf))"
  by (simp add: str_print_hex_def rdn_def)

section \<open>Extracting hexadecimal strings\<close>

lemma is_hex_loop_eq:
  assumes "ii \<le> length s"
  shows "is_hex_loop s len ii =
    Some (len \<le> length s \<and> (\<forall>j. ii \<le> j \<and> j < len \<longrightarrow> isxdigit (s ! j))
          \<and> (len < length s \<longrightarrow> \<not> isxdigit (s ! max ii len)) \<or>
          len < ii \<and> (ii < length s \<longrightarrow> \<not> isxdigit (s ! ii)))"
  using assms
proof (induction s len ii rule: is_hex_loop.induct)
  case (1 s len ii)
  have nul: "\<not> isxdigit (CHR 0x00)" by (simp add: isxdigit_def)
  show ?case
  proof (cases "ii < len \<and> ii < length s \<and> isxdigit (s ! ii)")
    case True
    then have step: "is_hex_loop s len ii = is_hex_loop s len (ii + 1)"
      by (subst is_hex_loop.simps) (simp add: rdz_def)
    have "is_hex_loop s len (ii + 1) =
      Some (len \<le> length s \<and> (\<forall>j. ii + 1 \<le> j \<and> j < len \<longrightarrow> isxdigit (s ! j))
          \<and> (len < length s \<longrightarrow> \<not> isxdigit (s ! max (ii + 1) len)) \<or>
          len < ii + 1 \<and> (ii + 1 < length s \<longrightarrow> \<not> isxdigit (s ! (ii + 1))))"
      using True by (intro "1.IH" [of "s ! ii"]) (auto simp: rdz_def)
    moreover have "(\<forall>j. ii + 1 \<le> j \<and> j < len \<longrightarrow> isxdigit (s ! j))
        \<longleftrightarrow> (\<forall>j. ii \<le> j \<and> j < len \<longrightarrow> isxdigit (s ! j))"
    proof (intro iffI allI impI)
      fix j
      assume "\<forall>j. ii + 1 \<le> j \<and> j < len \<longrightarrow> isxdigit (s ! j)" and "ii \<le> j \<and> j < len"
      with True show "isxdigit (s ! j)" by (cases "j = ii") auto
    qed auto
    ultimately show ?thesis using True step by (simp add: max_def)
  next
    case False
    then show ?thesis
      using "1.prems" nul
      by (subst is_hex_loop.simps) (auto simp: rdz_def max_def split: if_splits)
  qed
qed

lemma str_is_hex_string_eq:
  "str_is_hex_string s n =
     Some (n \<le> length s \<and> (\<forall>c \<in> set (take n s). isxdigit c) \<and> (n < length s \<longrightarrow> \<not> isxdigit (s ! n)))"
  by (auto simp: str_is_hex_string_def is_hex_loop_eq all_set_conv_all_nth)

lemma str_get_hex_string_Some:
  assumes "str_get_hex_string alloc p n = Some (Some s)"
  shows "length s = n" and "\<forall>c \<in> set s. isxdigit c"
  using assms
  by (auto simp: str_get_hex_string_def str_is_hex_string_eq Let_def split: if_splits)

lemma str_get_hex_string_defined: "str_get_hex_string alloc p n \<noteq> None"
  by (simp add: str_get_hex_string_def str_is_hex_string_eq Let_def)

lemma str_printf_eq:
  "str_printf alloc out =
     (if alloc 100 \<and> (100 \<le> length out \<longrightarrow> alloc (length out + 1)) then Some out else None)"
  by (simp add: str_printf_def str_printf_loop.simps)

section \<open>Properties\<close>

text \<open>
  Printing \<open>n\<close> bytes in hexadecimal and converting the text back restores the bytes
  and reports success, whatever the target array held and whatever follows the digits.
\<close>

theorem hex_roundtrip:
  assumes "length buf = n" and "length arr = n" and "2 * n + 1 \<le> cap"
  shows "\<exists>s. str_print_hex cap buf n = Some s \<and> length s = 2 * n \<and>
    hexstring_to_hex_array arr n (s @ rest) = Some (buf, True)"
  using assms by (simp add: str_print_hex_Some hexstring_to_hex_array_unhex)

theorem hex_roundtrip_witness:
  "\<exists>s. str_print_hex 5 [0x1F, 0xA0] 2 = Some s \<and> length s = 2 * 2 \<and>
    hexstring_to_hex_array [0, 0] 2 (s @ ''zz'') = Some ([0x1F, 0xA0], True)"
  by (rule hex_roundtrip) simp_all

text \<open>
  \<open>hexstring_to_hex_array\<close> on enough characters never leaves its buffers.  It stores the
  values of the leading valid digit pairs, leaves the rest of the array as it was, and
  reports success exactly when every one of the \<open>2 * n\<close> characters is a hexadecimal digit; on
  failure the array is left partly overwritten.
\<close>

theorem hexstring_to_hex_array_spec:
  assumes "length arr = n" and "2 * n \<le> length s"
  shows "\<exists>d ok. hexstring_to_hex_array arr n s = Some (d @ drop (length d) arr, ok) \<and>
    length d \<le> n \<and> d = fst (unhex (take (2 * n) s)) \<and>
    (ok \<longleftrightarrow> (\<forall>c \<in> set (take (2 * n) s). isxdigit c)) \<and> (ok \<longrightarrow> length d = n)"
proof -
  let ?t = "take (2 * n) s"
  have "length ?t = 2 * n" using assms by simp
  then have "2 * length (fst (unhex ?t)) \<le> 2 * n" "snd (unhex ?t) \<longleftrightarrow> (\<forall>c \<in> set ?t. isxdigit c)"
    "snd (unhex ?t) \<Longrightarrow> length (fst (unhex ?t)) = n"
    using length_unhex [of ?t] unhex_ok_iff [of ?t] length_unhex_ok [of ?t] by simp_all
  with assms show ?thesis
    by (simp add: hexstring_to_hex_array_unhex case_prod_beta)
qed

theorem hexstring_to_hex_array_spec_witness:
  "\<exists>d ok. hexstring_to_hex_array [7, 7] 2 ''12x4'' = Some (d @ drop (length d) [7, 7], ok) \<and>
    length d \<le> 2 \<and> d = fst (unhex (take (2 * 2) ''12x4'')) \<and>
    (ok \<longleftrightarrow> (\<forall>c \<in> set (take (2 * 2) ''12x4''). isxdigit c)) \<and> (ok \<longrightarrow> length d = 2)"
  by (rule hexstring_to_hex_array_spec) simp_all

end
