(* ===== verification/Mkb.thy ===== *)
theory Mkb
  imports Prelude
begin

text \<open>
  The Media Key Block reader, \<^verbatim>\<open>src/libaacs/mkb.c\<close>.  A block is a sequence of records
  (type byte, 24-bit length that includes the four header bytes, payload), followed by
  padding.  A pointer into the block is an offset into its buffer.
\<close>

section \<open>Types\<close>

record mkb =
  mkb_size :: nat
  mkb_buf :: "byte list"

definition MKB_TYPE_3 :: nat where "MKB_TYPE_3 = 0x00031003"
definition MKB_TYPE_4 :: nat where "MKB_TYPE_4 = 0x00041003"
definition MKB_TYPE_10_CLASS_II :: nat where "MKB_TYPE_10_CLASS_II = 0x000A1003"
definition MKB_20_CATEGORY_C :: nat where "MKB_20_CATEGORY_C = 0x48141003"
definition MKB_21_CATEGORY_C :: nat where "MKB_21_CATEGORY_C = 0x48151003"

text \<open>\<open>mkb_init\<close> fails only when the structure cannot be allocated (16 bytes).\<close>

definition mkb_init :: "(nat \<Rightarrow> bool) \<Rightarrow> byte list \<Rightarrow> nat \<Rightarrow> mkb ptr" where
  "mkb_init alloc data len =
     (if alloc 16 then Some \<lparr>mkb_size = len, mkb_buf = data\<rparr> else None)"

text \<open>The recorded size never exceeds the buffer.\<close>

definition wf_mkb :: "mkb \<Rightarrow> bool" where
  "wf_mkb m \<longleftrightarrow> mkb_size m \<le> length (mkb_buf m)"

section \<open>Finding records\<close>

text \<open>\<open>_record\<close>: offset and length of the first record of a type, \<open>None\<close> for \<open>NULL\<close>.\<close>

function record_loop :: "mkb \<Rightarrow> byte \<Rightarrow> nat \<Rightarrow> (nat \<times> nat) ptr ub" where
  "record_loop m ty pos =
     (if pos + 4 \<le> mkb_size m then do {
        len \<leftarrow> rd_be24 (mkb_buf m) (pos + 1);
        t \<leftarrow> rd (mkb_buf m) pos;
        if t = ty then
          (if len > mkb_size m - pos then Some None else Some (Some (pos, len)))
        else if len = 0 then Some None
        else record_loop m ty (pos + len)
      } else Some None)"
  by pat_completeness auto
termination
  by (relation "measure (\<lambda>(m, ty, pos). mkb_size m - pos)") auto

declare record_loop.simps [simp del]

definition mkb_record :: "mkb \<Rightarrow> byte \<Rightarrow> (nat \<times> nat) ptr ub" where
  "mkb_record m ty = record_loop m ty 0"

text \<open>
  \<open>_simple_record\<close>: the payload of a record.  \<open>len0\<close> is what \<open>*len\<close> holds on entry: it is
  compared when there is no record, although some callers leave it uninitialised.
\<close>

definition simple_record :: "mkb \<Rightarrow> byte \<Rightarrow> nat \<Rightarrow> (nat ptr \<times> nat) ub" where
  "simple_record m ty len0 = do {
     r \<leftarrow> mkb_record m ty;
     let (rec, len) = (case r of None \<Rightarrow> (None, len0) | Some (pos, l) \<Rightarrow> (Some pos, l));
     if len < 4 then Some (None, len)
     else (case rec of None \<Rightarrow> Some (None, len) | Some pos \<Rightarrow> Some (Some (pos + 4), len - 4))
   }"

definition mkb_type_and_version_record :: "mkb \<Rightarrow> nat ptr ub" where
  "mkb_type_and_version_record m = do {
     r \<leftarrow> mkb_record m 0x10;
     let (rec, len) = (case r of None \<Rightarrow> (None, 0) | Some (pos, l) \<Rightarrow> (Some pos, l));
     if len < 12 then Some None else Some rec
   }"

definition mkb_type :: "mkb \<Rightarrow> nat ub" where
  "mkb_type m = do {
     r \<leftarrow> mkb_type_and_version_record m;
     case r of None \<Rightarrow> Some 0 | Some rec \<Rightarrow> rd_be32 (mkb_buf m) (rec + 4)
   }"

definition mkb_version :: "mkb \<Rightarrow> nat ub" where
  "mkb_version m = do {
     r \<leftarrow> mkb_type_and_version_record m;
     case r of None \<Rightarrow> Some 0 | Some rec \<Rightarrow> rd_be32 (mkb_buf m) (rec + 8)
   }"

definition mkb_host_revokation_entries :: "mkb \<Rightarrow> nat \<Rightarrow> (nat ptr \<times> nat) ub" where
  "mkb_host_revokation_entries m len0 = simple_record m 0x21 len0"

definition mkb_drive_revokation_entries :: "mkb \<Rightarrow> nat \<Rightarrow> (nat ptr \<times> nat) ub" where
  "mkb_drive_revokation_entries m len0 = simple_record m 0x20 len0"

definition mkb_subdiff_records :: "mkb \<Rightarrow> nat \<Rightarrow> (nat ptr \<times> nat) ub" where
  "mkb_subdiff_records m len0 = simple_record m 0x04 len0"

definition mkb_cvalues :: "mkb \<Rightarrow> nat \<Rightarrow> (nat ptr \<times> nat) ub" where
  "mkb_cvalues m len0 = simple_record m 0x05 len0"

definition mkb_signature :: "mkb \<Rightarrow> nat \<Rightarrow> (nat ptr \<times> nat) ub" where
  "mkb_signature m len0 = simple_record m 0x02 len0"

text \<open>\<open>mkb_mk_dv\<close> passes an uninitialised \<open>len\<close>: \<open>len0\<close> is its indeterminate value.\<close>

definition mkb_mk_dv :: "mkb \<Rightarrow> nat \<Rightarrow> nat ptr ub" where
  "mkb_mk_dv m len0 = do {
     ty \<leftarrow> mkb_type m;
     let dv_record = (if ty = MKB_20_CATEGORY_C \<or> ty = MKB_21_CATEGORY_C then 0x86 else 0x81);
     (rec, len) \<leftarrow> simple_record m dv_record len0;
     if len < 16 then Some None else Some rec
   }"

section \<open>Size of the block\<close>

text \<open>
  The loop of \<open>mkb_data_size\<close> does not stop at a zero length, so it takes fuel: \<open>None\<close> when
  the fuel runs out (or a read leaves the buffer).
\<close>

fun data_size_loop :: "nat \<Rightarrow> mkb \<Rightarrow> nat \<Rightarrow> nat ub" where
  "data_size_loop 0 m pos = None"
| "data_size_loop (Suc fuel) m pos =
     (if pos + 4 \<le> mkb_size m then do {
        t \<leftarrow> rd (mkb_buf m) pos;
        if t = 0 then Some pos
        else do {
          len \<leftarrow> rd_be24 (mkb_buf m) (pos + 1);
          data_size_loop fuel m (pos + len)
        }
      } else Some pos)"

definition mkb_data_size :: "nat \<Rightarrow> mkb \<Rightarrow> nat ub" where
  "mkb_data_size fuel m = do {
     pos \<leftarrow> data_size_loop fuel m 0;
     if pos > mkb_size m then Some (mkb_size m) else Some pos
   }"

section \<open>Revocation lists\<close>

text \<open>\<open>id \<le> cert_id \<le> id + range\<close> for one of the entries from \<open>ii\<close> on, at \<open>rl + 8 * ii\<close>.\<close>

function revoked_loop :: "byte list \<Rightarrow> nat \<Rightarrow> nat \<Rightarrow> nat \<Rightarrow> nat \<Rightarrow> int ub" where
  "revoked_loop buf rl entries cert_id ii =
     (if ii < entries then do {
        len \<leftarrow> rd_be16 buf (rl + 8 * ii);
        id \<leftarrow> rd_be48 buf (rl + 8 * ii + 2);
        if cert_id \<ge> id \<and> cert_id \<le> id + len then Some 1
        else revoked_loop buf rl entries cert_id (ii + 1)
      } else Some 0)"
  by pat_completeness auto
termination
  by (relation "measure (\<lambda>(buf, rl, entries, cert_id, ii). entries - ii)") auto

declare revoked_loop.simps [simp del]

definition cert_is_revoked :: "byte list \<Rightarrow> nat ptr \<Rightarrow> nat \<Rightarrow> byte list \<Rightarrow> int ub" where
  "cert_is_revoked buf rl rl_size cert_id_bin =
     (case rl of None \<Rightarrow> Some 0 | Some rl \<Rightarrow>
      if rl_size > 8 then do {
        cert_id \<leftarrow> rd_be48 cert_id_bin 0;
        entries \<leftarrow> rd_be32 buf (rl + 4);
        if entries \<ge> (0xffffffff - 8 - 40) div 8 then Some 0
        else let rec_len = (4 + 4 + 8 * entries + 40) mod 2 ^ 32 in
          if rec_len > rl_size then Some (- 1)
          else revoked_loop buf (rl + 8) entries cert_id 0
      } else Some 0)"

definition mkb_host_cert_is_revoked :: "mkb ptr \<Rightarrow> byte list \<Rightarrow> int ub" where
  "mkb_host_cert_is_revoked m cert_id =
     (case m of None \<Rightarrow> Some (- 1) | Some m \<Rightarrow> do {
        (rl, rl_size) \<leftarrow> mkb_host_revokation_entries m 0;
        case rl of None \<Rightarrow> Some (- 1)
        | Some p \<Rightarrow> cert_is_revoked (mkb_buf m) (Some p) rl_size cert_id
      })"

definition mkb_drive_cert_is_revoked :: "mkb ptr \<Rightarrow> byte list \<Rightarrow> int ub" where
  "mkb_drive_cert_is_revoked m cert_id =
     (case m of None \<Rightarrow> Some (- 1) | Some m \<Rightarrow> do {
        (rl, rl_size) \<leftarrow> mkb_drive_revokation_entries m 0;
        case rl of None \<Rightarrow> Some (- 1)
        | Some p \<Rightarrow> cert_is_revoked (mkb_buf m) (Some p) rl_size cert_id
      })"

section \<open>Bounds\<close>

lemma record_loop_bounds:
  assumes "wf_mkb m"
  shows "\<exists>r. record_loop m ty pos = Some r \<and>
    (\<forall>p l. r = Some (p, l) \<longrightarrow> p + l \<le> mkb_size m \<and> p + 4 \<le> mkb_size m \<and> mkb_buf m ! p = ty)"
  using assms
proof (induction m ty pos rule: record_loop.induct)
  case (1 m ty pos)
  show ?case
  proof (cases "pos + 4 \<le> mkb_size m")
    case False
    then show ?thesis by (simp add: record_loop.simps)
  next
    case True
    with "1.prems" have rds: "rd_be24 (mkb_buf m) (pos + 1) = Some (be_val (take 3 (drop (pos + 1) (mkb_buf m))))"
      "rd (mkb_buf m) pos = Some (mkb_buf m ! pos)"
      by (simp_all add: wf_mkb_def buf_simps)
    then show ?thesis
      using True "1.IH" [OF True rds] "1.prems"
      by (subst record_loop.simps) (auto simp del: add_Suc_right)
  qed
qed

lemma mkb_record_defined: "wf_mkb m \<Longrightarrow> \<exists>r. mkb_record m ty = Some r"
  using record_loop_bounds [of m ty 0] by (auto simp: mkb_record_def)

lemma mkb_record_bounds:
  assumes "wf_mkb m" and "mkb_record m ty = Some (Some (p, l))"
  shows "p + l \<le> mkb_size m" and "p + 4 \<le> mkb_size m" and "mkb_buf m ! p = ty"
  using record_loop_bounds [OF assms(1), of ty 0] assms(2) by (auto simp: mkb_record_def)

lemma simple_record_bounds:
  assumes "wf_mkb m"
  shows "\<exists>r l. simple_record m ty len0 = Some (r, l) \<and>
    (\<forall>p. r = Some p \<longrightarrow> 4 \<le> p \<and> p + l \<le> mkb_size m \<and> mkb_buf m ! (p - 4) = ty)"
proof -
  obtain r where r: "mkb_record m ty = Some r" using mkb_record_defined [OF assms] by blast
  show ?thesis
    using mkb_record_bounds [OF assms] r
    by (cases r) (auto simp: simple_record_def)
qed

lemma type_and_version_bounds:
  assumes "wf_mkb m"
  shows "\<exists>r. mkb_type_and_version_record m = Some r \<and> (\<forall>p. r = Some p \<longrightarrow> p + 12 \<le> mkb_size m)"
proof -
  obtain r where r: "mkb_record m 0x10 = Some r" using mkb_record_defined [OF assms] by blast
  show ?thesis
    using mkb_record_bounds(1) [OF assms] r
    by (cases r) (fastforce simp: mkb_type_and_version_record_def)+
qed

lemma mkb_type_defined: "wf_mkb m \<Longrightarrow> \<exists>t. mkb_type m = Some t"
  using type_and_version_bounds [of m]
  by (auto simp: mkb_type_def wf_mkb_def rd_be_eq rdn_def split: option.splits)

lemma mkb_version_defined: "wf_mkb m \<Longrightarrow> \<exists>t. mkb_version m = Some t"
  using type_and_version_bounds [of m]
  by (auto simp: mkb_version_def wf_mkb_def rd_be_eq rdn_def split: option.splits)

text \<open>The result of \<open>mkb_mk_dv\<close> does not depend on the uninitialised length.\<close>

lemma mkb_mk_dv_eq:
  assumes "wf_mkb m"
  shows "mkb_mk_dv m len0 = do {
     ty \<leftarrow> mkb_type m;
     r \<leftarrow> mkb_record m (if ty = MKB_20_CATEGORY_C \<or> ty = MKB_21_CATEGORY_C then 0x86 else 0x81);
     case r of None \<Rightarrow> Some None
     | Some (pos, l) \<Rightarrow> Some (if l < 20 then None else Some (pos + 4)) }"
proof -
  obtain ty where ty: "mkb_type m = Some ty" using mkb_type_defined [OF assms] by blast
  let ?dv = "if ty = MKB_20_CATEGORY_C \<or> ty = MKB_21_CATEGORY_C then 0x86 else 0x81"
  obtain r where r: "mkb_record m ?dv = Some r" using mkb_record_defined [OF assms] by blast
  show ?thesis
    by (cases r) (auto simp: mkb_mk_dv_def simple_record_def ty r Let_def)
qed

section \<open>The block as a list of records\<close>

type_synonym entry = "byte \<times> byte list"

fun enc_entry :: "entry \<Rightarrow> byte list" where
  "enc_entry (t, d) = t # be_enc 3 (4 + length d) @ d"

definition enc_mkb :: "entry list \<Rightarrow> byte list \<Rightarrow> byte list" where
  "enc_mkb rs pad = concat (map enc_entry rs) @ pad"

definition wf_entries :: "entry list \<Rightarrow> bool" where
  "wf_entries rs \<longleftrightarrow> (\<forall>(t, d) \<in> set rs. 4 + length d < 256 ^ 3)"

text \<open>Where a search for records of type \<open>ty\<close> stops: too little data, or a zero length.\<close>

definition end_of_records :: "byte \<Rightarrow> byte list \<Rightarrow> bool" where
  "end_of_records ty pad \<longleftrightarrow> length pad < 4 \<or> pad ! 0 \<noteq> ty \<and> be_val (take 3 (drop 1 pad)) = 0"

definition mkb_of :: "entry list \<Rightarrow> byte list \<Rightarrow> mkb" where
  "mkb_of rs pad = \<lparr>mkb_size = length (enc_mkb rs pad), mkb_buf = enc_mkb rs pad\<rparr>"

lemma length_enc_entry [simp]: "length (enc_entry e) = 4 + length (snd e)"
  by (cases e) simp

lemma wf_mkb_of [simp]: "wf_mkb (mkb_of rs pad)"
  by (simp add: wf_mkb_def mkb_of_def)

lemma enc_mkb_Cons: "enc_mkb (e # rs) pad = enc_entry e @ enc_mkb rs pad"
  by (simp add: enc_mkb_def)

lemma enc_entry_header:
  assumes "4 + length d < 256 ^ 3"
  shows "rd (pre @ enc_entry (t, d) @ post) (length pre) = Some t"
    and "rd_be24 (pre @ enc_entry (t, d) @ post) (length pre + 1) = Some (4 + length d)"
    and "rdn (pre @ enc_entry (t, d) @ post) (length pre + 4) (length d) = Some d"
proof -
  show "rd (pre @ enc_entry (t, d) @ post) (length pre) = Some t"
    using rd_append_right [of pre _ 0] by (simp add: rd_def)
  have "take 3 (be_enc 3 (4 + length d) @ d @ post) = be_enc 3 (4 + length d)" by simp
  then show "rd_be24 (pre @ enc_entry (t, d) @ post) (length pre + 1) = Some (4 + length d)"
    using be_val_be_enc [OF assms] by (simp add: rd_be_eq rdn_append_right) (simp add: rdn_def)
  show "rdn (pre @ enc_entry (t, d) @ post) (length pre + 4) (length d) = Some d"
    by (simp add: rdn_append_right) (simp add: rdn_def)
qed

lemma record_loop_enc:
  assumes "wf_entries rs" and "mkb_buf m = pre @ enc_mkb rs pad" and "mkb_size m = length (mkb_buf m)"
  shows "case map_of rs ty of
      Some d \<Rightarrow> \<exists>pos. record_loop m ty (length pre) = Some (Some (pos, 4 + length d)) \<and>
        rdn (mkb_buf m) (pos + 4) (length d) = Some d
    | None \<Rightarrow> end_of_records ty pad \<longrightarrow> record_loop m ty (length pre) = Some None"
  using assms
proof (induction rs arbitrary: pre)
  case Nil
  then show ?case
    by (subst record_loop.simps)
      (auto simp: enc_mkb_def end_of_records_def rd_def rd_be_eq rdn_def nth_append)
next
  case (Cons e rs)
  obtain t d where e: "e = (t, d)" by (cases e)
  have d: "4 + length d < 256 ^ 3" using Cons.prems(1) by (simp add: wf_entries_def e)
  have buf: "mkb_buf m = pre @ enc_entry (t, d) @ enc_mkb rs pad"
    using Cons.prems(2) by (simp add: e enc_mkb_Cons)
  note hd = enc_entry_header [OF d, of pre t "enc_mkb rs pad", folded buf]
  have room: "length pre + 4 \<le> mkb_size m" "4 + length d \<le> mkb_size m - length pre"
    using Cons.prems(3) buf by simp_all
  show ?case
  proof (cases "t = ty")
    case True
    have "record_loop m ty (length pre) = Some (Some (length pre, 4 + length d))"
      using hd room True by (subst record_loop.simps) simp
    with True hd e show ?thesis by auto
  next
    case False
    let ?pre = "pre @ enc_entry (t, d)"
    have step: "record_loop m ty (length pre) = record_loop m ty (length ?pre)"
      using hd room False by (subst record_loop.simps) (simp add: add.assoc)
    have "map_of (e # rs) ty = map_of rs ty" using False e by simp
    moreover have "wf_entries rs" using Cons.prems(1) by (simp add: wf_entries_def)
    moreover have "mkb_buf m = ?pre @ enc_mkb rs pad" using buf by (simp only: append_assoc)
    ultimately show ?thesis
      using Cons.IH [of ?pre] Cons.prems(3) by (simp only: step simp_thms)
  qed
qed

lemma data_size_loop_enc:
  assumes "wf_entries rs" and "\<forall>(t, d) \<in> set rs. t \<noteq> 0"
    and "mkb_buf m = pre @ enc_mkb rs pad" and "mkb_size m = length (mkb_buf m)"
    and "length pad < 4 \<or> pad ! 0 = 0"
  shows "data_size_loop (Suc (length rs)) m (length pre) = Some (length pre + length (enc_mkb rs []))"
  using assms
proof (induction rs arbitrary: pre)
  case Nil
  then show ?case by (auto simp: enc_mkb_def rd_def nth_append)
next
  case (Cons e rs)
  obtain t d where e: "e = (t, d)" by (cases e)
  have d: "4 + length d < 256 ^ 3" and t: "t \<noteq> 0"
    using Cons.prems(1,2) by (simp_all add: wf_entries_def e)
  have buf: "mkb_buf m = pre @ enc_entry (t, d) @ enc_mkb rs pad"
    using Cons.prems(3) by (simp add: e enc_mkb_Cons)
  note hd = enc_entry_header [OF d, of pre t "enc_mkb rs pad", folded buf]
  let ?pre = "pre @ enc_entry (t, d)"
  have "data_size_loop (Suc (length (e # rs))) m (length pre) = data_size_loop (Suc (length rs)) m (length ?pre)"
    using hd t Cons.prems(4) buf by (simp add: add.assoc del: data_size_loop.simps(1)) 
  also have "\<dots> = Some (length ?pre + length (enc_mkb rs []))"
    using Cons.prems buf by (intro Cons.IH) (auto simp: wf_entries_def)
  finally show ?case by (simp add: e enc_mkb_Cons)
qed

section \<open>Revocation\<close>

definition rl_covers :: "byte list \<Rightarrow> nat \<Rightarrow> nat \<Rightarrow> nat \<Rightarrow> bool" where
  "rl_covers buf rl i cert_id \<longleftrightarrow>
     (let len = be_val (take 2 (drop (rl + 8 * i) buf));
          id = be_val (take 6 (drop (rl + 8 * i + 2) buf))
      in id \<le> cert_id \<and> cert_id \<le> id + len)"

lemma revoked_loop_eq:
  assumes "rl + 8 * entries \<le> length buf" and "ii \<le> entries"
  shows "revoked_loop buf rl entries c ii =
    Some (if \<exists>i. ii \<le> i \<and> i < entries \<and> rl_covers buf rl i c then 1 else 0)"
  using assms
proof (induction buf rl entries c ii rule: revoked_loop.induct)
  case (1 buf rl entries c ii)
  show ?case
  proof (cases "ii < entries")
    case False
    then show ?thesis by (subst revoked_loop.simps) auto
  next
    case True
    with "1.prems" have rds:
      "rd_be16 buf (rl + 8 * ii) = Some (be_val (take 2 (drop (rl + 8 * ii) buf)))"
      "rd_be48 buf (rl + 8 * ii + 2) = Some (be_val (take 6 (drop (rl + 8 * ii + 2) buf)))"
      by (simp_all add: rd_be_eq rdn_def)
    show ?thesis
    proof (cases "rl_covers buf rl ii c")
      case yes: True
      then have "revoked_loop buf rl entries c ii = Some 1"
        using True rds by (subst revoked_loop.simps) (simp add: rl_covers_def Let_def)
      with True yes show ?thesis by auto
    next
      case no: False
      then have "revoked_loop buf rl entries c ii = revoked_loop buf rl entries c (ii + 1)"
        using True rds by (subst revoked_loop.simps) (auto simp: rl_covers_def Let_def)
      also have "\<dots> = Some (if \<exists>i. ii + 1 \<le> i \<and> i < entries \<and> rl_covers buf rl i c then 1 else 0)"
        using True "1.prems" no by (intro "1.IH" [OF True rds]) (auto simp: rl_covers_def Let_def)
      also have "(\<exists>i. ii + 1 \<le> i \<and> i < entries \<and> rl_covers buf rl i c) \<longleftrightarrow>
          (\<exists>i. ii \<le> i \<and> i < entries \<and> rl_covers buf rl i c)"
        using no by (metis Suc_eq_plus1 Suc_leI Suc_leD le_neq_implies_less)
      finally show ?thesis .
    qed
  qed
qed

lemma cert_is_revoked_eq:
  assumes "p + rl_size \<le> length buf" and "6 \<le> length cert"
  shows "cert_is_revoked buf (Some p) rl_size cert =
    Some (if rl_size \<le> 8 then 0
      else let n = be_val (take 4 (drop (p + 4) buf)) in
        if n \<ge> 536870905 then 0
        else if rl_size < 8 * n + 48 then - 1
        else if \<exists>i < n. rl_covers buf (p + 8) i (be_val (take 6 cert)) then 1 else 0)"
proof -
  let ?n = "be_val (take 4 (drop (p + 4) buf))"
  have "(4 + 4 + 8 * n + 40) mod 2 ^ 32 = 8 * n + 48" if "n < 536870905" for n :: nat
    using that by simp
  moreover have "revoked_loop buf (p + 8) ?n (be_val (take 6 cert)) 0 =
      Some (if \<exists>i < ?n. rl_covers buf (p + 8) i (be_val (take 6 cert)) then 1 else 0)"
    if "8 * ?n + 48 \<le> rl_size"
    using revoked_loop_eq [of "p + 8" ?n buf 0] that assms by simp
  ultimately show ?thesis
    using assms by (auto simp: cert_is_revoked_def rd_be_eq rdn_def Let_def not_le not_less)
qed

section \<open>Termination of the size computation\<close>

text \<open>A record header that makes the loop of \<open>mkb_data_size\<close> spin: a type, but length zero.\<close>

definition stuck_at :: "mkb \<Rightarrow> nat \<Rightarrow> bool" where
  "stuck_at m pos \<longleftrightarrow> pos + 4 \<le> mkb_size m \<and> mkb_buf m ! pos \<noteq> 0 \<and>
     be_val (take 3 (drop (pos + 1) (mkb_buf m))) = 0"

lemma data_size_step:
  assumes "wf_mkb m" and "pos + 4 \<le> mkb_size m"
  shows "data_size_loop (Suc fuel) m pos =
    (if mkb_buf m ! pos = 0 then Some pos
     else data_size_loop fuel m (pos + be_val (take 3 (drop (pos + 1) (mkb_buf m)))))"
  using assms by (simp add: wf_mkb_def buf_simps)

lemma data_size_stuck:
  assumes "wf_mkb m" and "stuck_at m pos"
  shows "data_size_loop fuel m pos = None"
proof (induction fuel)
  case 0
  show ?case by simp
next
  case (Suc fuel)
  with assms show ?case by (auto simp: stuck_at_def data_size_step simp del: data_size_loop.simps(2))
qed

lemma data_size_enough_fuel:
  assumes "wf_mkb m" and "mkb_size m - pos \<le> n" and "data_size_loop (Suc n) m pos = None"
  shows "data_size_loop fuel m pos = None"
  using assms
proof (induction n arbitrary: pos fuel)
  case 0
  then show ?case by simp
next
  case (Suc n)
  let ?len = "be_val (take 3 (drop (pos + 1) (mkb_buf m)))"
  have pos: "pos + 4 \<le> mkb_size m" and t: "mkb_buf m ! pos \<noteq> 0"
    using Suc.prems by (auto simp: data_size_step split: if_splits)
      (use Suc.prems in \<open>auto simp: wf_mkb_def buf_simps split: if_splits\<close>)
  show ?case
  proof (cases "?len = 0")
    case True
    with pos t have "stuck_at m pos" by (simp add: stuck_at_def)
    with Suc.prems(1) show ?thesis by (rule data_size_stuck)
  next
    case False
    with pos t Suc.prems have "data_size_loop (Suc n) m (pos + ?len) = None"
      and "mkb_size m - (pos + ?len) \<le> n"
      by (simp_all add: data_size_step del: data_size_loop.simps(2))
    then have "data_size_loop f m (pos + ?len) = None" for f
      using Suc.IH Suc.prems(1) by blast
    with pos t Suc.prems(1) show ?thesis
      by (cases fuel) (simp_all add: data_size_step del: data_size_loop.simps(2))
  qed
qed

section \<open>Properties\<close>

text \<open>
  C32: the record search implements lookup in the list of records the block encodes: the
  accessor returns the payload of the first record of the type, with its exact length, and
  \<open>NULL\<close> (leaving \<open>*len\<close> as it was) when there is none, whatever padding follows.
\<close>

theorem mkb_lookup:
  assumes "wf_entries rs"
  shows "case map_of rs ty of
      Some d \<Rightarrow> \<exists>pos. simple_record (mkb_of rs pad) ty len0 = Some (Some pos, length d) \<and>
        rdn (mkb_buf (mkb_of rs pad)) pos (length d) = Some d
    | None \<Rightarrow> end_of_records ty pad \<longrightarrow> simple_record (mkb_of rs pad) ty len0 = Some (None, len0)"
  using record_loop_enc [OF assms, of "mkb_of rs pad" "[]" pad ty]
  by (cases "map_of rs ty") (auto simp: mkb_of_def simple_record_def mkb_record_def)

theorem mkb_lookup_witness:
  "(\<exists>pos. simple_record (mkb_of [(0x10, [0, 3, 0x10, 3, 0, 0, 0, 9]), (0x81, zeros 16), (0x81, [])] [0, 0, 0, 0]) 0x81 7 = Some (Some pos, 16) \<and>
     rdn (mkb_buf (mkb_of [(0x10, [0, 3, 0x10, 3, 0, 0, 0, 9]), (0x81, zeros 16), (0x81, [])] [0, 0, 0, 0])) pos 16 = Some (zeros 16)) \<and>
   simple_record (mkb_of [(0x10, [0, 3, 0x10, 3, 0, 0, 0, 9]), (0x81, zeros 16), (0x81, [])] [0, 0, 0, 0]) 0x05 7 = Some (None, 7)"
proof -
  let ?rs = "[(0x10, [0, 3, 0x10, 3, 0, 0, 0, 9]), (0x81, zeros 16), (0x81, [])] :: entry list"
  have "wf_entries ?rs" by (simp add: wf_entries_def)
  from mkb_lookup [OF this, where ty = "0x81" and pad = "[0, 0, 0, 0]" and ?len0.0 = "7"]
    mkb_lookup [OF this, where ty = "0x05" and pad = "[0, 0, 0, 0]" and ?len0.0 = "7"]
  show ?thesis by (simp add: end_of_records_def)
qed



text \<open>
  The host revocation check on a block whose host revocation record is at \<open>p\<close>: no byte
  outside the record is read, and the answer is 1 exactly when some entry of the first
  signature block covers the certificate id; an entry count that does not fit the record is
  -1, an absurdly large one counts as not revoked.
\<close>

theorem host_cert_revoked_spec:
  assumes "wf_mkb m" and "6 \<le> length cert"
    and "mkb_host_revokation_entries m 0 = Some (Some p, rl_size)"
  shows "mkb_host_cert_is_revoked (Some m) cert =
    Some (if rl_size \<le> 8 then 0
      else let n = be_val (take 4 (drop (p + 4) (mkb_buf m))) in
        if n \<ge> 536870905 then 0
        else if rl_size < 8 * n + 48 then - 1
        else if \<exists>i < n. rl_covers (mkb_buf m) (p + 8) i (be_val (take 6 cert)) then 1 else 0)"
proof -
  have "p + rl_size \<le> length (mkb_buf m)"
    using simple_record_bounds [OF assms(1), where ty = "0x21" and ?len0.0 = "0"] assms(1,3)
    by (auto simp: mkb_host_revokation_entries_def wf_mkb_def)
  from cert_is_revoked_eq [OF this assms(2)] show ?thesis
    by (simp add: mkb_host_cert_is_revoked_def assms(3))
qed

theorem host_cert_revoked_spec_witness:
  "mkb_host_cert_is_revoked (Some (mkb_of [(0x21, [0, 0, 0, 1, 0, 0, 0, 1, 0, 2, 0, 0, 0, 0, 0, 5] @ zeros 40)] []))
     [0, 0, 0, 0, 0, 7] = Some 1"
proof -
  let ?m = "mkb_of [(0x21, [0, 0, 0, 1, 0, 0, 0, 1, 0, 2, 0, 0, 0, 0, 0, 5] @ zeros 40)] []"
  note eval = mkb_of_def enc_mkb_def be_enc_numeral
  have rec: "mkb_host_revokation_entries ?m 0 = Some (Some 4, 56)"
    by (simp add: eval mkb_host_revokation_entries_def simple_record_def mkb_record_def
        record_loop.simps rd_def rd_be_eq rdn_def)
  have n: "be_val (take 4 (drop (4 + 4) (mkb_buf ?m))) = 1" by (simp add: eval)
  have "rl_covers (mkb_buf ?m) (4 + 8) 0 (be_val (take 6 [0, 0, 0, 0, 0, 7]))"
    by (simp add: eval rl_covers_def)
  then have "\<exists>i < 1. rl_covers (mkb_buf ?m) (4 + 8) i (be_val (take 6 [0, 0, 0, 0, 0, 7]))" by blast
  then show ?thesis
    using host_cert_revoked_spec [of ?m "[0, 0, 0, 0, 0, 7]" 4 56] rec n by (simp add: Let_def)
qed

text \<open>
  On a block that encodes a list of records with nonzero types, \<open>mkb_data_size\<close> returns
  the total length of the records, without the padding; one unit of fuel per record and one
  for the end are enough.
\<close>

theorem mkb_data_size_spec:
  assumes "wf_entries rs" and "\<forall>(t, d) \<in> set rs. t \<noteq> 0" and "length pad < 4 \<or> pad ! 0 = 0"
  shows "mkb_data_size (Suc (length rs)) (mkb_of rs pad) = Some (length (enc_mkb rs []))"
proof -
  have "data_size_loop (Suc (length rs)) (mkb_of rs pad) 0 = Some (length (enc_mkb rs []))"
    using data_size_loop_enc [OF assms(1,2), of "mkb_of rs pad" "[]" pad] assms(3)
    by (simp add: mkb_of_def)
  moreover have "length (enc_mkb rs []) \<le> mkb_size (mkb_of rs pad)" by (simp add: mkb_of_def enc_mkb_def)
  ultimately show ?thesis by (simp add: mkb_data_size_def del: data_size_loop.simps)
qed

theorem mkb_data_size_spec_witness:
  "mkb_data_size 2 (mkb_of [(0x10, zeros 8)] (zeros 10)) = Some 12"
proof -
  have "mkb_data_size (Suc (length [(0x10 :: byte, zeros 8)])) (mkb_of [(0x10, zeros 8)] (zeros 10))
      = Some (length (enc_mkb [(0x10, zeros 8)] []))"
    by (rule mkb_data_size_spec) (simp_all add: wf_entries_def zeros_def)
  then show ?thesis by (simp add: enc_mkb_def numeral_2_eq_2)
qed

text \<open>
  \<open>mkb_data_size\<close> may loop forever: on a block that starts with a record of length zero
  and nonzero type no amount of fuel gives a result.  In general \<open>mkb_size m + 1\<close> units of
  fuel decide whether it returns.
\<close>

theorem mkb_data_size_hangs:
  assumes "wf_mkb m"
  shows "(stuck_at m 0 \<longrightarrow> mkb_data_size fuel m = None) \<and>
    (mkb_data_size (Suc (mkb_size m)) m = None \<longrightarrow> mkb_data_size fuel m = None)"
proof (intro conjI impI)
  show "mkb_data_size fuel m = None" if "stuck_at m 0"
    using data_size_stuck [OF assms that] by (simp add: mkb_data_size_def)
  show "mkb_data_size fuel m = None" if none: "mkb_data_size (Suc (mkb_size m)) m = None"
  proof -
    have "data_size_loop (Suc (mkb_size m)) m 0 = None"
      using none
      by (cases "data_size_loop (Suc (mkb_size m)) m 0")
        (simp_all add: mkb_data_size_def split: if_splits del: data_size_loop.simps)
    then have "data_size_loop fuel m 0 = None"
      by (rule data_size_enough_fuel [OF assms, of 0 "mkb_size m", simplified diff_zero, OF order_refl])
    then show ?thesis by (simp add: mkb_data_size_def)
  qed
qed

theorem mkb_data_size_hangs_witness:
  "\<forall>fuel. mkb_data_size fuel \<lparr>mkb_size = 4, mkb_buf = [0x81, 0, 0, 0]\<rparr> = None"
proof
  fix fuel
  have wf: "wf_mkb \<lparr>mkb_size = 4, mkb_buf = [0x81, 0, 0, 0]\<rparr>" by (simp add: wf_mkb_def)
  have stuck: "stuck_at \<lparr>mkb_size = 4, mkb_buf = [0x81, 0, 0, 0]\<rparr> 0" by (simp add: stuck_at_def)
  from mkb_data_size_hangs [OF wf, THEN conjunct1] stuck
  show "mkb_data_size fuel \<lparr>mkb_size = 4, mkb_buf = [0x81, 0, 0, 0]\<rparr> = None" by (rule mp)
qed

end
