(* ===== verification/UnitKey.thy ===== *)
theory UnitKey
  imports Prelude
begin

text \<open>
  The unit key file \<^verbatim>\<open>AACS/Unit_Key_RO.inf\<close>, as \<^verbatim>\<open>src/libaacs/unit_key.c\<close> parses it: the
  header, the encrypted CPS unit keys and the table that maps titles to CPS units.
  \<open>alloc n\<close> tells whether an allocation of \<open>n\<close> bytes succeeds.
\<close>

section \<open>State\<close>

record aacs_uk =
  num_bdmv_dir :: nat
  app_type :: nat
  use_skb_mkb :: nat
  num_uk :: nat
  dec_uk :: "byte list list ptr"
  enc_uk :: "byte list list ptr"
  num_titles :: nat
  title_cps_unit :: "nat list ptr"

definition empty_uk :: aacs_uk where
  "empty_uk = \<lparr>num_bdmv_dir = 0, app_type = 0, use_skb_mkb = 0, num_uk = 0, dec_uk = None,
     enc_uk = None, num_titles = 0, title_cps_unit = None\<rparr>"

definition SIZEOF_AACS_UK :: nat where "SIZEOF_AACS_UK = 40"

section \<open>Parsing\<close>

definition parse_header :: "aacs_uk \<Rightarrow> byte list \<Rightarrow> (int \<times> aacs_uk) ub" where
  "parse_header u p =
     (if length p < 20 then Some (- 1, u)
      else do {
        b16 \<leftarrow> rd p 16;
        b17 \<leftarrow> rd p 17;
        b18 \<leftarrow> rd p 18;
        let u = u\<lparr>app_type := unat b16, num_bdmv_dir := unat b17,
                  use_skb_mkb := unat (drop_bit 7 b18)\<rparr>;
        if num_bdmv_dir u < 1 then Some (- 1, u) else Some (0, u)
      })"

text \<open>The CPS unit numbers of titles \<open>i, i + 1, \<dots>\<close>.\<close>

fun read_titles :: "byte list \<Rightarrow> nat \<Rightarrow> nat \<Rightarrow> nat list ub" where
  "read_titles p i 0 = Some []"
| "read_titles p i (Suc n) = do {
     t \<leftarrow> rd_be16 p (26 + 2 + 4 * i);
     ts \<leftarrow> read_titles p (i + 1) n;
     Some (t # ts)
   }"

text \<open>Numbers \<open>1..N\<close> become indices \<open>0..N-1\<close>; a number that is not valid becomes 0.\<close>

definition validate_title :: "nat \<Rightarrow> nat \<Rightarrow> nat" where
  "validate_title n t = (if t < 1 \<or> t > n then 0 else t - 1)"

definition assign_titles :: "(nat \<Rightarrow> bool) \<Rightarrow> aacs_uk \<Rightarrow> byte list \<Rightarrow> (int \<times> aacs_uk) ub" where
  "assign_titles alloc u p =
     (if length p < 26 then Some (- 1, u)
      else do {
        first_play \<leftarrow> rd_be16 p 20;
        top_menu \<leftarrow> rd_be16 p 22;
        n \<leftarrow> rd_be16 p 24;
        if n > 0xffff - 2 then Some (- 1, u)
        else if length p < 26 + 4 * n then Some (- 1, u\<lparr>num_titles := 0\<rparr>)
        else if \<not> alloc (2 * (n + 2)) then Some (- 1, u\<lparr>title_cps_unit := None\<rparr>)
        else do {
          ts \<leftarrow> read_titles p 0 n;
          Some (0, u\<lparr>num_titles := n,
                     title_cps_unit := Some (map (validate_title (num_uk u)) (first_play # top_menu # ts))\<rparr>)
        }
      })"

text \<open>
  Key \<open>i\<close> is at \<open>uk_pos + 48 * (i + 1)\<close>; in the AACS2 layout each key is followed by 16 more
  unknown bytes.  \<open>uk_pos\<close> is a 32-bit variable.
\<close>

fun read_uks :: "byte list \<Rightarrow> bool \<Rightarrow> nat \<Rightarrow> nat \<Rightarrow> byte list list ub" where
  "read_uks p aacs2 uk_pos 0 = Some []"
| "read_uks p aacs2 uk_pos (Suc n) = (let uk_pos = (uk_pos + 48) mod 2 ^ 32 in do {
     key \<leftarrow> rdn p uk_pos 16;
     keys \<leftarrow> read_uks p aacs2 (if aacs2 then (uk_pos + 16) mod 2 ^ 32 else uk_pos) n;
     Some (key # keys)
   })"

text \<open>
  The sanity check of the AACS2 layout: whether it fails, and whether the layout is still
  taken to be AACS2.  \<open>num\<close> is \<open>uk->num_uk\<close> at that point.
\<close>

definition check_aacs2 :: "byte list \<Rightarrow> bool \<Rightarrow> nat \<Rightarrow> nat \<Rightarrow> nat \<Rightarrow> (bool \<times> bool) ub" where
  "check_aacs2 p aacs2 n uk_pos num =
     (if aacs2 \<and> n > 1 then do {
        probe \<leftarrow> rdn p (48 + 48 + 16) 16;
        if probe = zeros 16 then Some (False, False)
        else Some (length p < (uk_pos + 64 * num + 16) mod 2 ^ 32, True)
      } else Some (False, aacs2))"

definition parse_uks :: "(nat \<Rightarrow> bool) \<Rightarrow> aacs_uk \<Rightarrow> byte list \<Rightarrow> bool \<Rightarrow> (int \<times> aacs_uk) ub" where
  "parse_uks alloc u p aacs2 = (let u = u\<lparr>num_uk := 0\<rparr> in
     if length p < 4 then Some (- 1, u)
     else do {
       uk_pos \<leftarrow> rd_be32 p 0;
       if length p - 2 < uk_pos then Some (- 1, u)
       else do {
         n \<leftarrow> rd_be16 p uk_pos;
         if n < 1 then Some (0, u)
         else if length p - uk_pos < 16 then Some (- 1, u)
         else if (length p - uk_pos - 16) div 48 < n then Some (- 1, u)
         else do {
           (err, aacs2) \<leftarrow> check_aacs2 p aacs2 n uk_pos (num_uk u);
           if err then Some (- 1, u)
           else if \<not> alloc (n * SIZEOF_AACS_UK) then Some (- 1, u\<lparr>enc_uk := None\<rparr>)
           else do {
             keys \<leftarrow> read_uks p aacs2 uk_pos n;
             Some (0, u\<lparr>enc_uk := Some keys, num_uk := n\<rparr>)
           }
         }
       }
     })"

text \<open>The result of \<open>_assign_titles\<close> is ignored, its effect on the structure is not.\<close>

definition uk_parse_into :: "(nat \<Rightarrow> bool) \<Rightarrow> aacs_uk \<Rightarrow> byte list \<Rightarrow> bool \<Rightarrow> (int \<times> aacs_uk) ub" where
  "uk_parse_into alloc u data aacs2 = do {
     (r, u) \<leftarrow> parse_header u data;
     if r < 0 then Some (- 1, u)
     else do {
       (result, u) \<leftarrow> parse_uks alloc u data aacs2;
       (_, u) \<leftarrow> assign_titles alloc u data;
       Some (result, u)
     }
   }"

definition uk_parse :: "(nat \<Rightarrow> bool) \<Rightarrow> byte list \<Rightarrow> bool \<Rightarrow> aacs_uk ptr ub" where
  "uk_parse alloc data aacs2 =
     (if \<not> alloc SIZEOF_AACS_UK then Some None
      else do {
        (r, u) \<leftarrow> uk_parse_into alloc empty_uk data aacs2;
        Some (if r < 0 then None else Some u)
      })"

text \<open>\<open>uk_free\<close> erases the decrypted keys before it frees the structure.\<close>

definition uk_clean :: "aacs_uk \<Rightarrow> aacs_uk" where
  "uk_clean p = p\<lparr>dec_uk := None, enc_uk := None, title_cps_unit := None\<rparr>"

definition uk_free :: "aacs_uk ptr \<Rightarrow> aacs_uk ptr" where
  "uk_free p = (case p of None \<Rightarrow> None | Some u \<Rightarrow> None)"

section \<open>Invariant of a parsed file\<close>

definition wf_titles :: "aacs_uk \<Rightarrow> bool" where
  "wf_titles u \<longleftrightarrow> (case title_cps_unit u of None \<Rightarrow> num_titles u = 0
     | Some ts \<Rightarrow> length ts = num_titles u + 2 \<and> (\<forall>t \<in> set ts. t < max 1 (num_uk u)))"

definition wf_enc :: "aacs_uk \<Rightarrow> bool" where
  "wf_enc u \<longleftrightarrow> (case enc_uk u of None \<Rightarrow> num_uk u = 0
     | Some ks \<Rightarrow> length ks = num_uk u \<and> (\<forall>k \<in> set ks. length k = 16))"

definition wf_uk :: "aacs_uk \<Rightarrow> bool" where
  "wf_uk u \<longleftrightarrow> wf_titles u \<and> wf_enc u \<and> dec_uk u = None"

lemma validate_title_bound: "validate_title n t < max (Suc 0) n"
  by (auto simp: validate_title_def)

lemma read_titles_eq:
  "26 + 4 * (i + n) \<le> length p \<Longrightarrow>
     read_titles p i n = Some (map (\<lambda>j. be_val (take 2 (drop (28 + 4 * j) p))) [i..<i + n])"
proof (induction n arbitrary: i)
  case 0
  then show ?case by simp
next
  case (Suc n)
  have "[i..<i + Suc n] = i # [Suc i..<Suc i + n]" by (simp add: upt_rec)
  with Suc show ?case by (simp add: rd_be_eq rdn_def)
qed

lemma read_uks_lengths:
  "read_uks p aacs2 pos n = Some ks \<Longrightarrow> length ks = n \<and> (\<forall>k \<in> set ks. length k = 16)"
proof (induction n arbitrary: pos ks)
  case 0
  then show ?case by simp
next
  case (Suc n)
  then show ?case by (fastforce simp: Let_def bind_eq_Some_conv rdn_eq_Some_iff)
qed

lemma read_uks_defined:
  "pos + 48 * n + 16 \<le> length p \<Longrightarrow> \<exists>ks. read_uks p False pos n = Some ks"
proof (induction n arbitrary: pos)
  case 0
  then show ?case by simp
next
  case (Suc n)
  have le: "(pos + 48) mod 4294967296 \<le> pos + 48" by (rule mod_less_eq_dividend)
  with Suc.prems have "(pos + 48) mod 4294967296 + 48 * n + 16 \<le> length p" by simp
  with Suc.IH obtain ks where "read_uks p False ((pos + 48) mod 4294967296) n = Some ks" by blast
  moreover have "(pos + 48) mod 4294967296 + 16 \<le> length p" using le Suc.prems by simp
  ultimately show ?case by (simp add: Let_def rdn_def)
qed

lemma read_uks_eq:
  "pos + 48 * n + 16 \<le> length p \<Longrightarrow> pos + 48 * n < 4294967296 \<Longrightarrow>
     read_uks p False pos n = Some (map (\<lambda>i. take 16 (drop (pos + 48 * (i + 1)) p)) [0..<n])"
proof (induction n arbitrary: pos)
  case 0
  then show ?case by simp
next
  case (Suc n)
  have "[0..<Suc n] = 0 # map Suc [0..<n]" by (metis map_Suc_upt upt_conv_Cons zero_less_Suc)
  moreover have "pos + 48 * Suc i = pos + 48 + 48 * i" for i by simp
  ultimately show ?case using Suc by (simp add: Let_def rdn_def add.assoc)
qed

lemma assign_titles_defined:
  "\<exists>r u'. assign_titles alloc u p = Some (r, u')"
proof (cases "length p < 26")
  case True
  then show ?thesis by (simp add: assign_titles_def)
next
  case False
  then have rds: "rd_be16 p 20 = Some (be_val (take 2 (drop 20 p)))"
    "rd_be16 p 22 = Some (be_val (take 2 (drop 22 p)))"
    "rd_be16 p 24 = Some (be_val (take 2 (drop 24 p)))" by (simp_all add: buf_simps)
  with False show ?thesis
    using read_titles_eq [of 0 "be_val (take 2 (drop 24 p))" p]
    by (auto simp: assign_titles_def not_less)
qed

lemma read_titles_length: "read_titles p i n = Some ts \<Longrightarrow> length ts = n"
  by (induction n arbitrary: i ts) (auto split: Option.bind_splits)

lemma assign_titles_wf:
  assumes "assign_titles alloc u p = Some (r, u')" and "title_cps_unit u = None" and "num_titles u = 0"
  shows "wf_titles u' \<and> num_uk u' = num_uk u \<and> enc_uk u' = enc_uk u \<and> dec_uk u' = dec_uk u"
  using assms unfolding assign_titles_def
  by (auto simp: wf_titles_def validate_title_bound dest!: read_titles_length
      split: Option.bind_splits if_splits simp del: max_less_iff_conj less_max_iff_disj)

lemma parse_header_defined: "\<exists>r u'. parse_header u p = Some (r, u')"
  by (auto simp: parse_header_def buf_simps Let_def)

lemma parse_header_frame:
  "parse_header u p = Some (r, u') \<Longrightarrow>
     num_uk u' = num_uk u \<and> enc_uk u' = enc_uk u \<and> dec_uk u' = dec_uk u \<and>
     num_titles u' = num_titles u \<and> title_cps_unit u' = title_cps_unit u"
  by (auto simp: parse_header_def Let_def split: if_splits Option.bind_splits)

lemma parse_uks_frame:
  assumes "parse_uks alloc u p aacs2 = Some (r, u')"
  shows "dec_uk u' = dec_uk u \<and> num_titles u' = num_titles u \<and> title_cps_unit u' = title_cps_unit u"
  using assms unfolding parse_uks_def Let_def
  by (auto split: Option.bind_splits if_splits prod.splits)

lemma parse_uks_wf:
  assumes "parse_uks alloc u p aacs2 = Some (r, u')" and "0 \<le> r" and "enc_uk u = None"
  shows "wf_enc u'"
  using assms unfolding parse_uks_def Let_def
  by (auto simp: wf_enc_def dest!: read_uks_lengths split: Option.bind_splits if_splits prod.splits)

lemma check_aacs2_False [simp]: "check_aacs2 p False n uk_pos num = Some (False, False)"
  by (simp add: check_aacs2_def)

lemma parse_uks_defined: "parse_uks alloc u p False \<noteq> None"
proof (cases "length p < 4 \<or> length p - 2 < be_val (take 4 p)")
  case True
  then show ?thesis by (auto simp: parse_uks_def buf_simps Let_def)
next
  case False
  let ?pos = "be_val (take 4 p)"
  let ?n = "be_val (take 2 (drop ?pos p))"
  have "?pos + 2 \<le> length p" using False by linarith
  then have rds: "rd_be32 p 0 = Some ?pos" "rd_be16 p ?pos = Some ?n"
    using False by (simp_all add: buf_simps)
  have "\<exists>ks. read_uks p False ?pos ?n = Some ks"
    if "\<not> length p - ?pos < 16" "\<not> (length p - ?pos - 16) div 48 < ?n"
  proof (rule read_uks_defined)
    from that(2) have "?n \<le> (length p - ?pos - 16) div 48" by simp
    then have "48 * ?n \<le> length p - ?pos - 16" by (simp add: less_eq_div_iff_mult_less_eq mult.commute)
    with that(1) show "?pos + 48 * ?n + 16 \<le> length p" by linarith
  qed
  with False rds show ?thesis by (auto simp: parse_uks_def Let_def)
qed

text \<open>In the AACS2 layout the last of \<open>n\<close> keys ends at \<open>uk_pos + 64 * n\<close>.\<close>

lemma read_uks_aacs2_overread:
  assumes "0 < n" and "length p < pos + 64 * n" and "pos + 64 * n < 4294967296"
  shows "read_uks p True pos n = None"
  using assms
proof (induction n arbitrary: pos)
  case 0
  then show ?case by simp
next
  case (Suc n)
  show ?case
  proof (cases n)
    case 0
    with Suc.prems show ?thesis by (simp add: Let_def rdn_def)
  next
    case (Suc k)
    have "read_uks p True (pos + 64) n = None"
      using Suc Suc.prems by (intro Suc.IH) simp_all
    then show ?thesis
      using Suc.prems by (auto simp: Let_def add.commute simp del: read_uks.simps(2) simp: read_uks.simps(2) [of _ _ _ n] split: Option.bind_split)
  qed
qed

section \<open>Properties\<close>

text \<open>
  C30: parsing an AACS1 unit key file never reads outside the file, whatever its contents and
  whichever allocations fail.
\<close>

theorem uk_parse_safe: "\<exists>r. uk_parse alloc data False = Some r"
proof -
  obtain r u1 where 1: "parse_header empty_uk data = Some (r, u1)"
    using parse_header_defined by blast
  obtain r2 u2 where 2: "parse_uks alloc u1 data False = Some (r2, u2)"
    using parse_uks_defined by fastforce
  obtain r3 u3 where 3: "assign_titles alloc u2 data = Some (r3, u3)"
    using assign_titles_defined by blast
  from 1 2 3 show ?thesis by (simp add: uk_parse_def uk_parse_into_def)
qed

lemma uk_parse_wf_uk:
  assumes "uk_parse alloc data aacs2 = Some (Some u)"
  shows "wf_uk u"
proof -
  from assms obtain r u1 r2 u2 r3 where
    1: "parse_header empty_uk data = Some (r, u1)" and
    2: "parse_uks alloc u1 data aacs2 = Some (r2, u2)" "0 \<le> r2" and
    3: "assign_titles alloc u2 data = Some (r3, u)"
    by (auto simp: uk_parse_def uk_parse_into_def split: if_splits Option.bind_splits)
  have "enc_uk u1 = None \<and> dec_uk u1 = None \<and> num_titles u1 = 0 \<and> title_cps_unit u1 = None"
    using parse_header_frame [OF 1] by (simp add: empty_uk_def)
  with parse_uks_frame [OF 2(1)] parse_uks_wf [OF 2] assign_titles_wf [OF 3]
  show ?thesis by (auto simp: wf_uk_def wf_enc_def split: option.splits)
qed

text \<open>
  A unit key file that parses is well formed: there are exactly \<open>num_uk\<close> encrypted keys
  of 16 bytes, none is decrypted yet, and the title table, when present, has an entry for
  first play, top menu and every title, each of them a valid index of a unit key (or 0).
\<close>

theorem uk_parse_wf:
  assumes "uk_parse alloc data aacs2 = Some (Some u)"
  shows "wf_uk u"
  using assms by (rule uk_parse_wf_uk)

theorem uk_parse_wf_witness:
  "\<exists>u. uk_parse (\<lambda>_. True) ([0, 0, 0, 40] @ zeros 12 @ [1, 1, 0] @ [0, 0, 1, 0, 5, 0, 0] @ zeros 14 @ [0, 1] @ zeros 62) False
      = Some (Some u) \<and> wf_uk u"
proof -
  let ?d = "[0, 0, 0, 40] @ zeros 12 @ [1, 1, 0] @ [0, 0, 1, 0, 5, 0, 0] @ zeros 14 @ [0, 1] @ zeros 62"
  have "\<exists>u. uk_parse (\<lambda>_. True) ?d False = Some (Some u)"
    by (simp add: uk_parse_def uk_parse_into_def parse_header_def parse_uks_def assign_titles_def
        rd_be_eq rd_def rdn_def Let_def nth_append zeros_def)
  then show ?thesis using uk_parse_wf by blast
qed



text \<open>
  With the AACS2 layout the size check is made against \<open>uk->num_uk\<close>, which is still 0, so
  a file whose keys do not fit passes it: on a file that is large enough for the AACS1
  layout but not for \<open>n\<close> keys of 64 bytes the parser reads past the end of the file.
\<close>

theorem uk_parse_aacs2_overread:
  assumes "20 \<le> length data" and "data ! 17 \<noteq> 0" and "be_val (take 4 data) = pos"
    and "be_val (take 2 (drop pos data)) = n" and "1 < n"
    and "take 16 (drop 112 data) \<noteq> zeros 16" and "pos + 48 * n + 16 \<le> length data"
    and "length data < pos + 64 * n" and "pos + 64 * n < 4294967296" and "128 \<le> length data"
  shows "uk_parse (\<lambda>_. True) data True = None"
proof -
  have pos: "rd_be32 data 0 = Some pos" and n: "rd_be16 data pos = Some n"
    using assms by (simp_all add: buf_simps)
  obtain u1 where u1: "parse_header empty_uk data = Some (0, u1)"
    using assms(1,2) by (auto simp: parse_header_def buf_simps Let_def unat_eq_0)
  have "48 * n \<le> length data - pos - 16" using assms(7) by linarith
  then have room: "n \<le> (length data - pos - 16) div 48"
    by (simp add: less_eq_div_iff_mult_less_eq mult.commute)
  have check: "check_aacs2 data True n pos 0 = Some (False, True)"
    using assms by (simp add: check_aacs2_def buf_simps)
  have "read_uks data True pos n = None"
    using assms by (intro read_uks_aacs2_overread) simp_all
  moreover have "\<not> length data < 4" "\<not> length data - 2 < pos" "\<not> length data - pos < 16" "\<not> n < 1"
    using assms by linarith+
  ultimately have "parse_uks (\<lambda>_. True) u1 data True = None"
    using room check pos n by (simp add: parse_uks_def Let_def)
  with u1 show ?thesis by (simp add: uk_parse_def uk_parse_into_def)
qed

theorem uk_parse_aacs2_overread_witness:
  "uk_parse (\<lambda>_. True) ([0, 0, 7, 208] @ zeros 12 @ [1, 1, 0] @ zeros 93 @ [1] @ zeros 1887 @ [0, 2] @ zeros 110) True = None"
proof -
  have "hd (take 16 (1 # zeros 1887 @ ys)) \<noteq> hd (zeros 16)" for ys
    by (simp add: zeros_def numeral_eq_Suc)
  then have "take 16 (1 # zeros 1887 @ ys) \<noteq> zeros 16" for ys
    by metis
  then show ?thesis
    by (intro uk_parse_aacs2_overread [where pos = 2000 and n = 2])
      (simp_all add: nth_append)
qed

end
