(* ===== verification/Cci.thy ===== *)
theory Cci
  imports Prelude
begin

text \<open>
  Copy control information files \<^verbatim>\<open>AACS/CPSUnit*.cci\<close>, as \<^verbatim>\<open>src/libaacs/cci.c\<close> parses
  them: a 16-byte header and a list of entries.  A pointer into the file is an offset, the
  remaining size is a 64-bit \<open>size_t\<close> whose subtraction wraps.
\<close>

section \<open>State\<close>

definition cci_AACS_BASIC_CCI :: nat where "cci_AACS_BASIC_CCI = 0x0101"
definition cci_AACS_ENHANCED_TITLE_USAGE :: nat where "cci_AACS_ENHANCED_TITLE_USAGE = 0x0111"

record basic_cci =
  bc_epn :: nat
  bc_cci :: nat
  bc_image_constraint :: nat
  bc_digital_only :: nat
  bc_apstb :: nat
  bc_num_titles :: nat
  bc_title_type :: "byte list"

record cci_entry =
  ce_type :: nat
  ce_version :: nat
  ce_data_length :: nat
  ce_basic :: basic_cci

record aacs_cci =
  cci_num_entry :: nat
  cci_entries :: "cci_entry list"

definition zero_basic :: basic_cci where
  "zero_basic = \<lparr>bc_epn = 0, bc_cci = 0, bc_image_constraint = 0, bc_digital_only = 0,
     bc_apstb = 0, bc_num_titles = 0, bc_title_type = zeros (1024 div 8)\<rparr>"

definition zero_entry :: cci_entry where
  "zero_entry = \<lparr>ce_type = 0, ce_version = 0, ce_data_length = 0, ce_basic = zero_basic\<rparr>"

section \<open>Parsing\<close>

definition bitcpy_mask :: "nat \<Rightarrow> byte" where
  "bitcpy_mask bits = (push_bit (8 - bits) 1 - 1) XOR 0xff"

definition bitcpy :: "byte list \<Rightarrow> byte list \<Rightarrow> nat \<Rightarrow> nat \<Rightarrow> byte list ub" where
  "bitcpy dst src off num_bits = (let bytes = drop_bit 3 num_bits; bits = num_bits AND 3 in do {
     dst \<leftarrow> (if bytes \<noteq> 0 then do { s \<leftarrow> rdn src off bytes; memcpy_at dst 0 s } else Some dst);
     if bits \<noteq> 0 then do {
       b \<leftarrow> rd src (off + bytes);
       if bytes < length dst then Some (dst[bytes := b AND bitcpy_mask bits]) else None
     } else Some dst
   })"

text \<open>The fields of the basic CCI in the payload at \<open>p\<close>; \<open>None\<close> if the title map is too large.\<close>

definition parse_basic :: "byte list \<Rightarrow> nat \<Rightarrow> basic_cci option ub" where
  "parse_basic buf p = do {
     b6 \<leftarrow> rd buf (p + 6);
     b7 \<leftarrow> rd buf (p + 7);
     n \<leftarrow> rd_be16 buf (p + 8);
     if n > 1024 then Some None
     else do {
       tt \<leftarrow> bitcpy (zeros (1024 div 8)) buf (p + 10) n;
       Some (Some \<lparr>bc_epn = unat (drop_bit 2 (b6 AND 0x04)), bc_cci = unat (b6 AND 0x03),
         bc_image_constraint = unat (drop_bit 4 (b7 AND 0x10)),
         bc_digital_only = unat (drop_bit 3 (b7 AND 0x40)),
         bc_apstb = unat (b7 AND 0x07), bc_num_titles = n, bc_title_type = tt\<rparr>)
     }
   }"

text \<open>
  The return value of \<open>cci_parse_entry\<close> and the entry.  After a title map that is too large
  the entry is not used, so its fields then are left at the header's.
\<close>

definition cci_parse_entry :: "byte list \<Rightarrow> nat \<Rightarrow> nat \<Rightarrow> (int \<times> cci_entry) ub" where
  "cci_parse_entry buf p sz =
     (if sz < 6 then Some (- 1, zero_entry)
      else do {
        ty \<leftarrow> rd_be16 buf p;
        ver \<leftarrow> rd_be16 buf (p + 2);
        dl \<leftarrow> rd_be16 buf (p + 4);
        let e = zero_entry\<lparr>ce_type := ty, ce_version := ver, ce_data_length := dl\<rparr>;
        if (sz + 6) mod 2 ^ 64 < dl then Some (- 1, e)
        else if ty = cci_AACS_BASIC_CCI then
          (if dl = 0x84 then do {
             bc \<leftarrow> parse_basic buf p;
             case bc of None \<Rightarrow> Some (- 1, e) | Some b \<Rightarrow> Some (1, e\<lparr>ce_basic := b\<rparr>)
           } else Some (0, e))
        else if ty = cci_AACS_ENHANCED_TITLE_USAGE then Some (1, e)
        else Some (0, e)
      })"

fun cci_parse_loop :: "byte list \<Rightarrow> nat \<Rightarrow> nat \<Rightarrow> nat \<Rightarrow> cci_entry list option ub" where
  "cci_parse_loop buf p sz 0 = Some (Some [])"
| "cci_parse_loop buf p sz (Suc n) = do {
     (r, e) \<leftarrow> cci_parse_entry buf p sz;
     if r < 0 then Some None
     else do {
       es \<leftarrow> cci_parse_loop buf (p + 6 + ce_data_length e)
              ((sz + 2 ^ 64 - (6 + ce_data_length e)) mod 2 ^ 64) n;
       Some (case es of None \<Rightarrow> None | Some es \<Rightarrow> Some (e # es))
     }
   }"

definition SIZEOF_AACS_CCI :: nat where "SIZEOF_AACS_CCI = 16"
definition SIZEOF_CCI_ENTRY :: nat where "SIZEOF_CCI_ENTRY = 142"

definition cci_parse :: "(nat \<Rightarrow> bool) \<Rightarrow> byte list \<Rightarrow> aacs_cci ptr ub" where
  "cci_parse alloc data =
     (if length data < 16 then Some None
      else do {
        num_entry \<leftarrow> rd_be16 data 0;
        if num_entry < 1 \<or> num_entry > (2048 - 16) div 6 then Some None
        else if \<not> alloc SIZEOF_AACS_CCI then Some None
        else if \<not> alloc (num_entry * SIZEOF_CCI_ENTRY) then Some None
        else do {
          es \<leftarrow> cci_parse_loop data 16 (length data - 16) num_entry;
          Some (case es of None \<Rightarrow> None
                | Some es \<Rightarrow> Some \<lparr>cci_num_entry = num_entry, cci_entries = es\<rparr>)
        }
      })"

definition cci_free :: "aacs_cci ptr \<Rightarrow> aacs_cci ptr" where
  "cci_free pp = (case pp of None \<Rightarrow> None | Some c \<Rightarrow> None)"

section \<open>Queries\<close>

text \<open>The title map is scanned byte by byte; a set bit is an enhanced title.\<close>

function titles_basic :: "basic_cci \<Rightarrow> nat \<Rightarrow> bool ub" where
  "titles_basic b jj =
     (if jj < (bc_num_titles b + 7) div 8 then do {
        t \<leftarrow> rd (bc_title_type b) jj;
        if t \<noteq> 0 then Some False else titles_basic b (jj + 1)
      } else Some True)"
  by pat_completeness auto
termination
  by (relation "measure (\<lambda>(b, jj). (bc_num_titles b + 7) div 8 - jj)") auto

declare titles_basic.simps [simp del]

definition basic_unencrypted :: "cci_entry \<Rightarrow> bool" where
  "basic_unencrypted e \<longleftrightarrow> ce_version e = 0x0100 \<and> ce_data_length e = 0x84 \<and>
     bc_cci (ce_basic e) = 0 \<and> bc_epn (ce_basic e) = 1 \<and> bc_image_constraint (ce_basic e) \<noteq> 0 \<and>
     bc_digital_only (ce_basic e) = 0 \<and> bc_apstb (ce_basic e) = 0"

fun unencrypted_loop :: "cci_entry list \<Rightarrow> int ub" where
  "unencrypted_loop [] = Some 0"
| "unencrypted_loop (e # es) =
     (if ce_type e = cci_AACS_ENHANCED_TITLE_USAGE then Some 0
      else if ce_type e = cci_AACS_BASIC_CCI then
        (if basic_unencrypted e then do {
           ok \<leftarrow> titles_basic (ce_basic e) 0;
           Some (if ok then 1 else 0)
         } else Some 0)
      else unencrypted_loop es)"

definition cci_is_unencrypted :: "aacs_cci \<Rightarrow> int ub" where
  "cci_is_unencrypted c = unencrypted_loop (cci_entries c)"

fun basic_loop :: "cci_entry list \<Rightarrow> basic_cci ptr" where
  "basic_loop [] = None"
| "basic_loop (e # es) = (if ce_type e = cci_AACS_BASIC_CCI then Some (ce_basic e) else basic_loop es)"

definition cci_get_basic_cci :: "aacs_cci \<Rightarrow> basic_cci ptr" where
  "cci_get_basic_cci c = basic_loop (cci_entries c)"

section \<open>Title bits\<close>

text \<open>Title \<open>i\<close> (from 0) is the \<open>i\<close>-th bit of the map, most significant bit first.\<close>

definition title_bit :: "byte list \<Rightarrow> nat \<Rightarrow> bool" where
  "title_bit xs i \<longleftrightarrow> bit (xs ! (i div 8)) (7 - i mod 8)"

lemma bit_bitcpy_mask:
  assumes "0 < bits" and "bits < 4"
  shows "bit (bitcpy_mask bits) k \<longleftrightarrow> 8 - bits \<le> k \<and> k < 8"
proof -
  have "bitcpy_mask bits = mask (8 - bits) XOR mask 8"
    by (simp add: bitcpy_mask_def mask_eq_exp_minus_1 push_bit_eq_mult)
  then show ?thesis by (auto simp: bit_simps)
qed

text \<open>
  The bits that arrive: \<open>bits\<close> is the count modulo 4 (the code masks with 3, not 7), so of a
  last partial byte only \<open>num_bits mod 4\<close> bits are copied.
\<close>

lemma partial_byte:
  assumes "(n::nat) mod 4 \<noteq> 0"
  shows "(n + 7) div 8 = n div 8 + 1"
proof -
  have "n mod 8 mod 4 = n mod 4"
    by (rule mod_mod_cancel) simp
  then have r: "0 < n mod 8" "n mod 8 < 8"
    using assms by (cases "n mod 8 = 0") auto
  obtain q m where q: "n div 8 = q" "n mod 8 = m" "n = 8 * q + m"
    using mult_div_mod_eq [of 8 n] by metis
  have m: "0 < m" "m < 8"
    using r by (simp_all add: q(2))
  show ?thesis
    unfolding q(1) unfolding q(3) by (rule div_nat_eqI) (use m in simp_all)
qed

lemma bitcpy_bits:
  assumes "8 * length dst \<ge> num_bits" and "off + (num_bits + 7) div 8 \<le> length src"
    and "i < num_bits" and "dst = zeros (length dst)"
  shows "\<exists>d. bitcpy dst src off num_bits = Some d \<and> length d = length dst \<and>
    (title_bit d i \<longleftrightarrow> title_bit (drop off src) i \<and> i < 8 * (num_bits div 8) + num_bits mod 4)"
proof -
  let ?bytes = "num_bits div 8" and ?bits = "num_bits mod 4"
  have b: "drop_bit 3 num_bits = ?bytes" "num_bits AND 3 = ?bits"
    using take_bit_eq_mask [of 2 num_bits]
    by (simp_all add: drop_bit_eq_div take_bit_eq_mod mask_eq_exp_minus_1)
  have z: "dst ! k = 0" if "k < length dst" for k
    using assms(4) that by (metis zeros_def nth_replicate)
  have bytes: "?bytes \<le> length dst" "off + ?bytes \<le> length src" using assms by simp_all
  let ?d = "take ?bytes (drop off src) @ drop ?bytes dst"
  have d: "(if ?bytes \<noteq> 0 then do { s \<leftarrow> rdn src off ?bytes; memcpy_at dst 0 s } else Some dst) = Some ?d"
    using bytes by (simp add: rdn_def memcpy_at_def)
  have len: "length ?d = length dst" using bytes by simp
  have nth_d: "?d ! k = (if k < ?bytes then src ! (off + k) else 0)" if "k < length dst" for k
    using that bytes z by (simp add: nth_append)
  have i8: "i div 8 < length dst" using assms by (simp add: less_mult_imp_div_less)
  show ?thesis
  proof (cases "?bits = 0")
    case True
    then have "bitcpy dst src off num_bits = Some ?d"
      unfolding bitcpy_def b Let_def d by simp
    moreover have "i div 8 < ?bytes \<longleftrightarrow> i < 8 * ?bytes" by (simp add: div_less_iff_less_mult mult.commute)
    ultimately show ?thesis
      using True len i8 bytes by (auto simp: title_bit_def nth_d)
  next
    case False
    from False have ceil: "(num_bits + 7) div 8 = ?bytes + 1" by (rule partial_byte)
    have "8 * ?bytes < num_bits" using False by presburger
    with assms(1,2) ceil have more: "off + ?bytes < length src" "?bytes < length dst"
      by linarith+
    let ?e = "?d[?bytes := src ! (off + ?bytes) AND bitcpy_mask ?bits]"
    have "bitcpy dst src off num_bits = Some ?e"
      unfolding bitcpy_def b Let_def d using False more len by (simp add: rd_def)
    moreover have "title_bit ?e i \<longleftrightarrow> title_bit (drop off src) i \<and> i < 8 * ?bytes + ?bits"
    proof (cases "i div 8 = ?bytes")
      case same: True
      have "8 * (i div 8) + i mod 8 = i" by simp
      with same have lt: "i < 8 * ?bytes + ?bits \<longleftrightarrow> i mod 8 < ?bits" by linarith
      have "bit (bitcpy_mask ?bits) (7 - i mod 8) \<longleftrightarrow> 8 - ?bits \<le> 7 - i mod 8"
        using bit_bitcpy_mask [of ?bits "7 - i mod 8"] False mod_less_divisor [of 4 num_bits] by auto
      also have "\<dots> \<longleftrightarrow> i mod 8 < ?bits"
        using mod_less_divisor [of 8 i] mod_less_divisor [of 4 num_bits] by linarith
      finally have mask: "bit (bitcpy_mask ?bits) (7 - i mod 8) \<longleftrightarrow> i mod 8 < ?bits" .
      have "?e ! ?bytes = src ! (off + ?bytes) AND bitcpy_mask ?bits"
        using more len by simp
      then show ?thesis
        using same more by (simp add: title_bit_def bit_and_iff mask lt)
    next
      case other: False
      moreover have "i div 8 \<le> ?bytes" using assms(3) by (simp add: div_le_mono)
      ultimately have lt: "i div 8 < ?bytes" by simp
      then have "i < 8 * ?bytes" by (simp add: div_less_iff_less_mult mult.commute)
      with lt other i8 more len show ?thesis by (auto simp: title_bit_def nth_d)
    qed
    ultimately show ?thesis using len by auto
  qed
qed

section \<open>Files as lists of entries\<close>

text \<open>An entry: type, version and the payload after the 6-byte entry header.\<close>

type_synonym raw_entry = "nat \<times> nat \<times> byte list"

fun enc_raw :: "raw_entry \<Rightarrow> byte list" where
  "enc_raw (ty, ver, d) = be_enc 2 ty @ be_enc 2 ver @ be_enc 2 (length d) @ d"

definition enc_cci :: "raw_entry list \<Rightarrow> byte list \<Rightarrow> byte list \<Rightarrow> byte list" where
  "enc_cci rs fill pad = be_enc 2 (length rs) @ fill @ concat (map enc_raw rs) @ pad"

text \<open>What the parser makes of an entry.\<close>

definition basic_payload :: "byte list \<Rightarrow> basic_cci" where
  "basic_payload d = \<lparr>bc_epn = unat (drop_bit 2 (d ! 0 AND 0x04)), bc_cci = unat (d ! 0 AND 0x03),
     bc_image_constraint = unat (drop_bit 4 (d ! 1 AND 0x10)),
     bc_digital_only = unat (drop_bit 3 (d ! 1 AND 0x40)),
     bc_apstb = unat (d ! 1 AND 0x07), bc_num_titles = be_val (take 2 (drop 2 d)),
     bc_title_type = the (bitcpy (zeros (1024 div 8)) d 4 (be_val (take 2 (drop 2 d))))\<rparr>"

fun entry_of :: "raw_entry \<Rightarrow> cci_entry" where
  "entry_of (ty, ver, d) = \<lparr>ce_type = ty, ce_version = ver, ce_data_length = length d,
     ce_basic = (if ty = cci_AACS_BASIC_CCI \<and> length d = 0x84 then basic_payload d else zero_basic)\<rparr>"

fun wf_raw :: "raw_entry \<Rightarrow> bool" where
  "wf_raw (ty, ver, d) \<longleftrightarrow> ty < 65536 \<and> ver < 65536 \<and> length d < 65536 \<and>
     (ty = cci_AACS_BASIC_CCI \<and> length d = 0x84 \<longrightarrow> be_val (take 2 (drop 2 d)) \<le> 1024)"

lemma length_enc_raw [simp]: "length (enc_raw r) = 6 + length (snd (snd r))"
  by (cases r) simp

lemma bitcpy_shift: "bitcpy dst (pre @ src) (length pre + off) n = bitcpy dst src off n"
  by (simp only: bitcpy_def Let_def add.assoc rdn_append_right rd_append_right)

lemma rd_append_left: "i < length src \<Longrightarrow> rd (src @ post) i = rd src i"
  by (simp add: rd_def nth_append)

lemma bitcpy_append:
  assumes "off + (n + 7) div 8 \<le> length src"
  shows "bitcpy dst (src @ post) off n = bitcpy dst src off n"
proof -
  have "off + drop_bit 3 n \<le> length src"
    using assms div_le_mono [of n "n + 7" 8] by (simp add: drop_bit_eq_div)
  moreover have "off + drop_bit 3 n < length src" if "n AND 3 \<noteq> 0"
    using assms that take_bit_eq_mask [of 2 n] partial_byte [of n]
    by (simp add: drop_bit_eq_div take_bit_eq_mod mask_eq_exp_minus_1)
  ultimately show ?thesis
    by (cases "n AND 3 = 0") (simp_all add: bitcpy_def Let_def rdn_append_left rd_append_left)
qed

lemma parse_basic_eq:
  assumes "length d = 0x84" and "be_val (take 2 (drop 2 d)) \<le> 1024" and "length a = p + 6"
  shows "parse_basic (a @ d @ post) p = Some (Some (basic_payload d))"
proof -
  let ?n = "be_val (take 2 (drop 2 d))"
  have rd: "rd (a @ d @ post) (p + 6 + i) = Some (d ! i)" if "i < 0x84" for i
    using that assms(1,3) rd_append_right [of a "d @ post" i] rd_append_left [of i d post]
    by (simp add: rd_def)
  have n: "rd_be16 (a @ d @ post) (p + 8) = Some ?n"
    using assms(1,3) rdn_append_right [of a "d @ post" 2 2]
    by (simp add: rd_be_eq) (simp add: rdn_def)
  have fit: "4 + (?n + 7) div 8 \<le> length d"
    using assms(1,2) div_le_mono [of "?n + 7" 1031 8] by simp
  have "bitcpy (zeros 128) (a @ d @ post) (p + 10) ?n = bitcpy (zeros 128) d 4 ?n"
    using bitcpy_shift [of "zeros 128" a "d @ post" 4 ?n] bitcpy_append [OF fit] assms(3)
    by (simp add: add.commute)
  moreover have "\<exists>tt. bitcpy (zeros 128) d 4 ?n = Some tt"
  proof (cases "?n = 0")
    case True
    then show ?thesis by (simp add: bitcpy_def)
  next
    case False
    then show ?thesis
      using bitcpy_bits [of ?n "zeros 128" 4 d 0] fit assms(2) by auto
  qed
  moreover have "rd (a @ d @ post) (p + 6) = Some (d ! 0)" "rd (a @ d @ post) (p + 7) = Some (d ! 1)"
    using rd [of 0] rd [of 1] by (simp_all add: add.commute)
  ultimately show ?thesis
    using n assms(2) by (auto simp: parse_basic_def basic_payload_def)
qed

lemma cci_parse_entry_enc:
  assumes "wf_raw r" and "sz = length (enc_raw r @ post)" and "sz < 2 ^ 63"
  shows "\<exists>ret. cci_parse_entry (pre @ enc_raw r @ post) (length pre) sz = Some (ret, entry_of r) \<and> 0 \<le> ret"
proof -
  obtain ty ver d where r: "r = (ty, ver, d)" by (cases r)
  let ?buf = "pre @ enc_raw r @ post"
  from assms(1) have lt: "ty < 256 ^ 2" "ver < 256 ^ 2" "length d < 256 ^ 2" by (simp_all add: r)
  have rds: "rd_be16 ?buf (length pre) = Some ty" "rd_be16 ?buf (length pre + 2) = Some ver"
    "rd_be16 ?buf (length pre + 4) = Some (length d)"
    using rdn_append_right [of pre _ 0] lt
    by (simp_all add: r rd_be_eq rdn_append_right rdn_def be_val_be_enc del: power2_eq_square)
  have sz: "\<not> sz < 6" "\<not> (sz + 6) mod 2 ^ 64 < length d"
    using assms(2,3) by (simp_all add: r)
  show ?thesis
  proof (cases "ty = cci_AACS_BASIC_CCI \<and> length d = 0x84")
    case True
    let ?a = "pre @ be_enc 2 ty @ be_enc 2 ver @ be_enc 2 (length d)"
    have "?buf = ?a @ d @ post" by (simp add: r)
    moreover have "parse_basic (?a @ d @ post) (length pre) = Some (Some (basic_payload d))"
      using True assms(1) by (intro parse_basic_eq) (simp_all add: r)
    ultimately have "parse_basic ?buf (length pre) = Some (Some (basic_payload d))" by simp
    then show ?thesis
      using True sz rds by (simp add: cci_parse_entry_def r zero_entry_def)
  next
    case False
    then show ?thesis
      using sz rds unfolding cci_parse_entry_def r by (auto simp: Let_def zero_entry_def)
  qed
qed

lemma cci_parse_loop_enc:
  assumes "\<forall>r \<in> set rs. wf_raw r" and "length (concat (map enc_raw rs) @ pad) < 2 ^ 63"
  shows "cci_parse_loop (pre @ concat (map enc_raw rs) @ pad) (length pre)
      (length (concat (map enc_raw rs) @ pad)) (length rs) = Some (Some (map entry_of rs))"
  using assms
proof (induction rs arbitrary: pre)
  case Nil
  show ?case by simp
next
  case (Cons r rs)
  let ?post = "concat (map enc_raw rs) @ pad"
  let ?buf = "pre @ enc_raw r @ ?post"
  let ?sz = "length (enc_raw r @ ?post)"
  obtain ret where ret: "cci_parse_entry ?buf (length pre) ?sz = Some (ret, entry_of r)" "0 \<le> ret"
    using cci_parse_entry_enc [of r ?sz ?post pre] Cons.prems by auto
  have dl: "6 + ce_data_length (entry_of r) = length (enc_raw r)" by (cases r) simp
  have "length ?post < 2 ^ 63" using Cons.prems(2) by simp
  then have sz: "(?sz + 2 ^ 64 - (6 + ce_data_length (entry_of r))) mod 2 ^ 64 = length ?post"
    unfolding dl by simp
  have "cci_parse_loop ((pre @ enc_raw r) @ ?post) (length (pre @ enc_raw r)) (length ?post) (length rs)
      = Some (Some (map entry_of rs))"
    using Cons.prems \<open>length ?post < 2 ^ 63\<close> by (intro Cons.IH) auto
  then have "cci_parse_loop ?buf (length pre + 6 + ce_data_length (entry_of r)) (length ?post) (length rs)
      = Some (Some (map entry_of rs))"
    using dl by (simp add: add.assoc)
  with ret sz show ?case by (simp del: length_append)
qed

lemma cci_parse_enc:
  assumes "\<forall>r \<in> set rs. wf_raw r" and "length fill = 14" and "1 \<le> length rs" and "length rs \<le> 338"
    and "length (enc_cci rs fill pad) < 2 ^ 63"
  shows "cci_parse (\<lambda>_. True) (enc_cci rs fill pad) =
    Some (Some \<lparr>cci_num_entry = length rs, cci_entries = map entry_of rs\<rparr>)"
proof -
  let ?hd = "be_enc 2 (length rs) @ fill"
  have buf: "enc_cci rs fill pad = ?hd @ concat (map enc_raw rs) @ pad" by (simp add: enc_cci_def)
  have "rd_be16 (enc_cci rs fill pad) 0 = Some (length rs)"
    using assms(4) by (simp add: buf rd_be_eq rdn_def be_val_be_enc)
  moreover have "cci_parse_loop (enc_cci rs fill pad) 16 (length (enc_cci rs fill pad) - 16) (length rs)
      = Some (Some (map entry_of rs))"
    using cci_parse_loop_enc [of rs pad ?hd] assms by (simp add: buf)
  moreover have "\<not> length (enc_cci rs fill pad) < 16" using assms(2) by (simp add: buf)
  moreover have "rs \<noteq> []" using assms(3) by auto
  ultimately show ?thesis using assms(4) by (simp add: cci_parse_def)
qed

section \<open>Properties\<close>



text \<open>
  The title map that is stored agrees with the file on the titles below
  \<open>8 * (num_titles div 8) + num_titles mod 4\<close> and has every later title as a basic one, because
  the bits of the last partial byte are counted with \<open>num_bits & 3\<close>.
\<close>

theorem bitcpy_title_map:
  assumes "num_bits \<le> 1024" and "off + (num_bits + 7) div 8 \<le> length src" and "i < num_bits"
  shows "\<exists>d. bitcpy (zeros (1024 div 8)) src off num_bits = Some d \<and> length d = 128 \<and>
    (title_bit d i \<longleftrightarrow> title_bit (drop off src) i \<and> i < 8 * (num_bits div 8) + num_bits mod 4)"
  using bitcpy_bits [of num_bits "zeros 128" off src i] assms by simp

theorem bitcpy_title_map_witness:
  "\<exists>d. bitcpy (zeros (1024 div 8)) [0xFF, 0xFF] 0 13 = Some d \<and> length d = 128 \<and>
    (title_bit d 12 \<longleftrightarrow> title_bit (drop 0 [0xFF, 0xFF]) 12 \<and> 12 < 8 * (13 div 8) + 13 mod (4::nat))"
  by (rule bitcpy_title_map [of 13 0 "[0xFF, 0xFF]" 12]) simp_all

lemma titles_basic_iff:
  assumes "(bc_num_titles b + 7) div 8 \<le> length (bc_title_type b)"
  shows "titles_basic b jj =
    Some (\<forall>k. jj \<le> k \<and> k < (bc_num_titles b + 7) div 8 \<longrightarrow> bc_title_type b ! k = 0)"
  using assms
proof (induction b jj rule: titles_basic.induct)
  case (1 b jj)
  show ?case
  proof (cases "jj < (bc_num_titles b + 7) div 8")
    case True
    then have t: "rd (bc_title_type b) jj = Some (bc_title_type b ! jj)"
      using 1(2) by (simp add: rd_def)
    show ?thesis
    proof (cases "bc_title_type b ! jj = 0")
      case zero: True
      have "(\<forall>k. Suc jj \<le> k \<and> k < (bc_num_titles b + 7) div 8 \<longrightarrow> bc_title_type b ! k = 0) \<longleftrightarrow>
            (\<forall>k. jj \<le> k \<and> k < (bc_num_titles b + 7) div 8 \<longrightarrow> bc_title_type b ! k = 0)"
        using zero by (metis Suc_leI le_neq_implies_less Suc_leD)
      then show ?thesis
        using 1(1) [OF True t _ 1(2)] True t zero
        by (subst titles_basic.simps) simp
    next
      case False
      with True t show ?thesis by (subst titles_basic.simps) auto
    qed
  next
    case False
    then show ?thesis by (subst titles_basic.simps) auto
  qed
qed

text \<open>The entries as the parser leaves them: the title map has room for every title.\<close>

definition wf_entry :: "cci_entry \<Rightarrow> bool" where
  "wf_entry e \<longleftrightarrow> bc_num_titles (ce_basic e) \<le> 1024 \<and> length (bc_title_type (ce_basic e)) = 128"

definition wf_cci :: "aacs_cci \<Rightarrow> bool" where
  "wf_cci c \<longleftrightarrow> length (cci_entries c) = cci_num_entry c \<and> (\<forall>e \<in> set (cci_entries c). wf_entry e)"

text \<open>The first entry that is neither basic CCI nor enhanced title usage is skipped.\<close>

fun first_usage :: "cci_entry list \<Rightarrow> cci_entry option" where
  "first_usage [] = None"
| "first_usage (e # es) =
     (if ce_type e \<in> {cci_AACS_BASIC_CCI, cci_AACS_ENHANCED_TITLE_USAGE} then Some e
      else first_usage es)"

definition freely_copyable :: "cci_entry \<Rightarrow> bool" where
  "freely_copyable e \<longleftrightarrow> ce_type e = cci_AACS_BASIC_CCI \<and> basic_unencrypted e \<and>
     (\<forall>k < (bc_num_titles (ce_basic e) + 7) div 8. bc_title_type (ce_basic e) ! k = 0)"

lemma unencrypted_loop_eq:
  "\<forall>e \<in> set es. wf_entry e \<Longrightarrow>
     unencrypted_loop es = Some (case first_usage es of None \<Rightarrow> 0
       | Some e \<Rightarrow> if freely_copyable e then 1 else 0)"
proof (induction es)
  case Nil
  then show ?case by simp
next
  case (Cons e es)
  have ne: "cci_AACS_BASIC_CCI \<noteq> cci_AACS_ENHANCED_TITLE_USAGE"
    by (simp add: cci_AACS_BASIC_CCI_def cci_AACS_ENHANCED_TITLE_USAGE_def)
  have "bc_num_titles (ce_basic e) + 7 \<le> 1031"
    using Cons.prems by (simp add: wf_entry_def)
  then have "(bc_num_titles (ce_basic e) + 7) div 8 \<le> length (bc_title_type (ce_basic e))"
    using Cons.prems div_le_mono [of _ 1031 8] by (fastforce simp: wf_entry_def)
  from titles_basic_iff [OF this, of 0] Cons ne show ?case
    by (auto simp: freely_copyable_def)
qed

lemma parse_basic_wf:
  assumes "parse_basic buf p = Some (Some b)"
  shows "bc_num_titles b \<le> 1024 \<and> length (bc_title_type b) = 128"
proof -
  have "length tt = length dst" if "bitcpy dst src off n = Some tt" for dst src off n tt
    using that unfolding bitcpy_def Let_def
    by (auto simp: memcpy_at_length split: Option.bind_splits if_splits)
  with assms show ?thesis
    unfolding parse_basic_def by (fastforce split: Option.bind_splits if_splits)
qed

lemma cci_parse_entry_wf:
  assumes "cci_parse_entry buf p sz = Some (r, e)"
  shows "wf_entry e"
proof -
  have "wf_entry (zero_entry\<lparr>ce_type := ty, ce_version := ver, ce_data_length := dl\<rparr>)" for ty ver dl
    by (simp add: wf_entry_def zero_entry_def zero_basic_def)
  with assms show ?thesis
    unfolding cci_parse_entry_def Let_def
    by (auto simp: wf_entry_def zero_entry_def dest: parse_basic_wf
        split: Option.bind_splits if_splits option.splits)
qed

lemma cci_parse_loop_wf:
  "cci_parse_loop buf p sz n = Some (Some es) \<Longrightarrow> length es = n \<and> (\<forall>e \<in> set es. wf_entry e)"
proof (induction n arbitrary: p sz es)
  case 0
  then show ?case by simp
next
  case (Suc n)
  then show ?case
    by (fastforce dest: cci_parse_entry_wf split: Option.bind_splits if_splits option.splits prod.splits)
qed

text \<open>
  What \<open>cci_parse\<close> returns is well formed, and on it \<open>cci_is_unencrypted\<close> never reads outside
  a title map and answers 1 exactly when the first usage entry of the file is basic CCI, version
  1.00, copy freely with EPN unasserted, unrestricted analog and digital output, and with no title
  of the map marked as enhanced.
\<close>

theorem cci_is_unencrypted_spec:
  assumes "cci_parse alloc data = Some (Some c)"
  shows "wf_cci c \<and> cci_is_unencrypted c =
    Some (case first_usage (cci_entries c) of None \<Rightarrow> 0 | Some e \<Rightarrow> if freely_copyable e then 1 else 0)"
proof -
  have "wf_cci c"
    using assms unfolding cci_parse_def wf_cci_def
    by (auto dest: cci_parse_loop_wf split: Option.bind_splits if_splits option.splits)
  then show ?thesis by (simp add: cci_is_unencrypted_def wf_cci_def unencrypted_loop_eq)
qed

definition free_title_cci :: "nat \<Rightarrow> byte \<Rightarrow> byte list" where
  "free_title_cci num_titles title_map =
     enc_cci [(0x0101, 0x0100, [0x04, 0x10] @ be_enc 2 num_titles @ title_map # zeros 127)] (zeros 14) []"

text \<open>
  A disc whose map has seven titles, the last four of them enhanced, is reported as freely
  copyable: the enhanced bits are lost when the map is copied.
\<close>

theorem enhanced_titles_lost:
  "(title_bit [0x1E] 3 \<and> title_bit [0x1E] 4 \<and> title_bit [0x1E] 5 \<and> title_bit [0x1E] 6) \<and>
   (\<exists>c. cci_parse (\<lambda>_. True) (free_title_cci 7 0x1E) = Some (Some c) \<and> cci_is_unencrypted c = Some 1)"
proof
  show "title_bit [0x1E] 3 \<and> title_bit [0x1E] 4 \<and> title_bit [0x1E] 5 \<and> title_bit [0x1E] 6"
    by (simp add: title_bit_def bit_numeral_word_iff)
  let ?d = "[0x04, 0x10] @ be_enc 2 7 @ 0x1E # zeros 127 :: byte list"
  have n: "be_val (take 2 (drop 2 ?d)) = 7" by (simp add: be_val_be_enc)
  let ?e = "entry_of (0x0101, 0x0100, ?d)"
  have parse: "cci_parse (\<lambda>_. True) (free_title_cci 7 0x1E) =
      Some (Some \<lparr>cci_num_entry = 1, cci_entries = [?e]\<rparr>)"
    using cci_parse_enc [of "[(0x0101, 0x0100, ?d)]" "zeros 14" "[]"] n
    by (simp add: free_title_cci_def enc_cci_def)
  have "(replicate 128 (0 :: byte))[0 := 0] = replicate 128 0"
    by (rule nth_equalityI) (auto simp: nth_list_update)
  then have "bitcpy (zeros 128) ?d 4 7 = Some (zeros 128)"
    by (simp add: bitcpy_def bitcpy_mask_def rd_def drop_bit_eq_div nth_append zeros_def)
  then have "basic_payload ?d = \<lparr>bc_epn = 1, bc_cci = 0, bc_image_constraint = 1,
      bc_digital_only = 0, bc_apstb = 0, bc_num_titles = 7, bc_title_type = zeros 128\<rparr>"
    using n by (simp add: basic_payload_def)
  then have "cci_is_unencrypted \<lparr>cci_num_entry = 1, cci_entries = [?e]\<rparr> = Some 1"
    by (simp add: cci_is_unencrypted_def cci_AACS_BASIC_CCI_def cci_AACS_ENHANCED_TITLE_USAGE_def
        basic_unencrypted_def titles_basic_iff zeros_def)
  with parse show "\<exists>c. cci_parse (\<lambda>_. True) (free_title_cci 7 0x1E) = Some (Some c) \<and>
      cci_is_unencrypted c = Some 1" by blast
qed

text \<open>
  The size check of an entry accepts a data length six bytes longer than what is left, the
  remaining size then wraps, and the next entry is read outside the file: a 22-byte file that
  announces two entries is enough.
\<close>

theorem cci_parse_overread:
  assumes "length fill = 14" and "ty < 65536" and "ver < 65536" and "ty \<noteq> cci_AACS_BASIC_CCI"
  shows "cci_parse (\<lambda>_. True) (be_enc 2 2 @ fill @ be_enc 2 ty @ be_enc 2 ver @ be_enc 2 12) = None"
proof -
  let ?hd = "be_enc 2 2 @ fill"
  let ?buf = "?hd @ be_enc 2 ty @ be_enc 2 ver @ be_enc 2 12"
  have n: "rd_be16 ?buf 0 = Some 2" by (simp add: rd_be_eq rdn_def be_val_be_enc)
  have "rd_be16 ?buf 16 = Some ty" "rd_be16 ?buf 18 = Some ver" "rd_be16 ?buf 20 = Some 12"
    using rdn_append_right [of ?hd _ 0 2] rdn_append_right [of ?hd _ 2 2] rdn_append_right [of ?hd _ 4 2]
      assms by (simp_all add: rd_be_eq) (simp_all add: rdn_def be_val_be_enc)
  then have e: "\<exists>r e. cci_parse_entry ?buf 16 6 = Some (r, e) \<and> 0 \<le> r \<and> ce_data_length e = 12"
    using assms(4) unfolding cci_parse_entry_def by (auto simp: Let_def)
  have "cci_parse_loop ?buf 16 6 2 = None"
  proof -
    obtain r e where "cci_parse_entry ?buf 16 6 = Some (r, e)" "0 \<le> r" "ce_data_length e = 12"
      using e by blast
    moreover have "cci_parse_entry ?buf 34 (2 ^ 64 - 12) = None"
      using assms(1) by (simp add: cci_parse_entry_def rd_be_eq rdn_def)
    ultimately show ?thesis by (simp add: numeral_2_eq_2)
  qed
  with n assms(1) show ?thesis by (simp add: cci_parse_def)
qed

theorem cci_parse_overread_witness:
  "cci_parse (\<lambda>_. True) (be_enc 2 2 @ zeros 14 @ be_enc 2 0x0111 @ be_enc 2 0x0100 @ be_enc 2 12) = None"
  by (rule cci_parse_overread) (simp_all add: cci_AACS_BASIC_CCI_def)

theorem cci_is_unencrypted_spec_witness:
  "\<exists>c. cci_parse (\<lambda>_. True) (enc_cci [(0x0111, 0x0100, [1, 2])] (zeros 14) []) = Some (Some c) \<and> wf_cci c \<and>
     cci_is_unencrypted c = Some 0"
proof -
  let ?rs = "[(0x0111, 0x0100, [1, 2])]"
  have *: "cci_parse (\<lambda>_. True) (enc_cci ?rs (zeros 14) []) =
      Some (Some \<lparr>cci_num_entry = 1, cci_entries = map entry_of ?rs\<rparr>)"
    using cci_parse_enc [of ?rs "zeros 14" "[]"] by (simp add: enc_cci_def cci_AACS_BASIC_CCI_def)
  from cci_is_unencrypted_spec [OF *] * show ?thesis
    by (simp add: freely_copyable_def cci_AACS_BASIC_CCI_def cci_AACS_ENHANCED_TITLE_USAGE_def)
qed

end
