(* ===== verification/Ec.thy ===== *)
theory Ec
  imports Prelude
begin

text \<open>
  The elliptic curve routines of \<^verbatim>\<open>src/libaacs/ec.c\<close>: points in Jacobian projective
  coordinates over \<open>GF(p)\<close>, doubling, addition, conversion to affine coordinates and the scalar
  multiplication with signed digits.  The multi-precision integers are those of libgcrypt, a
  parameter of every definition; \<open>mpi_ok\<close> states what its manual promises of them.  The scratch
  registers of the context are let-bound, as every routine writes one before it reads it.
\<close>

section \<open>Multi-precision integers\<close>

record mpi_lib =
  mpi_cmp :: "int \<Rightarrow> int \<Rightarrow> int"
  mpi_addm :: "int \<Rightarrow> int \<Rightarrow> int \<Rightarrow> int"
  mpi_subm :: "int \<Rightarrow> int \<Rightarrow> int \<Rightarrow> int"
  mpi_mulm :: "int \<Rightarrow> int \<Rightarrow> int \<Rightarrow> int"
  mpi_powm :: "int \<Rightarrow> int \<Rightarrow> int \<Rightarrow> int"
  mpi_invm :: "int \<Rightarrow> int \<Rightarrow> int"
  mpi_sub_ui :: "int \<Rightarrow> nat \<Rightarrow> int"
  mpi_mul :: "int \<Rightarrow> int \<Rightarrow> int"
  mpi_get_nbits :: "int \<Rightarrow> nat"
  mpi_test_bit :: "int \<Rightarrow> nat \<Rightarrow> bool"
  mpi_scan_usg :: "byte list \<Rightarrow> int"
  mpi_usg :: "int \<Rightarrow> byte list"

definition mpi_cmp_ui :: "mpi_lib \<Rightarrow> int \<Rightarrow> nat \<Rightarrow> int" where
  "mpi_cmp_ui M a u = mpi_cmp M a (int u)"

definition mpi_arith_ok :: "mpi_lib \<Rightarrow> bool" where
  "mpi_arith_ok M \<longleftrightarrow>
     (\<forall>a b. mpi_cmp M a b = 0 \<longleftrightarrow> a = b) \<and>
     (\<forall>a b m. 0 < m \<longrightarrow> mpi_addm M a b m = (a + b) mod m) \<and>
     (\<forall>a b m. 0 < m \<longrightarrow> mpi_subm M a b m = (a - b) mod m) \<and>
     (\<forall>a b m. 0 < m \<longrightarrow> mpi_mulm M a b m = (a * b) mod m) \<and>
     (\<forall>a e m. 0 < m \<longrightarrow> 0 \<le> e \<longrightarrow> mpi_powm M a e m = a ^ nat e mod m) \<and>
     (\<forall>a m. 1 < m \<longrightarrow> coprime a m \<longrightarrow> (a * mpi_invm M a m) mod m = 1) \<and>
     (\<forall>a u. mpi_sub_ui M a u = a - int u) \<and>
     (\<forall>a b. mpi_mul M a b = a * b)"

definition mpi_bits_ok :: "mpi_lib \<Rightarrow> bool" where
  "mpi_bits_ok M \<longleftrightarrow>
     (\<forall>a n. 0 \<le> a \<longrightarrow> mpi_get_nbits M a \<le> n \<longleftrightarrow> a < 2 ^ n) \<and>
     (\<forall>a i. 0 \<le> a \<longrightarrow> mpi_test_bit M a i = bit a i)"

text \<open>\<open>GCRYMPI_FMT_USG\<close>: unsigned, big endian, printed without leading zero bytes.\<close>

definition mpi_usg_ok :: "mpi_lib \<Rightarrow> bool" where
  "mpi_usg_ok M \<longleftrightarrow>
     (\<forall>bs. mpi_scan_usg M bs = int (be_val bs)) \<and>
     (\<forall>a. 0 \<le> a \<longrightarrow> int (be_val (mpi_usg M a)) = a) \<and>
     (\<forall>a n. 0 \<le> a \<longrightarrow> length (mpi_usg M a) \<le> n \<longleftrightarrow> a < 256 ^ n)"

definition mpi_ok :: "mpi_lib \<Rightarrow> bool" where
  "mpi_ok M \<longleftrightarrow> mpi_arith_ok M \<and> mpi_bits_ok M \<and> mpi_usg_ok M"

text \<open>
  \<open>gcry_mpi_print\<close> into \<open>buf\<close> at \<open>off\<close> with room for \<open>cap\<close> bytes: the new buffer and the count
  it reports, which stays as it was when the value does not fit.
\<close>

definition mpi_print :: "mpi_lib \<Rightarrow> byte list \<Rightarrow> nat \<Rightarrow> nat \<Rightarrow> nat \<Rightarrow> int \<Rightarrow> (byte list \<times> nat) ub" where
  "mpi_print M buf off cap n a =
     (let bs = mpi_usg M a in
      if length bs \<le> cap then map_option (\<lambda>b. (b, length bs)) (memcpy_at buf off bs)
      else Some (buf, n))"

section \<open>Points and context\<close>

record mpi_point =
  px :: int
  py :: int
  pz :: int

record mpi_ec =
  ec_p :: int
  ec_a :: int
  a_is_pminus3 :: bool
  ec_one :: int
  ec_two :: int
  ec_three :: int
  ec_four :: int
  ec_eight :: int
  two_inv_p :: int

definition ec_addm :: "mpi_lib \<Rightarrow> mpi_ec \<Rightarrow> int \<Rightarrow> int \<Rightarrow> int" where
  "ec_addm M ctx u v = mpi_addm M u v (ec_p ctx)"

definition ec_subm :: "mpi_lib \<Rightarrow> mpi_ec \<Rightarrow> int \<Rightarrow> int \<Rightarrow> int" where
  "ec_subm M ctx u v = mpi_subm M u v (ec_p ctx)"

definition ec_mulm :: "mpi_lib \<Rightarrow> mpi_ec \<Rightarrow> int \<Rightarrow> int \<Rightarrow> int" where
  "ec_mulm M ctx u v = mpi_mulm M u v (ec_p ctx)"

definition ec_powm :: "mpi_lib \<Rightarrow> mpi_ec \<Rightarrow> int \<Rightarrow> int \<Rightarrow> int" where
  "ec_powm M ctx b e = mpi_powm M b e (ec_p ctx)"

definition ec_invm :: "mpi_lib \<Rightarrow> mpi_ec \<Rightarrow> int \<Rightarrow> int" where
  "ec_invm M ctx a = mpi_invm M a (ec_p ctx)"

definition mpi_ec_init :: "mpi_lib \<Rightarrow> int \<Rightarrow> int \<Rightarrow> mpi_ec" where
  "mpi_ec_init M p a =
     \<lparr>ec_p = p, ec_a = a, a_is_pminus3 = (mpi_cmp M a (mpi_sub_ui M p 3) = 0),
      ec_one = 1, ec_two = 2, ec_three = 3, ec_four = 4, ec_eight = 8,
      two_inv_p = mpi_invm M 2 p\<rparr>"

text \<open>The return value and, when it is 0, the affine coordinates.\<close>

definition mpi_ec_get_affine :: "mpi_lib \<Rightarrow> mpi_ec \<Rightarrow> mpi_point \<Rightarrow> int \<times> (int \<times> int) option" where
  "mpi_ec_get_affine M ctx point =
     (if mpi_cmp_ui M (pz point) 0 = 0 then (- 1, None)
      else
        let z1 = ec_invm M ctx (pz point);
            z2 = ec_mulm M ctx z1 z1;
            x = ec_mulm M ctx (px point) z2;
            z3 = ec_mulm M ctx z2 z1;
            y = ec_mulm M ctx (py point) z3
        in (0, Some (x, y)))"

section \<open>Doubling and addition\<close>

definition ec_infinity :: mpi_point where
  "ec_infinity = \<lparr>px = 1, py = 1, pz = 0\<rparr>"

definition dup_l1 :: "mpi_lib \<Rightarrow> mpi_ec \<Rightarrow> mpi_point \<Rightarrow> int" where
  "dup_l1 M ctx point =
     (if a_is_pminus3 ctx then
        let t1 = ec_powm M ctx (pz point) (ec_two ctx);
            l1 = ec_subm M ctx (px point) t1;
            l1 = ec_mulm M ctx l1 (ec_three ctx);
            t2 = ec_addm M ctx (px point) t1
        in ec_mulm M ctx l1 t2
      else
        let l1 = ec_powm M ctx (px point) (ec_two ctx);
            l1 = ec_mulm M ctx l1 (ec_three ctx);
            t1 = ec_powm M ctx (pz point) (ec_four ctx);
            t1 = ec_mulm M ctx t1 (ec_a ctx)
        in ec_addm M ctx l1 t1)"

text \<open>
  \<open>dup_point\<close> writes \<open>z3\<close>, \<open>x3\<close> and \<open>y3\<close> of the result in this order; every write goes through the
  record, so that a call whose result is its own argument is the same definition with \<open>result\<close>
  threaded through the reads.
\<close>

definition mpi_ec_dup_point :: "mpi_lib \<Rightarrow> mpi_ec \<Rightarrow> mpi_point \<Rightarrow> mpi_point" where
  "mpi_ec_dup_point M ctx point =
     (if mpi_cmp_ui M (py point) 0 = 0 \<or> mpi_cmp_ui M (pz point) 0 = 0 then ec_infinity
      else
        let l1 = dup_l1 M ctx point;
            z3 = ec_mulm M ctx (py point) (pz point);
            z3 = ec_mulm M ctx z3 (ec_two ctx);
            t2 = ec_powm M ctx (py point) (ec_two ctx);
            l2 = ec_mulm M ctx t2 (px point);
            l2 = ec_mulm M ctx l2 (ec_four ctx);
            x3 = ec_powm M ctx l1 (ec_two ctx);
            t1 = ec_mulm M ctx l2 (ec_two ctx);
            x3 = ec_subm M ctx x3 t1;
            t2 = ec_powm M ctx t2 (ec_two ctx);
            l3 = ec_mulm M ctx t2 (ec_eight ctx);
            y3 = ec_subm M ctx l2 x3;
            y3 = ec_mulm M ctx y3 l1;
            y3 = ec_subm M ctx y3 l3
        in \<lparr>px = x3, py = y3, pz = z3\<rparr>)"

definition dup_point_inplace :: "mpi_lib \<Rightarrow> mpi_ec \<Rightarrow> mpi_point \<Rightarrow> mpi_point" where
  "dup_point_inplace M ctx r =
     (if mpi_cmp_ui M (py r) 0 = 0 \<or> mpi_cmp_ui M (pz r) 0 = 0 then
        (let r = r\<lparr>px := 1\<rparr>; r = r\<lparr>py := 1\<rparr>; r = r\<lparr>pz := 0\<rparr> in r)
      else
        let l1 = dup_l1 M ctx r;
            r = r\<lparr>pz := ec_mulm M ctx (py r) (pz r)\<rparr>;
            r = r\<lparr>pz := ec_mulm M ctx (pz r) (ec_two ctx)\<rparr>;
            t2 = ec_powm M ctx (py r) (ec_two ctx);
            l2 = ec_mulm M ctx t2 (px r);
            l2 = ec_mulm M ctx l2 (ec_four ctx);
            r = r\<lparr>px := ec_powm M ctx l1 (ec_two ctx)\<rparr>;
            t1 = ec_mulm M ctx l2 (ec_two ctx);
            r = r\<lparr>px := ec_subm M ctx (px r) t1\<rparr>;
            t2 = ec_powm M ctx t2 (ec_two ctx);
            l3 = ec_mulm M ctx t2 (ec_eight ctx);
            r = r\<lparr>py := ec_subm M ctx l2 (px r)\<rparr>;
            r = r\<lparr>py := ec_mulm M ctx (py r) l1\<rparr>;
            r = r\<lparr>py := ec_subm M ctx (py r) l3\<rparr>
        in r)"

text \<open>The last block of \<open>add_points\<close>: the two points are neither equal nor inverse.\<close>

definition add_general ::
    "mpi_lib \<Rightarrow> mpi_ec \<Rightarrow> int \<Rightarrow> int \<Rightarrow> int \<Rightarrow> int \<Rightarrow> int \<Rightarrow> int \<Rightarrow> int \<Rightarrow> int \<Rightarrow> mpi_point" where
  "add_general M ctx z1 z2 l1 l2 l3 l4 l5 l6 =
     (let l7 = ec_addm M ctx l1 l2;
          l8 = ec_addm M ctx l4 l5;
          z3 = ec_mulm M ctx z1 z2;
          z3 = ec_mulm M ctx z3 l3;
          t1 = ec_powm M ctx l6 (ec_two ctx);
          t2 = ec_powm M ctx l3 (ec_two ctx);
          t2 = ec_mulm M ctx t2 l7;
          x3 = ec_subm M ctx t1 t2;
          t1 = ec_mulm M ctx x3 (ec_two ctx);
          l9 = ec_subm M ctx t2 t1;
          l9 = ec_mulm M ctx l9 l6;
          t1 = ec_powm M ctx l3 (ec_three ctx);
          t1 = ec_mulm M ctx t1 l8;
          y3 = ec_subm M ctx l9 t1;
          y3 = ec_mulm M ctx y3 (two_inv_p ctx)
      in \<lparr>px = x3, py = y3, pz = z3\<rparr>)"

definition mpi_ec_add_points :: "mpi_lib \<Rightarrow> mpi_ec \<Rightarrow> mpi_point \<Rightarrow> mpi_point \<Rightarrow> mpi_point" where
  "mpi_ec_add_points M ctx p1 p2 =
     (let x1 = px p1; y1 = py p1; z1 = pz p1; x2 = px p2; y2 = py p2; z2 = pz p2 in
      if mpi_cmp M x1 x2 = 0 \<and> mpi_cmp M y1 y2 = 0 \<and> mpi_cmp M z1 z2 = 0 then mpi_ec_dup_point M ctx p1
      else if mpi_cmp_ui M z1 0 = 0 then p2
      else if mpi_cmp_ui M z2 0 = 0 then p1
      else
        let z1_is_one = mpi_cmp_ui M z1 1 = 0;
            z2_is_one = mpi_cmp_ui M z2 1 = 0;
            l1 = (if z2_is_one then x1 else ec_mulm M ctx (ec_powm M ctx z2 (ec_two ctx)) x1);
            l2 = (if z1_is_one then x1 else ec_mulm M ctx (ec_powm M ctx z1 (ec_two ctx)) x2);
            l3 = ec_subm M ctx l1 l2;
            l4 = ec_powm M ctx z2 (ec_three ctx);
            l4 = ec_mulm M ctx l4 y1;
            l5 = ec_powm M ctx z1 (ec_three ctx);
            l5 = ec_mulm M ctx l5 y2;
            l6 = ec_subm M ctx l4 l5
        in
          if mpi_cmp_ui M l3 0 = 0 then
            (if mpi_cmp_ui M l6 0 = 0 then mpi_ec_dup_point M ctx p1 else ec_infinity)
          else add_general M ctx z1 z2 l1 l2 l3 l4 l5 l6)"

section \<open>Scalar multiplication\<close>

definition mul_base :: "mpi_lib \<Rightarrow> mpi_ec \<Rightarrow> mpi_point \<Rightarrow> mpi_point" where
  "mul_base M ctx point =
     (if mpi_cmp_ui M (pz point) 1 = 0
      then \<lparr>px = px point, py = py point, pz = ec_one ctx\<rparr>
      else
        let z2 = ec_mulm M ctx (pz point) (pz point);
            z3 = ec_mulm M ctx (pz point) z2;
            z2 = ec_invm M ctx z2;
            x1 = ec_mulm M ctx (px point) z2;
            z3 = ec_invm M ctx z3;
            y1 = ec_mulm M ctx (py point) z3
        in \<lparr>px = x1, py = y1, pz = ec_one ctx\<rparr>)"

definition point_invert :: "mpi_lib \<Rightarrow> mpi_ec \<Rightarrow> mpi_point \<Rightarrow> mpi_point" where
  "point_invert M ctx p1 = p1\<lparr>py := ec_subm M ctx (ec_p ctx) (py p1)\<rparr>"

definition mul_step :: "mpi_lib \<Rightarrow> mpi_ec \<Rightarrow> int \<Rightarrow> int \<Rightarrow> mpi_point \<Rightarrow> nat \<Rightarrow> mpi_point \<Rightarrow> mpi_point" where
  "mul_step M ctx h k p1 i result =
     (let result = dup_point_inplace M ctx result;
          result = (if mpi_test_bit M h i \<and> \<not> mpi_test_bit M k i
                    then mpi_ec_add_points M ctx result p1 else result);
          result = (if \<not> mpi_test_bit M h i \<and> mpi_test_bit M k i
                    then mpi_ec_add_points M ctx result (point_invert M ctx p1) else result)
      in result)"

fun mul_loop :: "mpi_lib \<Rightarrow> mpi_ec \<Rightarrow> int \<Rightarrow> int \<Rightarrow> mpi_point \<Rightarrow> nat \<Rightarrow> mpi_point \<Rightarrow> mpi_point" where
  "mul_loop M ctx h k p1 0 result = result"
| "mul_loop M ctx h k p1 (Suc i) result =
     mul_loop M ctx h k p1 i (mul_step M ctx h k p1 (Suc i) result)"

definition mpi_ec_mul_point :: "mpi_lib \<Rightarrow> mpi_ec \<Rightarrow> int \<Rightarrow> mpi_point \<Rightarrow> mpi_point" where
  "mpi_ec_mul_point M ctx scalar point =
     (let p1 = mul_base M ctx point;
          h = mpi_mul M scalar (ec_three ctx);
          loops = mpi_get_nbits M h
      in mul_loop M ctx h scalar p1 ((loops + 2 ^ 32 - 2) mod 2 ^ 32) point)"

section \<open>A library that keeps the promises\<close>

fun nat_bits :: "nat \<Rightarrow> nat" where
  "nat_bits n = (if n = 0 then 0 else Suc (nat_bits (n div 2)))"

fun nat_bytes :: "nat \<Rightarrow> byte list" where
  "nat_bytes n = (if n = 0 then [] else nat_bytes (n div 256) @ [word_of_nat n])"

declare nat_bits.simps [simp del] nat_bytes.simps [simp del]

definition std_mpi :: mpi_lib where
  "std_mpi = \<lparr>mpi_cmp = (\<lambda>a b. a - b), mpi_addm = (\<lambda>a b m. (a + b) mod m),
     mpi_subm = (\<lambda>a b m. (a - b) mod m), mpi_mulm = (\<lambda>a b m. (a * b) mod m),
     mpi_powm = (\<lambda>a e m. a ^ nat e mod m),
     mpi_invm = (\<lambda>a m. fst (bezw (nat (a mod m)) (nat m)) mod m),
     mpi_sub_ui = (\<lambda>a u. a - int u), mpi_mul = (*),
     mpi_get_nbits = (\<lambda>a. nat_bits (nat a)), mpi_test_bit = bit,
     mpi_scan_usg = (\<lambda>bs. int (be_val bs)), mpi_usg = (\<lambda>a. nat_bytes (nat a))\<rparr>"

lemma nat_bits_le_iff: "nat_bits n \<le> k \<longleftrightarrow> n < 2 ^ k"
proof (induction k arbitrary: n)
  case 0
  then show ?case by (simp add: nat_bits.simps [of n])
next
  case (Suc k)
  have "n div 2 < 2 ^ k \<longleftrightarrow> n < 2 ^ Suc k" by (simp add: div_less_iff_less_mult mult.commute)
  with Suc show ?case by (subst nat_bits.simps) auto
qed

lemma nat_bytes_le_iff: "length (nat_bytes n) \<le> k \<longleftrightarrow> n < 256 ^ k"
proof (induction k arbitrary: n)
  case 0
  then show ?case by (simp add: nat_bytes.simps [of n])
next
  case (Suc k)
  have "n div 256 < 256 ^ k \<longleftrightarrow> n < 256 ^ Suc k" by (simp add: div_less_iff_less_mult mult.commute)
  with Suc show ?case by (subst nat_bytes.simps) auto
qed

lemma be_val_append: "be_val (xs @ ys) = be_val xs * 256 ^ length ys + be_val ys"
  by (induction xs) (simp_all add: power_add algebra_simps)

lemma be_val_nat_bytes: "be_val (nat_bytes n) = n"
proof (induction n rule: nat_bytes.induct)
  case (1 n)
  have "unat (word_of_nat n :: byte) = n mod 256" by (simp add: unat_of_nat)
  with 1 show ?case by (subst nat_bytes.simps) (simp add: be_val_append)
qed

lemma std_invm: "1 < m \<Longrightarrow> coprime a m \<Longrightarrow> (a * (fst (bezw (nat (a mod m)) (nat m)) mod m)) mod m = 1"
proof -
  assume m: "1 < (m::int)" and c: "coprime a m"
  let ?x = "nat (a mod m)" and ?y = "nat m"
  have x: "int ?x = a mod m" "int ?y = m" using m by simp_all
  have "coprime (a mod m) m" using c m by (simp add: coprime_mod_left_iff)
  then have "gcd (int ?x) (int ?y) = 1" using x by simp
  then have "int (gcd ?x ?y) = 1" by (simp only: gcd_int_int_eq)
  then have "fst (bezw ?x ?y) * int ?x + snd (bezw ?x ?y) * int ?y = 1"
    using bezw_aux [of ?x ?y] by simp
  then have "(fst (bezw ?x ?y) * (a mod m) + snd (bezw ?x ?y) * m) mod m = 1"
    using x m by simp
  then show ?thesis by (simp add: mod_mult_right_eq mod_mult_left_eq mult.commute)
qed

lemma mpi_ok_std: "mpi_ok std_mpi"
proof -
  have "mpi_arith_ok std_mpi"
    unfolding mpi_arith_ok_def by (simp add: std_mpi_def std_invm)
  moreover have "mpi_bits_ok std_mpi"
    unfolding mpi_bits_ok_def by (simp add: std_mpi_def nat_bits_le_iff nat_less_iff)
  moreover have "mpi_usg_ok std_mpi"
    unfolding mpi_usg_ok_def by (simp add: std_mpi_def nat_bytes_le_iff be_val_nat_bytes nat_less_iff)
  ultimately show ?thesis by (simp add: mpi_ok_def)
qed

section \<open>The recoding of the scalar\<close>

lemma dup_point_inplace_eq: "dup_point_inplace M ctx r = mpi_ec_dup_point M ctx r"
  by (simp add: dup_point_inplace_def mpi_ec_dup_point_def ec_infinity_def Let_def)

lemma div_step: "(x::int) div 2 ^ i = 2 * (x div 2 ^ Suc i) + of_bool (bit x i)"
proof -
  have "x div 2 ^ Suc i = x div 2 ^ i div 2"
    using zdiv_zmult2_eq [of 2 x "2 ^ i"] by (simp add: mult.commute)
  then show ?thesis by (simp add: bit_iff_odd of_bool_odd_eq_mod_2)
qed

lemma digit_difference:
  "(a::int) = 2 * c + e \<Longrightarrow> b = 2 * d + f \<Longrightarrow> a - b = 2 * (c - d) + e - f"
  by simp

text \<open>
  An addition chain over points: \<open>run\<close> processes the digits \<open>i\<close> to 1, most significant first,
  where digit \<open>i\<close> is bit \<open>i\<close> of one number less bit \<open>i\<close> of another, and \<open>rep n q\<close> says that
  \<open>q\<close> stands for the multiple \<open>n\<close> of the start.
\<close>

locale signed_chain =
  fixes hbit :: "nat \<Rightarrow> bool"
    and kbit :: "nat \<Rightarrow> bool"
    and dbl :: "'p \<Rightarrow> 'p"
    and plus_base :: "'p \<Rightarrow> 'p"
    and minus_base :: "'p \<Rightarrow> 'p"
    and rep :: "int \<Rightarrow> 'p \<Rightarrow> bool"
    and run :: "nat \<Rightarrow> 'p \<Rightarrow> 'p"
  assumes rep_dbl: "rep n q \<Longrightarrow> rep (2 * n) (dbl q)"
    and rep_plus: "rep n q \<Longrightarrow> rep (n + 1) (plus_base q)"
    and rep_minus: "rep n q \<Longrightarrow> rep (n - 1) (minus_base q)"
    and run_0: "run 0 q = q"
    and run_Suc: "run (Suc i) q = run i
      (if hbit (Suc i) \<and> \<not> kbit (Suc i) then plus_base (dbl q)
       else if \<not> hbit (Suc i) \<and> kbit (Suc i) then minus_base (dbl q) else dbl q)"
begin

lemma run_rep:
  assumes "hbit = bit (h::int)" and "kbit = bit (k::int)"
  shows "rep (h div 2 ^ Suc i - k div 2 ^ Suc i) q \<Longrightarrow> rep (h div 2 - k div 2) (run i q)"
proof (induction i arbitrary: q)
  case 0
  then show ?case by (simp add: run_0)
next
  case (Suc i)
  let ?n = "h div 2 ^ Suc (Suc i) - k div 2 ^ Suc (Suc i)"
  let ?m = "h div 2 ^ Suc i - k div 2 ^ Suc i"
  have m: "?m = 2 * ?n + of_bool (bit h (Suc i)) - of_bool (bit k (Suc i))"
    by (rule digit_difference) (rule div_step)+
  have d: "rep (2 * ?n) (dbl q)" using Suc.prems by (rule rep_dbl)
  have "rep ?m (if hbit (Suc i) \<and> \<not> kbit (Suc i) then plus_base (dbl q)
       else if \<not> hbit (Suc i) \<and> kbit (Suc i) then minus_base (dbl q) else dbl q)"
    using d rep_plus [OF d] rep_minus [OF d] unfolding m assms by auto
  then show ?case by (simp only: run_Suc) (rule Suc.IH)
qed

text \<open>With \<open>h = 3 * k\<close> the digits \<open>h_i - k_i\<close> stand for \<open>2 * k\<close>: half of it is \<open>k\<close>.\<close>

lemma run_triple:
  assumes bits: "hbit = bit (3 * k :: int)" "kbit = bit k"
    and "1 \<le> k" and "3 * k < 2 ^ Suc (Suc i)" and "2 ^ Suc i \<le> 3 * k" and "rep 1 q"
  shows "rep k (run i q)"
proof -
  have "3 * k div 2 ^ Suc i = 1"
    using assms(4,5) by (intro int_div_pos_eq [where r = "3 * k - 2 ^ Suc i"]) auto
  moreover have "k div 2 ^ Suc i = 0"
    using assms(3,4) by (intro div_pos_pos_trivial) auto
  ultimately have "rep (3 * k div 2 - k div 2) (run i q)"
    using assms(6) by (intro run_rep [OF bits]) simp
  moreover have "3 * k div 2 - k div 2 = k" by presburger
  ultimately show ?thesis by simp
qed

end

text \<open>
  The points that doublings of a point and additions of its affine form or of the inverse of that
  form can reach, with the multiple each stands for.
\<close>

inductive ec_chain :: "mpi_lib \<Rightarrow> mpi_ec \<Rightarrow> mpi_point \<Rightarrow> mpi_point \<Rightarrow> int \<Rightarrow> mpi_point \<Rightarrow> bool"
  for M ctx P B where
  start: "ec_chain M ctx P B 1 P"
| double: "ec_chain M ctx P B n q \<Longrightarrow> ec_chain M ctx P B (2 * n) (mpi_ec_dup_point M ctx q)"
| plus: "ec_chain M ctx P B n q \<Longrightarrow> ec_chain M ctx P B (n + 1) (mpi_ec_add_points M ctx q B)"
| minus: "ec_chain M ctx P B n q \<Longrightarrow>
    ec_chain M ctx P B (n - 1) (mpi_ec_add_points M ctx q (point_invert M ctx B))"

interpretation mul: signed_chain "mpi_test_bit M h" "mpi_test_bit M k" "mpi_ec_dup_point M ctx"
  "\<lambda>q. mpi_ec_add_points M ctx q B" "\<lambda>q. mpi_ec_add_points M ctx q (point_invert M ctx B)"
  "ec_chain M ctx P B" "mul_loop M ctx h k B" for M h k ctx P B
  by unfold_locales
    (auto intro: ec_chain.intros simp: mul_step_def dup_point_inplace_eq Let_def)

section \<open>The curve\<close>

text \<open>A point satisfies \<open>Y^2 = X^3 + a X Z^4 + b Z^6\<close> modulo \<open>p\<close>.\<close>

definition on_curve :: "mpi_ec \<Rightarrow> int \<Rightarrow> mpi_point \<Rightarrow> bool" where
  "on_curve ctx b q \<longleftrightarrow>
     (py q ^ 2 - px q ^ 3 - ec_a ctx * px q * pz q ^ 4 - b * pz q ^ 6) mod ec_p ctx = 0"

lemmas ec_ops_defs = ec_addm_def ec_subm_def ec_mulm_def ec_powm_def ec_invm_def

lemma ec_ops:
  assumes "mpi_arith_ok M" and "0 < ec_p ctx"
  shows "ec_addm M ctx u v = (u + v) mod ec_p ctx" "ec_subm M ctx u v = (u - v) mod ec_p ctx"
    "ec_mulm M ctx u v = u * v mod ec_p ctx"
    "0 \<le> e \<Longrightarrow> ec_powm M ctx u e = u ^ nat e mod ec_p ctx"
  using assms by (simp_all add: ec_ops_defs mpi_arith_ok_def)

lemma mpi_cmp_eq: "mpi_arith_ok M \<Longrightarrow> mpi_cmp M u v = 0 \<longleftrightarrow> u = v"
  by (simp add: mpi_arith_ok_def)

lemma ec_init_fields:
  assumes "mpi_arith_ok M"
  shows "ec_p (mpi_ec_init M p a) = p" "ec_a (mpi_ec_init M p a) = a"
    "a_is_pminus3 (mpi_ec_init M p a) \<longleftrightarrow> a = p - 3"
    "ec_one (mpi_ec_init M p a) = 1" "ec_two (mpi_ec_init M p a) = 2"
    "ec_three (mpi_ec_init M p a) = 3" "ec_four (mpi_ec_init M p a) = 4"
    "ec_eight (mpi_ec_init M p a) = 8" "two_inv_p (mpi_ec_init M p a) = mpi_invm M 2 p"
  using assms by (simp_all add: mpi_ec_init_def mpi_arith_ok_def)

lemma dup_identity:
  fixes X Y Z a b :: int
  defines "L \<equiv> 3 * X ^ 2 + a * Z ^ 4" and "S \<equiv> 4 * X * Y ^ 2"
  shows "(L * (S - (L ^ 2 - 2 * S)) - 8 * Y ^ 4) ^ 2 - (L ^ 2 - 2 * S) ^ 3 -
      a * (L ^ 2 - 2 * S) * (2 * Y * Z) ^ 4 - b * (2 * Y * Z) ^ 6 =
    64 * Y ^ 6 * (Y ^ 2 - X ^ 3 - a * X * Z ^ 4 - b * Z ^ 6)"
  unfolding L_def S_def by algebra

lemma chord_identity:
  fixes U1 U2 S1 S2 A B :: int
  defines "H \<equiv> U1 - U2" and "R \<equiv> S1 - S2" and "T \<equiv> U1 + U2" and "N \<equiv> S1 + S2"
  defines "X3 \<equiv> R ^ 2 - T * H ^ 2"
  defines "W \<equiv> (T * H ^ 2 - 2 * X3) * R - N * H ^ 3"
  shows "\<exists>c d. W ^ 2 - 4 * X3 ^ 3 - 4 * A * H ^ 4 * X3 - 4 * B * H ^ 6 =
    (S1 ^ 2 - U1 ^ 3 - A * U1 - B) * c + (S2 ^ 2 - U2 ^ 3 - A * U2 - B) * d"
  unfolding H_def R_def T_def N_def X3_def W_def by algebra

lemma curve_cong:
  fixes x y z x' y' z' a b p :: int
  assumes "x mod p = x' mod p" and "y mod p = y' mod p" and "z mod p = z' mod p"
  shows "(y ^ 2 - x ^ 3 - a * x * z ^ 4 - b * z ^ 6) mod p =
    (y' ^ 2 - x' ^ 3 - a * x' * z' ^ 4 - b * z' ^ 6) mod p"
proof -
  have pow: "u ^ n mod p = v ^ n mod p" if "u mod p = v mod p" for u v :: int and n
    using that by (metis power_mod)
  show ?thesis using assms by (intro mod_diff_cong mod_mult_cong pow refl)
qed

lemma dup_l1_eq:
  assumes "mpi_arith_ok M" and "0 < p"
  shows "dup_l1 M (mpi_ec_init M p a) q = (3 * px q ^ 2 + a * pz q ^ 4) mod p"
proof (cases "a = p - 3")
  case True
  let ?X = "px q" and ?Z = "pz q"
  have "dup_l1 M (mpi_ec_init M p a) q = ((?X - ?Z ^ 2) * 3 * (?X + ?Z ^ 2)) mod p"
    using True assms by (simp add: dup_l1_def ec_ops ec_init_fields Let_def) (simp add: mod_simps)
  also have "(?X - ?Z ^ 2) * 3 * (?X + ?Z ^ 2) = 3 * ?X ^ 2 + a * ?Z ^ 4 + p * - (?Z ^ 4)"
    unfolding True by algebra
  finally show ?thesis by (simp only: mod_mult_self2)
next
  case False
  with assms show ?thesis
    by (simp add: dup_l1_def ec_ops ec_init_fields Let_def) (simp add: mod_simps mult.commute)
qed

lemma dup_values:
  fixes a :: int
  assumes arith: "mpi_arith_ok M" and "0 < p" and ne: "py q \<noteq> 0" "pz q \<noteq> 0"
  defines "X \<equiv> px q" and "Y \<equiv> py q" and "Z \<equiv> pz q"
  defines "L \<equiv> 3 * X ^ 2 + a * Z ^ 4" and "S \<equiv> 4 * X * Y ^ 2"
  defines "r \<equiv> mpi_ec_dup_point M (mpi_ec_init M p a) q"
  shows "px r = (L ^ 2 - 2 * S) mod p \<and> py r = (L * (S - (L ^ 2 - 2 * S)) - 8 * Y ^ 4) mod p \<and>
    pz r = (2 * Y * Z) mod p"
proof -
  define z3 where "z3 = Y * Z mod p * 2 mod p"
  define t2 where "t2 = Y ^ 2 mod p"
  define l1 where "l1 = L mod p"
  define l2 where "l2 = t2 * X mod p * 4 mod p"
  define x3 where "x3 = (l1 ^ 2 mod p - l2 * 2 mod p) mod p"
  define l3 where "l3 = t2 ^ 2 mod p * 8 mod p"
  define y3 where "y3 = ((l2 - x3) mod p * l1 mod p - l3) mod p"
  have r: "r = \<lparr>px = x3, py = y3, pz = z3\<rparr>"
    using ne unfolding r_def y3_def l3_def x3_def l2_def t2_def z3_def l1_def L_def X_def Y_def Z_def
      mpi_ec_dup_point_def mpi_cmp_ui_def
    by (simp only: ec_ops [OF arith] mpi_cmp_eq [OF arith] ec_init_fields [OF arith] dup_l1_eq [OF arith assms(2)] assms(2)
        Let_def semiring_1_class.of_nat_0 zero_le_numeral nat_numeral if_False simp_thms)
  have l2: "l2 = S mod p"
    unfolding l2_def t2_def S_def by (simp only: mod_simps) (simp only: mult_ac)
  have x3: "x3 = (L ^ 2 - 2 * S) mod p"
    unfolding x3_def l2 l1_def by (simp only: mod_simps) (simp only: mult_ac)
  have l3: "l3 = 8 * Y ^ 4 mod p"
    unfolding l3_def t2_def by (simp only: mod_simps power_mult [symmetric]) (simp add: mult_ac)
  have "y3 = (L * (S - (L ^ 2 - 2 * S)) - 8 * Y ^ 4) mod p"
    unfolding y3_def l2 x3 l1_def l3 by (simp only: mod_simps) (simp only: mult_ac)
  moreover have "z3 = 2 * Y * Z mod p"
    unfolding z3_def by (simp only: mod_simps) (simp only: mult_ac)
  ultimately show ?thesis by (simp add: r x3)
qed

text \<open>The sum of two points, where the general formula is used.\<close>

lemma add_values:
  fixes a :: int
  assumes arith: "mpi_arith_ok M" and "0 < p" and z: "pz p1 \<noteq> 0" "pz p1 \<noteq> 1" "pz p2 \<noteq> 0"
    and red: "px p1 mod p = px p1"
  defines "U1 \<equiv> px p1 * pz p2 ^ 2" and "U2 \<equiv> px p2 * pz p1 ^ 2"
    and "S1 \<equiv> py p1 * pz p2 ^ 3" and "S2 \<equiv> py p2 * pz p1 ^ 3"
  defines "H \<equiv> U1 - U2" and "R \<equiv> S1 - S2" and "T \<equiv> U1 + U2" and "N \<equiv> S1 + S2"
  defines "X3 \<equiv> R ^ 2 - T * H ^ 2"
  defines "r \<equiv> mpi_ec_add_points M (mpi_ec_init M p a) p1 p2"
  assumes ne: "H mod p \<noteq> 0"
  shows "px r = X3 mod p \<and> py r = (((T * H ^ 2 - 2 * X3) * R - N * H ^ 3) * mpi_invm M 2 p) mod p \<and>
    pz r = (pz p1 * pz p2 * H) mod p"
proof -
  define l1 where "l1 = (if pz p2 = 1 then px p1 else pz p2 ^ 2 mod p * px p1 mod p)"
  define l2 where "l2 = pz p1 ^ 2 mod p * px p2 mod p"
  define l3 where "l3 = (l1 - l2) mod p"
  define l4 where "l4 = pz p2 ^ 3 mod p * py p1 mod p"
  define l5 where "l5 = pz p1 ^ 3 mod p * py p2 mod p"
  define l6 where "l6 = (l4 - l5) mod p"
  define l7 where "l7 = (l1 + l2) mod p"
  define l8 where "l8 = (l4 + l5) mod p"
  define z3 where "z3 = pz p1 * pz p2 mod p * l3 mod p"
  define t2 where "t2 = l3 ^ 2 mod p * l7 mod p"
  define x3 where "x3 = (l6 ^ 2 mod p - t2) mod p"
  define l9 where "l9 = (t2 - x3 * 2 mod p) mod p * l6 mod p"
  define t1 where "t1 = l3 ^ 3 mod p * l8 mod p"
  define y3 where "y3 = (l9 - t1) mod p * mpi_invm M 2 p mod p"
  have l1: "l1 = U1 mod p"
    using red unfolding l1_def U1_def by (simp add: mod_simps mult.commute)
  have l2: "l2 = U2 mod p"
    unfolding l2_def U2_def by (simp add: mod_simps mult.commute)
  have l3: "l3 = H mod p" unfolding l3_def l1 l2 H_def by (simp only: mod_simps)
  have l4: "l4 = S1 mod p" unfolding l4_def S1_def by (simp add: mod_simps mult.commute)
  have l5: "l5 = S2 mod p" unfolding l5_def S2_def by (simp add: mod_simps mult.commute)
  have l6: "l6 = R mod p" unfolding l6_def l4 l5 R_def by (simp only: mod_simps)
  have l7: "l7 = T mod p" unfolding l7_def l1 l2 T_def by (simp only: mod_simps)
  have l8: "l8 = N mod p" unfolding l8_def l4 l5 N_def by (simp only: mod_simps)
  have t2: "t2 = (T * H ^ 2) mod p"
    unfolding t2_def l3 l7 by (simp only: mod_simps) (simp only: mult_ac)
  have x3: "x3 = X3 mod p" unfolding x3_def l6 t2 X3_def by (simp only: mod_simps)
  have l9: "l9 = ((T * H ^ 2 - 2 * X3) * R) mod p"
    unfolding l9_def t2 x3 l6 by (simp only: mod_simps) (simp only: mult_ac)
  have t1: "t1 = (N * H ^ 3) mod p"
    unfolding t1_def l3 l8 by (simp only: mod_simps) (simp only: mult_ac)
  have y3: "y3 = (((T * H ^ 2 - 2 * X3) * R - N * H ^ 3) * mpi_invm M 2 p) mod p"
    unfolding y3_def l9 t1 by (simp only: mod_simps)
  have z3: "z3 = (pz p1 * pz p2 * H) mod p" unfolding z3_def l3 by (simp only: mod_simps)
  have l3': "l3 \<noteq> 0" using ne l3 by simp
  have "r = \<lparr>px = x3, py = y3, pz = z3\<rparr>"
  proof -
    have different: "\<not> (px p1 = px p2 \<and> py p1 = py p2 \<and> pz p1 = pz p2)"
      using ne by (auto simp: H_def U1_def U2_def)
    show ?thesis
      using z l3' different
      unfolding r_def y3_def l9_def t1_def x3_def t2_def z3_def l8_def l7_def l6_def l5_def l4_def l3_def
        l2_def l1_def mpi_ec_add_points_def add_general_def mpi_cmp_ui_def
      by (simp only: ec_ops [OF arith] mpi_cmp_eq [OF arith] ec_init_fields [OF arith] assms(2) Let_def semiring_1_class.of_nat_0 of_nat_1
          zero_le_numeral nat_numeral if_False if_True simp_thms)
  qed
  then show ?thesis by (simp add: x3 y3 z3)
qed

lemma dup_on_curve:
  assumes "mpi_ok M" and "0 < p" and "on_curve (mpi_ec_init M p a) b q"
  shows "on_curve (mpi_ec_init M p a) b (mpi_ec_dup_point M (mpi_ec_init M p a) q)"
proof -
  from assms(1) have arith: "mpi_arith_ok M" by (simp add: mpi_ok_def)
  let ?ctx = "mpi_ec_init M p a" and ?X = "px q" and ?Y = "py q" and ?Z = "pz q"
  show ?thesis
  proof (cases "?Y = 0 \<or> ?Z = 0")
    case True
    then have "mpi_ec_dup_point M ?ctx q = ec_infinity"
      using assms(2) by (auto simp: mpi_ec_dup_point_def mpi_cmp_ui_def mpi_cmp_eq [OF arith] ec_init_fields [OF arith])
    then show ?thesis by (simp add: on_curve_def ec_infinity_def)
  next
    case False
    let ?r = "mpi_ec_dup_point M ?ctx q"
    from False have ne: "?Y \<noteq> 0" "?Z \<noteq> 0" by simp_all
    note r = dup_values [OF arith assms(2) ne, of a]
    have "(py ?r ^ 2 - px ?r ^ 3 - a * px ?r * pz ?r ^ 4 - b * pz ?r ^ 6) mod p =
      (64 * ?Y ^ 6 * (?Y ^ 2 - ?X ^ 3 - a * ?X * ?Z ^ 4 - b * ?Z ^ 6)) mod p"
      using r unfolding dup_identity [symmetric] by (intro curve_cong) simp_all
    also have "\<dots> = (64 * ?Y ^ 6 * ((?Y ^ 2 - ?X ^ 3 - a * ?X * ?Z ^ 4 - b * ?Z ^ 6) mod p)) mod p"
      by (simp only: mod_simps)
    also have "\<dots> = 0" using assms(3) by (simp add: on_curve_def ec_init_fields [OF arith])
    finally show ?thesis by (simp add: on_curve_def ec_init_fields [OF arith])
  qed
qed

lemma on_curve_scaled:
  assumes "on_curve (mpi_ec_init M p a) b q" and "mpi_arith_ok M"
  shows "\<exists>e. (py q * w ^ 3) ^ 2 - (px q * w ^ 2) ^ 3 - (a * (pz q * w) ^ 4) * (px q * w ^ 2) -
    b * (pz q * w) ^ 6 = p * e"
proof -
  from assms(1) have "p dvd py q ^ 2 - px q ^ 3 - a * px q * pz q ^ 4 - b * pz q ^ 6"
    by (simp add: on_curve_def ec_init_fields [OF assms(2)] mod_eq_0_iff_dvd)
  then obtain e where "py q ^ 2 - px q ^ 3 - a * px q * pz q ^ 4 - b * pz q ^ 6 = p * e" by (auto simp: dvd_def)
  then have "(py q * w ^ 3) ^ 2 - (px q * w ^ 2) ^ 3 - (a * (pz q * w) ^ 4) * (px q * w ^ 2) -
      b * (pz q * w) ^ 6 = p * (e * w ^ 6)" by algebra
  then show ?thesis by blast
qed

lemma halved_identity:
  fixes p :: int
  assumes "W ^ 2 - 4 * X ^ 3 - 4 * (a * z ^ 4) * H ^ 4 * X - 4 * (b * z ^ 6) * H ^ 6 = p * w"
    and "2 * i = p * v + 1"
  shows "\<exists>u. (W * i) ^ 2 - X ^ 3 - a * X * (z * H) ^ 4 - b * (z * H) ^ 6 = p * u"
proof -
  let ?Q = "X ^ 3 + a * X * (z * H) ^ 4 + b * (z * H) ^ 6"
  have "(2 * i) ^ 2 = p * (p * v ^ 2 + 2 * v) + 1" unfolding assms(2) by algebra
  then have "4 * i ^ 2 = p * (p * v ^ 2 + 2 * v) + 1" by (simp add: power_mult_distrib)
  moreover have "W ^ 2 = p * w + 4 * ?Q" using assms(1) by algebra
  ultimately have "(W * i) ^ 2 - ?Q = p * (w * i ^ 2 + ?Q * (p * v ^ 2 + 2 * v))" by algebra
  then have "(W * i) ^ 2 - X ^ 3 - a * X * (z * H) ^ 4 - b * (z * H) ^ 6 =
      p * (w * i ^ 2 + ?Q * (p * v ^ 2 + 2 * v))" by algebra
  then show ?thesis by blast
qed

lemma add_cases:
  assumes arith: "mpi_arith_ok M" and "0 < p" and "pz p1 \<noteq> 1" and "px p1 mod p = px p1"
  shows "mpi_ec_add_points M (mpi_ec_init M p a) p1 p2 \<in>
      {mpi_ec_dup_point M (mpi_ec_init M p a) p1, p1, p2, ec_infinity} \<or>
    pz p1 \<noteq> 0 \<and> pz p2 \<noteq> 0 \<and> (px p1 * pz p2 ^ 2 - px p2 * pz p1 ^ 2) mod p \<noteq> 0"
proof -
  have l1: "(if pz p2 = 1 then px p1 else pz p2 ^ 2 mod p * px p1 mod p) mod p = px p1 * pz p2 ^ 2 mod p"
    using assms(4) by (simp add: mod_simps mult.commute)
  have "((if pz p2 = 1 then px p1 else pz p2 ^ 2 mod p * px p1 mod p) - pz p1 ^ 2 mod p * px p2 mod p) mod p
      = (px p1 * pz p2 ^ 2 - px p2 * pz p1 ^ 2) mod p"
    by (rule mod_diff_cong [OF l1]) (simp add: mod_simps mult.commute)
  then have l3: "((if pz p2 = 1 then px p1 else pz p2 ^ 2 mod p * px p1 mod p) - pz p1 ^ 2 mod p * px p2 mod p)
      mod p = 0" if "(px p1 * pz p2 ^ 2 - px p2 * pz p1 ^ 2) mod p = 0"
    using that by simp
  note ops = ec_ops [OF arith] mpi_cmp_eq [OF arith] ec_init_fields [OF arith] Let_def assms(2)
    semiring_1_class.of_nat_0 of_nat_1 zero_le_numeral nat_numeral if_False if_True simp_thms
  consider "px p1 = px p2 \<and> py p1 = py p2 \<and> pz p1 = pz p2 \<or> pz p1 = 0 \<or> pz p2 = 0"
    | "pz p1 \<noteq> 0" "pz p2 \<noteq> 0" "(px p1 * pz p2 ^ 2 - px p2 * pz p1 ^ 2) mod p \<noteq> 0"
    | "pz p1 \<noteq> 0" "pz p2 \<noteq> 0" "(px p1 * pz p2 ^ 2 - px p2 * pz p1 ^ 2) mod p = 0"
    by metis
  then show ?thesis
  proof cases
    case 1
    have cmp: "mpi_cmp_ui M u 0 = 0 \<longleftrightarrow> u = 0" for u
      by (simp add: mpi_cmp_ui_def mpi_cmp_eq [OF arith])
    have "mpi_ec_add_points M ctx p1 p2 \<in> {mpi_ec_dup_point M ctx p1, p1, p2}" for ctx
    proof (cases "px p1 = px p2 \<and> py p1 = py p2 \<and> pz p1 = pz p2")
      case True
      then show ?thesis unfolding mpi_ec_add_points_def Let_def mpi_cmp_eq [OF arith] by (simp only: simp_thms if_True insert_iff)
    next
      case False
      with 1 have "pz p1 = 0 \<or> pz p1 \<noteq> 0 \<and> pz p2 = 0" by metis
      with False show ?thesis
        unfolding mpi_ec_add_points_def Let_def mpi_cmp_eq [OF arith] cmp
        by (elim disjE) (simp_all only: simp_thms if_True if_False insert_iff)
    qed
    then show ?thesis by blast
  next
    case 2
    then show ?thesis by blast
  next
    case 3
    have "mpi_ec_add_points M (mpi_ec_init M p a) p1 p2 \<in>
        {mpi_ec_dup_point M (mpi_ec_init M p a) p1, ec_infinity}"
      using 3(1,2) l3 [OF 3(3)] assms(3) unfolding mpi_ec_add_points_def mpi_cmp_ui_def
      by (simp only: ops) simp
    then show ?thesis by blast
  qed
qed

section \<open>Properties\<close>

text \<open>
  C34: the multiplication of a point by a scalar from 1 to \<open>2 ^ 160\<close> is an addition chain for exactly
  that scalar: doublings of the point and additions of it or of its inverse, whose signed digits
  add up to the scalar.
\<close>

theorem mul_point_multiple:
  assumes "mpi_ok M" and "1 \<le> k" and "k < 2 ^ 160"
  shows "ec_chain M (mpi_ec_init M p a) P (mul_base M (mpi_ec_init M p a) P) k
    (mpi_ec_mul_point M (mpi_ec_init M p a) k P)"
proof -
  from assms(1) have arith: "mpi_arith_ok M" and bits: "mpi_bits_ok M" by (simp_all add: mpi_ok_def)
  let ?h = "3 * k"
  have nb: "mpi_get_nbits M ?h \<le> n \<longleftrightarrow> ?h < 2 ^ n" for n
    using bits assms(2) by (simp add: mpi_bits_ok_def)
  have tb: "mpi_test_bit M ?h = bit ?h" "mpi_test_bit M k = bit k"
    using bits assms(2) by (simp_all add: mpi_bits_ok_def fun_eq_iff)
  have "?h < 2 ^ 162" using assms(3) by simp
  then have le: "mpi_get_nbits M ?h \<le> 162" by (simp only: nb)
  have "\<not> ?h < 2 ^ 1" using assms(2) by simp
  then have ge: "2 \<le> mpi_get_nbits M ?h" by (simp only: nb [symmetric] not_le)
  then obtain i where i: "mpi_get_nbits M ?h = Suc (Suc i)"
    by (metis add_2_eq_Suc le_iff_add)
  have upper: "?h < 2 ^ Suc (Suc i)" using nb [of "Suc (Suc i)"] i by simp
  have lower: "2 ^ Suc i \<le> ?h" using nb [of "Suc i"] i by simp
  have loops: "(mpi_get_nbits M ?h + 2 ^ 32 - 2) mod 2 ^ 32 = i"
    using le i by simp
  have "mpi_mul M k 3 = ?h" using arith by (simp add: mpi_arith_ok_def mult.commute)
  then have "mpi_ec_mul_point M (mpi_ec_init M p a) k P =
      mul_loop M (mpi_ec_init M p a) ?h k (mul_base M (mpi_ec_init M p a) P) i P"
    unfolding mpi_ec_mul_point_def Let_def ec_init_fields [OF arith] by (simp only: loops)
  then show ?thesis
    using mul.run_triple [OF tb assms(2) upper lower ec_chain.start] by simp
qed

theorem mul_point_multiple_witness:
  "ec_chain std_mpi (mpi_ec_init std_mpi 23 20) \<lparr>px = 3, py = 10, pz = 1\<rparr>
     (mul_base std_mpi (mpi_ec_init std_mpi 23 20) \<lparr>px = 3, py = 10, pz = 1\<rparr>) 13
     (mpi_ec_mul_point std_mpi (mpi_ec_init std_mpi 23 20) 13 \<lparr>px = 3, py = 10, pz = 1\<rparr>)"
  by (rule mul_point_multiple) (simp_all add: mpi_ok_std)

text \<open>
  Doubling keeps a point on the curve, by the general tangent formula as well as by the
  shorter one for \<open>a = p - 3\<close>.
\<close>

theorem dup_point_on_curve:
  assumes "mpi_ok M" and "0 < p" and "on_curve (mpi_ec_init M p a) b q"
  shows "on_curve (mpi_ec_init M p a) b (mpi_ec_dup_point M (mpi_ec_init M p a) q)"
  using assms by (rule dup_on_curve)

theorem dup_point_on_curve_witness:
  "on_curve (mpi_ec_init std_mpi 23 20) 13 \<lparr>px = 3, py = 10, pz = 1\<rparr> \<and>
   on_curve (mpi_ec_init std_mpi 23 20) 13
     (mpi_ec_dup_point std_mpi (mpi_ec_init std_mpi 23 20) \<lparr>px = 3, py = 10, pz = 1\<rparr>)"
proof -
  have q: "on_curve (mpi_ec_init std_mpi 23 20) 13 \<lparr>px = 3, py = 10, pz = 1\<rparr>"
    by (simp add: on_curve_def mpi_ec_init_def)
  from q dup_point_on_curve [OF mpi_ok_std _ q] show ?thesis by simp
qed

text \<open>
  The sum of two points of the curve that the general formula computes is on the curve again,
  when the first of them is not in affine form.
\<close>

theorem add_points_on_curve:
  assumes "mpi_ok M" and "odd p" and "1 < p"
    and "on_curve (mpi_ec_init M p a) b p1" and "on_curve (mpi_ec_init M p a) b p2"
    and "pz p1 \<noteq> 1" and "px p1 mod p = px p1"
  shows "on_curve (mpi_ec_init M p a) b (mpi_ec_add_points M (mpi_ec_init M p a) p1 p2)"
proof -
  from assms(1) have arith: "mpi_arith_ok M" by (simp add: mpi_ok_def)
  let ?ctx = "mpi_ec_init M p a" and ?r = "mpi_ec_add_points M (mpi_ec_init M p a) p1 p2"
  let ?U1 = "px p1 * pz p2 ^ 2" and ?U2 = "px p2 * pz p1 ^ 2"
  let ?S1 = "py p1 * pz p2 ^ 3" and ?S2 = "py p2 * pz p1 ^ 3"
  let ?H = "?U1 - ?U2" and ?R = "?S1 - ?S2" and ?T = "?U1 + ?U2" and ?N = "?S1 + ?S2"
  let ?X3 = "?R ^ 2 - ?T * ?H ^ 2"
  let ?W = "(?T * ?H ^ 2 - 2 * ?X3) * ?R - ?N * ?H ^ 3"
  let ?A = "a * (pz p1 * pz p2) ^ 4" and ?B = "b * (pz p1 * pz p2) ^ 6"
  let ?E = "\<lambda>x y z. y ^ 2 - x ^ 3 - a * x * z ^ 4 - b * z ^ 6"
  show ?thesis
  proof (cases "?r \<in> {mpi_ec_dup_point M ?ctx p1, p1, p2, ec_infinity}")
    case True
    have "on_curve ?ctx b ec_infinity" by (simp add: on_curve_def ec_infinity_def)
    with True show ?thesis using dup_on_curve [OF assms(1) _ assms(4)] assms(3-5) by auto
  next
    case False
    with add_cases [OF arith _ assms(6,7), of a p2] assms(3)
    have gen: "pz p1 \<noteq> 0" "pz p2 \<noteq> 0" "?H mod p \<noteq> 0" by auto
    have "0 < p" using assms(3) by simp
    note r = add_values [OF arith this gen(1) assms(6) gen(2) assms(7) gen(3), of a]
    obtain e1 where e1: "?S1 ^ 2 - ?U1 ^ 3 - ?A * ?U1 - ?B = p * e1"
      using on_curve_scaled [OF assms(4) arith, of "pz p2"] by blast
    obtain e2 where e2: "?S2 ^ 2 - ?U2 ^ 3 - ?A * ?U2 - ?B = p * e2"
      using on_curve_scaled [OF assms(5) arith, of "pz p1"] unfolding mult.commute [of "pz p2" "pz p1"] by blast
    obtain c d where "?W ^ 2 - 4 * ?X3 ^ 3 - 4 * ?A * ?H ^ 4 * ?X3 - 4 * ?B * ?H ^ 6 =
        (?S1 ^ 2 - ?U1 ^ 3 - ?A * ?U1 - ?B) * c + (?S2 ^ 2 - ?U2 ^ 3 - ?A * ?U2 - ?B) * d"
      using chord_identity by blast
    then have "p dvd ?W ^ 2 - 4 * ?X3 ^ 3 - 4 * ?A * ?H ^ 4 * ?X3 - 4 * ?B * ?H ^ 6"
      unfolding e1 e2 by simp
    then obtain w where w: "?W ^ 2 - 4 * ?X3 ^ 3 - 4 * ?A * ?H ^ 4 * ?X3 - 4 * ?B * ?H ^ 6 = p * w"
      by (auto simp: dvd_def)
    let ?i = "mpi_invm M 2 p"
    have "coprime 2 p" using assms(2) by simp
    then have "(2 * ?i) mod p = 1" using arith assms(3) by (simp add: mpi_arith_ok_def)
    then have "2 * ?i = p * (2 * ?i div p) + 1" by (metis mult_div_mod_eq)
    then obtain v where v: "2 * ?i = p * v + 1" by blast
    have "(?E (px ?r) (py ?r) (pz ?r)) mod p = ?E ?X3 (?W * ?i) (pz p1 * pz p2 * ?H) mod p"
      using r by (intro curve_cong) simp_all
    moreover have "\<exists>u. ?E ?X3 (?W * ?i) (pz p1 * pz p2 * ?H) = p * u"
      using halved_identity [OF w v] by simp
    ultimately show ?thesis by (auto simp: on_curve_def ec_init_fields [OF arith])
  qed
qed

theorem add_points_on_curve_witness:
  "on_curve (mpi_ec_init std_mpi 23 20) 13
     (mpi_ec_add_points std_mpi (mpi_ec_init std_mpi 23 20) \<lparr>px = 12, py = 11, pz = 2\<rparr>
        \<lparr>px = 3, py = 10, pz = 1\<rparr>)"
  by (rule add_points_on_curve) (simp_all add: mpi_ok_std, simp_all add: on_curve_def mpi_ec_init_def)

text \<open>
  Two different points that are both in affine form (\<open>z = 1\<close>) are never added: the code
  compares the first point with itself, so the answer is the point at infinity whenever their
  \<open>y\<close> coordinates differ.
\<close>

theorem add_points_affine_infinity:
  assumes "mpi_ok M" and "0 < p" and "pz p1 = 1" and "pz p2 = 1" and "py p1 mod p \<noteq> py p2 mod p"
  shows "mpi_ec_add_points M (mpi_ec_init M p a) p1 p2 = ec_infinity"
proof -
  from assms(1) have arith: "mpi_arith_ok M" by (simp add: mpi_ok_def)
  have "(1 ^ 3 mod p * py p1 mod p - 1 ^ 3 mod p * py p2 mod p) mod p = (py p1 - py p2) mod p"
    by (simp add: mod_simps)
  also have "\<dots> \<noteq> 0" using assms(5) by (auto simp: mod_eq_0_iff_dvd mod_eq_dvd_iff)
  finally have l6: "(1 ^ 3 mod p * py p1 mod p - 1 ^ 3 mod p * py p2 mod p) mod p \<noteq> 0" .
  have "py p1 \<noteq> py p2" using assms(5) by auto
  moreover have l3: "(px p1 - px p1) mod p = 0" by simp
  ultimately show ?thesis
    using l6 unfolding mpi_ec_add_points_def mpi_cmp_ui_def
    by (simp only: ec_ops [OF arith] mpi_cmp_eq [OF arith] ec_init_fields [OF arith] Let_def assms(2-4) l3
        semiring_1_class.of_nat_0 of_nat_1 zero_le_numeral nat_numeral if_False if_True simp_thms
        one_neq_zero)
qed

theorem add_points_affine_infinity_witness:
  "mpi_ec_add_points std_mpi (mpi_ec_init std_mpi 23 20) \<lparr>px = 3, py = 10, pz = 1\<rparr>
     \<lparr>px = 3, py = 13, pz = 1\<rparr> = ec_infinity \<and>
   mpi_ec_add_points std_mpi (mpi_ec_init std_mpi 23 20) \<lparr>px = 3, py = 10, pz = 1\<rparr>
     \<lparr>px = 11, py = 5, pz = 1\<rparr> = ec_infinity"
  by (intro conjI add_points_affine_infinity) (simp_all add: mpi_ok_std)

end
