(* ===== verification/Crypto.thy ===== *)
theory Crypto
  imports StrUtl Ec
begin

text \<open>
  The cryptographic operations of \<^verbatim>\<open>src/libaacs/crypto.c\<close>.  libgcrypt is the record \<open>gcrypt\<close>
  of its entry points, a parameter of every definition that calls it: a cipher call returns its
  error code and the contents of the output buffer, an s-expression is a value of an opaque type
  built from a format string and the integers for its \<open>%m\<close>.  A pointer into a buffer is the list
  of the bytes from there on.
\<close>

section \<open>The library\<close>

datatype cipher_mode = ECB | CBC
datatype md_algo = MD_SHA1 | MD_SHA256 | MD_OTHER

record 's gcrypt =
  g_cipher_open :: "cipher_mode \<Rightarrow> int"
  g_cipher_setkey :: "byte list \<Rightarrow> int"
  g_cipher_setiv :: "byte list \<Rightarrow> int"
  g_ecb_encrypt :: "byte list \<Rightarrow> byte list \<Rightarrow> int \<times> byte list"
  g_ecb_decrypt :: "byte list \<Rightarrow> byte list \<Rightarrow> int \<times> byte list"
  g_cbc_decrypt :: "byte list \<Rightarrow> byte list \<Rightarrow> byte list \<Rightarrow> int \<times> byte list"
  g_md_hash :: "md_algo \<Rightarrow> byte list \<Rightarrow> byte list"
  g_sexp_build :: "string \<Rightarrow> int list \<Rightarrow> int \<times> 's ptr"
  g_pk_sign :: "'s ptr \<Rightarrow> 's ptr \<Rightarrow> int \<times> 's ptr"
  g_pk_verify :: "'s ptr \<Rightarrow> 's ptr \<Rightarrow> 's ptr \<Rightarrow> int"
  g_sexp_find_token :: "'s ptr \<Rightarrow> string \<Rightarrow> 's ptr"
  g_sexp_nth_mpi :: "'s ptr \<Rightarrow> nat \<Rightarrow> int ptr"
  GPG_ERR_ENOMEM :: int
  GPG_ERR_UNKNOWN_ALGORITHM :: int
  GPG_ERR_UNSUPPORTED_ALGORITHM :: int
  GPG_ERR_UNSUPPORTED_CERT :: int

text \<open>Error codes are not 0; the output of a cipher call is as long as its input, a digest as its algorithm says.\<close>

definition gcrypt_ok :: "'s gcrypt \<Rightarrow> bool" where
  "gcrypt_ok G \<longleftrightarrow> GPG_ERR_ENOMEM G \<noteq> 0 \<and> GPG_ERR_UNKNOWN_ALGORITHM G \<noteq> 0 \<and>
     GPG_ERR_UNSUPPORTED_ALGORITHM G \<noteq> 0 \<and> GPG_ERR_UNSUPPORTED_CERT G \<noteq> 0 \<and>
     (\<forall>k x. length (snd (g_ecb_encrypt G k x)) = length x) \<and>
     (\<forall>k x. length (snd (g_ecb_decrypt G k x)) = length x) \<and>
     (\<forall>k iv x. length (snd (g_cbc_decrypt G k iv x)) = length x) \<and>
     (\<forall>x. length (g_md_hash G MD_SHA1 x) = 20) \<and> (\<forall>x. length (g_md_hash G MD_SHA256 x) = 32)"

section \<open>AES\<close>

text \<open>Return value and contents of \<open>dst\<close>; \<open>data\<close> is \<open>NULL\<close> for encryption in place.\<close>

definition crypto_aes128e :: "'s gcrypt \<Rightarrow> byte list \<Rightarrow> byte list ptr \<Rightarrow> byte list \<Rightarrow> int \<times> byte list" where
  "crypto_aes128e G key data dst =
     (let err = g_cipher_open G ECB in
      if err \<noteq> 0 then (err, dst)
      else
        let err = g_cipher_setkey G key in
        if err \<noteq> 0 then (err, dst)
        else g_ecb_encrypt G key (case data of None \<Rightarrow> dst | Some d \<Rightarrow> d))"

definition crypto_aes128d :: "'s gcrypt \<Rightarrow> byte list \<Rightarrow> byte list \<Rightarrow> byte list \<Rightarrow> int \<times> byte list" where
  "crypto_aes128d G key data dst =
     (let err = g_cipher_open G ECB in
      if err \<noteq> 0 then (err, dst)
      else
        let err = g_cipher_setkey G key in
        if err \<noteq> 0 then (err, dst)
        else g_ecb_decrypt G key data)"

definition aesg3_seed :: "byte list" where
  "aesg3_seed = [0x7B, 0x10, 0x3C, 0x5D, 0xCB, 0x08, 0xC4, 0xE5,
     0x1A, 0x27, 0xB0, 0x17, 0x99, 0x05, 0x3B, 0xD9]"

definition aesg3 :: "'s gcrypt \<Rightarrow> byte list \<Rightarrow> byte list \<Rightarrow> byte \<Rightarrow> int \<times> byte list" where
  "aesg3 G src_key dst_key inc =
     (let seed = aesg3_seed[15 := aesg3_seed ! 15 + inc];
          (err, dst_key) = crypto_aes128d G src_key seed dst_key
      in if err \<noteq> 0 then (err, dst_key) else (err, xor_bytes dst_key seed))"

text \<open>The three keys, each only when its buffer was given.\<close>

definition aesg3_opt :: "'s gcrypt \<Rightarrow> byte list \<Rightarrow> byte list ptr \<Rightarrow> byte \<Rightarrow> int \<times> byte list ptr" where
  "aesg3_opt G D dst inc =
     (case dst of None \<Rightarrow> (0, None) | Some d \<Rightarrow> let (err, d) = aesg3 G D d inc in (err, Some d))"

definition crypto_aesg3 :: "'s gcrypt \<Rightarrow> byte list \<Rightarrow> byte list ptr \<Rightarrow> byte list ptr \<Rightarrow> byte list ptr \<Rightarrow>
    int \<times> byte list ptr \<times> byte list ptr \<times> byte list ptr" where
  "crypto_aesg3 G D lsubk rsubk pk =
     (let (err1, lsubk) = aesg3_opt G D lsubk 0;
          (err2, pk) = aesg3_opt G D pk 1;
          (err3, rsubk) = aesg3_opt G D rsubk 2
      in (if err1 \<noteq> 0 then err1 else if err2 \<noteq> 0 then err2 else err3, lsubk, rsubk, pk))"

section \<open>AES-CMAC of one block\<close>

fun shl_128_loop :: "byte list \<Rightarrow> nat \<Rightarrow> byte \<Rightarrow> byte list \<Rightarrow> byte list" where
  "shl_128_loop src 0 overflow dst = dst"
| "shl_128_loop src (Suc i) overflow dst =
     shl_128_loop src i (drop_bit 7 (src ! i)) (dst[i := push_bit 1 (src ! i) OR overflow])"

definition shl_128 :: "byte list \<Rightarrow> byte list \<Rightarrow> byte list" where
  "shl_128 dst src = shl_128_loop src 16 0 dst"

definition cmac_subkey :: "byte list \<Rightarrow> byte list \<Rightarrow> byte list" where
  "cmac_subkey dst src =
     (let k = shl_128 dst src
      in if src ! 0 AND 0x80 \<noteq> 0 then k[15 := k ! 15 XOR 0x87] else k)"

definition cmac_key :: "'s gcrypt \<Rightarrow> byte list \<Rightarrow> byte list \<Rightarrow> byte list \<Rightarrow> int \<times> byte list \<times> byte list" where
  "cmac_key G aes_key k1 k2 =
     (let (err, key) = crypto_aes128e G aes_key None (zeros 16) in
      if err \<noteq> 0 then (err, k1, k2)
      else
        let k1 = cmac_subkey k1 key;
            k2 = cmac_subkey k2 k1
        in (err, k1, k2))"

text \<open>Return value and contents of \<open>cmac\<close>; \<open>loc\<close> is what the two local key buffers hold on entry.\<close>

definition crypto_aes_cmac_16 ::
    "'s gcrypt \<Rightarrow> byte list \<times> byte list \<Rightarrow> byte list \<Rightarrow> byte list \<Rightarrow> byte list \<Rightarrow> (int \<times> byte list) ub" where
  "crypto_aes_cmac_16 G loc data aes_key cmac =
     (let (err, k1, k2) = cmac_key G aes_key (fst loc) (snd loc) in
      if err \<noteq> 0 then Some (err, cmac)
      else do {
        d \<leftarrow> rdn data 0 16;
        Some (crypto_aes128e G aes_key None (xor_bytes d k1))
      })"

definition aacs_iv :: "byte list" where
  "aacs_iv = [0x0b, 0xa0, 0xf8, 0xdd, 0xfe, 0xa6, 0x1f, 0xb3,
     0xd8, 0xdf, 0x9f, 0x56, 0x6a, 0x05, 0x0f, 0x78]"

text \<open>\<open>inp\<close> is \<open>None\<close> for decryption of \<open>out\<close> in place.\<close>

definition crypto_aacs_decrypt :: "'s gcrypt \<Rightarrow> byte list \<Rightarrow> byte list \<Rightarrow> byte list ptr \<Rightarrow> int \<times> byte list" where
  "crypto_aacs_decrypt G key out inp =
     (let err = g_cipher_open G CBC in
      if err \<noteq> 0 then (err, out)
      else
        let err = g_cipher_setkey G key in
        if err \<noteq> 0 then (err, out)
        else
          let err = g_cipher_setiv G aacs_iv in
          if err \<noteq> 0 then (err, out)
          else g_cbc_decrypt G key aacs_iv (case inp of None \<Rightarrow> out | Some d \<Rightarrow> d))"

section \<open>S-expressions\<close>

definition AACS_EC_p :: string where "AACS_EC_p = ''9DC9D81355ECCEB560BDB09EF9EAE7C479A7D7DF''"
definition AACS_EC_a :: string where "AACS_EC_a = ''9DC9D81355ECCEB560BDB09EF9EAE7C479A7D7DC''"
definition AACS_EC_b :: string where "AACS_EC_b = ''402DAD3EC1CBCD165248D68E1245E0C4DAACB1D8''"
definition AACS_EC_n :: string where "AACS_EC_n = ''9DC9D81355ECCEB560BDC44F54817B2C7F5AB017''"
definition AACS_EC_G_x :: string where "AACS_EC_G_x = ''2E64FC22578351E6F4CCA7EB81D0A4BDC54CCEC6''"
definition AACS_EC_G_y :: string where "AACS_EC_G_y = ''0914A25DD05442889DB455C7F23C9A0707F5CBB9''"

definition aacs1_curve :: string where
  "aacs1_curve = ''(p #00'' @ AACS_EC_p @ ''#)(a #00'' @ AACS_EC_a @ ''#)(b #00'' @ AACS_EC_b @
     ''#)(g #04'' @ AACS_EC_G_x @ AACS_EC_G_y @ ''#)(n #00'' @ AACS_EC_n @ ''#)''"

definition aacs2_curve :: string where
  "aacs2_curve = ''(curve ''@ [CHR 0x22] @ ''NIST P-256'' @ [CHR 0x22] @ '')''"

definition sexp_key_format :: "bool \<Rightarrow> string \<Rightarrow> string \<Rightarrow> string" where
  "sexp_key_format private curve str_Q =
     ''('' @ (if private then ''private-key'' else ''public-key'') @ ''(ecdsa'' @ curve @
     ''(q #'' @ str_Q @ ''#)'' @ (if private then ''(d %m)'' else '''') @ ''))''"

definition aacs_sexp_key :: "(nat \<Rightarrow> bool) \<Rightarrow> mpi_lib \<Rightarrow> 's gcrypt \<Rightarrow> byte list \<Rightarrow> byte list \<Rightarrow>
    byte list ptr \<Rightarrow> string \<Rightarrow> nat \<Rightarrow> (int \<times> 's ptr) ub" where
  "aacs_sexp_key alloc M G q_x q_y priv_key curve key_len = do {
     x \<leftarrow> rdn q_x 0 key_len;
     y \<leftarrow> rdn q_y 0 key_len;
     let Q = [0x04] @ x @ y;
     mpi_d \<leftarrow> (case priv_key of None \<Rightarrow> Some None
        | Some k \<Rightarrow> map_option (\<lambda>bs. Some (mpi_scan_usg M bs)) (rdn k 0 key_len));
     str_Q \<leftarrow> str_print_hex (65 * 2 + 1) Q (1 + 2 * key_len);
     Some (case str_printf alloc (sexp_key_format (mpi_d \<noteq> None) curve str_Q) of
         None \<Rightarrow> (GPG_ERR_ENOMEM G, None)
       | Some strfmt \<Rightarrow> g_sexp_build G strfmt (case mpi_d of None \<Rightarrow> [] | Some d \<Rightarrow> [d]))
   }"

definition sexp_hash_format :: string where
  "sexp_hash_format = ''(data  (flags raw param)  (value %m))''"

definition aacs_sexp_hash :: "mpi_lib \<Rightarrow> 's gcrypt \<Rightarrow> byte list \<Rightarrow> nat \<Rightarrow> md_algo \<Rightarrow> (int \<times> 's ptr) ub" where
  "aacs_sexp_hash M G block len hash_type =
     (if hash_type = MD_OTHER then Some (GPG_ERR_UNKNOWN_ALGORITHM G, None)
      else do {
        bs \<leftarrow> rdn block 0 len;
        Some (g_sexp_build G sexp_hash_format [mpi_scan_usg M (g_md_hash G hash_type bs)])
      })"

definition sexp_sig_format :: string where
  "sexp_sig_format = ''(sig-val  (ecdsa    (r %m) (s %m)))''"

definition aacs_sexp_signature :: "mpi_lib \<Rightarrow> 's gcrypt \<Rightarrow> byte list \<Rightarrow> nat \<Rightarrow> (int \<times> 's ptr) ub" where
  "aacs_sexp_signature M G signature key_len = do {
     r \<leftarrow> rdn signature 0 key_len;
     s \<leftarrow> rdn signature key_len key_len;
     Some (g_sexp_build G sexp_sig_format [mpi_scan_usg M r, mpi_scan_usg M s])
   }"

section \<open>Signatures\<close>

text \<open>
  \<open>gcry_mpi_print\<close> of a value into 20 bytes at \<open>off\<close>, moved to the right end of the field with
  zeros before it.  \<open>n\<close> is the count variable of the caller.
\<close>

definition print_padded_20 :: "mpi_lib \<Rightarrow> byte list \<Rightarrow> nat \<Rightarrow> nat \<Rightarrow> int \<Rightarrow> (byte list \<times> nat) ub" where
  "print_padded_20 M buf off n a = do {
     (buf, n) \<leftarrow> mpi_print M buf off 20 n a;
     if n < 20 then do {
       bs \<leftarrow> rdn buf off n;
       buf \<leftarrow> memcpy_at buf (off + 20 - n) bs;
       buf \<leftarrow> memcpy_at buf off (zeros (20 - n));
       Some (buf, n)
     } else Some (buf, n)
   }"

text \<open>The return value and \<open>signature\<close>; \<open>n0\<close> is the indeterminate initial value of the local \<open>n\<close>.\<close>

definition crypto_aacs_sign :: "(nat \<Rightarrow> bool) \<Rightarrow> mpi_lib \<Rightarrow> 's gcrypt \<Rightarrow> nat \<Rightarrow> byte list \<Rightarrow> byte list \<Rightarrow>
    byte list \<Rightarrow> byte list \<Rightarrow> byte list \<Rightarrow> (int \<times> byte list) ub" where
  "crypto_aacs_sign alloc M G n0 cert priv_key signature nonce point = do {
     (err, sexp_key) \<leftarrow> aacs_sexp_key alloc M G (drop 12 cert) (drop 32 cert) (Some priv_key) aacs1_curve 20;
     if err \<noteq> 0 then Some (err, signature)
     else do {
       a \<leftarrow> rdn nonce 0 20;
       b \<leftarrow> rdn point 0 40;
       (err, sexp_data) \<leftarrow> aacs_sexp_hash M G (a @ b) 60 MD_SHA1;
       if err \<noteq> 0 then Some (err, signature)
       else
         let (err, sexp_sig) = g_pk_sign G sexp_data sexp_key in
         if err \<noteq> 0 then Some (err, signature)
         else
           let sexp_r = g_sexp_find_token G sexp_sig ''r'';
               sexp_s = g_sexp_find_token G sexp_sig ''s''
           in do {
             mpi_r \<leftarrow> g_sexp_nth_mpi G sexp_r 1;
             (signature, n) \<leftarrow> print_padded_20 M signature 0 n0 mpi_r;
             mpi_s \<leftarrow> g_sexp_nth_mpi G sexp_s 1;
             (signature, n) \<leftarrow> print_padded_20 M signature 20 n mpi_s;
             Some (err, signature)
           }
     }
   }"

definition aacs_verify :: "(nat \<Rightarrow> bool) \<Rightarrow> mpi_lib \<Rightarrow> 's gcrypt \<Rightarrow> byte list \<Rightarrow> md_algo \<Rightarrow> byte list \<Rightarrow>
    byte list \<Rightarrow> byte list \<Rightarrow> nat \<Rightarrow> int ub" where
  "aacs_verify alloc M G signature hash_type q_x q_y data len =
     (case (case hash_type of MD_SHA1 \<Rightarrow> Some (aacs1_curve, 20) | MD_SHA256 \<Rightarrow> Some (aacs2_curve, 32)
            | MD_OTHER \<Rightarrow> None) of
        None \<Rightarrow> Some (GPG_ERR_UNSUPPORTED_ALGORITHM G)
      | Some (curve, key_len) \<Rightarrow> do {
          (err, sexp_key) \<leftarrow> aacs_sexp_key alloc M G q_x q_y None curve key_len;
          if err \<noteq> 0 then Some err
          else do {
            (err, sexp_data) \<leftarrow> aacs_sexp_hash M G data len hash_type;
            if err \<noteq> 0 then Some err
            else do {
              (err, sexp_sig) \<leftarrow> aacs_sexp_signature M G signature key_len;
              if err \<noteq> 0 then Some err
              else Some (g_pk_verify G sexp_sig sexp_data sexp_key)
            }
          }
        })"

definition crypto_aacs_verify :: "(nat \<Rightarrow> bool) \<Rightarrow> mpi_lib \<Rightarrow> 's gcrypt \<Rightarrow> byte list \<Rightarrow> byte list \<Rightarrow>
    byte list \<Rightarrow> nat \<Rightarrow> int ub" where
  "crypto_aacs_verify alloc M G cert signature data len =
     aacs_verify alloc M G signature MD_SHA1 (drop 12 cert) (drop 32 cert) data len"

definition aacs_la_pubkey_x :: "byte list" where
  "aacs_la_pubkey_x = [0x63, 0xC2, 0x1D, 0xFF, 0xB2, 0xB2, 0x79, 0x8A, 0x13, 0xB5,
     0x8D, 0x61, 0x16, 0x6C, 0x4E, 0x4A, 0xAC, 0x8A, 0x07, 0x72]"
definition aacs_la_pubkey_y :: "byte list" where
  "aacs_la_pubkey_y = [0x13, 0x7E, 0xC6, 0x38, 0x81, 0x8F, 0xD9, 0x8F, 0xA4, 0xC3,
     0x0B, 0x99, 0x67, 0x28, 0xBF, 0x4B, 0x91, 0x7F, 0x6A, 0x27]"

definition crypto_aacs_verify_aacsla :: "(nat \<Rightarrow> bool) \<Rightarrow> mpi_lib \<Rightarrow> 's gcrypt \<Rightarrow> byte list \<Rightarrow>
    byte list \<Rightarrow> nat \<Rightarrow> int ub" where
  "crypto_aacs_verify_aacsla alloc M G signature data len =
     aacs_verify alloc M G signature MD_SHA1 aacs_la_pubkey_x aacs_la_pubkey_y data len"

definition aacs_cc_pubkey_x :: "byte list" where
  "aacs_cc_pubkey_x = [0x78, 0x4C, 0xF5, 0xC3, 0x63, 0x97, 0xA4, 0x39, 0x04, 0x06,
     0xA4, 0x9F, 0x78, 0x00, 0xC7, 0x7D, 0xE9, 0x0C, 0xB3, 0x4C]"
definition aacs_cc_pubkey_y :: "byte list" where
  "aacs_cc_pubkey_y = [0x00, 0x1D, 0xF3, 0x6B, 0x8F, 0x2E, 0xCF, 0x83, 0xCD, 0xEE,
     0x43, 0x8F, 0x7F, 0xD1, 0xF4, 0x80, 0x6F, 0xD2, 0x0D, 0xE7]"
definition aacs2_cc_pubkey_x :: "byte list" where
  "aacs2_cc_pubkey_x = [0xE7, 0x0D, 0x49, 0xD2, 0x6F, 0x45, 0xEA, 0xA7, 0x36, 0x93, 0x9D, 0x72,
     0x88, 0x2E, 0xD8, 0xFB, 0xA1, 0x60, 0x70, 0x26, 0x96, 0x39, 0x49, 0x97, 0x04, 0x96, 0xC9, 0x10,
     0xEA, 0x5C, 0x9D, 0xC2]"
definition aacs2_cc_pubkey_y :: "byte list" where
  "aacs2_cc_pubkey_y = [0xD1, 0xF5, 0x89, 0x7C, 0xEC, 0xB8, 0x44, 0x01, 0x4E, 0x0F, 0xB0, 0x8C,
     0xC7, 0x6E, 0x20, 0xE8, 0x54, 0x5E, 0xCC, 0x27, 0x1E, 0xE4, 0x6C, 0x4A, 0xEF, 0x81, 0xD9, 0x16,
     0x9B, 0xF8, 0x41, 0x72]"

definition crypto_aacs_verify_aacscc :: "(nat \<Rightarrow> bool) \<Rightarrow> mpi_lib \<Rightarrow> 's gcrypt \<Rightarrow> byte list \<Rightarrow>
    byte list \<Rightarrow> nat \<Rightarrow> int ub" where
  "crypto_aacs_verify_aacscc alloc M G signature data len = do {
     b \<leftarrow> rd data 0;
     if b = 0x00 then aacs_verify alloc M G signature MD_SHA1 aacs_cc_pubkey_x aacs_cc_pubkey_y data len
     else if b = 0x10 then
       aacs_verify alloc M G signature MD_SHA256 aacs2_cc_pubkey_x aacs2_cc_pubkey_y data len
     else Some (GPG_ERR_UNSUPPORTED_CERT G)
   }"

definition aacs_verify_cert :: "(nat \<Rightarrow> bool) \<Rightarrow> mpi_lib \<Rightarrow> 's gcrypt \<Rightarrow> byte list \<Rightarrow> int ub" where
  "aacs_verify_cert alloc M G cert = do {
     l \<leftarrow> rd_be16 cert 2;
     if l \<noteq> 0x5c then Some (GPG_ERR_UNSUPPORTED_CERT G)
     else crypto_aacs_verify_aacsla alloc M G (drop 52 cert) cert 52
   }"

definition crypto_aacs_verify_host_cert :: "(nat \<Rightarrow> bool) \<Rightarrow> mpi_lib \<Rightarrow> 's gcrypt \<Rightarrow> byte list \<Rightarrow> int ub" where
  "crypto_aacs_verify_host_cert alloc M G cert = do {
     b \<leftarrow> rd cert 0;
     if b = 0x02 then aacs_verify_cert alloc M G cert
     else if b = 0x12 then Some (GPG_ERR_UNSUPPORTED_CERT G)
     else Some (GPG_ERR_UNSUPPORTED_CERT G)
   }"

definition crypto_aacs_verify_drive_cert :: "(nat \<Rightarrow> bool) \<Rightarrow> mpi_lib \<Rightarrow> 's gcrypt \<Rightarrow> byte list \<Rightarrow> int ub" where
  "crypto_aacs_verify_drive_cert alloc M G cert = do {
     b \<leftarrow> rd cert 0;
     if b = 0x01 then aacs_verify_cert alloc M G cert
     else if b = 0x11 then Some (GPG_ERR_UNSUPPORTED_CERT G)
     else Some (GPG_ERR_UNSUPPORTED_CERT G)
   }"

definition crypto_aacs_title_hash :: "'s gcrypt \<Rightarrow> byte list \<Rightarrow> nat \<Rightarrow> byte list ub" where
  "crypto_aacs_title_hash G ukf len = map_option (g_md_hash G MD_SHA1) (rdn ukf 0 len)"

section \<open>Key agreement\<close>

record elliptic_curve =
  ecc_p :: int
  ecc_a :: int
  ecc_b :: int
  ecc_n :: int
  ecc_G :: mpi_point

definition aacs_curve_p :: "byte list" where
  "aacs_curve_p = [0x9D,0xC9,0xD8,0x13,0x55,0xEC,0xCE,0xB5,0x60,0xBD,
     0xB0,0x9E,0xF9,0xEA,0xE7,0xC4,0x79,0xA7,0xD7,0xDF]"
definition aacs_curve_a :: "byte list" where
  "aacs_curve_a = [0x9D,0xC9,0xD8,0x13,0x55,0xEC,0xCE,0xB5,0x60,0xBD,
     0xB0,0x9E,0xF9,0xEA,0xE7,0xC4,0x79,0xA7,0xD7,0xDC]"
definition aacs_curve_b :: "byte list" where
  "aacs_curve_b = [0x40,0x2D,0xAD,0x3E,0xC1,0xCB,0xCD,0x16,0x52,0x48,
     0xD6,0x8E,0x12,0x45,0xE0,0xC4,0xDA,0xAC,0xB1,0xD8]"
definition aacs_curve_n :: "byte list" where
  "aacs_curve_n = [0x9D,0xC9,0xD8,0x13,0x55,0xEC,0xCE,0xB5,0x60,0xBD,
     0xC4,0x4F,0x54,0x81,0x7B,0x2C,0x7F,0x5A,0xB0,0x17]"
definition aacs_curve_G_x :: "byte list" where
  "aacs_curve_G_x = [0x2E,0x64,0xFC,0x22,0x57,0x83,0x51,0xE6,0xF4,0xCC,
     0xA7,0xEB,0x81,0xD0,0xA4,0xBD,0xC5,0x4C,0xCE,0xC6]"
definition aacs_curve_G_y :: "byte list" where
  "aacs_curve_G_y = [0x09,0x14,0xA2,0x5D,0xD0,0x54,0x42,0x88,0x9D,0xB4,
     0x55,0xC7,0xF2,0x3C,0x9A,0x07,0x07,0xF5,0xCB,0xB9]"

definition aacs_curve_init :: "mpi_lib \<Rightarrow> elliptic_curve" where
  "aacs_curve_init M =
     \<lparr>ecc_p = mpi_scan_usg M aacs_curve_p, ecc_a = mpi_scan_usg M aacs_curve_a,
      ecc_b = mpi_scan_usg M aacs_curve_b, ecc_n = mpi_scan_usg M aacs_curve_n,
      ecc_G = \<lparr>px = mpi_scan_usg M aacs_curve_G_x, py = mpi_scan_usg M aacs_curve_G_y, pz = 1\<rparr>\<rparr>"

text \<open>The coordinates \<open>q_x\<close> and \<open>q_y\<close> stay 0 for the point at infinity.\<close>

definition affine_or_zero :: "mpi_lib \<Rightarrow> mpi_ec \<Rightarrow> mpi_point \<Rightarrow> int \<times> int" where
  "affine_or_zero M ctx q = (case snd (mpi_ec_get_affine M ctx q) of None \<Rightarrow> (0, 0) | Some xy \<Rightarrow> xy)"

text \<open>The 16 bytes stored in \<open>bus_key\<close>; \<open>bin\<close> is what the local buffer of 100 bytes holds on entry.\<close>

definition crypto_create_bus_key :: "mpi_lib \<Rightarrow> byte list \<Rightarrow> byte list \<Rightarrow> byte list \<Rightarrow> byte list ub" where
  "crypto_create_bus_key M bin priv_key drive_key_point =
     (let ec = aacs_curve_init M; ctx = mpi_ec_init M (ecc_p ec) (ecc_a ec) in do {
        k \<leftarrow> rdn priv_key 0 20;
        x \<leftarrow> rdn drive_key_point 0 20;
        y \<leftarrow> rdn drive_key_point 20 20;
        let Q = \<lparr>px = mpi_scan_usg M x, py = mpi_scan_usg M y, pz = 1\<rparr>;
        let bus_key_point = mpi_ec_mul_point M ctx (mpi_scan_usg M k) Q;
        let (q_x, q_y) = affine_or_zero M ctx bus_key_point;
        (q_x_bin, n) \<leftarrow> mpi_print M bin 0 100 0 q_x;
        if n < 16 then None else rdn q_x_bin (n - 16) 16
      })"

text \<open>The host key (what \<open>gcry_randomize\<close> returned) and the 40 bytes of its point.\<close>

definition crypto_create_host_key_pair :: "mpi_lib \<Rightarrow> nat \<Rightarrow> byte list \<Rightarrow> byte list \<Rightarrow> (byte list \<times> byte list) ub" where
  "crypto_create_host_key_pair M n0 rnd host_key_point =
     (let ec = aacs_curve_init M;
          ctx = mpi_ec_init M (ecc_p ec) (ecc_a ec);
          d = mpi_scan_usg M rnd;
          Q = mpi_ec_mul_point M ctx d (ecc_G ec);
          (q_x, q_y) = affine_or_zero M ctx Q
      in do {
        (host_key_point, n) \<leftarrow> print_padded_20 M host_key_point 0 n0 q_x;
        (host_key_point, n) \<leftarrow> print_padded_20 M host_key_point 20 n q_y;
        Some (rnd, host_key_point)
      })"

section \<open>Shifting and doubling\<close>

text \<open>\<open>shl_128\<close> leaves nothing of the old contents of its destination.\<close>

definition shl_byte :: "byte list \<Rightarrow> nat \<Rightarrow> byte" where
  "shl_byte src i = push_bit 1 (src ! i) OR (if i = 15 then 0 else drop_bit 7 (src ! Suc i))"

lemma shl_128_loop_nth:
  assumes "length dst = 16" and "n \<le> 16" and "overflow = (if n = 16 then 0 else drop_bit 7 (src ! n))"
    and "i < 16"
  shows "length (shl_128_loop src n overflow dst) = 16 \<and>
    shl_128_loop src n overflow dst ! i = (if i < n then shl_byte src i else dst ! i)"
  using assms
proof (induction src n overflow dst rule: shl_128_loop.induct)
  case (1 src overflow dst)
  then show ?case by simp
next
  case (2 src n overflow dst)
  let ?d = "dst[n := push_bit 1 (src ! n) OR overflow]"
  have "length (shl_128_loop src n (drop_bit 7 (src ! n)) ?d) = 16 \<and>
      shl_128_loop src n (drop_bit 7 (src ! n)) ?d ! i = (if i < n then shl_byte src i else ?d ! i)"
    using 2 by (intro "2.IH") auto
  moreover have "?d ! i = (if i = n then shl_byte src i else dst ! i)"
    using 2 by (auto simp: shl_byte_def)
  ultimately show ?case using 2 by (auto simp: less_Suc_eq)
qed

lemma shl_128_eq:
  assumes "length dst = 16"
  shows "shl_128 dst src = map (shl_byte src) [0..<16]"
proof (rule nth_equalityI)
  show "length (shl_128 dst src) = length (map (shl_byte src) [0..<16])"
    using shl_128_loop_nth [of dst 16 0 src 0] assms by (simp add: shl_128_def)
  fix i assume "i < length (shl_128 dst src)"
  then have "i < 16" using shl_128_loop_nth [of dst 16 0 src 0] assms by (simp add: shl_128_def)
  then show "shl_128 dst src ! i = map (shl_byte src) [0..<16] ! i"
    using shl_128_loop_nth [of dst 16 0 src i] assms by (simp add: shl_128_def)
qed

text \<open>The value of a byte string, bit by bit.\<close>

lemma be_val_Cons_or: "be_val (b # bs) = push_bit (8 * length bs) (unat b) OR be_val bs"
  using be_val_less [of bs] or_push_bit_nat [of "be_val bs" "8 * length bs" "unat b"]
  by (simp add: power_mult)

lemma bit_unat_byte: "bit (unat (b :: byte)) n \<longleftrightarrow> bit b n"
  by (rule bit_unsigned_iff [THEN trans]) (auto dest: bit_imp_le_length simp: possible_bit_nat)

lemma bit_be_val:
  "bit (be_val bs) n \<longleftrightarrow> n < 8 * length bs \<and> bit (bs ! (length bs - 1 - n div 8)) (n mod 8)"
proof (induction bs)
  case Nil
  show ?case by simp
next
  case (Cons b bs)
  show ?case
  proof (cases "n < 8 * length bs")
    case True
    then have "n div 8 < length bs" by (simp add: div_less_iff_less_mult mult.commute)
    then have "(b # bs) ! (length bs - n div 8) = bs ! (length bs - 1 - n div 8)"
      by (simp add: nth_Cons')
    with True Cons show ?thesis by (simp add: be_val_Cons_or bit_simps del: be_val.simps)
  next
    case False
    then obtain m where m: "n = 8 * length bs + m" by (metis le_iff_add not_less)
    have "bit (be_val bs) n = False" using False Cons by simp
    moreover have "bit b m \<longleftrightarrow> m < 8 \<and> bit b m" using bit_imp_le_length [of b m] by auto
    moreover have "m < 8 \<Longrightarrow> length bs - n div 8 = 0 \<and> n mod 8 = m" by (simp add: m)
    ultimately show ?thesis
      by (auto simp: be_val_Cons_or bit_simps bit_unat_byte m simp del: be_val.simps)
  qed
qed

lemma be_val_eqI: "length xs = length ys \<Longrightarrow> be_val xs = be_val ys \<Longrightarrow> xs = ys"
  by (metis be_enc_be_val)

text \<open>Doubling in the field of AES-CMAC, and what the two subkey steps compute.\<close>

definition gf_double :: "nat \<Rightarrow> nat" where
  "gf_double v = (2 * v mod 2 ^ 128) XOR (if 2 ^ 127 \<le> v then 0x87 else 0)"

lemma bit_shl_byte:
  "k < 8 \<Longrightarrow> bit (shl_byte src i) k \<longleftrightarrow>
     (if k = 0 then i \<noteq> 15 \<and> bit (src ! Suc i) 7 else bit (src ! i) (k - 1))"
  using bit_imp_le_length [of "src ! Suc i" "7 + k"]
  by (auto simp: shl_byte_def bit_or_iff bit_push_bit_iff [of 1] bit_drop_bit_eq possible_bit_word
      simp del: One_nat_def)

lemma be_val_shl:
  assumes "length src = 16"
  shows "be_val (map (shl_byte src) [0..<16]) = 2 * be_val src mod 2 ^ 128"
proof -
  have shift: "bit (take_bit 128 (push_bit 1 (be_val src))) n \<longleftrightarrow> n < 128 \<and> 1 \<le> n \<and> bit (be_val src) (n - 1)"
    for n by (simp only: bit_take_bit_iff bit_push_bit_iff possible_bit_nat simp_thms)
  have "take_bit 128 (push_bit 1 (be_val src)) = 2 * be_val src mod 2 ^ 128"
    by (simp only: take_bit_eq_mod push_bit_eq_mult power_one_right mult.commute)
  moreover have "be_val (map (shl_byte src) [0..<16]) = take_bit 128 (push_bit 1 (be_val src))"
  proof (rule bit_eqI)
    fix n
    have "bit (be_val (map (shl_byte src) [0..<16])) n \<longleftrightarrow> n < 128 \<and> 1 \<le> n \<and> bit (be_val src) (n - 1)"
    proof (cases "n < 128")
      case False
      then show ?thesis by (simp add: bit_be_val)
    next
      case True
      define q and k where "q = n div 8" and "k = n mod 8"
      have n: "n = 8 * q + k" "k < 8" "q < 16" using True by (simp_all add: q_def k_def)
      show ?thesis
      proof (cases "k = 0")
        case zero: True
        show ?thesis
        proof (cases q)
          case 0
          with zero n show ?thesis by (simp add: bit_be_val bit_shl_byte)
        next
          case (Suc r)
          have "(n - 1) div 8 = r" "(n - 1) mod 8 = 7" "n div 8 = Suc r" "n mod 8 = 0"
            using Suc zero n by simp_all
          moreover have "Suc (14 - r) = 15 - r" "14 - r \<noteq> 15" using Suc n by simp_all
          ultimately show ?thesis
            using True Suc n assms by (simp add: bit_be_val bit_shl_byte)
        qed
      next
        case False
        then have "n - 1 = 8 * q + (k - 1)" using n by simp
        then have "(n - 1) div 8 = q" "(n - 1) mod 8 = k - 1" "n div 8 = q" "n mod 8 = k"
          using n by simp_all
        moreover have "n - 1 < 128" using True by simp
        ultimately show ?thesis using False n assms by (simp add: bit_be_val bit_shl_byte)
      qed
    qed
    then show "bit (be_val (map (shl_byte src) [0..<16])) n \<longleftrightarrow> bit (take_bit 128 (push_bit 1 (be_val src))) n"
      by (simp only: shift)
  qed
  ultimately show ?thesis by simp
qed

lemma be_val_xor_last:
  assumes "length k = 16"
  shows "be_val (k[15 := k ! 15 XOR c]) = be_val k XOR unat c"
proof (rule bit_eqI)
  fix n
  have "bit c n \<Longrightarrow> n < 8" using bit_imp_le_length [of c n] by simp
  then show "bit (be_val (k[15 := k ! 15 XOR c])) n \<longleftrightarrow> bit (be_val k XOR unat c) n"
    using assms by (cases "n < 8") (auto simp: bit_be_val bit_simps bit_unat_byte)
qed

lemma top_bit:
  assumes "length src = 16"
  shows "src ! 0 AND 0x80 \<noteq> 0 \<longleftrightarrow> 2 ^ 127 \<le> be_val src"
proof -
  have "src ! 0 AND 0x80 \<noteq> 0 \<longleftrightarrow> bit (src ! 0) 7"
    using and_exp_eq_0_iff_not_bit [of "src ! 0" 7] by simp
  also have "\<dots> \<longleftrightarrow> bit (be_val src) 127" using assms by (simp add: bit_be_val)
  also have "\<dots> \<longleftrightarrow> odd (be_val src div 2 ^ 127)" by (rule bit_iff_odd)
  also have "\<dots> \<longleftrightarrow> 2 ^ 127 \<le> be_val src"
  proof -
    have "be_val src < 2 ^ 128" using be_val_less [of src] assms by simp
    then have "be_val src div 2 ^ 127 < 2" by (intro less_mult_imp_div_less) simp
    moreover have "0 < be_val src div 2 ^ 127 \<longleftrightarrow> 2 ^ 127 \<le> be_val src"
      by (simp only: div_greater_zero_iff) simp
    ultimately show ?thesis by (cases "be_val src div 2 ^ 127") auto
  qed
  finally show ?thesis .
qed

lemma cmac_subkey_value:
  assumes "length dst = 16" and "length src = 16"
  shows "cmac_subkey dst src = be_enc 16 (gf_double (be_val src))"
proof -
  have len: "length (cmac_subkey dst src) = 16" by (simp add: cmac_subkey_def Let_def shl_128_eq assms)
  have "be_val (cmac_subkey dst src) = gf_double (be_val src)"
    unfolding cmac_subkey_def Let_def shl_128_eq [OF assms(1)] gf_double_def top_bit [OF assms(2)]
    using be_val_xor_last [of "map (shl_byte src) [0..<16]" "0x87"] be_val_shl [OF assms(2)]
    by (simp del: upt_rec_numeral list.map)
  then show ?thesis using be_enc_be_val [of "cmac_subkey dst src"] len by simp
qed

section \<open>Printing integers\<close>

lemma be_enc_pad: "v < 256 ^ m \<Longrightarrow> be_enc (k + m) v = zeros k @ be_enc m v"
proof (induction k)
  case 0
  then show ?case by (simp add: zeros_def)
next
  case (Suc k)
  have "(256::nat) ^ m \<le> 256 ^ (k + m)" by (rule power_increasing) simp_all
  with Suc.prems have "v < 256 ^ (k + m)" by (rule less_le_trans)
  with Suc show ?case by (simp add: zeros_def)
qed

lemma drop_be_enc: "v < 256 ^ (k + m) \<Longrightarrow> drop k (be_enc (k + m) v) = be_enc m (v mod 256 ^ m)"
proof (induction k arbitrary: v)
  case 0
  then show ?case by simp
next
  case (Suc k)
  have "(256::nat) ^ m dvd 256 ^ (k + m)" by (rule le_imp_power_dvd) simp
  then have "v mod 256 ^ (k + m) mod 256 ^ m = v mod 256 ^ m" by (rule mod_mod_cancel)
  with Suc.IH [of "v mod 256 ^ (k + m)"] show ?case by simp
qed

lemma mpi_usg_eq:
  assumes "mpi_usg_ok M" and "0 \<le> a"
  shows "mpi_usg M a = be_enc (length (mpi_usg M a)) (nat a)"
    and "nat a < 256 ^ length (mpi_usg M a)"
proof -
  have "int (be_val (mpi_usg M a)) = a" using assms by (simp add: mpi_usg_ok_def)
  then have v: "be_val (mpi_usg M a) = nat a" by simp
  show "mpi_usg M a = be_enc (length (mpi_usg M a)) (nat a)" by (simp add: be_enc_be_val flip: v)
  show "nat a < 256 ^ length (mpi_usg M a)" using be_val_less [of "mpi_usg M a"] by (simp only: v)
qed

lemma print_padded_20_eq:
  assumes "mpi_usg_ok M" and "0 \<le> a" and "a < 256 ^ 20" and "off + 20 \<le> length buf"
  shows "\<exists>n'. print_padded_20 M buf off n a =
    Some (take off buf @ be_enc 20 (nat a) @ drop (off + 20) buf, n')"
proof -
  let ?m = "length (mpi_usg M a)"
  have m: "?m \<le> 20" using assms by (simp add: mpi_usg_ok_def)
  note u = mpi_usg_eq [OF assms(1,2)]
  let ?b = "take off buf @ mpi_usg M a @ drop (off + ?m) buf"
  have p: "mpi_print M buf off 20 n a = Some (?b, ?m)"
    using m assms(4) by (simp add: mpi_print_def memcpy_at_def Let_def)
  have e: "be_enc 20 (nat a) = zeros (20 - ?m) @ mpi_usg M a"
    using be_enc_pad [OF u(2), of "20 - ?m"] m u(1) by simp
  show ?thesis
  proof (cases "?m = 20")
    case True
    then show ?thesis using p e by (simp add: print_padded_20_def zeros_def)
  next
    case False
    with m have lt: "?m < 20" by simp
    have r: "rdn ?b off ?m = Some (mpi_usg M a)" using assms(4) m by (simp add: rdn_def)
    define A X D where "A = take off buf" and "X = take (20 - ?m) (mpi_usg M a @ drop (off + ?m) buf)"
      and "D = drop (off + 20) buf"
    have len: "length A = off" "length X = 20 - ?m" using assms(4) m by (simp_all add: A_def X_def)
    let ?c = "A @ X @ mpi_usg M a @ D"
    have off: "off + 20 - ?m = off + (20 - ?m)" using m by simp
    have "take (off + (20 - ?m)) ?b = A @ X" using len(1) by (simp add: A_def X_def)
    moreover have "drop (off + 20) ?b = D" using assms(4) m by (simp add: D_def add.commute)
    ultimately have c: "memcpy_at ?b (off + 20 - ?m) (mpi_usg M a) = Some ?c"
      using assms(4) m unfolding off by (simp add: memcpy_at_def)
    have d: "memcpy_at ?c off (zeros (20 - ?m)) = Some (A @ zeros (20 - ?m) @ mpi_usg M a @ D)"
      using len by (simp add: memcpy_at_def)
    show ?thesis using p r c d lt by (simp add: print_padded_20_def e A_def D_def)
  qed
qed

section \<open>Properties\<close>

definition aes_ok :: "'s gcrypt \<Rightarrow> byte list \<Rightarrow> bool" where
  "aes_ok G key \<longleftrightarrow> g_cipher_open G ECB = 0 \<and> g_cipher_setkey G key = 0 \<and>
     (\<forall>x. fst (g_ecb_encrypt G key x) = 0 \<and> length (snd (g_ecb_encrypt G key x)) = length x)"

text \<open>
  For a block of 16 bytes \<open>crypto_aes_cmac_16\<close> is AES-CMAC: the encryption of the block xor the
  subkey, where the subkey is the double of the encryption of the zero block in \<open>GF(2^128)\<close>.
\<close>

theorem cmac_block:
  assumes "aes_ok G key" and "length (fst loc) = 16" and "length (snd loc) = 16" and "16 \<le> length data"
  shows "crypto_aes_cmac_16 G loc data key cmac =
    Some (0, snd (g_ecb_encrypt G key (xor_bytes (take 16 data)
      (be_enc 16 (gf_double (be_val (snd (g_ecb_encrypt G key (zeros 16)))))))))"
proof -
  have e: "crypto_aes128e G key None x = (0, snd (g_ecb_encrypt G key x))" for x
    using assms(1) by (simp add: aes_ok_def crypto_aes128e_def prod_eq_iff)
  have "length (snd (g_ecb_encrypt G key (zeros 16))) = 16" using assms(1) by (simp add: aes_ok_def)
  then show ?thesis
    using assms(2-4) by (simp add: crypto_aes_cmac_16_def cmac_key_def e Let_def rdn_def cmac_subkey_value)
qed

text \<open>A library in which every call succeeds; its ciphers are not meant to hide anything.\<close>

definition toy_gcrypt :: "(string \<times> int list) gcrypt" where
  "toy_gcrypt = \<lparr>g_cipher_open = (\<lambda>_. 0), g_cipher_setkey = (\<lambda>_. 0), g_cipher_setiv = (\<lambda>_. 0),
     g_ecb_encrypt = (\<lambda>k x. (0, zeros (length x))),
     g_ecb_decrypt = (\<lambda>k x. (0, xor_bytes x (take (length x) (k @ zeros (length x))))),
     g_cbc_decrypt = (\<lambda>k iv x. (0, xor_bytes x (take (length x) (k @ zeros (length x))))),
     g_md_hash = (\<lambda>a x. zeros (if a = MD_SHA1 then 20 else 32)),
     g_sexp_build = (\<lambda>f args. (0, Some (f, args))),
     g_pk_sign = (\<lambda>d k. (0, Some (''sig'', [5, 7]))),
     g_pk_verify = (\<lambda>s d k. if s = Some (sexp_sig_format, [5, 7]) then 0 else 1),
     g_sexp_find_token = (\<lambda>s t. map_option (\<lambda>(f, args). (t, args)) s),
     g_sexp_nth_mpi = (\<lambda>s n. case s of None \<Rightarrow> None
        | Some (f, args) \<Rightarrow> Some (if f = ''r'' then args ! 0 else args ! 1)),
     GPG_ERR_ENOMEM = 86, GPG_ERR_UNKNOWN_ALGORITHM = 149, GPG_ERR_UNSUPPORTED_ALGORITHM = 84,
     GPG_ERR_UNSUPPORTED_CERT = 102\<rparr>"

lemma toy_gcrypt_ok: "gcrypt_ok toy_gcrypt" "aes_ok toy_gcrypt key"
  by (simp_all add: gcrypt_ok_def aes_ok_def toy_gcrypt_def)

theorem cmac_block_witness:
  "crypto_aes_cmac_16 toy_gcrypt (zeros 16, zeros 16) (zeros 20) (zeros 16) [] =
    Some (0, snd (g_ecb_encrypt toy_gcrypt (zeros 16) (xor_bytes (take 16 (zeros 20))
      (be_enc 16 (gf_double (be_val (snd (g_ecb_encrypt toy_gcrypt (zeros 16) (zeros 16)))))))))"
  by (rule cmac_block) (simp_all add: toy_gcrypt_ok)

text \<open>The point \<open>Q\<close> of a key, as the text \<open>04 || x || y\<close> in the s-expression.\<close>

definition point_text :: "byte list \<Rightarrow> byte list \<Rightarrow> string" where
  "point_text x y = print_hex_loop ([0x04] @ x @ y)"

lemma aacs_sexp_key_eq:
  assumes "n \<le> length x" and "n \<le> length y" and "\<forall>k. priv = Some k \<longrightarrow> n \<le> length k" and "n \<le> 32"
  shows "aacs_sexp_key alloc M G x y priv curve n =
     Some (case str_printf alloc (sexp_key_format (priv \<noteq> None) curve (point_text (take n x) (take n y))) of
         None \<Rightarrow> (GPG_ERR_ENOMEM G, None)
       | Some strfmt \<Rightarrow> g_sexp_build G strfmt
          (case priv of None \<Rightarrow> [] | Some k \<Rightarrow> [mpi_scan_usg M (take n k)]))"
  using assms
  by (cases priv) (simp_all add: aacs_sexp_key_def point_text_def rdn_def str_print_hex_def Let_def
      split: option.splits)

lemma aacs_verify_sha1_eq:
  assumes "gcrypt_ok G" and "40 \<le> length sg" and "20 \<le> length x" and "20 \<le> length y"
    and "len \<le> length data"
  shows "aacs_verify alloc M G sg MD_SHA1 x y data len = Some
    (case str_printf alloc (sexp_key_format False aacs1_curve (point_text (take 20 x) (take 20 y))) of
       None \<Rightarrow> GPG_ERR_ENOMEM G
     | Some strfmt \<Rightarrow>
         let (e1, key) = g_sexp_build G strfmt [];
             (e2, dat) = g_sexp_build G sexp_hash_format [mpi_scan_usg M (g_md_hash G MD_SHA1 (take len data))];
             (e3, sig) = g_sexp_build G sexp_sig_format
               [mpi_scan_usg M (take 20 sg), mpi_scan_usg M (take 20 (drop 20 sg))]
         in if e1 \<noteq> 0 then e1 else if e2 \<noteq> 0 then e2 else if e3 \<noteq> 0 then e3 else g_pk_verify G sig dat key)"
proof -
  have key: "aacs_sexp_key alloc M G x y None aacs1_curve 20 =
     Some (case str_printf alloc (sexp_key_format False aacs1_curve (point_text (take 20 x) (take 20 y))) of
         None \<Rightarrow> (GPG_ERR_ENOMEM G, None) | Some strfmt \<Rightarrow> g_sexp_build G strfmt [])"
    using aacs_sexp_key_eq [of 20 x y None alloc M G aacs1_curve] assms by (simp split: option.splits)
  have hash: "aacs_sexp_hash M G data len MD_SHA1 =
     Some (g_sexp_build G sexp_hash_format [mpi_scan_usg M (g_md_hash G MD_SHA1 (take len data))])"
    using assms by (simp add: aacs_sexp_hash_def rdn_def)
  have sig: "aacs_sexp_signature M G sg 20 = Some (g_sexp_build G sexp_sig_format
     [mpi_scan_usg M (take 20 sg), mpi_scan_usg M (take 20 (drop 20 sg))])"
    using assms by (simp add: aacs_sexp_signature_def rdn_def)
  have "GPG_ERR_ENOMEM G \<noteq> 0" using assms(1) by (simp add: gcrypt_ok_def)
  then show ?thesis
    unfolding aacs_verify_def md_algo.case option.case prod.case key hash sig
    by (auto simp: Let_def split: option.splits prod.splits)
qed

lemma aacs_verify_take:
  assumes "len \<le> length data"
  shows "aacs_verify alloc M G sg h x y (take len data) len = aacs_verify alloc M G sg h x y data len"
proof -
  have "aacs_sexp_hash M G (take len data) len h = aacs_sexp_hash M G data len h"
    using assms by (simp add: aacs_sexp_hash_def rdn_def)
  then show ?thesis by (simp only: aacs_verify_def)
qed

text \<open>
  On the 92 bytes of a certificate the drive check never reads outside them, and accepts
  exactly a type 1 certificate of length 92 whose last 40 bytes the AACS LA key verifies as the
  signature of the first 52; every other type is refused.
\<close>

theorem verify_drive_cert_spec:
  assumes "gcrypt_ok G" and "length cert = 92"
  shows "\<exists>err. crypto_aacs_verify_drive_cert alloc M G cert = Some err \<and>
    (err = 0 \<longleftrightarrow> cert ! 0 = 0x01 \<and> be_val [cert ! 2, cert ! 3] = 92 \<and>
       crypto_aacs_verify_aacsla alloc M G (drop 52 cert) (take 52 cert) 52 = Some 0)"
proof -
  have l: "length aacs_la_pubkey_x = 20" "length aacs_la_pubkey_y = 20"
    by (simp_all add: aacs_la_pubkey_x_def aacs_la_pubkey_y_def)
  have bad: "GPG_ERR_UNSUPPORTED_CERT G \<noteq> 0" using assms(1) by (simp add: gcrypt_ok_def)
  have "take 2 (drop 2 cert) = [cert ! 2, cert ! 3]"
    using assms(2) by (intro nth_equalityI) (auto simp: less_Suc_eq numeral_2_eq_2 numeral_3_eq_3)
  then have be: "rd_be16 cert 2 = Some (be_val [cert ! 2, cert ! 3])"
    using assms(2) by (simp add: rd_be_defined)
  have b0: "rd cert 0 = Some (cert ! 0)" using assms(2) by (simp add: rd_def)
  obtain err where err: "crypto_aacs_verify_aacsla alloc M G (drop 52 cert) cert 52 = Some err"
    using aacs_verify_sha1_eq [OF assms(1), of "drop 52 cert" aacs_la_pubkey_x aacs_la_pubkey_y 52 cert alloc M]
      l assms(2) unfolding crypto_aacs_verify_aacsla_def by simp
  have same: "crypto_aacs_verify_aacsla alloc M G (drop 52 cert) (take 52 cert) 52 = Some err"
    using err assms(2) by (simp add: crypto_aacs_verify_aacsla_def aacs_verify_take)
  show ?thesis
    unfolding crypto_aacs_verify_drive_cert_def aacs_verify_cert_def b0 be bind.bind_lunit err same
    using bad by auto
qed

definition toy_cert :: "byte list" where
  "toy_cert = [0x01, 0, 0, 0x5c] @ zeros 48 @ zeros 19 @ [5] @ zeros 19 @ [7]"

theorem verify_drive_cert_spec_witness:
  "length toy_cert = 92 \<and> (\<exists>err. crypto_aacs_verify_drive_cert (\<lambda>_. True) std_mpi toy_gcrypt toy_cert = Some err \<and>
    (err = 0 \<longleftrightarrow> toy_cert ! 0 = 0x01 \<and> be_val [toy_cert ! 2, toy_cert ! 3] = 92 \<and>
       crypto_aacs_verify_aacsla (\<lambda>_. True) std_mpi toy_gcrypt (drop 52 toy_cert) (take 52 toy_cert) 52 = Some 0))"
proof -
  have l: "length toy_cert = 92" by (simp add: toy_cert_def)
  with verify_drive_cert_spec [OF toy_gcrypt_ok(1) l] show ?thesis by blast
qed

text \<open>
  The contract of the ECDSA calls for a key pair: what \<open>gcry_pk_sign\<close> returns for the private key
  of the certificate's point holds two integers that \<open>gcry_pk_verify\<close> accepts for its public key.
\<close>

definition ecdsa_pair :: "mpi_lib \<Rightarrow> 's gcrypt \<Rightarrow> byte list \<Rightarrow> byte list \<Rightarrow> bool" where
  "ecdsa_pair M G cert priv \<longleftrightarrow>
     (let Q = point_text (take 20 (drop 12 cert)) (take 20 (drop 32 cert)) in
      \<forall>sk dat sg. g_sexp_build G (sexp_key_format True aacs1_curve Q) [mpi_scan_usg M priv] = (0, sk) \<longrightarrow>
        g_pk_sign G dat sk = (0, sg) \<longrightarrow>
        (\<exists>r s. g_sexp_nth_mpi G (g_sexp_find_token G sg ''r'') 1 = Some r \<and>
           g_sexp_nth_mpi G (g_sexp_find_token G sg ''s'') 1 = Some s \<and>
           0 \<le> r \<and> r < 256 ^ 20 \<and> 0 \<le> s \<and> s < 256 ^ 20 \<and>
           (\<exists>sig pk. g_sexp_build G sexp_sig_format [r, s] = (0, sig) \<and>
              g_sexp_build G (sexp_key_format False aacs1_curve Q) [] = (0, pk) \<and>
              g_pk_verify G sig dat pk = 0)))"

lemma print_two:
  assumes "mpi_usg_ok M" and "0 \<le> r" "r < 256 ^ 20" "0 \<le> s" "s < 256 ^ 20" and "40 \<le> length buf"
  shows "\<exists>n1 n2. print_padded_20 M buf 0 n0 r = Some (be_enc 20 (nat r) @ drop 20 buf, n1) \<and>
    print_padded_20 M (be_enc 20 (nat r) @ drop 20 buf) 20 n1 s =
      Some (be_enc 20 (nat r) @ be_enc 20 (nat s) @ drop 40 buf, n2)"
proof -
  obtain n1 where 1: "print_padded_20 M buf 0 n0 r = Some (be_enc 20 (nat r) @ drop 20 buf, n1)"
    using print_padded_20_eq [OF assms(1-3), of 0 buf n0] assms(6) by auto
  let ?b = "be_enc 20 (nat r) @ drop 20 buf"
  have "take 20 ?b = be_enc 20 (nat r)" "drop (20 + 20) ?b = drop 40 buf" by simp_all
  then obtain n2 where "print_padded_20 M ?b 20 n1 s =
      Some (be_enc 20 (nat r) @ be_enc 20 (nat s) @ drop 40 buf, n2)"
    using print_padded_20_eq [OF assms(1,4,5), of 20 ?b n1] assms(6) by auto
  with 1 show ?thesis by blast
qed

text \<open>
  A signature that \<open>crypto_aacs_sign\<close> returns without an error is accepted by
  \<open>crypto_aacs_verify\<close> with the certificate of the same key pair over the nonce and the point, so
  the two integers survive their fixed-width layout in the 40 bytes.
\<close>

theorem sign_verify_roundtrip:
  assumes "mpi_ok M" and "gcrypt_ok G" and "ecdsa_pair M G cert (take 20 priv)"
    and "52 \<le> length cert" and "length nonce = 20" and "length point = 40" and "length sg0 = 40"
    and "crypto_aacs_sign (\<lambda>_. True) M G n0 cert priv sg0 nonce point = Some (0, sg)"
  shows "crypto_aacs_verify (\<lambda>_. True) M G cert sg (nonce @ point) 60 = Some 0"
proof -
  let ?Q = "point_text (take 20 (drop 12 cert)) (take 20 (drop 32 cert))"
  have usg: "mpi_usg_ok M" using assms(1) by (simp add: mpi_ok_def)
  have pr: "str_printf (\<lambda>_. True) f = Some f" for f by (simp add: str_printf_eq)
  have priv: "20 \<le> length priv"
  proof (rule ccontr)
    assume "\<not> 20 \<le> length priv"
    then have "aacs_sexp_key (\<lambda>_. True) M G (drop 12 cert) (drop 32 cert) (Some priv) aacs1_curve 20 = None"
      using assms(4) by (simp add: aacs_sexp_key_def rdn_def)
    with assms(8) show False by (simp add: crypto_aacs_sign_def)
  qed
  then have key: "aacs_sexp_key (\<lambda>_. True) M G (drop 12 cert) (drop 32 cert) (Some priv) aacs1_curve 20 =
      Some (g_sexp_build G (sexp_key_format True aacs1_curve ?Q) [mpi_scan_usg M (take 20 priv)])"
    using aacs_sexp_key_eq [of 20 "drop 12 cert" "drop 32 cert" "Some priv" "\<lambda>_. True" M G aacs1_curve] assms(4)
    by (simp add: pr)
  let ?hash = "g_sexp_build G sexp_hash_format [mpi_scan_usg M (g_md_hash G MD_SHA1 (nonce @ point))]"
  have hash: "aacs_sexp_hash M G (nonce @ point) 60 MD_SHA1 = Some ?hash"
    using assms(5,6) by (simp add: aacs_sexp_hash_def rdn_def)
  have in20: "rdn nonce 0 20 = Some nonce" "rdn point 0 40 = Some point" using assms(5,6) by (simp_all add: rdn_def)
  obtain sk where sk: "g_sexp_build G (sexp_key_format True aacs1_curve ?Q) [mpi_scan_usg M (take 20 priv)] = (0, sk)"
    using assms(8) unfolding crypto_aacs_sign_def key by (auto split: if_splits prod.splits)
  obtain dat where dat: "?hash = (0, dat)"
    using assms(8) unfolding crypto_aacs_sign_def key sk in20 hash bind.bind_lunit
    by (auto simp: hash split: if_splits prod.splits)
  obtain sig where sig: "g_pk_sign G dat sk = (0, sig)"
    using assms(8) unfolding crypto_aacs_sign_def key sk in20 bind.bind_lunit
    by (auto simp: hash dat split: if_splits prod.splits)
  obtain r s sigx pk where rs: "g_sexp_nth_mpi G (g_sexp_find_token G sig ''r'') 1 = Some r"
      "g_sexp_nth_mpi G (g_sexp_find_token G sig ''s'') 1 = Some s"
      "0 \<le> r" "r < 256 ^ 20" "0 \<le> s" "s < 256 ^ 20"
    and ver: "g_sexp_build G sexp_sig_format [r, s] = (0, sigx)"
      "g_sexp_build G (sexp_key_format False aacs1_curve ?Q) [] = (0, pk)" "g_pk_verify G sigx dat pk = 0"
    using assms(3) sk sig unfolding ecdsa_pair_def Let_def by blast
  obtain n1 n2 where "print_padded_20 M sg0 0 n0 r = Some (be_enc 20 (nat r) @ drop 20 sg0, n1)"
    "print_padded_20 M (be_enc 20 (nat r) @ drop 20 sg0) 20 n1 s =
      Some (be_enc 20 (nat r) @ be_enc 20 (nat s) @ drop 40 sg0, n2)"
    using print_two [OF usg rs(3-6), of sg0 n0] assms(7) by auto
  then have sg: "sg = be_enc 20 (nat r) @ be_enc 20 (nat s)"
    using assms(7,8) unfolding crypto_aacs_sign_def key sk in20 bind.bind_lunit
    by (simp add: hash dat sig rs [unfolded One_nat_def])
  have "mpi_scan_usg M (be_enc 20 (nat r)) = r" "mpi_scan_usg M (be_enc 20 (nat s)) = s"
    using usg rs by (simp_all add: mpi_usg_ok_def be_val_be_enc nat_less_iff)
  then show ?thesis
    unfolding crypto_aacs_verify_def
    using aacs_verify_sha1_eq [OF assms(2), of sg "drop 12 cert" "drop 32 cert" 60 "nonce @ point" "\<lambda>_. True" M]
      assms(4-6) sg pr ver dat by simp
qed

definition toy_signature :: "byte list" where
  "toy_signature = (zeros 19 @ [5]) @ (zeros 19 @ [7])"

lemma be_enc_20: "v < 256 \<Longrightarrow> be_enc 20 v = zeros 19 @ [word_of_nat v]"
  using be_enc_pad [of v 1 19] by simp

lemma toy_verify:
  assumes "length sg \<ge> 40" and "take 40 sg = toy_signature" and "20 \<le> length x" and "20 \<le> length y"
    and "len \<le> length data"
  shows "aacs_verify (\<lambda>_. True) std_mpi toy_gcrypt sg MD_SHA1 x y data len = Some 0"
proof -
  have "take 20 sg = take 20 (take 40 sg)" "take 20 (drop 20 sg) = drop 20 (take 40 sg)"
    by (simp_all add: take_drop min_def)
  then have "take 20 sg = zeros 19 @ [5]" "take 20 (drop 20 sg) = zeros 19 @ [7]"
    unfolding assms(2) by (simp_all add: toy_signature_def)
  then have "mpi_scan_usg std_mpi (take 20 sg) = 5" "mpi_scan_usg std_mpi (take 20 (drop 20 sg)) = 7"
    by (simp_all only: std_mpi_def mpi_lib.simps be_val_append) simp_all
  then show ?thesis
    using aacs_verify_sha1_eq [OF toy_gcrypt_ok(1) assms(1,3-5), of "\<lambda>_. True" std_mpi]
    by (simp add: str_printf_eq) (simp add: toy_gcrypt_def)
qed

lemma toy_sign:
  assumes "52 \<le> length cert" and "20 \<le> length priv" and "length nonce = 20" and "length point = 40"
  shows "crypto_aacs_sign (\<lambda>_. True) std_mpi toy_gcrypt n0 cert priv (zeros 40) nonce point = Some (0, toy_signature)"
proof -
  have usg: "mpi_usg_ok std_mpi" using mpi_ok_std by (simp add: mpi_ok_def)
  obtain n1 n2 where p: "print_padded_20 std_mpi (zeros 40) 0 n0 5 = Some (be_enc 20 5 @ drop 20 (zeros 40), n1)"
    "print_padded_20 std_mpi (be_enc 20 5 @ drop 20 (zeros 40)) 20 n1 7 =
      Some (be_enc 20 5 @ be_enc 20 7 @ drop 40 (zeros 40), n2)"
    using print_two [OF usg, of 5 7 "zeros 40" n0] by auto
  have q: "aacs_sexp_key (\<lambda>_. True) std_mpi toy_gcrypt (drop 12 cert) (drop 32 cert) (Some priv)
      aacs1_curve 20 = Some (g_sexp_build toy_gcrypt (sexp_key_format True aacs1_curve
        (point_text (take 20 (drop 12 cert)) (take 20 (drop 32 cert)))) [mpi_scan_usg std_mpi (take 20 priv)])"
    using aacs_sexp_key_eq [of 20 "drop 12 cert" "drop 32 cert" "Some priv" "\<lambda>_. True" std_mpi
        toy_gcrypt aacs1_curve] assms by (simp add: str_printf_eq)
  have "drop 40 (zeros 40) = []" by simp
  then show ?thesis
    unfolding crypto_aacs_sign_def q
    using p assms by (simp add: toy_gcrypt_def rdn_def aacs_sexp_hash_def toy_signature_def be_enc_20)
qed

theorem sign_verify_roundtrip_witness:
  "\<exists>sg. crypto_aacs_sign (\<lambda>_. True) std_mpi toy_gcrypt 0 toy_cert (zeros 20) (zeros 40) (zeros 20) (zeros 40)
      = Some (0, sg) \<and>
    crypto_aacs_verify (\<lambda>_. True) std_mpi toy_gcrypt toy_cert sg (zeros 20 @ zeros 40) 60 = Some 0"
proof -
  have pair: "ecdsa_pair std_mpi toy_gcrypt toy_cert (take 20 (zeros 20))"
    by (simp add: ecdsa_pair_def toy_gcrypt_def Let_def)
  have sg: "crypto_aacs_sign (\<lambda>_. True) std_mpi toy_gcrypt 0 toy_cert (zeros 20) (zeros 40) (zeros 20) (zeros 40)
      = Some (0, toy_signature)" by (rule toy_sign) (simp_all add: toy_cert_def)
  from sign_verify_roundtrip [OF mpi_ok_std toy_gcrypt_ok(1) pair _ _ _ _ sg] sg show ?thesis
    by (auto simp: toy_cert_def)
qed

lemma bus_key_eq:
  assumes "mpi_ok M" and "length bin = 100" and "20 \<le> length priv" and "40 \<le> length point"
    and "affine_or_zero M (mpi_ec_init M (ecc_p (aacs_curve_init M)) (ecc_a (aacs_curve_init M)))
      (mpi_ec_mul_point M (mpi_ec_init M (ecc_p (aacs_curve_init M)) (ecc_a (aacs_curve_init M)))
        (mpi_scan_usg M (take 20 priv))
        \<lparr>px = mpi_scan_usg M (take 20 point), py = mpi_scan_usg M (take 20 (drop 20 point)), pz = 1\<rparr>) = (x, y)"
    and "0 \<le> x" and "x < 2 ^ 160"
  shows "crypto_create_bus_key M bin priv point =
    (if 256 ^ 15 \<le> x then Some (be_enc 16 (nat x mod 2 ^ 128)) else None)"
proof -
  have usg: "mpi_usg_ok M" using assms(1) by (simp add: mpi_ok_def)
  let ?n = "length (mpi_usg M x)"
  note u = mpi_usg_eq [OF usg assms(6)]
  have n20: "?n \<le> 20" and n15: "?n \<le> 15 \<longleftrightarrow> x < 256 ^ 15"
    using usg assms(6,7) by (simp_all add: mpi_usg_ok_def)
  have p: "mpi_print M bin 0 100 0 x = Some (mpi_usg M x @ drop ?n bin, ?n)"
    using n20 assms(2) by (simp add: mpi_print_def memcpy_at_def Let_def)
  have ub: "\<not> ?n < 16 \<Longrightarrow> rdn (mpi_usg M x @ drop ?n bin) (?n - 16) 16 = Some (be_enc 16 (nat x mod 2 ^ 128))"
  proof -
    assume "\<not> ?n < 16"
    then obtain k where k: "?n = k + 16" by (metis add.commute le_iff_add not_less)
    have "drop k (mpi_usg M x) = be_enc 16 (nat x mod 256 ^ 16)"
      using drop_be_enc [of "nat x" k 16] u k by simp
    then show ?thesis using k by (simp add: rdn_def)
  qed
  show ?thesis
    using ub n15 assms(3-5)
    by (auto simp: crypto_create_bus_key_def Let_def rdn_def [of _ 0] rdn_def [of _ 20 20] p not_less)
qed

lemma aacs_curve_values:
  assumes "mpi_usg_ok M"
  shows "ecc_p (aacs_curve_init M) = 900812823637587646514106462588455890498729007071"
    "ecc_a (aacs_curve_init M) = 900812823637587646514106462588455890498729007068"
    "ecc_b (aacs_curve_init M) = 366394034647231750324370400222002566844354703832"
    "ecc_n (aacs_curve_init M) = 900812823637587646514106555566573588779770753047"
    "ecc_G (aacs_curve_init M) = \<lparr>px = 264865613959729647018113670854605162895977008838,
       py = 51841075954883162510413392745168936296187808697, pz = 1\<rparr>"
  using assms
  by (simp_all add: mpi_usg_ok_def aacs_curve_init_def aacs_curve_p_def aacs_curve_a_def aacs_curve_b_def
      aacs_curve_n_def aacs_curve_G_x_def aacs_curve_G_y_def)

lemma affine_of_affine:
  assumes arith: "mpi_arith_ok M" and p: "1 < p"
  shows "affine_or_zero M (mpi_ec_init M p a) \<lparr>px = x, py = y, pz = 1\<rparr> = (x mod p, y mod p)"
proof -
  let ?ctx = "mpi_ec_init M p a" and ?z = "mpi_invm M 1 p"
  have z: "?z mod p = 1" using arith p unfolding mpi_arith_ok_def by (metis coprime_1_left mult_1)
  have "?z * ?z mod p = (?z mod p) * (?z mod p) mod p" by (simp only: mod_simps)
  then have z2: "?z * ?z mod p = 1" using z p by simp
  have "1 * ?z mod p = 1" using z by simp
  then show ?thesis
    using z2 p
    by (simp add: affine_or_zero_def mpi_ec_get_affine_def mpi_cmp_ui_def mpi_cmp_eq [OF arith] Let_def
        ec_ops [OF arith] ec_init_fields [OF arith] ec_invm_def)
qed

lemma toy_agreement:
  "affine_or_zero std_mpi (mpi_ec_init std_mpi (ecc_p (aacs_curve_init std_mpi)) (ecc_a (aacs_curve_init std_mpi)))
      (mpi_ec_mul_point std_mpi (mpi_ec_init std_mpi (ecc_p (aacs_curve_init std_mpi)) (ecc_a (aacs_curve_init std_mpi)))
        (mpi_scan_usg std_mpi (take 20 (zeros 19 @ [1])))
        \<lparr>px = mpi_scan_usg std_mpi (take 20 (aacs_curve_G_x @ aacs_curve_G_y)),
          py = mpi_scan_usg std_mpi (take 20 (drop 20 (aacs_curve_G_x @ aacs_curve_G_y))), pz = 1\<rparr>) =
      (264865613959729647018113670854605162895977008838, 51841075954883162510413392745168936296187808697)"
proof -
  have usg: "mpi_usg_ok std_mpi" using mpi_ok_std by (simp add: mpi_ok_def)
  note v = aacs_curve_values [OF usg]
  let ?ctx = "mpi_ec_init std_mpi 900812823637587646514106462588455890498729007071
      900812823637587646514106462588455890498729007068"
  let ?G = "\<lparr>px = 264865613959729647018113670854605162895977008838,
      py = 51841075954883162510413392745168936296187808697, pz = 1\<rparr>"
  have "nat_bits 3 = 2" by (simp add: nat_bits.simps [of 3] nat_bits.simps [of "Suc 0"] nat_bits.simps [of 0])
  then have "mpi_ec_mul_point std_mpi ?ctx 1 ?G = ?G"
    by (simp add: mpi_ec_mul_point_def std_mpi_def mpi_ec_init_def Let_def)
  moreover have "affine_or_zero std_mpi ?ctx ?G = (264865613959729647018113670854605162895977008838,
      51841075954883162510413392745168936296187808697)"
    using affine_of_affine [of std_mpi 900812823637587646514106462588455890498729007071] mpi_ok_std
    by (simp add: mpi_ok_def)
  moreover have "mpi_scan_usg std_mpi (take 20 (zeros 19 @ [1])) = 1"
    by (simp add: std_mpi_def be_val_append)
  moreover have "\<lparr>px = mpi_scan_usg std_mpi (take 20 (aacs_curve_G_x @ aacs_curve_G_y)),
      py = mpi_scan_usg std_mpi (take 20 (drop 20 (aacs_curve_G_x @ aacs_curve_G_y))), pz = 1\<rparr> = ?G"
    by (simp add: std_mpi_def aacs_curve_G_x_def aacs_curve_G_y_def)
  ultimately show "affine_or_zero std_mpi (mpi_ec_init std_mpi (ecc_p (aacs_curve_init std_mpi)) (ecc_a (aacs_curve_init std_mpi)))
      (mpi_ec_mul_point std_mpi (mpi_ec_init std_mpi (ecc_p (aacs_curve_init std_mpi)) (ecc_a (aacs_curve_init std_mpi)))
        (mpi_scan_usg std_mpi (take 20 (zeros 19 @ [1])))
        \<lparr>px = mpi_scan_usg std_mpi (take 20 (aacs_curve_G_x @ aacs_curve_G_y)),
          py = mpi_scan_usg std_mpi (take 20 (drop 20 (aacs_curve_G_x @ aacs_curve_G_y))), pz = 1\<rparr>) =
      (264865613959729647018113670854605162895977008838, 51841075954883162510413392745168936296187808697)"
    unfolding v(1,2) by (simp only:)
qed

lemma toy_bus_key:
  "\<exists>bk. crypto_create_bus_key std_mpi (zeros 100) (zeros 19 @ [1]) (aacs_curve_G_x @ aacs_curve_G_y) = Some bk"
  using bus_key_eq [OF mpi_ok_std _ _ _ toy_agreement, of "zeros 100"]
  by (simp add: aacs_curve_G_x_def aacs_curve_G_y_def)

lemma toy_host_key_pair:
  "crypto_create_host_key_pair std_mpi n0 (zeros 19 @ [1]) (zeros 40) =
     Some (zeros 19 @ [1], aacs_curve_G_x @ aacs_curve_G_y)"
proof -
  have usg: "mpi_usg_ok std_mpi" using mpi_ok_std by (simp add: mpi_ok_def)
  let ?x = "mpi_scan_usg std_mpi aacs_curve_G_x" and ?y = "mpi_scan_usg std_mpi aacs_curve_G_y"
  have xy: "?x = 264865613959729647018113670854605162895977008838" "?y = 51841075954883162510413392745168936296187808697"
    by (simp_all add: std_mpi_def aacs_curve_G_x_def aacs_curve_G_y_def)
  have G: "ecc_G (aacs_curve_init std_mpi) = \<lparr>px = ?x, py = ?y, pz = 1\<rparr>"
    by (simp add: aacs_curve_init_def)
  have l: "length aacs_curve_G_x = 20" "length aacs_curve_G_y = 20" "length (zeros 19 @ [1 :: byte]) = 20"
    by (simp_all add: aacs_curve_G_x_def aacs_curve_G_y_def)
  have k: "take 20 (zeros 19 @ [1 :: byte]) = zeros 19 @ [1]" by simp
  have t: "take 20 (aacs_curve_G_x @ aacs_curve_G_y) = aacs_curve_G_x"
    "take 20 (drop 20 (aacs_curve_G_x @ aacs_curve_G_y)) = aacs_curve_G_y"
    using l by simp_all
  have b: "be_enc 20 (be_val aacs_curve_G_x) = aacs_curve_G_x" "be_enc 20 (be_val aacs_curve_G_y) = aacs_curve_G_y"
    using be_enc_be_val [of aacs_curve_G_x] be_enc_be_val [of aacs_curve_G_y] l by simp_all
  have v: "nat ?x = be_val aacs_curve_G_x" "nat ?y = be_val aacs_curve_G_y" by (simp_all add: std_mpi_def)
  have less: "?x < 256 ^ 20" "?y < 256 ^ 20" "0 \<le> ?x" "0 \<le> ?y" using xy by simp_all
  obtain n1 n2 where "print_padded_20 std_mpi (zeros 40) 0 n0 ?x = Some (aacs_curve_G_x @ drop 20 (zeros 40), n1)"
    "print_padded_20 std_mpi (aacs_curve_G_x @ drop 20 (zeros 40)) 20 n1 ?y =
      Some (aacs_curve_G_x @ aacs_curve_G_y @ drop 40 (zeros 40), n2)"
    using print_two [OF usg less(3,1,4,2), of "zeros 40" n0] by (auto simp: v b)
  then show ?thesis
    using toy_agreement [unfolded k t, folded G]
    by (simp add: crypto_create_host_key_pair_def xy Let_def)
qed

text \<open>
  The bus key is the low 128 bits of the \<open>x\<close> coordinate of the shared point; when that
  coordinate has fewer than 16 significant bytes (the point at infinity included) the code reads
  memory in front of its buffer.
\<close>

theorem bus_key_low_128:
  assumes "mpi_ok M" and "length bin = 100" and "20 \<le> length priv" and "40 \<le> length point"
    and "affine_or_zero M (mpi_ec_init M (ecc_p (aacs_curve_init M)) (ecc_a (aacs_curve_init M)))
      (mpi_ec_mul_point M (mpi_ec_init M (ecc_p (aacs_curve_init M)) (ecc_a (aacs_curve_init M)))
        (mpi_scan_usg M (take 20 priv))
        \<lparr>px = mpi_scan_usg M (take 20 point), py = mpi_scan_usg M (take 20 (drop 20 point)), pz = 1\<rparr>) = (x, y)"
    and "0 \<le> x" and "x < 2 ^ 160"
  shows "crypto_create_bus_key M bin priv point =
    (if 256 ^ 15 \<le> x then Some (be_enc 16 (nat x mod 2 ^ 128)) else None)"
  using assms by (rule bus_key_eq)

theorem bus_key_low_128_witness:
  "crypto_create_bus_key std_mpi (zeros 100) (zeros 19 @ [1]) (aacs_curve_G_x @ aacs_curve_G_y) =
    (if 256 ^ 15 \<le> (264865613959729647018113670854605162895977008838 :: int)
     then Some (be_enc 16 (nat 264865613959729647018113670854605162895977008838 mod 2 ^ 128)) else None)"
  by (rule bus_key_low_128 [OF mpi_ok_std _ _ _ toy_agreement])
    (simp_all add: aacs_curve_G_x_def aacs_curve_G_y_def)

text \<open>
  The two encodings of the AACS curve agree (the byte arrays used for the key agreement and the
  text used for signatures), the coefficient \<open>a\<close> is \<open>p - 3\<close>, so that the short doubling formula is
  chosen, and the base point lies on the curve.
\<close>

theorem aacs_curve_consistent:
  assumes "mpi_ok M"
  shows "map unhex [AACS_EC_p, AACS_EC_a, AACS_EC_b, AACS_EC_n, AACS_EC_G_x, AACS_EC_G_y] =
      map (\<lambda>bs. (bs, True)) [aacs_curve_p, aacs_curve_a, aacs_curve_b, aacs_curve_n, aacs_curve_G_x, aacs_curve_G_y] \<and>
    a_is_pminus3 (mpi_ec_init M (ecc_p (aacs_curve_init M)) (ecc_a (aacs_curve_init M))) \<and>
    on_curve (mpi_ec_init M (ecc_p (aacs_curve_init M)) (ecc_a (aacs_curve_init M)))
      (ecc_b (aacs_curve_init M)) (ecc_G (aacs_curve_init M))"
proof -
  have usg: "mpi_usg_ok M" and arith: "mpi_arith_ok M" using assms by (simp_all add: mpi_ok_def)
  note v = aacs_curve_values [OF usg]
  have "map unhex [AACS_EC_p, AACS_EC_a, AACS_EC_b, AACS_EC_n, AACS_EC_G_x, AACS_EC_G_y] =
      map (\<lambda>bs. (bs, True)) [aacs_curve_p, aacs_curve_a, aacs_curve_b, aacs_curve_n, aacs_curve_G_x, aacs_curve_G_y]"
    by code_simp
  moreover have "a_is_pminus3 (mpi_ec_init M (ecc_p (aacs_curve_init M)) (ecc_a (aacs_curve_init M)))"
    by (simp add: v ec_init_fields [OF arith])
  moreover have "on_curve (mpi_ec_init M (ecc_p (aacs_curve_init M)) (ecc_a (aacs_curve_init M)))
      (ecc_b (aacs_curve_init M)) (ecc_G (aacs_curve_init M))"
    by (simp add: v on_curve_def ec_init_fields [OF arith])
  ultimately show ?thesis by (intro conjI)
qed

theorem aacs_curve_consistent_witness:
  "on_curve (mpi_ec_init std_mpi (ecc_p (aacs_curve_init std_mpi)) (ecc_a (aacs_curve_init std_mpi)))
     (ecc_b (aacs_curve_init std_mpi)) (ecc_G (aacs_curve_init std_mpi))"
  using aacs_curve_consistent [OF mpi_ok_std] by blast

end
