(* ===== verification/ContentCert.thy ===== *)
theory ContentCert
  imports Crypto
begin

text \<open>
  Content certificates \<^verbatim>\<open>AACS/Content000.cer\<close>, as \<^verbatim>\<open>src/libaacs/content_cert.c\<close> parses them:
  a header, format specific data, the digests of the content hash tables and a signature of the
  AACS LA over everything before it.
\<close>

section \<open>Parsing\<close>

record content_cert =
  bus_encryption_enabled_flag :: nat
  cc_id :: "byte list"
  cc_aacs2 :: nat
  bdj_root_cert_hash :: "byte list"

definition zero_cc :: content_cert where
  "zero_cc = \<lparr>bus_encryption_enabled_flag = 0, cc_id = zeros 6, cc_aacs2 = 0, bdj_root_cert_hash = zeros 32\<rparr>"

definition SIZEOF_CONTENT_CERT :: nat where "SIZEOF_CONTENT_CERT = 40"

text \<open>The fields of the certificate, once its signature has been accepted.\<close>

definition cc_fields :: "byte list \<Rightarrow> nat \<Rightarrow> content_cert ub" where
  "cc_fields p length_format_specific = do {
     b0 \<leftarrow> rd p 0;
     b1 \<leftarrow> rd p 1;
     ident \<leftarrow> rdn p 14 6;
     let c = zero_cc\<lparr>bus_encryption_enabled_flag := unat (drop_bit 7 b1), cc_id := ident\<rparr>;
     if b0 = 0 then
       (if length_format_specific \<ge> 40 then do {
          h \<leftarrow> rdn p 46 20;
          h \<leftarrow> memcpy_at (bdj_root_cert_hash c) 0 h;
          Some (c\<lparr>bdj_root_cert_hash := h\<rparr>)
        } else Some c)
     else
       let c = c\<lparr>cc_aacs2 := 1\<rparr> in
       (if length_format_specific \<ge> 66 then do {
          h \<leftarrow> rdn p 60 32;
          h \<leftarrow> memcpy_at (bdj_root_cert_hash c) 0 h;
          Some (c\<lparr>bdj_root_cert_hash := h\<rparr>)
        } else Some c)
   }"

definition cc_parse :: "(nat \<Rightarrow> bool) \<Rightarrow> mpi_lib \<Rightarrow> 's gcrypt \<Rightarrow> byte list \<Rightarrow> content_cert ptr ub" where
  "cc_parse alloc M G p =
     (if length p < 26 then Some None
      else do {
        b0 \<leftarrow> rd p 0;
        case (if b0 = 0x00 then Some 40 else if b0 = 0x10 then Some 64 else None) of
          None \<Rightarrow> Some None
        | Some signature_size \<Rightarrow> do {
            length_format_specific \<leftarrow> rd_be16 p 24;
            num_digest \<leftarrow> rd_be16 p 12;
            let cert_data_len = 26 + length_format_specific + num_digest * 8;
            if length p < cert_data_len + signature_size then Some None
            else do {
              crypto_error \<leftarrow> crypto_aacs_verify_aacscc alloc M G (drop cert_data_len p) p cert_data_len;
              if crypto_error \<noteq> 0 then Some None
              else if \<not> alloc SIZEOF_CONTENT_CERT then Some None
              else map_option Some (cc_fields p length_format_specific)
            }
          }
      })"

definition cc_free :: "content_cert ptr \<Rightarrow> content_cert ptr" where
  "cc_free pc = None"

section \<open>Which bytes the signature covers\<close>

definition cc_data_len :: "byte list \<Rightarrow> nat" where
  "cc_data_len p = 26 + be_val (take 2 (drop 24 p)) + be_val (take 2 (drop 12 p)) * 8"

lemma aacs_verify_sha256_defined:
  assumes "64 \<le> length sg" and "32 \<le> length x" and "32 \<le> length y" and "len \<le> length data"
  shows "\<exists>err. aacs_verify alloc M G sg MD_SHA256 x y data len = Some err"
proof -
  have key: "\<exists>r. aacs_sexp_key alloc M G x y None aacs2_curve 32 = Some r"
    using aacs_sexp_key_eq [of 32 x y None alloc M G aacs2_curve] assms by simp
  have hash: "aacs_sexp_hash M G data len MD_SHA256 =
     Some (g_sexp_build G sexp_hash_format [mpi_scan_usg M (g_md_hash G MD_SHA256 (take len data))])"
    using assms by (simp add: aacs_sexp_hash_def rdn_def)
  have sig: "aacs_sexp_signature M G sg 32 = Some (g_sexp_build G sexp_sig_format
     [mpi_scan_usg M (take 32 sg), mpi_scan_usg M (take 32 (drop 32 sg))])"
    using assms by (simp add: aacs_sexp_signature_def rdn_def)
  from key show ?thesis
    unfolding aacs_verify_def md_algo.case option.case prod.case hash sig
    by (auto split: prod.splits)
qed

lemma verify_aacscc_defined:
  assumes "gcrypt_ok G" and "p \<noteq> []" and "len \<le> length p"
    and "(if p ! 0 = 0x00 then 40 else 64) \<le> length sg"
  shows "\<exists>err. crypto_aacs_verify_aacscc alloc M G sg p len = Some err"
proof -
  have l: "length aacs_cc_pubkey_x = 20" "length aacs_cc_pubkey_y = 20"
    "length aacs2_cc_pubkey_x = 32" "length aacs2_cc_pubkey_y = 32"
    by (simp_all add: aacs_cc_pubkey_x_def aacs_cc_pubkey_y_def aacs2_cc_pubkey_x_def aacs2_cc_pubkey_y_def)
  have "rd p 0 = Some (p ! 0)" using assms(2) by (simp add: rd_def)
  then show ?thesis
    using aacs_verify_sha1_eq [OF assms(1), of sg aacs_cc_pubkey_x aacs_cc_pubkey_y len p alloc M]
      aacs_verify_sha256_defined [of sg aacs2_cc_pubkey_x aacs2_cc_pubkey_y len p alloc M G] assms l
    by (auto simp: crypto_aacs_verify_aacscc_def split: if_splits)
qed

lemma cc_fields_defined:
  assumes "26 + n \<le> length p"
  shows "\<exists>c. cc_fields p n = Some c \<and> length (cc_id c) = 6 \<and> length (bdj_root_cert_hash c) = 32"
  using assms by (auto simp: cc_fields_def rd_def rdn_def memcpy_at_def zero_cc_def Let_def)

lemma cc_fields_take:
  assumes "26 + n \<le> m" and "m \<le> length p"
  shows "cc_fields (take m p) n = cc_fields p n"
proof -
  have "rd (take m p) 0 = rd p 0" "rd (take m p) 1 = rd p 1" "rdn (take m p) 14 6 = rdn p 14 6"
    using assms by (auto simp: rd_def rdn_def take_drop min_def)
  moreover have "40 \<le> n \<Longrightarrow> rdn (take m p) 46 20 = rdn p 46 20" "66 \<le> n \<Longrightarrow> rdn (take m p) 60 32 = rdn p 60 32"
    using assms by (auto simp: rdn_def take_drop min_def)
  ultimately show ?thesis unfolding cc_fields_def by (simp cong: if_cong)
qed

section \<open>Properties\<close>

text \<open>
  C8: parsing a content certificate never reads outside the file, whatever its contents, and a
  certificate that is returned was accepted under the content certificate key with the bytes that
  follow the data as its signature; all its fields come from the signed bytes.
\<close>

theorem cc_parse_authentic:
  assumes "gcrypt_ok G"
  shows "\<exists>r. cc_parse alloc M G p = Some r \<and>
    (\<forall>c. r = Some c \<longrightarrow>
       cc_data_len p \<le> length p \<and>
       crypto_aacs_verify_aacscc alloc M G (drop (cc_data_len p) p) p (cc_data_len p) = Some 0 \<and>
       cc_fields (take (cc_data_len p) p) (be_val (take 2 (drop 24 p))) = Some c)"
proof (cases "length p < 26 \<or> p ! 0 \<notin> {0x00, 0x10}")
  case True
  then show ?thesis by (auto simp: cc_parse_def rd_def)
next
  case False
  let ?n = "be_val (take 2 (drop 24 p))" and ?len = "cc_data_len p"
  let ?s = "if p ! 0 = 0x00 then 40 else 64 :: nat"
  have rds: "rd p 0 = Some (p ! 0)" "rd_be16 p 24 = Some ?n" "rd_be16 p 12 = Some (be_val (take 2 (drop 12 p)))"
    using False by (auto simp: rd_def buf_simps)
  have unfold: "cc_parse alloc M G p = (if length p < ?len + ?s then Some None
      else do {
        crypto_error \<leftarrow> crypto_aacs_verify_aacscc alloc M G (drop ?len p) p ?len;
        if crypto_error \<noteq> 0 then Some None
        else if \<not> alloc SIZEOF_CONTENT_CERT then Some None
        else map_option Some (cc_fields p ?n)
      })"
    using False by (auto simp: cc_parse_def rds cc_data_len_def Let_def)
  show ?thesis
  proof (cases "length p < ?len + ?s")
    case True
    then show ?thesis by (simp add: unfold)
  next
    case fits: False
    then have "?len \<le> length p" "26 + ?n \<le> ?len" "?s \<le> length (drop ?len p)" "p \<noteq> []"
      using False by (auto simp: cc_data_len_def)
    moreover obtain err where "crypto_aacs_verify_aacscc alloc M G (drop ?len p) p ?len = Some err"
      using verify_aacscc_defined [OF assms] calculation by blast
    moreover obtain c where "cc_fields p ?n = Some c" using cc_fields_defined [of ?n p] calculation by auto
    ultimately show ?thesis
      using fits cc_fields_take [of ?n ?len p] by (auto simp: unfold)
  qed
qed

definition toy_cc :: "byte list" where
  "toy_cc = [0x00, 0x80] @ zeros 24 @ zeros 19 @ [5] @ zeros 19 @ [7]"

lemma toy_cc_facts: "length toy_cc = 66" "toy_cc ! 0 = 0" "toy_cc \<noteq> []"
  "rd_be16 toy_cc 24 = Some 0" "rd_be16 toy_cc 12 = Some 0" "cc_data_len toy_cc = 26"
proof -
  have t: "take 2 (drop 24 toy_cc) = zeros 2" "take 2 (drop 12 toy_cc) = zeros 2"
    by (simp_all add: toy_cc_def zeros_def)
  show "length toy_cc = 66" "toy_cc ! 0 = 0" "toy_cc \<noteq> []" by (simp_all add: toy_cc_def)
  then show "rd_be16 toy_cc 24 = Some 0" "rd_be16 toy_cc 12 = Some 0" "cc_data_len toy_cc = 26"
    by (simp_all add: rd_be_defined t cc_data_len_def)
qed

lemma toy_cc_accepted:
  "crypto_aacs_verify_aacscc (\<lambda>_. True) std_mpi toy_gcrypt (drop 26 toy_cc) toy_cc 26 = Some 0"
proof -
  have l: "length aacs_cc_pubkey_x = 20" "length aacs_cc_pubkey_y = 20"
    by (simp_all add: aacs_cc_pubkey_x_def aacs_cc_pubkey_y_def)
  have "take 40 (drop 26 toy_cc) = toy_signature" by (simp add: toy_cc_def toy_signature_def)
  then have "aacs_verify (\<lambda>_. True) std_mpi toy_gcrypt (drop 26 toy_cc) MD_SHA1 aacs_cc_pubkey_x aacs_cc_pubkey_y
      toy_cc 26 = Some 0"
    by (rule toy_verify [rotated]) (simp_all add: toy_cc_facts l)
  then show ?thesis using toy_cc_facts by (simp add: crypto_aacs_verify_aacscc_def rd_def)
qed

theorem cc_parse_authentic_witness:
  "\<exists>c. cc_parse (\<lambda>_. True) std_mpi toy_gcrypt toy_cc = Some (Some c) \<and>
     crypto_aacs_verify_aacscc (\<lambda>_. True) std_mpi toy_gcrypt (drop 26 toy_cc) toy_cc 26 = Some 0"
proof -
  obtain c where "cc_fields toy_cc 0 = Some c" using cc_fields_defined [of 0 toy_cc] toy_cc_facts by auto
  then have "cc_parse (\<lambda>_. True) std_mpi toy_gcrypt toy_cc = Some (Some c)"
    by (simp add: cc_parse_def toy_cc_facts toy_cc_accepted rd_def)
  then show ?thesis
    using cc_parse_authentic [OF toy_gcrypt_ok(1), of "\<lambda>_. True" std_mpi toy_cc] toy_cc_facts by auto
qed

end
