(* ===== verification/Mmc.thy ===== *)
theory Mmc
  imports Crypto
begin

text \<open>
  The drive: \<^verbatim>\<open>src/libaacs/mmc.c\<close>.  The commands it sends to the drive, the AACS drive
  authentication, and the reading of volume ID, serial number, data keys, drive certificate and
  partial MKB.  The device is a state of any type behind \<open>device_send_cmd\<close>, which the platform
  file of \<^verbatim>\<open>file/mmc_device.h\<close> provides: a parameter of the model that maps the state, the command,
  the buffer and the transfer sizes to the return value, the new contents of the buffer and the
  new state.
\<close>

section \<open>State\<close>

type_synonym 'd send_cmd = "'d \<Rightarrow> byte list \<Rightarrow> byte list \<Rightarrow> nat \<Rightarrow> nat \<Rightarrow> int \<times> byte list \<times> 'd"

record 'd mmc =
  mmc_dev :: 'd
  mmc_host_nonce :: "byte list"
  mmc_host_key :: "byte list"
  mmc_host_key_point :: "byte list"
  mmc_drive_cert :: "byte list"
  mmc_read_drive_cert_flag :: bool
  mmc_aacs_version :: byte

text \<open>
  What the code relies on besides the device: allocation, the two libraries, random bytes and the
  indeterminate contents of local variables.
\<close>

record 's mmc_env =
  me_alloc :: "nat \<Rightarrow> bool"
  me_mpi :: mpi_lib
  me_gcrypt :: "'s gcrypt"
  me_nonce :: "byte list"
  me_random :: "byte list"
  me_n0 :: nat
  me_bin :: "byte list"
  me_loc :: "byte list \<times> byte list"

definition MMC_SUCCESS :: int where "MMC_SUCCESS = 0"
definition MMC_ERROR :: int where "MMC_ERROR = - 1"
definition MMC_ERROR_CERT_REVOKED :: int where "MMC_ERROR_CERT_REVOKED = - 2"

definition MMC_READ_VID :: int where "MMC_READ_VID = 0"
definition MMC_READ_PMSN :: int where "MMC_READ_PMSN = 1"
definition MMC_READ_DATA_KEYS :: int where "MMC_READ_DATA_KEYS = 2"

text \<open>The device fills the buffer it was given.\<close>

definition send_ok :: "'d send_cmd \<Rightarrow> bool" where
  "send_ok send \<longleftrightarrow> (\<forall>d cmd buf tx rx. length (fst (snd (send d cmd buf tx rx))) = length buf)"

section \<open>Commands\<close>

definition lo8 :: "nat \<Rightarrow> byte" where "lo8 n = word_of_nat n"

definition be16_bytes :: "nat \<Rightarrow> byte list" where
  "be16_bytes n = [lo8 (drop_bit 8 n), lo8 n]"

definition be32_bytes :: "nat \<Rightarrow> byte list" where
  "be32_bytes n = [lo8 (drop_bit 24 n), lo8 (drop_bit 16 n), lo8 (drop_bit 8 n), lo8 n]"

definition cmd_report_key :: "byte \<Rightarrow> nat \<Rightarrow> byte \<Rightarrow> byte \<Rightarrow> nat \<Rightarrow> byte list" where
  "cmd_report_key agid addr blocks format len =
     [0xa4, 0] @ be32_bytes addr @ [blocks, 0x02] @ be16_bytes len @
     [push_bit 6 agid OR (format AND 0x3f)] @ zeros 5"

definition cmd_send_key :: "byte \<Rightarrow> byte \<Rightarrow> nat \<Rightarrow> byte list" where
  "cmd_send_key agid format len =
     [0xa3, 0, 0, 0, 0, 0, 0, 0x02] @ be16_bytes len @
     [push_bit 6 agid OR (format AND 0x3f)] @ zeros 5"

definition cmd_disc_structure :: "byte \<Rightarrow> byte \<Rightarrow> byte \<Rightarrow> nat \<Rightarrow> nat \<Rightarrow> byte list" where
  "cmd_disc_structure agid format layer address len =
     [0xad, 0x01] @ be32_bytes address @ [layer, format] @ be16_bytes len @ [push_bit 6 agid] @ zeros 5"

definition cmd_get_configuration :: "nat \<Rightarrow> nat \<Rightarrow> byte list" where
  "cmd_get_configuration feature len =
     [0x46, 0x01] @ be16_bytes feature @ zeros 3 @ be16_bytes len @ zeros 7"

text \<open>Each sender returns the device's answer, the contents of the buffer, and the handle.\<close>

definition mmc_report_key :: "'d send_cmd \<Rightarrow> 'd mmc \<Rightarrow> byte \<Rightarrow> nat \<Rightarrow> byte \<Rightarrow> byte \<Rightarrow> nat \<Rightarrow>
    int \<times> byte list \<times> 'd mmc" where
  "mmc_report_key send m agid addr blocks format len =
     (let cmd = cmd_report_key agid addr blocks format len;
          (r, buf, d) = send (mmc_dev m) cmd (zeros len) 0 len
      in (r, buf, m\<lparr>mmc_dev := d\<rparr>))"

definition mmc_send_key :: "'d send_cmd \<Rightarrow> 'd mmc \<Rightarrow> byte \<Rightarrow> byte \<Rightarrow> byte list \<Rightarrow> int \<times> 'd mmc" where
  "mmc_send_key send m agid format buf =
     (let cmd = cmd_send_key agid format (length buf);
          (r, _, d) = send (mmc_dev m) cmd buf (length buf) 0
      in (r, m\<lparr>mmc_dev := d\<rparr>))"

definition mmc_report_disc_structure :: "'d send_cmd \<Rightarrow> 'd mmc \<Rightarrow> byte \<Rightarrow> byte \<Rightarrow> byte \<Rightarrow> nat \<Rightarrow> nat \<Rightarrow>
    int \<times> byte list \<times> 'd mmc" where
  "mmc_report_disc_structure send m agid format layer address len =
     (let cmd = cmd_disc_structure agid format layer address len;
          (r, buf, d) = send (mmc_dev m) cmd (zeros len) 0 len
      in (r, buf, m\<lparr>mmc_dev := d\<rparr>))"

definition mmc_get_configuration :: "'d send_cmd \<Rightarrow> 'd mmc \<Rightarrow> nat \<Rightarrow> nat \<Rightarrow> int \<times> byte list \<times> 'd mmc" where
  "mmc_get_configuration send m feature len =
     (let cmd = cmd_get_configuration feature len;
          (r, buf, d) = send (mmc_dev m) cmd (zeros len) 0 len
      in (r, buf, m\<lparr>mmc_dev := d\<rparr>))"

section \<open>Single exchanges\<close>

definition mmc_invalidate_agid :: "'d send_cmd \<Rightarrow> 'd mmc \<Rightarrow> byte \<Rightarrow> 'd mmc" where
  "mmc_invalidate_agid send m agid = snd (snd (mmc_report_key send m agid 0 0 0x3f 2))"

definition mmc_invalidate_agids :: "'d send_cmd \<Rightarrow> 'd mmc \<Rightarrow> 'd mmc" where
  "mmc_invalidate_agids send m = fold (\<lambda>agid m. mmc_invalidate_agid send m (word_of_nat agid)) [0..<4] m"

text \<open>The new value of \<open>*agid\<close>, which a failing command leaves alone.\<close>

definition mmc_report_agid :: "'d send_cmd \<Rightarrow> 'd mmc \<Rightarrow> byte \<Rightarrow> (int \<times> byte \<times> 'd mmc) ub" where
  "mmc_report_agid send m agid =
     (let (result, buf, m) = mmc_report_key send m 0 0 0 0 8 in
      if result \<noteq> 0 then do { b \<leftarrow> rd buf 7; Some (result, drop_bit 6 (b AND 0xff), m) }
      else Some (result, agid, m))"

definition mmc_send_host_cert :: "'d send_cmd \<Rightarrow> 'd mmc \<Rightarrow> byte \<Rightarrow> byte list \<Rightarrow> byte list \<Rightarrow> (int \<times> 'd mmc) ub" where
  "mmc_send_host_cert send m agid host_nonce host_cert = do {
     let buf = (zeros 116)[1 := 0x72];
     n \<leftarrow> rdn host_nonce 0 20;
     buf \<leftarrow> memcpy_at buf 4 n;
     c \<leftarrow> rdn host_cert 0 92;
     buf \<leftarrow> memcpy_at buf 24 c;
     Some (mmc_send_key send m agid 0x01 buf)
   }"

text \<open>The drive's nonce and certificate, if the command succeeded.\<close>

definition mmc_read_drive_cert_challenge ::
    "'d send_cmd \<Rightarrow> 'd mmc \<Rightarrow> byte \<Rightarrow> ((byte list \<times> byte list) option \<times> 'd mmc) ub" where
  "mmc_read_drive_cert_challenge send m agid =
     (let (r, buf, m) = mmc_report_key send m agid 0 0 0x01 116 in
      if r \<noteq> 0 then do {
        n \<leftarrow> rdn buf 4 20;
        c \<leftarrow> rdn buf 24 92;
        Some (Some (n, c), m)
      } else Some (None, m))"

definition mmc_read_drive_key ::
    "'d send_cmd \<Rightarrow> 'd mmc \<Rightarrow> byte \<Rightarrow> ((byte list \<times> byte list) option \<times> 'd mmc) ub" where
  "mmc_read_drive_key send m agid =
     (let (r, buf, m) = mmc_report_key send m agid 0 0 0x02 84 in
      if r \<noteq> 0 then do {
        p \<leftarrow> rdn buf 4 40;
        s \<leftarrow> rdn buf 44 40;
        Some (Some (p, s), m)
      } else Some (None, m))"

definition mmc_check_aacs :: "'d send_cmd \<Rightarrow> 'd mmc \<Rightarrow> (int \<times> 'd mmc) ub" where
  "mmc_check_aacs send m =
     (let (r, buf, m) = mmc_get_configuration send m 0x010d 16 in
      if r \<noteq> 0 then do {
        feature \<leftarrow> rd_be16 buf 8;
        if feature = 0x010d then do {
          b4 \<leftarrow> rd buf (4 + 8);
          b7 \<leftarrow> rd buf (7 + 8);
          b2 \<leftarrow> rd buf (2 + 8);
          Some (int (unat (b2 AND 1)),
            m\<lparr>mmc_read_drive_cert_flag := (b4 AND 0x10 \<noteq> 0), mmc_aacs_version := b7\<rparr>)
        } else Some (0, m)
      } else Some (0, m))"

text \<open>
  Packs \<open>pack .. num_packs - 1\<close> of the MKB are appended to the \<open>size\<close> bytes read so far;
  \<open>cap\<close> is the size of the allocation, a write beyond it is undefined.
\<close>

function mkb_packs_loop :: "'d send_cmd \<Rightarrow> 'd mmc \<Rightarrow> byte \<Rightarrow> nat \<Rightarrow> nat \<Rightarrow> nat \<Rightarrow> byte list \<Rightarrow>
    (byte list \<times> 'd mmc) ub" where
  "mkb_packs_loop send m agid cap pack num_packs mkb =
     (if pack < num_packs then
        let (r, buf, m) = mmc_report_disc_structure send m agid 0x83 0 pack 32772 in
        if r \<noteq> 0 then do {
          l \<leftarrow> rd_be16 buf 0;
          let len = int l - 2;
          if len \<le> 0 \<or> len > 32768 then Some (mkb, m)
          else do {
            d \<leftarrow> rdn buf 4 (nat len);
            if length mkb + length d \<le> cap
            then mkb_packs_loop send m agid cap (pack + 1) num_packs (mkb @ d)
            else None
          }
        } else Some (mkb, m)
      else Some (mkb, m))"
  by pat_completeness auto
termination
  by (relation "measure (\<lambda>(send, m, agid, cap, pack, num_packs, mkb). num_packs - pack)") auto

declare mkb_packs_loop.simps [simp del]

text \<open>The MKB (\<open>None\<close>: \<open>NULL\<close>) and \<open>*size\<close>.\<close>

definition mmc_read_mkb_agid :: "(nat \<Rightarrow> bool) \<Rightarrow> 'd send_cmd \<Rightarrow> 'd mmc \<Rightarrow> byte \<Rightarrow> nat \<Rightarrow>
    (byte list ptr \<times> 'd mmc) ub" where
  "mmc_read_mkb_agid alloc send m agid address =
     (let (r, buf, m) = mmc_report_disc_structure send m agid 0x83 0 address 32772 in
      if r \<noteq> 0 then do {
        b3 \<leftarrow> rd buf 3;
        l \<leftarrow> rd_be16 buf 0;
        let num_packs = unat b3;
        let len = int l - 2;
        if len \<le> 0 \<or> len > 32768 then Some (None, m)
        else if \<not> alloc (32768 * num_packs) then Some (None, m)
        else do {
          d \<leftarrow> rdn buf 4 (nat len);
          if length d \<le> 32768 * num_packs then do {
            (mkb, m) \<leftarrow> mkb_packs_loop send m agid (32768 * num_packs) 1 num_packs d;
            Some (Some mkb, m)
          } else None
        }
      } else Some (None, m))"

definition mmc_send_host_key :: "'d send_cmd \<Rightarrow> 'd mmc \<Rightarrow> byte \<Rightarrow> byte list \<Rightarrow> byte list \<Rightarrow> (int \<times> 'd mmc) ub" where
  "mmc_send_host_key send m agid host_key_point host_key_signature = do {
     let buf = (zeros 84)[1 := 0x52];
     p \<leftarrow> rdn host_key_point 0 40;
     buf \<leftarrow> memcpy_at buf 4 p;
     s \<leftarrow> rdn host_key_signature 0 40;
     buf \<leftarrow> memcpy_at buf 44 s;
     Some (mmc_send_key send m agid 0x02 buf)
   }"

text \<open>A 16-byte value and its MAC.\<close>

definition mmc_read_vid_mac :: "'d send_cmd \<Rightarrow> 'd mmc \<Rightarrow> byte \<Rightarrow> ((byte list \<times> byte list) option \<times> 'd mmc) ub" where
  "mmc_read_vid_mac send m agid =
     (let (r, buf, m) = mmc_report_disc_structure send m agid 0x80 0 0 36 in
      if r \<noteq> 0 then do {
        v \<leftarrow> rdn buf 4 16;
        mac \<leftarrow> rdn buf 20 16;
        Some (Some (v, mac), m)
      } else Some (None, m))"

definition mmc_read_pmsn_mac :: "'d send_cmd \<Rightarrow> 'd mmc \<Rightarrow> byte \<Rightarrow> ((byte list \<times> byte list) option \<times> 'd mmc) ub" where
  "mmc_read_pmsn_mac send m agid =
     (let (r, buf, m) = mmc_report_disc_structure send m agid 0x81 0 0 36 in
      if r \<noteq> 0 then do {
        v \<leftarrow> rdn buf 4 16;
        mac \<leftarrow> rdn buf 20 16;
        Some (Some (v, mac), m)
      } else Some (None, m))"

definition mmc_read_data_keys :: "'d send_cmd \<Rightarrow> 'd mmc \<Rightarrow> byte \<Rightarrow> ((byte list \<times> byte list) option \<times> 'd mmc) ub" where
  "mmc_read_data_keys send m agid =
     (let (r, buf, m) = mmc_report_disc_structure send m agid 0x84 0 0 36 in
      if r \<noteq> 0 then do {
        rk \<leftarrow> rdn buf 4 16;
        wk \<leftarrow> rdn buf 20 16;
        Some (Some (rk, wk), m)
      } else Some (None, m))"

section \<open>Drive authentication\<close>

definition mmc_verify_signature :: "'s mmc_env \<Rightarrow> byte list \<Rightarrow> byte list \<Rightarrow> byte list \<Rightarrow> byte list \<Rightarrow> bool ub" where
  "mmc_verify_signature E cert signature nonce point = do {
     n \<leftarrow> rdn nonce 0 20;
     p \<leftarrow> rdn point 0 40;
     err \<leftarrow> crypto_aacs_verify (me_alloc E) (me_mpi E) (me_gcrypt E) cert signature (n @ p) 60;
     Some (err = 0)
   }"

text \<open>
  The return value, \<open>bus_key\<close> (16 bytes in the buffer of the caller, \<open>None\<close> as long as it is not
  written) and the handle, whose copy of the drive certificate is written before it is verified.
\<close>

definition mmc_aacs_auth :: "'s mmc_env \<Rightarrow> 'd send_cmd \<Rightarrow> 'd mmc \<Rightarrow> byte \<Rightarrow> byte list \<Rightarrow> byte list \<Rightarrow>
    (int \<times> byte list option \<times> 'd mmc) ub" where
  "mmc_aacs_auth E send m agid host_priv_key host_cert = do {
     (r, m) \<leftarrow> mmc_send_host_cert send m agid (mmc_host_nonce m) host_cert;
     if r = 0 then Some (MMC_ERROR_CERT_REVOKED, None, m)
     else do {
       (ch, m) \<leftarrow> mmc_read_drive_cert_challenge send m agid;
       case ch of None \<Rightarrow> Some (MMC_ERROR, None, m)
       | Some (dn, cert) \<Rightarrow> do {
           let m = m\<lparr>mmc_drive_cert := cert\<rparr>;
           b0 \<leftarrow> rd (mmc_drive_cert m) 0;
           if b0 = 0x11 then Some (MMC_ERROR, None, m)
           else do {
             err \<leftarrow> crypto_aacs_verify_drive_cert (me_alloc E) (me_mpi E) (me_gcrypt E) (mmc_drive_cert m);
             if err \<noteq> 0 then Some (MMC_ERROR, None, m)
             else do {
               (key, m) \<leftarrow> mmc_read_drive_key send m agid;
               case key of None \<Rightarrow> Some (MMC_ERROR, None, m)
               | Some (dkp, dks) \<Rightarrow> do {
                   ok \<leftarrow> mmc_verify_signature E (mmc_drive_cert m) dks (mmc_host_nonce m) dkp;
                   if \<not> ok then Some (MMC_ERROR, None, m)
                   else do {
                     (err, hks) \<leftarrow> crypto_aacs_sign (me_alloc E) (me_mpi E) (me_gcrypt E) (me_n0 E)
                       host_cert host_priv_key (zeros 40) dn (mmc_host_key_point m);
                     if err \<noteq> 0 then Some (MMC_ERROR, None, m)
                     else do {
                       ok \<leftarrow> mmc_verify_signature E host_cert hks dn (mmc_host_key_point m);
                       if \<not> ok then Some (MMC_ERROR, None, m)
                       else do {
                         (r, m) \<leftarrow> mmc_send_host_key send m agid (mmc_host_key_point m) hks;
                         if r = 0 then Some (MMC_ERROR, None, m)
                         else do {
                           bus_key \<leftarrow> crypto_create_bus_key (me_mpi E) (me_bin E) (mmc_host_key m) dkp;
                           Some (MMC_SUCCESS, Some bus_key, m)
                         }
                       }
                     }
                   }
                 }
             }
           }
         }
     }
   }"

section \<open>Authenticated reads\<close>

text \<open>
  A value with its MAC: return value and contents of the caller's buffer, which is written before
  the MAC is checked.
\<close>

definition check_mac :: "'s mmc_env \<Rightarrow> byte list \<Rightarrow> byte list \<Rightarrow> byte list \<Rightarrow> int ub" where
  "check_mac E v bus_key mac = do {
     (err, calc_mac) \<leftarrow> crypto_aes_cmac_16 (me_gcrypt E) (me_loc E) v bus_key (zeros 16);
     if err \<noteq> 0 then Some MMC_ERROR
     else if calc_mac \<noteq> mac then Some MMC_ERROR
     else Some MMC_SUCCESS
   }"

definition read_vid :: "'s mmc_env \<Rightarrow> 'd send_cmd \<Rightarrow> 'd mmc \<Rightarrow> byte \<Rightarrow> byte list \<Rightarrow> byte list \<Rightarrow>
    (int \<times> byte list \<times> 'd mmc) ub" where
  "read_vid E send m agid bus_key vid = do {
     (r, m) \<leftarrow> mmc_read_vid_mac send m agid;
     case r of None \<Rightarrow> Some (MMC_ERROR, vid, m)
     | Some (v, mac) \<Rightarrow> do { e \<leftarrow> check_mac E v bus_key mac; Some (e, v, m) }
   }"

definition read_pmsn :: "'s mmc_env \<Rightarrow> 'd send_cmd \<Rightarrow> 'd mmc \<Rightarrow> byte \<Rightarrow> byte list \<Rightarrow> byte list \<Rightarrow>
    (int \<times> byte list \<times> 'd mmc) ub" where
  "read_pmsn E send m agid bus_key pmsn = do {
     (r, m) \<leftarrow> mmc_read_pmsn_mac send m agid;
     case r of None \<Rightarrow> Some (MMC_ERROR, pmsn, m)
     | Some (v, mac) \<Rightarrow> do { e \<leftarrow> check_mac E v bus_key mac; Some (e, v, m) }
   }"

definition decrypt_data_key :: "'s mmc_env \<Rightarrow> byte list \<Rightarrow> byte list \<Rightarrow> byte list ptr \<Rightarrow> int \<times> byte list ptr" where
  "decrypt_data_key E bus_key enc dst =
     (case dst of None \<Rightarrow> (0, None)
      | Some d \<Rightarrow> let (err, d) = crypto_aes128d (me_gcrypt E) bus_key enc d in (err, Some d))"

definition read_data_keys :: "'s mmc_env \<Rightarrow> 'd send_cmd \<Rightarrow> 'd mmc \<Rightarrow> byte \<Rightarrow> byte list \<Rightarrow>
    byte list ptr \<Rightarrow> byte list ptr \<Rightarrow> (int \<times> byte list ptr \<times> byte list ptr \<times> 'd mmc) ub" where
  "read_data_keys E send m agid bus_key read_data_key write_data_key = do {
     (r, m) \<leftarrow> mmc_read_data_keys send m agid;
     case r of None \<Rightarrow> Some (MMC_ERROR, read_data_key, write_data_key, m)
     | Some (rk, wk) \<Rightarrow>
         let (err, read_data_key) = decrypt_data_key E bus_key rk read_data_key in
         if err \<noteq> 0 then Some (MMC_ERROR, read_data_key, write_data_key, m)
         else
           let (err, write_data_key) = decrypt_data_key E bus_key wk write_data_key in
           if err \<noteq> 0 then Some (MMC_ERROR, read_data_key, write_data_key, m)
           else Some (MMC_SUCCESS, read_data_key, write_data_key, m)
   }"

text \<open>The switch of \<open>mmc_read_auth\<close>; reading into a null buffer is undefined.\<close>

definition mmc_request :: "'s mmc_env \<Rightarrow> 'd send_cmd \<Rightarrow> 'd mmc \<Rightarrow> byte \<Rightarrow> byte list \<Rightarrow> int \<Rightarrow>
    byte list ptr \<Rightarrow> byte list ptr \<Rightarrow> (int \<times> byte list ptr \<times> byte list ptr \<times> 'd mmc) ub" where
  "mmc_request E send m agid bus_key request p1 p2 =
     (if request = MMC_READ_VID then do {
        b \<leftarrow> p1;
        (e, b, m) \<leftarrow> read_vid E send m agid bus_key b;
        Some (e, Some b, p2, m)
      } else if request = MMC_READ_PMSN then do {
        b \<leftarrow> p1;
        (e, b, m) \<leftarrow> read_pmsn E send m agid bus_key b;
        Some (e, Some b, p2, m)
      } else if request = MMC_READ_DATA_KEYS then read_data_keys E send m agid bus_key p1 p2
      else Some (MMC_ERROR, p1, p2, m))"

definition mmc_read_auth :: "'s mmc_env \<Rightarrow> 'd send_cmd \<Rightarrow> 'd mmc \<Rightarrow> byte list \<Rightarrow> byte list \<Rightarrow> int \<Rightarrow>
    byte list ptr \<Rightarrow> byte list ptr \<Rightarrow> (int \<times> byte list ptr \<times> byte list ptr \<times> 'd mmc) ub" where
  "mmc_read_auth E send m host_priv_key host_cert request p1 p2 =
     (let m = mmc_invalidate_agids send m in do {
        (r, agid, m) \<leftarrow> mmc_report_agid send m 0;
        if r = 0 then Some (MMC_ERROR, p1, p2, m)
        else do {
          (error_code, bus_key, m) \<leftarrow> mmc_aacs_auth E send m agid host_priv_key host_cert;
          if error_code \<noteq> 0 then
            let m = mmc_invalidate_agid send m agid in Some (error_code, p1, p2, m)
          else do {
            bk \<leftarrow> bus_key;
            (error_code, p1, p2, m) \<leftarrow> mmc_request E send m agid bk request p1 p2;
            let m = mmc_invalidate_agid send m agid;
            Some (error_code, p1, p2, m)
          }
        }
      })"

section \<open>Drive certificate and MKB\<close>

text \<open>Return value, contents of \<open>drive_cert\<close>, handle.\<close>

definition mmc_read_drive_cert :: "'s mmc_env \<Rightarrow> 'd send_cmd \<Rightarrow> 'd mmc \<Rightarrow> byte list \<Rightarrow>
    (int \<times> byte list \<times> 'd mmc) ub" where
  "mmc_read_drive_cert E send m drive_cert = do {
     b0 \<leftarrow> rd (mmc_drive_cert m) 0;
     if b0 = 0x01 then do {
       c \<leftarrow> rdn (mmc_drive_cert m) 0 92;
       drive_cert \<leftarrow> memcpy_at drive_cert 0 c;
       Some (MMC_SUCCESS, drive_cert, m)
     } else
       let (r, buf, m) = mmc_report_key send m 0 0 0 0x38 116 in
       if r = 0 then Some (MMC_ERROR, drive_cert, m)
       else do {
         err \<leftarrow> crypto_aacs_verify_drive_cert (me_alloc E) (me_mpi E) (me_gcrypt E) (drop 4 buf);
         if err \<noteq> 0 then Some (MMC_ERROR, drive_cert, m)
         else do {
           c \<leftarrow> rdn buf 4 92;
           drive_cert \<leftarrow> memcpy_at drive_cert 0 c;
           Some (MMC_SUCCESS, drive_cert, m\<lparr>mmc_drive_cert := c\<rparr>)
         }
       }
   }"

definition mmc_get_drive_cert :: "'d mmc \<Rightarrow> byte list ptr ub" where
  "mmc_get_drive_cert m = do {
     b0 \<leftarrow> rd (mmc_drive_cert m) 0;
     Some (if b0 = 0x01 then Some (mmc_drive_cert m) else None)
   }"

definition mmc_read_mkb :: "(nat \<Rightarrow> bool) \<Rightarrow> 'd send_cmd \<Rightarrow> 'd mmc \<Rightarrow> nat \<Rightarrow> (byte list ptr \<times> 'd mmc) ub" where
  "mmc_read_mkb alloc send m address = do {
     (_, agid, m) \<leftarrow> mmc_report_agid send m 0;
     (mkb, m) \<leftarrow> mmc_read_mkb_agid alloc send m agid address;
     let m = mmc_invalidate_agid send m agid;
     Some (mkb, m)
   }"

section \<open>Opening and closing\<close>

text \<open>The handle is erased before it is freed; what is left of it is the closed device.\<close>

definition mmc_close :: "('d \<Rightarrow> 'd) \<Rightarrow> 'd mmc ptr \<Rightarrow> 'd ptr" where
  "mmc_close device_close m = map_option (\<lambda>m. device_close (mmc_dev m)) m"

definition SIZEOF_MMC :: nat where "SIZEOF_MMC = 184"

text \<open>\<open>device_open\<close> gives the device of a path, if there is one.\<close>

definition mmc_open :: "'s mmc_env \<Rightarrow> 'd send_cmd \<Rightarrow> (string \<Rightarrow> 'd ptr) \<Rightarrow> string ptr \<Rightarrow> 'd mmc ptr ub" where
  "mmc_open E send device_open path =
     (case path of None \<Rightarrow> Some None
      | Some path \<Rightarrow>
        if \<not> me_alloc E SIZEOF_MMC then Some None
        else do {
          (host_key, host_key_point) \<leftarrow>
            crypto_create_host_key_pair (me_mpi E) (me_n0 E) (me_random E) (zeros 40);
          case device_open path of None \<Rightarrow> Some None
          | Some d \<Rightarrow> do {
              let m = \<lparr>mmc_dev = d, mmc_host_nonce = me_nonce E, mmc_host_key = host_key,
                mmc_host_key_point = host_key_point, mmc_drive_cert = zeros 92,
                mmc_read_drive_cert_flag = False, mmc_aacs_version = 0\<rparr>;
              (active, m) \<leftarrow> mmc_check_aacs send m;
              if active = 0 then Some None
              else if mmc_read_drive_cert_flag m then do {
                (_, _, m) \<leftarrow> mmc_read_drive_cert E send m (mmc_drive_cert m);
                Some (Some m)
              } else Some (Some m)
            }
        }
      )"

section \<open>What the exchanges change\<close>

named_theorems mmc_frame "the handle after an exchange with the device"

lemma report_key_frame [mmc_frame]:
  "mmc_report_key send m agid addr blocks format len = (r, buf, m') \<Longrightarrow> \<exists>d. m' = m\<lparr>mmc_dev := d\<rparr>"
  by (auto simp: mmc_report_key_def Let_def split: prod.splits)

lemma send_key_frame [mmc_frame]:
  "mmc_send_key send m agid format buf = (r, m') \<Longrightarrow> \<exists>d. m' = m\<lparr>mmc_dev := d\<rparr>"
  by (auto simp: mmc_send_key_def Let_def split: prod.splits)

lemma send_host_cert_frame [mmc_frame]:
  "mmc_send_host_cert send m agid n c = Some (r, m') \<Longrightarrow> \<exists>d. m' = m\<lparr>mmc_dev := d\<rparr>"
  by (auto simp: mmc_send_host_cert_def Let_def dest: send_key_frame split: Option.bind_splits)

lemma drive_cert_challenge_frame [mmc_frame]:
  "mmc_read_drive_cert_challenge send m agid = Some (r, m') \<Longrightarrow> \<exists>d. m' = m\<lparr>mmc_dev := d\<rparr>"
  by (auto simp: mmc_read_drive_cert_challenge_def dest: report_key_frame split: Option.bind_splits prod.splits if_splits)

lemma read_drive_key_frame [mmc_frame]:
  "mmc_read_drive_key send m agid = Some (r, m') \<Longrightarrow> \<exists>d. m' = m\<lparr>mmc_dev := d\<rparr>"
  by (auto simp: mmc_read_drive_key_def dest: report_key_frame split: Option.bind_splits prod.splits if_splits)

lemma send_host_key_frame [mmc_frame]:
  "mmc_send_host_key send m agid p s = Some (r, m') \<Longrightarrow> \<exists>d. m' = m\<lparr>mmc_dev := d\<rparr>"
  by (auto simp: mmc_send_host_key_def Let_def dest: send_key_frame split: Option.bind_splits)

lemma report_agid_frame [mmc_frame]:
  "mmc_report_agid send m agid = Some (r, a, m') \<Longrightarrow> \<exists>d. m' = m\<lparr>mmc_dev := d\<rparr>"
  by (auto simp: mmc_report_agid_def dest: report_key_frame split: Option.bind_splits prod.splits if_splits)

lemma invalidate_agid_frame: "\<exists>d. mmc_invalidate_agid send m agid = m\<lparr>mmc_dev := d\<rparr>"
  by (auto simp: mmc_invalidate_agid_def mmc_report_key_def Let_def split: prod.splits)

lemma invalidate_agids_frame: "\<exists>d. mmc_invalidate_agids send m = m\<lparr>mmc_dev := d\<rparr>"
proof -
  have "\<exists>d. fold (\<lambda>agid m. mmc_invalidate_agid send m (word_of_nat agid)) ns m = m\<lparr>mmc_dev := d\<rparr>" for ns
  proof (induction ns arbitrary: m)
    case Nil
    show ?case by (simp, rule exI [of _ "mmc_dev m"]) simp
  next
    case (Cons n ns)
    obtain d where "mmc_invalidate_agid send m (word_of_nat n) = m\<lparr>mmc_dev := d\<rparr>"
      using invalidate_agid_frame [of send m "word_of_nat n"] by auto
    with Cons [of "m\<lparr>mmc_dev := d\<rparr>"] show ?case by simp
  qed
  then show ?thesis by (simp only: mmc_invalidate_agids_def)
qed

text \<open>What a successful authentication has established.\<close>

definition drive_authenticated :: "'s mmc_env \<Rightarrow> 'd mmc \<Rightarrow> byte list \<Rightarrow> byte list \<Rightarrow> bool" where
  "drive_authenticated E m dkp bus_key \<longleftrightarrow>
     crypto_aacs_verify_drive_cert (me_alloc E) (me_mpi E) (me_gcrypt E) (mmc_drive_cert m) = Some 0 \<and>
     (\<exists>dks. mmc_verify_signature E (mmc_drive_cert m) dks (mmc_host_nonce m) dkp = Some True) \<and>
     crypto_create_bus_key (me_mpi E) (me_bin E) (mmc_host_key m) dkp = Some bus_key"

lemma mmc_aacs_auth_success:
  assumes "mmc_aacs_auth E send m agid priv hc = Some (0, bk, m')"
  shows "\<exists>dkp bus_key. bk = Some bus_key \<and> drive_authenticated E m' dkp bus_key"
  using assms unfolding mmc_aacs_auth_def Let_def
  by (auto simp: MMC_ERROR_def MMC_ERROR_CERT_REVOKED_def MMC_SUCCESS_def
      split: Option.bind_splits prod.splits option.splits if_splits)
    (auto simp: drive_authenticated_def dest!: mmc_frame, metis)

lemma send_key_lengths:
  "send_ok send \<Longrightarrow> mmc_report_key send m agid addr blocks format len = (r, buf, m') \<Longrightarrow> length buf = len"
  "send_ok send \<Longrightarrow> mmc_report_disc_structure send m agid f layer a len = (r, buf, m') \<Longrightarrow> length buf = len"
  "send_ok send \<Longrightarrow> mmc_get_configuration send m feat len = (r, buf, m') \<Longrightarrow> length buf = len"
  by (auto simp: mmc_report_key_def mmc_report_disc_structure_def mmc_get_configuration_def send_ok_def Let_def
      split: prod.splits) (metis fst_conv length_zeros snd_conv)+

section \<open>A device that follows the protocol\<close>

text \<open>Its state is the list of the commands it was sent, the last one first.\<close>

definition toy_answer :: "byte list \<Rightarrow> byte list \<Rightarrow> byte list" where
  "toy_answer v cmd =
     (if cmd ! 0 = 0xa4 then
        (if cmd ! 10 AND 0x3f = 0x01 then zeros 24 @ toy_cert
         else if cmd ! 10 AND 0x3f = 0x02 then zeros 4 @ aacs_curve_G_x @ aacs_curve_G_y @ toy_signature
         else if cmd ! 10 AND 0x3f = 0x38 then zeros 4 @ toy_cert
         else [])
      else if cmd ! 0 = 0x46 then zeros 8 @ [0x01, 0x0d, 0x01]
      else if cmd ! 0 = 0xad then zeros 4 @ v
      else [])"

definition toy_drive :: "byte list \<Rightarrow> byte list list send_cmd" where
  "toy_drive v d cmd buf tx rx = (1, take (length buf) (toy_answer v cmd @ zeros (length buf)), cmd # d)"

abbreviation toy_send :: "byte list list send_cmd" where
  "toy_send \<equiv> toy_drive (zeros 16 @ zeros 16)"

definition toy_env :: "(string \<times> int list) mmc_env" where
  "toy_env = \<lparr>me_alloc = (\<lambda>_. True), me_mpi = std_mpi, me_gcrypt = toy_gcrypt, me_nonce = zeros 20,
     me_random = zeros 19 @ [1], me_n0 = 0, me_bin = zeros 100, me_loc = (zeros 16, zeros 16)\<rparr>"

definition toy_mmc :: "byte list list mmc" where
  "toy_mmc = \<lparr>mmc_dev = [], mmc_host_nonce = zeros 20, mmc_host_key = zeros 19 @ [1],
     mmc_host_key_point = aacs_curve_G_x @ aacs_curve_G_y, mmc_drive_cert = zeros 92,
     mmc_read_drive_cert_flag = False, mmc_aacs_version = 0\<rparr>"

lemma toy_send_ok: "send_ok (toy_drive v)"
  by (auto simp: send_ok_def toy_drive_def)

lemma toy_lengths [simp]: "length toy_cert = 92" "length toy_signature = 40"
  "length aacs_curve_G_x = 20" "length aacs_curve_G_y = 20"
  by (simp_all add: toy_cert_def toy_signature_def aacs_curve_G_x_def aacs_curve_G_y_def)

lemma toy_report_key:
  "mmc_report_key (toy_drive v) m agid addr blocks format len =
     (1, take len (toy_answer v (cmd_report_key agid addr blocks format len) @ zeros len),
      m\<lparr>mmc_dev := cmd_report_key agid addr blocks format len # mmc_dev m\<rparr>)"
  by (simp add: mmc_report_key_def toy_drive_def Let_def)

lemma cmd_report_key_nth:
  "cmd_report_key agid addr blocks format len ! 0 = 0xa4"
  "cmd_report_key agid addr blocks format len ! 10 = push_bit 6 agid OR (format AND 0x3f)"
  by (simp_all add: cmd_report_key_def be32_bytes_def be16_bytes_def nth_append)

lemma toy_answers:
  assumes "f \<in> {0x00, 0x01, 0x02, 0x38, 0x3f}"
  shows "toy_answer v (cmd_report_key 0 addr blocks f len) =
    (if f = 0x01 then zeros 24 @ toy_cert
     else if f = 0x02 then zeros 4 @ aacs_curve_G_x @ aacs_curve_G_y @ toy_signature
     else if f = 0x38 then zeros 4 @ toy_cert else [])"
  using assms by (auto simp: toy_answer_def cmd_report_key_nth)

lemma toy_cert_accepted:
  "crypto_aacs_verify_drive_cert (\<lambda>_. True) std_mpi toy_gcrypt toy_cert = Some 0"
proof -
  have "take 40 (drop 52 toy_cert) = toy_signature" by (simp add: toy_cert_def toy_signature_def)
  then have "crypto_aacs_verify_aacsla (\<lambda>_. True) std_mpi toy_gcrypt (drop 52 toy_cert) toy_cert 52 = Some 0"
    unfolding crypto_aacs_verify_aacsla_def
    by (intro toy_verify) (simp_all add: aacs_la_pubkey_x_def aacs_la_pubkey_y_def)
  moreover have "rd_be16 toy_cert 2 = Some 92" by (simp add: rd_be_eq rdn_def toy_cert_def)
  moreover have "rd toy_cert 0 = Some 1" by (simp add: rd_def toy_cert_def)
  ultimately show ?thesis by (simp add: crypto_aacs_verify_drive_cert_def aacs_verify_cert_def)
qed

lemma toy_verify_signature:
  assumes "length cert = 92" and "length nonce = 20" and "length point = 40"
  shows "mmc_verify_signature toy_env cert toy_signature nonce point = Some True"
proof -
  have "crypto_aacs_verify (\<lambda>_. True) std_mpi toy_gcrypt cert toy_signature (nonce @ point) 60 = Some 0"
    unfolding crypto_aacs_verify_def using assms by (intro toy_verify) simp_all
  then show ?thesis using assms by (simp add: mmc_verify_signature_def toy_env_def rdn_def)
qed

lemma toy_auth:
  assumes "m = toy_mmc\<lparr>mmc_dev := d\<rparr>" and "length priv = 20" and "length cert = 92"
  shows "\<exists>bk m'. mmc_aacs_auth toy_env (toy_drive v) m 0 priv cert = Some (0, Some bk, m')"
proof -
  have E: "me_alloc toy_env = (\<lambda>_. True)" "me_mpi toy_env = std_mpi" "me_gcrypt toy_env = toy_gcrypt"
    "me_bin toy_env = zeros 100" by (simp_all add: toy_env_def)
  obtain bk where bk: "crypto_create_bus_key std_mpi (zeros 100) (zeros 19 @ [1]) (aacs_curve_G_x @ aacs_curve_G_y) = Some bk"
    using toy_bus_key by blast
  have cert: "\<exists>m'. mmc_send_host_cert (toy_drive v) m 0 (mmc_host_nonce m) cert = Some (1, m') \<and> (\<exists>d. m' = m\<lparr>mmc_dev := d\<rparr>)"
    using assms by (simp add: mmc_send_host_cert_def mmc_send_key_def toy_drive_def toy_mmc_def rdn_def memcpy_at_def)
  have challenge: "mmc_read_drive_cert_challenge (toy_drive v) m' 0 = Some (Some (zeros 20, toy_cert),
      m'\<lparr>mmc_dev := cmd_report_key 0 0 0 1 116 # mmc_dev m'\<rparr>)" for m'
    by (simp add: mmc_read_drive_cert_challenge_def toy_report_key toy_answers rdn_def zeros_def)
  have key: "mmc_read_drive_key (toy_drive v) m' 0 = Some (Some (aacs_curve_G_x @ aacs_curve_G_y, toy_signature),
      m'\<lparr>mmc_dev := cmd_report_key 0 0 0 2 84 # mmc_dev m'\<rparr>)" for m'
    by (simp add: mmc_read_drive_key_def toy_report_key toy_answers rdn_def zeros_def)
  have hkey: "mmc_send_host_key (toy_drive v) m' 0 (aacs_curve_G_x @ aacs_curve_G_y) toy_signature =
      Some (1, m'\<lparr>mmc_dev := cmd_send_key 0 2 84 # mmc_dev m'\<rparr>)" for m'
    by (simp add: mmc_send_host_key_def mmc_send_key_def toy_drive_def rdn_def memcpy_at_def)
  have c0: "rd toy_cert 0 = Some 1" by (simp add: rd_def toy_cert_def)
  have fields: "mmc_host_nonce toy_mmc = zeros 20" "mmc_host_key toy_mmc = zeros 19 @ [1]"
    "mmc_host_key_point toy_mmc = aacs_curve_G_x @ aacs_curve_G_y" by (simp_all add: toy_mmc_def)
  obtain d1 where d1: "mmc_send_host_cert (toy_drive v) m 0 (mmc_host_nonce m) cert = Some (1, toy_mmc\<lparr>mmc_dev := d1\<rparr>)"
    using cert assms(1) by auto
  show ?thesis
    unfolding mmc_aacs_auth_def d1 bind.bind_lunit prod.case challenge option.case
    using bk assms(2,3)
    by (simp add: c0 E toy_cert_accepted key toy_verify_signature fields toy_sign hkey MMC_SUCCESS_def)
qed

lemma toy_report_agid:
  "mmc_report_agid (toy_drive v) m a = Some (1, 0, m\<lparr>mmc_dev := cmd_report_key 0 0 0 0 8 # mmc_dev m\<rparr>)"
  by (simp add: mmc_report_agid_def toy_report_key toy_answers rd_def zeros_def)

lemma toy_cmac:
  assumes "length d = 16"
  shows "crypto_aes_cmac_16 toy_gcrypt (zeros 16, zeros 16) d key cmac = Some (0, zeros 16)"
proof -
  have e: "crypto_aes128e toy_gcrypt key None x = (0, zeros (length x))" for x
    by (simp add: crypto_aes128e_def toy_gcrypt_def)
  show ?thesis using assms
    by (simp add: crypto_aes_cmac_16_def cmac_key_def e Let_def rdn_def cmac_subkey_value)
qed

lemma toy_read_vid_mac:
  assumes "length priv = 20" and "length cert = 92" and "length vid = 16" and "length mac = 16"
  shows "\<exists>m'. mmc_read_auth toy_env (toy_drive (vid @ mac)) (toy_mmc\<lparr>mmc_dev := d\<rparr>) priv cert MMC_READ_VID (Some v0) None =
    Some (if mac = zeros 16 then MMC_SUCCESS else MMC_ERROR, Some vid, None, m')"
proof -
  let ?send = "toy_drive (vid @ mac)"
  obtain d0 where d0: "mmc_invalidate_agids ?send (toy_mmc\<lparr>mmc_dev := d\<rparr>) = toy_mmc\<lparr>mmc_dev := d0\<rparr>"
    using invalidate_agids_frame [of ?send "toy_mmc\<lparr>mmc_dev := d\<rparr>"] by auto
  obtain d1 where d1: "mmc_report_agid ?send (toy_mmc\<lparr>mmc_dev := d0\<rparr>) 0 = Some (1, 0, toy_mmc\<lparr>mmc_dev := d1\<rparr>)"
    by (simp add: toy_report_agid)
  obtain bk m2 where m2: "mmc_aacs_auth toy_env ?send (toy_mmc\<lparr>mmc_dev := d1\<rparr>) 0 priv cert = Some (0, Some bk, m2)"
    using toy_auth [OF refl assms(1, 2)] by blast
  have "\<exists>m3. mmc_read_vid_mac ?send m2 0 = Some (Some (vid, mac), m3)"
    using assms(3, 4)
    by (simp add: mmc_read_vid_mac_def mmc_report_disc_structure_def toy_drive_def toy_answer_def
        cmd_disc_structure_def rdn_def)
  then obtain m3 where "mmc_read_vid_mac ?send m2 0 = Some (Some (vid, mac), m3)" by blast
  then have "read_vid toy_env ?send m2 0 bk v0 = Some (if mac = zeros 16 then MMC_SUCCESS else MMC_ERROR, vid, m3)"
    using toy_cmac [OF assms(3)] by (auto simp: read_vid_def check_mac_def toy_env_def)
  then show ?thesis
    by (simp add: mmc_read_auth_def d0 d1 m2 mmc_request_def MMC_READ_VID_def Let_def)
qed

lemma toy_read_vid:
  assumes "length priv = 20" and "length cert = 92"
  shows "\<exists>m'. mmc_read_auth toy_env toy_send (toy_mmc\<lparr>mmc_dev := d\<rparr>) priv cert MMC_READ_VID (Some v0) None =
    Some (0, Some (zeros 16), None, m')"
  using toy_read_vid_mac [OF assms, of "zeros 16" "zeros 16"] by (simp add: MMC_SUCCESS_def)

lemma toy_mmc_dev: "toy_mmc = toy_mmc\<lparr>mmc_dev := []\<rparr>"
  by (simp add: toy_mmc_def)

text \<open>Opening the drive.\<close>

lemma toy_mmc_open:
  "\<exists>d. mmc_open toy_env (toy_drive v) (\<lambda>_. Some []) (Some p) = Some (Some (toy_mmc\<lparr>mmc_dev := d\<rparr>))"
proof -
  have "crypto_create_host_key_pair (me_mpi toy_env) (me_n0 toy_env) (me_random toy_env) (zeros 40) =
      Some (zeros 19 @ [1], aacs_curve_G_x @ aacs_curve_G_y)"
    by (simp add: toy_env_def toy_host_key_pair)
  moreover have "\<exists>d. mmc_check_aacs (toy_drive v) (toy_mmc\<lparr>mmc_dev := []\<rparr>) = Some (1, toy_mmc\<lparr>mmc_dev := d\<rparr>)"
    by (simp add: mmc_check_aacs_def mmc_get_configuration_def toy_drive_def toy_answer_def cmd_get_configuration_def
        rd_def rd_be_eq rdn_def zeros_numeral toy_mmc_def)
  moreover have "\<lparr>mmc_dev = [], mmc_host_nonce = me_nonce toy_env, mmc_host_key = zeros 19 @ [1],
      mmc_host_key_point = aacs_curve_G_x @ aacs_curve_G_y, mmc_drive_cert = zeros 92,
      mmc_read_drive_cert_flag = False, mmc_aacs_version = 0\<rparr> = toy_mmc\<lparr>mmc_dev := []\<rparr>"
    by (simp add: toy_mmc_def toy_env_def)
  ultimately show ?thesis
    by (auto simp: mmc_open_def Let_def) (simp_all add: toy_env_def toy_mmc_def)
qed

section \<open>Properties\<close>

text \<open>
  C24: once the drive has given an authentication grant, every way out of \<open>mmc_read_auth\<close>, errors
  included, ends with the command that gives that grant back.
\<close>

theorem read_auth_releases_grant:
  assumes "mmc_read_auth E send m priv cert request p1 p2 = Some (e, q1, q2, m')"
    and "mmc_report_agid send (mmc_invalidate_agids send m) 0 = Some (r, agid, m0)" and "r \<noteq> 0"
  shows "\<exists>m1. m' = mmc_invalidate_agid send m1 agid"
  using assms unfolding mmc_read_auth_def Let_def
  by (auto split: Option.bind_splits prod.splits if_splits)

theorem read_auth_releases_grant_witness:
  "\<exists>m' m1. mmc_read_auth toy_env toy_send toy_mmc (zeros 20) toy_cert MMC_READ_VID (Some []) None =
     Some (0, Some (zeros 16), None, m') \<and> m' = mmc_invalidate_agid toy_send m1 0"
proof -
  obtain m' where "mmc_read_auth toy_env toy_send toy_mmc (zeros 20) toy_cert MMC_READ_VID (Some []) None =
      Some (0, Some (zeros 16), None, m')"
    using toy_read_vid [of "zeros 20" toy_cert "[]"] by (auto simp: toy_mmc_dev [symmetric])
  with read_auth_releases_grant [OF this toy_report_agid] show ?thesis by simp
qed

lemma mmc_read_auth_vid:
  assumes "mmc_read_auth E send m priv cert MMC_READ_VID (Some v0) p2 = Some (0, Some vid, q2, m')"
  shows "\<exists>dkp bus_key mac. drive_authenticated E m' dkp bus_key \<and>
    crypto_aes_cmac_16 (me_gcrypt E) (me_loc E) vid bus_key (zeros 16) = Some (0, mac) \<and>
    (\<exists>agid m1 m2. mmc_read_vid_mac send m1 agid = Some (Some (vid, mac), m2))"
proof -
  obtain agid m1 m2 m3 bk where auth: "mmc_aacs_auth E send m1 agid priv cert = Some (0, Some bk, m2)"
    and req: "read_vid E send m2 agid bk v0 = Some (0, vid, m3)" and m': "m' = mmc_invalidate_agid send m3 agid"
    using assms unfolding mmc_read_auth_def mmc_request_def Let_def
    by (auto simp: MMC_ERROR_def split: Option.bind_splits prod.splits if_splits)
  obtain v mac where vm: "mmc_read_vid_mac send m2 agid = Some (Some (v, mac), m3)"
    and mac: "v = vid" "crypto_aes_cmac_16 (me_gcrypt E) (me_loc E) vid bk (zeros 16) = Some (0, mac)"
    using req unfolding read_vid_def check_mac_def
    by (auto simp: MMC_ERROR_def split: Option.bind_splits prod.splits option.splits if_splits)
  obtain dkp where "drive_authenticated E m2 dkp bk"
    using mmc_aacs_auth_success [OF auth] by auto
  moreover have "\<exists>d. m3 = m2\<lparr>mmc_dev := d\<rparr>"
    using vm by (auto simp: mmc_read_vid_mac_def mmc_report_disc_structure_def Let_def
        split: prod.splits if_splits Option.bind_splits)
  ultimately have "drive_authenticated E m' dkp bk"
    using m' invalidate_agid_frame [of send m3 agid] by (auto simp: drive_authenticated_def)
  with vm mac show ?thesis by blast
qed

text \<open>
  C6: a volume ID is reported as read only after the whole protocol has succeeded: the drive's
  certificate carries a valid AACS LA signature, the drive has signed the host's nonce together
  with its key point under that certificate, the bus key is derived from that point, and the MAC
  the drive sent with the volume ID is the CMAC of the volume ID under the bus key.
\<close>

theorem read_vid_authenticated:
  assumes "mmc_read_auth E send m priv cert MMC_READ_VID (Some v0) p2 = Some (0, Some vid, q2, m')"
  shows "\<exists>dkp bus_key mac. drive_authenticated E m' dkp bus_key \<and>
    crypto_aes_cmac_16 (me_gcrypt E) (me_loc E) vid bus_key (zeros 16) = Some (0, mac) \<and>
    (\<exists>agid m1 m2. mmc_read_vid_mac send m1 agid = Some (Some (vid, mac), m2))"
  using assms by (rule mmc_read_auth_vid)

theorem read_vid_authenticated_witness:
  "\<exists>m' dkp bus_key mac. mmc_read_auth toy_env toy_send toy_mmc (zeros 20) toy_cert MMC_READ_VID (Some []) None =
     Some (0, Some (zeros 16), None, m') \<and> drive_authenticated toy_env m' dkp bus_key \<and>
    crypto_aes_cmac_16 (me_gcrypt toy_env) (me_loc toy_env) (zeros 16) bus_key (zeros 16) = Some (0, mac)"
proof -
  obtain m' where "mmc_read_auth toy_env toy_send toy_mmc (zeros 20) toy_cert MMC_READ_VID (Some []) None =
      Some (0, Some (zeros 16), None, m')"
    using toy_read_vid [of "zeros 20" toy_cert "[]"] by (auto simp: toy_mmc_dev [symmetric])
  with read_vid_authenticated [OF this] show ?thesis by blast
qed

lemma unat_lo8: "unat (lo8 n) = n mod 256"
  by (simp add: lo8_def unat_of_nat)

lemma be16_bytes_val:
  assumes "n < 2 ^ 16"
  shows "be_val (be16_bytes n) = n"
proof -
  have "n div 256 < 256" using assms by (simp add: less_mult_imp_div_less)
  then show ?thesis by (simp add: be16_bytes_def unat_lo8 drop_bit_eq_div)
qed

lemma be32_bytes_val:
  assumes "n < 2 ^ 32"
  shows "be_val (be32_bytes n) = n"
proof -
  define a b c where "a = n div 256" and "b = a div 256" and "c = b div 256"
  have "c < 256" using assms by (simp add: a_def b_def c_def div_mult2_eq [symmetric] less_mult_imp_div_less)
  moreover have "n = a * 256 + n mod 256" "a = b * 256 + a mod 256" "b = c * 256 + b mod 256"
    by (simp_all only: a_def b_def c_def div_mult_mod_eq)
  ultimately have "c mod 256 * 256 ^ 3 + (b mod 256 * 256 ^ 2 + (a mod 256 * 256 + n mod 256)) = n" by simp
  moreover have "n div 65536 = b" "n div 16777216 = c"
    by (simp_all add: a_def b_def c_def div_mult2_eq [symmetric])
  ultimately show ?thesis
    by (simp add: be32_bytes_def unat_lo8 drop_bit_eq_div a_def [symmetric] del: mod_less)
qed

lemma agid_format_byte:
  assumes "unat (agid :: byte) < 4" and "unat (format :: byte) < 64"
  shows "drop_bit 6 (push_bit 6 agid OR (format AND 0x3f)) = agid" "drop_bit 6 (push_bit 6 agid) = agid"
    "(push_bit 6 agid OR (format AND 0x3f)) AND 0x3f = format"
proof -
  have m: "unat (x AND 0x3f) = unat x mod 64" for x :: byte
    using unsigned_take_bit_eq [of 6 x, where ?'a = nat] take_bit_eq_mask [of 6 x]
    by (simp add: take_bit_eq_mod mask_eq_exp_minus_1)
  have d: "unat (drop_bit 6 x) = unat x div 64" for x :: byte
    using unsigned_drop_bit_eq [of 6 x, where ?'a = nat] take_bit_nat_eq_self [of "unat x" 8]
    by (simp add: drop_bit_eq_div)
  have f: "unat (format AND 0x3f) = unat format" using assms(2) by (simp add: m)
  have 1: "unat (push_bit 6 agid OR (format AND 0x3f)) = unat agid * 64 + unat format"
    using unat_push_or [of agid 6 "format AND 0x3f"] assms f by simp
  have 2: "unat (push_bit 6 agid) = unat agid * 64"
    using unat_push_or [of agid 6 0] assms by simp
  have "unat (drop_bit 6 (push_bit 6 agid OR (format AND 0x3f))) = (unat agid * 64 + unat format) div 64"
    by (simp only: d 1)
  then show "drop_bit 6 (push_bit 6 agid OR (format AND 0x3f)) = agid"
    using assms by (intro word_unat_eq_iff [THEN iffD2]) linarith
  have "unat (drop_bit 6 (push_bit 6 agid)) = unat agid * 64 div 64" by (simp only: d 2)
  then show "drop_bit 6 (push_bit 6 agid) = agid"
    by (intro word_unat_eq_iff [THEN iffD2]) linarith
  have "unat ((push_bit 6 agid OR (format AND 0x3f)) AND 0x3f) = (unat agid * 64 + unat format) mod 64"
    by (simp only: m 1)
  then show "(push_bit 6 agid OR (format AND 0x3f)) AND 0x3f = format"
    using assms by (intro word_unat_eq_iff [THEN iffD2]) simp
qed

text \<open>
  The fields of the REPORT KEY, READ DISC STRUCTURE and GET CONFIGURATION commands are encoded
  without loss in 16 bytes, each at the place and width the MMC command sets give them.
\<close>

theorem commands_encode:
  assumes "unat agid < 4" and "unat format < 64" and "addr < 2 ^ 32" and "len < 2 ^ 16" and "feature < 2 ^ 16"
  shows "(let c = cmd_report_key agid addr blocks format len in
      length c = 16 \<and> be_val (take 4 (drop 2 c)) = addr \<and> be_val (take 2 (drop 8 c)) = len \<and>
      drop_bit 6 (c ! 10) = agid \<and> c ! 10 AND 0x3f = format) \<and>
    (let c = cmd_disc_structure agid format layer addr len in
      length c = 16 \<and> be_val (take 4 (drop 2 c)) = addr \<and> c ! 6 = layer \<and> c ! 7 = format \<and>
      be_val (take 2 (drop 8 c)) = len \<and> drop_bit 6 (c ! 10) = agid) \<and>
    (let c = cmd_get_configuration feature len in
      length c = 16 \<and> be_val (take 2 (drop 2 c)) = feature \<and> be_val (take 2 (drop 7 c)) = len)"
proof -
  note v = be32_bytes_val [OF assms(3)] be16_bytes_val [OF assms(4)] be16_bytes_val [OF assms(5)]
  note b = agid_format_byte [OF assms(1,2)]
  have l: "length (be32_bytes n) = 4" "length (be16_bytes n) = 2" for n
    by (simp_all add: be32_bytes_def be16_bytes_def)
  have 1: "let c = cmd_report_key agid addr blocks format len in
      length c = 16 \<and> be_val (take 4 (drop 2 c)) = addr \<and> be_val (take 2 (drop 8 c)) = len \<and>
      drop_bit 6 (c ! 10) = agid \<and> c ! 10 AND 0x3f = format"
    by (simp add: cmd_report_key_def Let_def l v b nth_append)
  have 2: "let c = cmd_disc_structure agid format layer addr len in
      length c = 16 \<and> be_val (take 4 (drop 2 c)) = addr \<and> c ! 6 = layer \<and> c ! 7 = format \<and>
      be_val (take 2 (drop 8 c)) = len \<and> drop_bit 6 (c ! 10) = agid"
    by (simp add: cmd_disc_structure_def Let_def l v b nth_append)
  have 3: "let c = cmd_get_configuration feature len in
      length c = 16 \<and> be_val (take 2 (drop 2 c)) = feature \<and> be_val (take 2 (drop 7 c)) = len"
    by (simp add: cmd_get_configuration_def Let_def l v)
  from 1 2 3 show ?thesis by (intro conjI)
qed


theorem commands_encode_witness:
  "(let c = cmd_report_key 2 0x01020304 0 0x3f 516 in
      length c = 16 \<and> be_val (take 4 (drop 2 c)) = 0x01020304 \<and> be_val (take 2 (drop 8 c)) = 516 \<and>
      drop_bit 6 (c ! 10) = 2 \<and> c ! 10 AND 0x3f = 0x3f)"
  using commands_encode [of 2 "0x3f" "0x01020304" 516 "0x010d" 0] by simp

lemma disc_structure_defined:
  assumes "send_ok send" and "mmc_report_disc_structure send m agid f l a 32772 = (r, buf, m')"
  shows "length buf = 32772" and "rd buf 3 = Some (buf ! 3)" and "rd_be16 buf 0 = Some (be_val (take 2 buf))"
    and "n \<le> 32768 \<Longrightarrow> rdn buf 4 n = Some (take n (drop 4 buf)) \<and> length (take n (drop 4 buf)) = n"
proof -
  show l: "length buf = 32772" using send_key_lengths(2) [OF assms] .
  show "rd buf 3 = Some (buf ! 3)" "rd_be16 buf 0 = Some (be_val (take 2 buf))"
    using l by (simp_all add: rd_def rd_be_defined)
  show "n \<le> 32768 \<Longrightarrow> rdn buf 4 n = Some (take n (drop 4 buf)) \<and> length (take n (drop 4 buf)) = n"
    using l by (simp add: rdn_def)
qed

lemma mkb_packs_loop_bounded:
  assumes "send_ok send" and "length mkb \<le> 32768 * pack" and "pack \<le> num"
  shows "\<exists>r m'. mkb_packs_loop send m agid (32768 * num) pack num mkb = Some (r, m') \<and>
    length mkb \<le> length r \<and> length r \<le> 32768 * num"
  using assms(2,3)
proof (induction "num - pack" arbitrary: pack mkb m)
  case 0
  then show ?case by (simp add: mkb_packs_loop.simps)
next
  case (Suc k)
  then have lt: "pack < num" by simp
  obtain r buf m1 where b: "mmc_report_disc_structure send m agid 0x83 0 pack 32772 = (r, buf, m1)"
    by (cases "mmc_report_disc_structure send m agid 0x83 0 pack 32772")
  note d = disc_structure_defined [OF assms(1) b]
  let ?len = "int (be_val (take 2 buf)) - 2"
  have stop: ?case if "r = 0 \<or> ?len \<le> 0 \<or> ?len > 32768"
    using that Suc.prems lt b d(3) by (subst mkb_packs_loop.simps) auto
  show ?case
  proof (cases "r = 0 \<or> ?len \<le> 0 \<or> ?len > 32768")
    case True
    then show ?thesis by (rule stop)
  next
    case False
    then have n: "nat ?len \<le> 32768" by linarith
    let ?d = "take (nat ?len) (drop 4 buf)"
    from d(4) [OF n] have d': "rdn buf 4 (nat ?len) = Some ?d" "length ?d = nat ?len" by blast+
    have fit: "length mkb + length ?d \<le> 32768 * Suc pack" using Suc.prems(1) n d'(2) by simp
    have "32768 * Suc pack \<le> 32768 * num" using lt by simp
    with fit have cap: "length mkb + length ?d \<le> 32768 * num" by linarith
    have "\<exists>r' m'. mkb_packs_loop send m1 agid (32768 * num) (Suc pack) num (mkb @ ?d) = Some (r', m') \<and>
        length (mkb @ ?d) \<le> length r' \<and> length r' \<le> 32768 * num"
      using Suc.hyps(2) lt fit by (intro Suc.hyps(1)) simp_all
    then obtain r' m' where "mkb_packs_loop send m1 agid (32768 * num) (Suc pack) num (mkb @ ?d) = Some (r', m')"
      "length (mkb @ ?d) \<le> length r'" "length r' \<le> 32768 * num" by blast
    moreover have "mkb_packs_loop send m agid (32768 * num) pack num mkb =
        mkb_packs_loop send m1 agid (32768 * num) (Suc pack) num (mkb @ ?d)"
      using False lt b d(3) d' cap by (subst mkb_packs_loop.simps) (simp add: Let_def del: length_take)
    ultimately show ?thesis by auto
  qed
qed

lemma mmc_read_mkb_agid_eq:
  assumes "send_ok send" and "mmc_report_disc_structure send m agid 0x83 0 address 32772 = (r, buf, m1)"
    and "r \<noteq> 0" and "3 \<le> be_val (take 2 buf)" and "be_val (take 2 buf) \<le> 32770"
    and "alloc (32768 * unat (buf ! 3))"
  shows "mmc_read_mkb_agid alloc send m agid address =
    (let n = be_val (take 2 buf) - 2; cap = 32768 * unat (buf ! 3) in
     if n \<le> cap then do {
       (mkb, m) \<leftarrow> mkb_packs_loop send m1 agid cap 1 (unat (buf ! 3)) (take n (drop 4 buf));
       Some (Some mkb, m)
     } else None)"
proof -
  note d = disc_structure_defined [OF assms(1,2)]
  let ?n = "be_val (take 2 buf) - 2"
  have n: "nat (int (be_val (take 2 buf)) - 2) = ?n" "\<not> int (be_val (take 2 buf)) - 2 \<le> 0"
    "\<not> 32768 < int (be_val (take 2 buf)) - 2" "?n \<le> 32768" using assms(4,5) by linarith+
  show ?thesis
    using assms(3-6) d(2,3) d(4) [OF n(4)] unfolding mmc_read_mkb_agid_def assms(2) n(1)
    by (simp add: n Let_def)
qed

text \<open>
  Reading the MKB from the drive never writes outside the allocation as long as the first pack
  announces at least one pack, whatever the lengths the drive reports in the packs.
\<close>
theorem read_mkb_bounded:
  assumes "send_ok send" and "mmc_report_disc_structure send m agid 0x83 0 address 32772 = (r, buf, m1)"
    and "buf ! 3 \<noteq> 0"
  shows "\<exists>mkb m'. mmc_read_mkb_agid alloc send m agid address = Some (mkb, m') \<and>
    (\<forall>d. mkb = Some d \<longrightarrow> 1 \<le> length d \<and> length d \<le> 32768 * unat (buf ! 3))"
proof (cases "r \<noteq> 0 \<and> 3 \<le> be_val (take 2 buf) \<and> be_val (take 2 buf) \<le> 32770 \<and> alloc (32768 * unat (buf ! 3))")
  case False
  note d = disc_structure_defined [OF assms(1,2)]
  show ?thesis
    using False d(2,3) unfolding mmc_read_mkb_agid_def assms(2) by (auto simp: Let_def)
next
  case True
  note d = disc_structure_defined [OF assms(1,2)]
  have "unat (buf ! 3) \<noteq> 0" using assms(3) by (simp add: unat_eq_0)
  then have one: "1 \<le> unat (buf ! 3)" by simp
  let ?n = "be_val (take 2 buf) - 2"
  have n: "?n \<le> 32768" "1 \<le> ?n" using True by linarith+
  have len: "length (take ?n (drop 4 buf)) = ?n" using d(4) [OF n(1)] by blast
  then obtain mkb m' where "mkb_packs_loop send m1 agid (32768 * unat (buf ! 3)) 1 (unat (buf ! 3))
      (take ?n (drop 4 buf)) = Some (mkb, m')" "?n \<le> length mkb" "length mkb \<le> 32768 * unat (buf ! 3)"
    using mkb_packs_loop_bounded [OF assms(1), of "take ?n (drop 4 buf)" 1 "unat (buf ! 3)" m1 agid] n one
    unfolding len by auto
  moreover have "?n \<le> 32768 * unat (buf ! 3)" using n one by linarith
  ultimately show ?thesis
    using mmc_read_mkb_agid_eq [OF assms(1,2)] True n by (auto simp: Let_def)
qed

text \<open>A drive that answers every command with the same bytes.\<close>

definition const_send :: "byte list \<Rightarrow> unit send_cmd" where
  "const_send answer d cmd buf tx rx = (1, take (length buf) (answer @ zeros (length buf)), d)"

lemma const_send_ok: "send_ok (const_send answer)"
  by (auto simp: send_ok_def const_send_def)

definition const_mmc :: "unit mmc" where
  "const_mmc = \<lparr>mmc_dev = (), mmc_host_nonce = zeros 20, mmc_host_key = zeros 20, mmc_host_key_point = zeros 40,
     mmc_drive_cert = zeros 92, mmc_read_drive_cert_flag = False, mmc_aacs_version = 0\<rparr>"

lemma const_disc_structure:
  "mmc_report_disc_structure (const_send answer) const_mmc agid f l a len =
     (1, take len (answer @ zeros len), const_mmc)"
  by (simp add: mmc_report_disc_structure_def const_send_def const_mmc_def Let_def)

theorem read_mkb_bounded_witness:
  "\<exists>mkb m'. mmc_read_mkb_agid (\<lambda>_. True) (const_send [0x00, 0x06, 0, 1]) const_mmc 0 0 = Some (mkb, m') \<and>
    (\<forall>d. mkb = Some d \<longrightarrow> 1 \<le> length d \<and>
      length d \<le> 32768 * unat (take 32772 ([0x00, 0x06, 0, 1] @ zeros 32772) ! 3 :: byte))"
  by (rule read_mkb_bounded [OF const_send_ok const_disc_structure]) simp

text \<open>
  A first pack that announces no packs at all makes the code write the pack into an allocation
  of no bytes.
\<close>

theorem read_mkb_zero_packs:
  assumes "send_ok send" and "mmc_report_disc_structure send m agid 0x83 0 address 32772 = (r, buf, m1)"
    and "r \<noteq> 0" and "buf ! 3 = 0" and "3 \<le> be_val (take 2 buf)" and "be_val (take 2 buf) \<le> 32770"
    and "alloc 0"
  shows "mmc_read_mkb_agid alloc send m agid address = None"
proof -
  have "alloc (32768 * unat (buf ! 3))" using assms(4,7) by simp
  from mmc_read_mkb_agid_eq [of send m agid address r buf m1 alloc, OF assms(1-3,5,6) this] assms(4,5)
  show ?thesis by (simp add: Let_def)
qed

theorem read_mkb_zero_packs_witness:
  "mmc_read_mkb_agid (\<lambda>_. True) (const_send [0x00, 0x06, 0, 0]) const_mmc 0 0 = None"
  by (rule read_mkb_zero_packs [OF const_send_ok const_disc_structure]) simp_all

text \<open>
  A drive certificate of type 1 whose signature is refused stays in the handle: although the
  authentication fails, from then on the certificate is handed out as that of the drive, with
  success and without being verified again.
\<close>

theorem forged_cert_served:
  assumes "mmc_send_host_cert send m agid (mmc_host_nonce m) hc = Some (r, m1)" and "r \<noteq> 0"
    and "mmc_read_drive_cert_challenge send m1 agid = Some (Some (dn, cert), m2)"
    and "length cert = 92" and "cert ! 0 = 0x01" and "length buf = 92"
    and "crypto_aacs_verify_drive_cert (me_alloc E) (me_mpi E) (me_gcrypt E) cert = Some err" and "err \<noteq> 0"
  shows "\<exists>m'. mmc_aacs_auth E send m agid priv hc = Some (MMC_ERROR, None, m') \<and>
    mmc_get_drive_cert m' = Some (Some cert) \<and>
    mmc_read_drive_cert E send m' buf = Some (MMC_SUCCESS, cert, m')"
proof -
  have c: "rd cert 0 = Some 0x01" "rdn cert 0 92 = Some cert" "memcpy_at buf 0 cert = Some cert"
    using assms(4-6) by (simp_all add: rd_def rdn_def memcpy_at_def)
  have "mmc_aacs_auth E send m agid priv hc = Some (MMC_ERROR, None, m2\<lparr>mmc_drive_cert := cert\<rparr>)"
    using assms(2,8) by (simp add: mmc_aacs_auth_def assms(1,3,7) c Let_def)
  then show ?thesis by (auto simp: mmc_get_drive_cert_def mmc_read_drive_cert_def c)
qed

definition forged_cert :: "byte list" where
  "forged_cert = [0x01, 0, 0, 0x5c] @ zeros 88"

lemma forged_cert_refused:
  "crypto_aacs_verify_drive_cert (\<lambda>_. True) std_mpi toy_gcrypt forged_cert = Some 1"
proof -
  have t: "take 20 (drop 52 forged_cert) = zeros 20" "take 20 (drop 20 (drop 52 forged_cert)) = zeros 20"
    by (simp_all add: forged_cert_def zeros_def)
  have "mpi_scan_usg std_mpi (zeros 20) = 0" by (simp add: std_mpi_def)
  then have "crypto_aacs_verify_aacsla (\<lambda>_. True) std_mpi toy_gcrypt (drop 52 forged_cert) forged_cert 52 = Some 1"
    unfolding crypto_aacs_verify_aacsla_def
    using aacs_verify_sha1_eq [OF toy_gcrypt_ok(1), of "drop 52 forged_cert" aacs_la_pubkey_x aacs_la_pubkey_y
        52 forged_cert "\<lambda>_. True" std_mpi] t
    by (simp add: forged_cert_def aacs_la_pubkey_x_def aacs_la_pubkey_y_def str_printf_eq)
      (simp add: toy_gcrypt_def)
  moreover have "rd_be16 forged_cert 2 = Some 92" by (simp add: rd_be_eq rdn_def forged_cert_def)
  moreover have "rd forged_cert 0 = Some 1" by (simp add: rd_def forged_cert_def)
  ultimately show ?thesis by (simp add: crypto_aacs_verify_drive_cert_def aacs_verify_cert_def)
qed

theorem forged_cert_served_witness:
  "\<exists>m'. mmc_aacs_auth toy_env (const_send (zeros 24 @ forged_cert)) const_mmc 0 (zeros 20) toy_cert =
      Some (MMC_ERROR, None, m') \<and>
    mmc_get_drive_cert m' = Some (Some forged_cert) \<and>
    mmc_read_drive_cert toy_env (const_send (zeros 24 @ forged_cert)) m' (zeros 92) =
      Some (MMC_SUCCESS, forged_cert, m')"
proof -
  have a: "mmc_send_host_cert (const_send (zeros 24 @ forged_cert)) const_mmc 0 (mmc_host_nonce const_mmc) toy_cert =
      Some (1, const_mmc)"
    by (simp add: mmc_send_host_cert_def mmc_send_key_def const_send_def const_mmc_def rdn_def memcpy_at_def)
  have b: "mmc_read_drive_cert_challenge (const_send (zeros 24 @ forged_cert)) const_mmc 0 =
      Some (Some (zeros 20, forged_cert), const_mmc)"
    by (simp add: mmc_read_drive_cert_challenge_def mmc_report_key_def const_send_def const_mmc_def rdn_def
        forged_cert_def zeros_def)
  show ?thesis
    by (rule forged_cert_served [OF a _ b, where err = 1])
      (simp_all add: forged_cert_refused toy_env_def, simp_all add: forged_cert_def)
qed

end
