(* ===== verification/File.thy ===== *)
theory File
  imports StrUtl
begin

text \<open>
  The file layer: \<^verbatim>\<open>src/file/file.c\<close>, the XDG directories of \<^verbatim>\<open>src/file/dirs_xdg.c\<close> and
  the parts of \<^verbatim>\<open>src/file/file_posix.c\<close> above the system calls.  The file system is a state:
  the contents of the files and the paths that exist; what the operating system decides
  (permissions, space, the environment, the byte order of the machine) is the record \<open>fs_env\<close>.
\<close>

section \<open>State\<close>

record fs =
  fs_files :: "string \<Rightarrow> byte list option"
  fs_exists :: "string \<Rightarrow> bool"

record fs_env =
  fe_alloc :: "nat \<Rightarrow> bool"
  fe_getenv :: "string \<Rightarrow> string option"
  fe_mkdir :: "fs \<Rightarrow> string \<Rightarrow> bool"
  fe_open_r :: "string \<Rightarrow> bool"
  fe_open_w :: "fs \<Rightarrow> string \<Rightarrow> bool"
  fe_unlink :: "string \<Rightarrow> bool"
  fe_room :: nat
  fe_enc32 :: "nat \<Rightarrow> byte list"
  fe_dec32 :: "byte list \<Rightarrow> nat"

text \<open>The machine's representation of a 32-bit integer in memory.\<close>

definition enc32_ok :: "fs_env \<Rightarrow> bool" where
  "enc32_ok E \<longleftrightarrow> (\<forall>n < 2 ^ 32. length (fe_enc32 E n) = 4 \<and> fe_dec32 E (fe_enc32 E n) = n)"

text \<open>An open file for reading: its contents and the position.\<close>

record fh =
  fh_data :: "byte list"
  fh_pos :: nat

definition file_tell :: "fh \<Rightarrow> int" where "file_tell fp = int (fh_pos fp)"

datatype origin = SEEK_SET | SEEK_END

definition file_seek :: "fh \<Rightarrow> int \<Rightarrow> origin \<Rightarrow> int \<times> fh" where
  "file_seek fp off orig =
     (let pos = (case orig of SEEK_SET \<Rightarrow> off | SEEK_END \<Rightarrow> int (length (fh_data fp)) + off) in
      if pos < 0 then (- 1, fp) else (pos, fp\<lparr>fh_pos := nat pos\<rparr>))"

definition file_size :: "fh \<Rightarrow> int \<times> fh" where
  "file_size fp =
     (let pos = file_tell fp;
          (res1, fp) = file_seek fp 0 SEEK_END;
          len = file_tell fp;
          (res2, fp) = file_seek fp pos SEEK_SET
      in (if res1 < 0 \<or> res2 < 0 \<or> pos < 0 \<or> len < 0 then - 1 else len, fp))"

text \<open>The bytes that were read and the handle; fewer than asked for at the end of the file.\<close>

definition file_read :: "fh \<Rightarrow> nat \<Rightarrow> byte list \<times> fh" where
  "file_read fp n =
     (if n = 0 then ([], fp)
      else let bs = take n (drop (fh_pos fp) (fh_data fp)) in (bs, fp\<lparr>fh_pos := fh_pos fp + length bs\<rparr>))"

definition file_open_r :: "fs_env \<Rightarrow> fs \<Rightarrow> string \<Rightarrow> fh option" where
  "file_open_r E s path =
     (if fe_open_r E path then map_option (\<lambda>d. \<lparr>fh_data = d, fh_pos = 0\<rparr>) (fs_files s path) else None)"

definition file_open_w :: "fs_env \<Rightarrow> fs \<Rightarrow> string \<Rightarrow> fs option" where
  "file_open_w E s path =
     (if fe_open_w E s path
      then Some (s\<lparr>fs_files := (fs_files s)(path := Some []), fs_exists := (fs_exists s)(path := True)\<rparr>)
      else None)"

text \<open>Appends as many bytes as there is room for and returns how many.\<close>

definition file_write :: "fs_env \<Rightarrow> fs \<Rightarrow> string \<Rightarrow> byte list \<Rightarrow> nat \<times> fs" where
  "file_write E s path bs =
     (let old = (case fs_files s path of None \<Rightarrow> [] | Some d \<Rightarrow> d);
          new = take (fe_room E - length old) bs
      in (length new, s\<lparr>fs_files := (fs_files s)(path := Some (old @ new))\<rparr>))"

definition file_unlink :: "fs_env \<Rightarrow> fs \<Rightarrow> string \<Rightarrow> int \<times> fs" where
  "file_unlink E s path =
     (if fe_unlink E path \<and> fs_files s path \<noteq> None
      then (0, s\<lparr>fs_files := (fs_files s)(path := None), fs_exists := (fs_exists s)(path := False)\<rparr>)
      else (- 1, s))"

section \<open>Creating directories\<close>

fun split_sep :: "string \<Rightarrow> string list" where
  "split_sep [] = [[]]"
| "split_sep (c # cs) =
     (if c = CHR ''/'' then [] # split_sep cs
      else case split_sep cs of [] \<Rightarrow> [[c]] | w # ws \<Rightarrow> (c # w) # ws)"

fun join_sep :: "string list \<Rightarrow> string" where
  "join_sep [] = []"
| "join_sep [w] = w"
| "join_sep (w # ws) = w @ CHR ''/'' # join_sep ws"

text \<open>
  The directory of the path is the first \<open>k\<close> of its components; as long as it contains a
  separator and does not exist, its last component is cut off.
\<close>

fun strip_missing :: "fs \<Rightarrow> string list \<Rightarrow> nat \<Rightarrow> nat" where
  "strip_missing s cs k =
     (if k \<ge> 2 then
        (if fs_exists s (join_sep (take k cs)) then k else strip_missing s cs (k - 1))
      else k)"

declare strip_missing.simps [simp del]

function create_missing :: "fs_env \<Rightarrow> fs \<Rightarrow> string list \<Rightarrow> nat \<Rightarrow> nat \<Rightarrow> int \<times> fs" where
  "create_missing E s cs k n =
     (if k < n then
        let dir = join_sep (take (k + 1) cs) in
        if fe_mkdir E s dir
        then create_missing E (s\<lparr>fs_exists := (fs_exists s)(dir := True)\<rparr>) cs (k + 1) n
        else (- 1, s)
      else (0, s))"
  by pat_completeness auto
termination
  by (relation "measure (\<lambda>(E, s, cs, k, n). n - k)") auto

declare create_missing.simps [simp del]

definition file_mkdirs :: "fs_env \<Rightarrow> fs \<Rightarrow> string \<Rightarrow> int \<times> fs" where
  "file_mkdirs E s path =
     (if \<not> fe_alloc E (length path + 1) then (- 1, s)
      else
        let cs = split_sep path; n = length cs - 1 in
        if n = 0 then (- 1, s)
        else create_missing E s cs (strip_missing s cs n) n)"

section \<open>XDG directories\<close>

definition xdg_dir :: "fs_env \<Rightarrow> string \<Rightarrow> string \<Rightarrow> string ptr" where
  "xdg_dir E var sub =
     (case fe_getenv E var of
        Some (c # d) \<Rightarrow> str_dup (fe_alloc E) (Some (c # d))
      | _ \<Rightarrow> (case fe_getenv E ''HOME'' of
            Some (c # h) \<Rightarrow> str_printf (fe_alloc E) ((c # h) @ ''/'' @ sub)
          | _ \<Rightarrow> None))"

definition file_get_config_home :: "fs_env \<Rightarrow> string ptr" where
  "file_get_config_home E = xdg_dir E ''XDG_CONFIG_HOME'' ''.config''"

definition file_get_data_home :: "fs_env \<Rightarrow> string ptr" where
  "file_get_data_home E = xdg_dir E ''XDG_DATA_HOME'' ''.local/share''"

definition file_get_cache_home :: "fs_env \<Rightarrow> string ptr" where
  "file_get_cache_home E = xdg_dir E ''XDG_CACHE_HOME'' ''.cache''"

text \<open>
  The system directories in the order \<open>file_get_config_system\<close> hands them out: the first one
  always, then up to the first empty one.
\<close>

fun split_colon :: "string \<Rightarrow> string list" where
  "split_colon [] = [[]]"
| "split_colon (c # cs) =
     (if c = CHR '':'' then [] # split_colon cs
      else case split_colon cs of [] \<Rightarrow> [[c]] | w # ws \<Rightarrow> (c # w) # ws)"

definition config_system_dirs :: "fs_env \<Rightarrow> string list" where
  "config_system_dirs E =
     (case fe_getenv E ''XDG_CONFIG_DIRS'' of
        Some (c # d) \<Rightarrow>
          (if fe_alloc E (length (c # d) + 2)
           then (case split_colon (c # d) of [] \<Rightarrow> [] | w # ws \<Rightarrow> w # takeWhile (\<lambda>w. w \<noteq> []) ws)
           else [])
      | _ \<Rightarrow> (if fe_alloc E 100 then [''/etc/xdg''] else []))"

section \<open>Properties\<close>

lemma split_sep_not_Nil [simp]: "split_sep cs \<noteq> []"
  by (induction cs) (auto split: list.splits)

lemma join_split_sep: "join_sep (split_sep cs) = cs"
proof (induction cs)
  case Nil
  show ?case by simp
next
  case (Cons c cs)
  obtain w ws where w: "split_sep cs = w # ws" by (cases "split_sep cs") simp_all
  with Cons show ?case by (cases ws) auto
qed

lemma strip_missing_bounds:
  "1 \<le> n \<Longrightarrow> 1 \<le> strip_missing s cs n \<and> strip_missing s cs n \<le> n \<and>
     (strip_missing s cs n < 2 \<or> fs_exists s (join_sep (take (strip_missing s cs n) cs)))"
proof (induction s cs n rule: strip_missing.induct)
  case (1 s cs k)
  show ?case
  proof (cases "k \<ge> 2 \<and> \<not> fs_exists s (join_sep (take k cs))")
    case True
    then have "strip_missing s cs k = strip_missing s cs (k - 1)" by (subst strip_missing.simps) simp
    moreover have "1 \<le> strip_missing s cs (k - 1) \<and> strip_missing s cs (k - 1) \<le> k - 1 \<and>
       (strip_missing s cs (k - 1) < 2 \<or> fs_exists s (join_sep (take (strip_missing s cs (k - 1)) cs)))"
      using True by (intro "1.IH") auto
    ultimately show ?thesis by auto
  next
    case False
    then have "strip_missing s cs k = k" by (subst strip_missing.simps) simp
    with False "1.prems" show ?thesis by auto
  qed
qed

lemma create_missing_result:
  assumes "create_missing E s cs k n = (0, s')"
  shows "(\<forall>p. fs_exists s p \<longrightarrow> fs_exists s' p) \<and> (\<forall>j. k < j \<and> j \<le> n \<longrightarrow> fs_exists s' (join_sep (take j cs))) \<and>
    fs_files s' = fs_files s"
  using assms
proof (induction E s cs k n rule: create_missing.induct)
  case (1 E s cs k n)
  show ?case
  proof (cases "k < n")
    case False
    then show ?thesis using 1(2) by (auto simp: create_missing.simps [of E s])
  next
    case True
    let ?dir = "join_sep (take (k + 1) cs)"
    let ?s = "s\<lparr>fs_exists := (fs_exists s)(?dir := True)\<rparr>"
    have mk: "fe_mkdir E s ?dir" and rest: "create_missing E ?s cs (k + 1) n = (0, s')"
      using 1(2) True by (auto simp: create_missing.simps [of E s] Let_def split: if_splits)
    from "1.IH" [OF True refl mk rest]
    have pres: "\<forall>p. fs_exists ?s p \<longrightarrow> fs_exists s' p" and up: "\<forall>j. k + 1 < j \<and> j \<le> n \<longrightarrow> fs_exists s' (join_sep (take j cs))"
      and files: "fs_files s' = fs_files s" by simp_all
    have "fs_exists s' (join_sep (take j cs))" if "k < j" "j \<le> n" for j
      using that pres up by (cases "j = k + 1") auto
    with pres files show ?thesis by auto
  qed
qed

text \<open>
  When \<open>file_mkdirs\<close> reports success for a path with at least one directory below its first
  component, that directory exists afterwards, nothing that existed is gone and no file changed.
\<close>

theorem file_mkdirs_creates:
  assumes "file_mkdirs E s path = (0, s')" and "3 \<le> length (split_sep path)"
  shows "fs_exists s' (join_sep (butlast (split_sep path))) \<and> (\<forall>p. fs_exists s p \<longrightarrow> fs_exists s' p) \<and>
    fs_files s' = fs_files s"
proof -
  let ?cs = "split_sep path" and ?n = "length (split_sep path) - 1"
  let ?k = "strip_missing s ?cs ?n"
  have "create_missing E s ?cs ?k ?n = (0, s')"
    using assms by (auto simp: file_mkdirs_def Let_def split: if_splits)
  note c = create_missing_result [OF this]
  have k: "?k \<le> ?n" "?k < 2 \<or> fs_exists s (join_sep (take ?k ?cs))" and n: "2 \<le> ?n"
    using strip_missing_bounds [of ?n s ?cs] assms(2) by simp_all
  have "fs_exists s' (join_sep (take ?n ?cs))"
  proof (cases "?k = ?n")
    case True
    with k n have "fs_exists s (join_sep (take ?n ?cs))" by simp
    with c show ?thesis by blast
  next
    case False
    with k(1) have "?k < ?n" by simp
    with c show ?thesis by blast
  qed
  with c have "fs_exists s' (join_sep (take ?n ?cs))" "\<forall>p. fs_exists s p \<longrightarrow> fs_exists s' p" "fs_files s' = fs_files s"
    by blast+
  then show ?thesis by (simp add: butlast_conv_take)
qed

text \<open>An operating system that allows everything.\<close>

definition free_env :: "string \<Rightarrow> fs_env" where
  "free_env home = \<lparr>fe_alloc = (\<lambda>_. True), fe_getenv = (\<lambda>v. if v = ''HOME'' then Some home else None),
     fe_mkdir = (\<lambda>s d. \<not> fs_exists s d), fe_open_r = (\<lambda>_. True), fe_open_w = (\<lambda>_ _. True),
     fe_unlink = (\<lambda>_. True), fe_room = 65536, fe_enc32 = (\<lambda>n. rev (be_enc 4 n)),
     fe_dec32 = (\<lambda>bs. be_val (rev bs))\<rparr>"

definition empty_fs :: fs where
  "empty_fs = \<lparr>fs_files = (\<lambda>_. None), fs_exists = (\<lambda>p. p \<in> {''/home'', ''/home/u''})\<rparr>"

theorem file_mkdirs_creates_witness:
  "\<exists>s'. file_mkdirs (free_env ''/home/u'') empty_fs ''/home/u/.cache/aacs/vid'' = (0, s') \<and>
     fs_exists s' ''/home/u/.cache/aacs''"
proof -
  have m: "fst (file_mkdirs (free_env ''/home/u'') empty_fs ''/home/u/.cache/aacs/vid'') = 0"
    by (simp add: file_mkdirs_def free_env_def empty_fs_def strip_missing.simps create_missing.simps Let_def)
  then obtain s' where s': "file_mkdirs (free_env ''/home/u'') empty_fs ''/home/u/.cache/aacs/vid'' = (0, s')"
    by (cases "file_mkdirs (free_env ''/home/u'') empty_fs ''/home/u/.cache/aacs/vid''") simp
  from file_mkdirs_creates [OF s'] s' show ?thesis by simp
qed

end
