(* ===== verification/KeyDb.thy ===== *)
theory KeyDb
  imports File
begin

text \<open>
  Keys and caches on disk: \<^verbatim>\<open>src/file/keydbcfg.c\<close>.  The configuration as lists of device
  keys, processing keys, host certificates and disc entries; the simple key files; the key cache
  and the versioned caches in the user's cache directory; the sized files in the configuration
  directory.  A string ends at its first NUL byte.
\<close>

section \<open>Configuration\<close>

record dk =
  dk_key :: "byte list"
  dk_node :: nat
  dk_uv :: u32
  dk_u_mask_shift :: byte

record cert_entry =
  host_priv_key :: "byte list"
  host_cert :: "byte list"

record title_entry =
  te_discid :: "byte list"
  te_mk :: "byte list"
  te_vid :: "byte list"
  te_vuk :: "byte list"
  te_uk :: "(nat \<times> byte list) list"

record config_file =
  cf_dkl :: "dk list"
  cf_pkl :: "byte list list"
  cf_host_cert_list :: "cert_entry list"
  cf_list :: "title_entry list"

definition keydbcfg_new_config_file :: "(nat \<Rightarrow> bool) \<Rightarrow> config_file ptr" where
  "keydbcfg_new_config_file alloc =
     (if alloc 32 then Some \<lparr>cf_dkl = [], cf_pkl = [], cf_host_cert_list = [], cf_list = []\<rparr> else None)"

definition CFG_DIR :: string where "CFG_DIR = ''aacs''"
definition CFG_FILE_NAME :: string where "CFG_FILE_NAME = ''KEYDB.cfg''"
definition CERT_FILE_NAME :: string where "CERT_FILE_NAME = ''HostKeyCertificate.txt''"
definition PK_FILE_NAME :: string where "PK_FILE_NAME = ''ProcessingDeviceKeysSimple.txt''"
definition MIN_FILE_SIZE :: int where "MIN_FILE_SIZE = 20"
definition MAX_FILE_SIZE :: int where "MAX_FILE_SIZE = 65535"

text \<open>Characters and bytes.\<close>

definition chars :: "byte list \<Rightarrow> string" where
  "chars bs = map (\<lambda>b. char_of (unat b)) bs"

definition bytes :: "string \<Rightarrow> byte list" where
  "bytes s = map (\<lambda>c. word_of_nat (of_char c)) s"

definition c_string :: "string \<Rightarrow> string" where
  "c_string s = takeWhile (\<lambda>c. c \<noteq> CHR 0x00) s"

definition load_file :: "fs_env \<Rightarrow> fh \<Rightarrow> string ptr" where
  "load_file E fp =
     (let (sz, fp) = file_size fp in
      if sz < MIN_FILE_SIZE \<or> sz > MAX_FILE_SIZE then None
      else if \<not> fe_alloc E (nat sz + 1) then None
      else
        let (d, fp) = file_read fp (nat sz) in
        if int (length d) \<noteq> sz then None else Some (c_string (chars d)))"

definition config_file_user :: "fs_env \<Rightarrow> string \<Rightarrow> string ptr" where
  "config_file_user E file_name =
     (case file_get_config_home E of None \<Rightarrow> None
      | Some cfg_dir \<Rightarrow> str_printf (fe_alloc E) (cfg_dir @ ''/'' @ CFG_DIR @ ''/'' @ file_name))"

definition open_cfg_file_user_r :: "fs_env \<Rightarrow> fs \<Rightarrow> string \<Rightarrow> (string \<times> fh) option" where
  "open_cfg_file_user_r E s file_name =
     (case config_file_user E file_name of None \<Rightarrow> None
      | Some cfg_file \<Rightarrow> map_option (\<lambda>fp. (cfg_file, fp)) (file_open_r E s cfg_file))"

definition open_cfg_file_user_w :: "fs_env \<Rightarrow> fs \<Rightarrow> string \<Rightarrow> string option \<times> fs" where
  "open_cfg_file_user_w E s file_name =
     (case config_file_user E file_name of None \<Rightarrow> (None, s)
      | Some cfg_file \<Rightarrow>
          let (r, s) = file_mkdirs E s cfg_file in
          if r < 0 then (None, s)
          else case file_open_w E s cfg_file of None \<Rightarrow> (None, s) | Some s \<Rightarrow> (Some cfg_file, s))"

fun open_cfg_system_loop :: "fs_env \<Rightarrow> fs \<Rightarrow> string \<Rightarrow> string list \<Rightarrow> (string \<times> fh) option" where
  "open_cfg_system_loop E s file_name [] = None"
| "open_cfg_system_loop E s file_name (dir # dirs) =
     (case str_printf (fe_alloc E) (dir @ ''/'' @ CFG_DIR @ ''/'' @ file_name) of
        None \<Rightarrow> open_cfg_system_loop E s file_name dirs
      | Some cfg_file \<Rightarrow>
          (case file_open_r E s cfg_file of
             None \<Rightarrow> open_cfg_system_loop E s file_name dirs
           | Some fp \<Rightarrow> Some (cfg_file, fp)))"

definition open_cfg_file_system :: "fs_env \<Rightarrow> fs \<Rightarrow> string \<Rightarrow> (string \<times> fh) option" where
  "open_cfg_file_system E s file_name = open_cfg_system_loop E s file_name (config_system_dirs E)"

section \<open>Simple key files\<close>

definition is_duplicate_pk :: "byte list list \<Rightarrow> byte list \<Rightarrow> bool" where
  "is_duplicate_pk l e \<longleftrightarrow> e \<in> set l"

definition is_duplicate_cert :: "cert_entry list \<Rightarrow> cert_entry \<Rightarrow> bool" where
  "is_duplicate_cert l e \<longleftrightarrow>
     (\<exists>x \<in> set l. host_priv_key x = host_priv_key e \<and> host_cert x = host_cert e)"

lemma skip_to_eol_length: "length (skip_to_eol p) \<le> length p"
  by (induction p) auto

lemma skip_eol_length: "length (skip_eol p) \<le> length p"
  by (induction p) auto

lemma str_next_line_less: "p \<noteq> [] \<Longrightarrow> length (str_next_line p) < length p"
proof (cases p)
  case Nil
  assume "p \<noteq> []"
  with Nil show ?thesis by simp
next
  case (Cons c cs)
  show ?thesis
  proof (cases "c = CHR 0x0D \<or> c = CHR 0x0A")
    case True
    then have "str_next_line p = skip_eol cs" using Cons by (auto simp: str_next_line_def)
    then show ?thesis using skip_eol_length [of cs] Cons by simp
  next
    case False
    then have "str_next_line p = skip_eol (skip_to_eol cs)" using Cons by (simp add: str_next_line_def)
    then show ?thesis using skip_eol_length [of "skip_to_eol cs"] skip_to_eol_length [of cs] Cons by simp
  qed
qed

text \<open>One line: the new list of keys and what is added to the count.\<close>

definition pk_line :: "fs_env \<Rightarrow> byte list list \<Rightarrow> string \<Rightarrow> (byte list list \<times> nat) ub" where
  "pk_line E pkl p = do {
     str \<leftarrow> str_get_hex_string (fe_alloc E) p (2 * 16);
     case str of None \<Rightarrow> Some (pkl, 0)
     | Some str \<Rightarrow>
         if \<not> fe_alloc E 24 then Some (pkl, 0)
         else do {
           (key, ok) \<leftarrow> hexstring_to_hex_array (zeros 16) 16 str;
           if \<not> ok then Some (pkl, 1)
           else if is_duplicate_pk pkl key then Some (pkl, 1)
           else Some (key # pkl, 1)
         }
   }"

function pk_lines :: "fs_env \<Rightarrow> byte list list \<Rightarrow> string \<Rightarrow> nat \<Rightarrow> (byte list list \<times> nat) ub" where
  "pk_lines E pkl p result =
     (if p = [] then Some (pkl, result)
      else do {
        (pkl, n) \<leftarrow> pk_line E pkl p;
        pk_lines E pkl (str_next_line p) (result + n)
      })"
  by pat_completeness auto
termination
  by (relation "measure (\<lambda>(E, pkl, p, result). length p)") (auto simp: str_next_line_less)

declare pk_lines.simps [simp del]

definition parse_pk_file :: "fs_env \<Rightarrow> config_file \<Rightarrow> fh \<Rightarrow> (nat \<times> config_file) ub" where
  "parse_pk_file E cf fp =
     (case load_file E fp of None \<Rightarrow> Some (0, cf)
      | Some data \<Rightarrow> do {
          (pkl, result) \<leftarrow> pk_lines E (cf_pkl cf) data 0;
          Some (result, cf\<lparr>cf_pkl := pkl\<rparr>)
        })"

definition parse_cert_file :: "fs_env \<Rightarrow> config_file \<Rightarrow> fh \<Rightarrow> (nat \<times> config_file) ub" where
  "parse_cert_file E cf fp =
     (case load_file E fp of None \<Rightarrow> Some (0, cf)
      | Some p \<Rightarrow> do {
          priv \<leftarrow> str_get_hex_string (fe_alloc E) p (2 * 20);
          cert \<leftarrow> str_get_hex_string (fe_alloc E) (str_next_line p) (2 * 92);
          case (priv, cert) of
            (Some priv, Some cert) \<Rightarrow>
              if \<not> fe_alloc E 120 then Some (0, cf)
              else do {
                (k, ok1) \<leftarrow> hexstring_to_hex_array (zeros 20) 20 priv;
                if \<not> ok1 then Some (0, cf)
                else do {
                  (c, ok2) \<leftarrow> hexstring_to_hex_array (zeros 92) 92 cert;
                  let e = \<lparr>host_priv_key = k, host_cert = c\<rparr>;
                  if \<not> ok2 then Some (0, cf)
                  else if is_duplicate_cert (cf_host_cert_list cf) e then Some (0, cf)
                  else Some (1, cf\<lparr>cf_host_cert_list := e # cf_host_cert_list cf\<rparr>)
                }
              }
          | _ \<Rightarrow> Some (0, cf)
        })"

definition load_pk_file :: "fs_env \<Rightarrow> fs \<Rightarrow> config_file \<Rightarrow> (nat \<times> config_file) ub" where
  "load_pk_file E s cf = do {
     (r1, cf) \<leftarrow> (case open_cfg_file_user_r E s PK_FILE_NAME of None \<Rightarrow> Some (0, cf)
        | Some (_, fp) \<Rightarrow> parse_pk_file E cf fp);
     (r2, cf) \<leftarrow> (case open_cfg_file_system E s PK_FILE_NAME of None \<Rightarrow> Some (0, cf)
        | Some (_, fp) \<Rightarrow> parse_pk_file E cf fp);
     Some (r1 + r2, cf)
   }"

definition load_cert_file :: "fs_env \<Rightarrow> fs \<Rightarrow> config_file \<Rightarrow> (nat \<times> config_file) ub" where
  "load_cert_file E s cf = do {
     (r1, cf) \<leftarrow> (case open_cfg_file_user_r E s CERT_FILE_NAME of None \<Rightarrow> Some (0, cf)
        | Some (_, fp) \<Rightarrow> parse_cert_file E cf fp);
     (r2, cf) \<leftarrow> (case open_cfg_file_system E s CERT_FILE_NAME of None \<Rightarrow> Some (0, cf)
        | Some (_, fp) \<Rightarrow> parse_cert_file E cf fp);
     Some (r1 + r2, cf)
   }"

section \<open>Key cache\<close>

definition keycache_file :: "fs_env \<Rightarrow> string \<Rightarrow> byte list \<Rightarrow> string ptr ub" where
  "keycache_file E ty disc_id =
     (case file_get_cache_home E of None \<Rightarrow> Some None
      | Some cache_dir \<Rightarrow> do {
          disc_id_str \<leftarrow> str_print_hex 41 disc_id 20;
          Some (str_printf (fe_alloc E) (cache_dir @ ''/'' @ CFG_DIR @ ''/'' @ ty @ ''/'' @ disc_id_str))
        })"

definition keycache_save :: "fs_env \<Rightarrow> fs \<Rightarrow> string \<Rightarrow> byte list \<Rightarrow> byte list \<Rightarrow> nat \<Rightarrow> (int \<times> fs) ub" where
  "keycache_save E s ty disc_id key len = do {
     file \<leftarrow> keycache_file E ty disc_id;
     case file of None \<Rightarrow> Some (0, s)
     | Some file \<Rightarrow>
         if \<not> fe_alloc E (2 * (len + 1)) then Some (0, s)
         else
           let (r, s) = file_mkdirs E s file in
           if r \<noteq> 0 then Some (0, s)
           else (case file_open_w E s file of None \<Rightarrow> Some (0, s)
             | Some s \<Rightarrow> do {
                 key_str \<leftarrow> str_print_hex (2 * (len + 1)) key len;
                 let (n, s) = file_write E s file (bytes key_str);
                 Some (if n = len * 2 then 1 else 0, s)
               })
   }"

text \<open>Return value and contents of \<open>key\<close>, which is written up to the first invalid digit pair.\<close>

definition keycache_find :: "fs_env \<Rightarrow> fs \<Rightarrow> string \<Rightarrow> byte list \<Rightarrow> byte list \<Rightarrow> nat \<Rightarrow> (int \<times> byte list) ub" where
  "keycache_find E s ty disc_id key len = do {
     file \<leftarrow> keycache_file E ty disc_id;
     case file of None \<Rightarrow> Some (0, key)
     | Some file \<Rightarrow>
         (case file_open_r E s file of None \<Rightarrow> Some (0, key)
          | Some fp \<Rightarrow>
              if \<not> fe_alloc E (len * 2) then Some (0, key)
              else
                let (bs, fp) = file_read fp (len * 2) in
                if length bs \<noteq> len * 2 then Some (0, key)
                else do {
                  (key, ok) \<leftarrow> hexstring_to_hex_array key len (chars bs);
                  Some (if ok then 1 else 0, key)
                })
   }"

section \<open>Versioned caches and sized files\<close>

definition cache_file :: "fs_env \<Rightarrow> string \<Rightarrow> string ptr" where
  "cache_file E name =
     (case file_get_cache_home E of None \<Rightarrow> None
      | Some cache_dir \<Rightarrow> str_printf (fe_alloc E) (cache_dir @ ''/'' @ CFG_DIR @ ''/'' @ name))"

text \<open>Consecutive writes, up to the first short one.\<close>

fun write_seq :: "fs_env \<Rightarrow> fs \<Rightarrow> string \<Rightarrow> byte list list \<Rightarrow> bool \<times> fs" where
  "write_seq E s file [] = (True, s)"
| "write_seq E s file (c # cs) =
     (let (n, s) = file_write E s file c in
      if n = length c then write_seq E s file cs else (False, s))"

definition cache_save :: "fs_env \<Rightarrow> fs \<Rightarrow> string \<Rightarrow> nat \<Rightarrow> byte list \<Rightarrow> nat \<Rightarrow> (int \<times> fs) ub" where
  "cache_save E s name version data len =
     (case cache_file E name of None \<Rightarrow> Some (0, s)
      | Some file \<Rightarrow>
          let (r, s) = file_mkdirs E s file in
          if r \<noteq> 0 then Some (0, s)
          else (case file_open_w E s file of None \<Rightarrow> Some (0, s)
            | Some s \<Rightarrow> do {
                d \<leftarrow> rdn data 0 len;
                let (ok, s) = write_seq E s file [fe_enc32 E version, fe_enc32 E len, d];
                Some (if ok then 1 else 0, s)
              }))"

text \<open>A 32-bit variable that was \<open>0\<close> after the bytes \<open>bs\<close> have been read over it.\<close>

definition read32 :: "fs_env \<Rightarrow> byte list \<Rightarrow> nat" where
  "read32 E bs = fe_dec32 E (bs @ drop (length bs) (fe_enc32 E 0))"

text \<open>The return value, \<open>*version\<close>, \<open>*len\<close> and the buffer.\<close>

definition cache_get ::
    "fs_env \<Rightarrow> fs \<Rightarrow> string \<Rightarrow> bool \<Rightarrow> byte list ptr \<Rightarrow> nat \<Rightarrow> (int \<times> nat \<times> nat \<times> byte list ptr) ub" where
  "cache_get E s name with_len buf buf_size =
     (case cache_file E name of None \<Rightarrow> Some (0, 0, 0, buf)
      | Some file \<Rightarrow>
          (case file_open_r E s file of None \<Rightarrow> Some (0, 0, 0, buf)
           | Some fp \<Rightarrow>
               let (bs, fp) = file_read fp 4; version = read32 E bs in
               if length bs \<noteq> 4 then Some (0, version, 0, buf)
               else if \<not> with_len then Some (1, version, 0, buf)
               else
                 let (bs, fp) = file_read fp 4; len = read32 E bs in
                 if length bs \<noteq> 4 then Some (0, version, len, buf)
                 else if \<not> len \<le> buf_size then Some (0, version, len, buf)
                 else (case buf of None \<Rightarrow> Some (1, version, len, None)
                   | Some b \<Rightarrow>
                       let (d, fp) = file_read fp len in do {
                         b \<leftarrow> memcpy_at b 0 d;
                         Some (if length d = len then 1 else 0, version, len, Some b)
                       })))"

definition cache_remove :: "fs_env \<Rightarrow> fs \<Rightarrow> string \<Rightarrow> int \<times> fs" where
  "cache_remove E s name =
     (case cache_file E name of None \<Rightarrow> (0, s)
      | Some file \<Rightarrow> let (r, s) = file_unlink E s file in (if r = 0 then 1 else 0, s))"

definition config_save :: "fs_env \<Rightarrow> fs \<Rightarrow> string \<Rightarrow> byte list \<Rightarrow> nat \<Rightarrow> (int \<times> fs) ub" where
  "config_save E s name data len =
     (case open_cfg_file_user_w E s name of
        (None, s) \<Rightarrow> Some (0, s)
      | (Some path, s) \<Rightarrow> do {
          d \<leftarrow> rdn data 0 len;
          let (ok, s) = write_seq E s path [fe_enc32 E len, d];
          Some (if ok then 1 else 0, s)
        })"

text \<open>The return value, \<open>*len\<close> and the buffer; \<open>sz\<close> is \<open>*len\<close> at the call.\<close>

definition config_get :: "fs_env \<Rightarrow> fs \<Rightarrow> string \<Rightarrow> nat \<Rightarrow> byte list ptr \<Rightarrow> (int \<times> nat \<times> byte list ptr) ub" where
  "config_get E s name sz buf =
     (case open_cfg_file_user_r E s name of None \<Rightarrow> Some (0, 0, buf)
      | Some (path, fp) \<Rightarrow>
          let (bs, fp) = file_read fp 4; len = read32 E bs in
          if length bs \<noteq> 4 then Some (0, len, buf)
          else if \<not> sz \<le> len then Some (0, len, buf)
          else (case buf of None \<Rightarrow> Some (1, len, None)
            | Some b \<Rightarrow>
                let (d, fp) = file_read fp len in do {
                  b \<leftarrow> memcpy_at b 0 d;
                  Some (if length d = len then 1 else 0, len, Some b)
                }))"

section \<open>Loading the configuration\<close>

text \<open>
  The parser of \<open>KEYDB.cfg\<close> is generated: \<open>parse\<close> takes the file system, the configuration so
  far, the path and the disc id, and returns its result and the configuration.
\<close>

type_synonym cfg_parser = "fs \<Rightarrow> config_file \<Rightarrow> string \<Rightarrow> byte list ptr \<Rightarrow> int \<times> config_file"

definition load_config_file ::
    "fs_env \<Rightarrow> cfg_parser \<Rightarrow> fs \<Rightarrow> config_file \<Rightarrow> bool \<Rightarrow> byte list ptr \<Rightarrow> int \<times> config_file" where
  "load_config_file E parse s cf system disc_id =
     (case (if system then open_cfg_file_system E s CFG_FILE_NAME
            else open_cfg_file_user_r E s CFG_FILE_NAME) of
        None \<Rightarrow> (0, cf)
      | Some (cfg_file, fp) \<Rightarrow> parse s cf cfg_file disc_id)"

text \<open>\<^verbatim>\<open>src/file/keydb.h\<close>: one entry of zeros each.\<close>

definition internal_dk_list :: "byte list list" where "internal_dk_list = [zeros 23]"
definition internal_pk_list :: "byte list list" where "internal_pk_list = [zeros 16]"
definition internal_hc_list :: "byte list list" where "internal_hc_list = [zeros 112]"

definition decrypt_key :: "byte list \<Rightarrow> nat \<Rightarrow> nat \<Rightarrow> byte list ub" where
  "decrypt_key inp off n = rdn inp off n"

text \<open>
  The comparison covers the whole structure, the link included: the new entry has none, so only
  the last entry of the list can be equal to it.
\<close>

definition is_duplicate_dk :: "dk list \<Rightarrow> dk \<Rightarrow> bool" where
  "is_duplicate_dk l e \<longleftrightarrow> l \<noteq> [] \<and> last l = e"

fun embedded_dks :: "(nat \<Rightarrow> bool) \<Rightarrow> byte list list \<Rightarrow> dk list \<Rightarrow> nat \<Rightarrow> (dk list \<times> nat) ub" where
  "embedded_dks alloc [] dkl result = Some (dkl, result)"
| "embedded_dks alloc (x # xs) dkl result =
     (if \<not> alloc 40 then Some (dkl, result)
      else do {
        key \<leftarrow> decrypt_key x 0 16;
        node \<leftarrow> rd_be16 x 16;
        uv \<leftarrow> rdn x (16 + 2) 4;
        sh \<leftarrow> rd x (20 + 2);
        let e = \<lparr>dk_key = key, dk_node = node, dk_uv = mkint_be32 uv, dk_u_mask_shift = sh\<rparr>;
        if dk_uv e = 0 \<or> is_duplicate_dk dkl e then embedded_dks alloc xs dkl result
        else embedded_dks alloc xs (e # dkl) (result + 1)
      })"

fun embedded_pks :: "(nat \<Rightarrow> bool) \<Rightarrow> byte list list \<Rightarrow> byte list list \<Rightarrow> nat \<Rightarrow> (byte list list \<times> nat) ub" where
  "embedded_pks alloc [] pkl result = Some (pkl, result)"
| "embedded_pks alloc (x # xs) pkl result =
     (if \<not> alloc 24 then Some (pkl, result)
      else do {
        key \<leftarrow> decrypt_key x 0 16;
        if is_zero key \<or> is_duplicate_pk pkl key then embedded_pks alloc xs pkl result
        else embedded_pks alloc xs (key # pkl) (result + 1)
      })"

fun embedded_hcs :: "(nat \<Rightarrow> bool) \<Rightarrow> byte list list \<Rightarrow> cert_entry list \<Rightarrow> nat \<Rightarrow> (cert_entry list \<times> nat) ub" where
  "embedded_hcs alloc [] hcl result = Some (hcl, result)"
| "embedded_hcs alloc (x # xs) hcl result =
     (if \<not> alloc 120 then Some (hcl, result)
      else do {
        k \<leftarrow> decrypt_key x 0 20;
        c \<leftarrow> decrypt_key x 20 92;
        let e = \<lparr>host_priv_key = k, host_cert = c\<rparr>;
        if is_zero k \<or> is_duplicate_cert hcl e then embedded_hcs alloc xs hcl result
        else embedded_hcs alloc xs (e # hcl) (result + 1)
      })"

definition parse_embedded :: "fs_env \<Rightarrow> config_file \<Rightarrow> (nat \<times> config_file) ub" where
  "parse_embedded E cf = do {
     (dkl, n) \<leftarrow> embedded_dks (fe_alloc E) (rev internal_dk_list) (cf_dkl cf) 0;
     (pkl, n) \<leftarrow> embedded_pks (fe_alloc E) internal_pk_list (cf_pkl cf) n;
     (hcl, n) \<leftarrow> embedded_hcs (fe_alloc E) internal_hc_list (cf_host_cert_list cf) n;
     Some (n, cf\<lparr>cf_dkl := dkl, cf_pkl := pkl, cf_host_cert_list := hcl\<rparr>)
   }"

definition keydbcfg_config_load ::
    "fs_env \<Rightarrow> cfg_parser \<Rightarrow> fs \<Rightarrow> string ptr \<Rightarrow> byte list ptr \<Rightarrow> config_file ptr ub" where
  "keydbcfg_config_load E parse s configfile_path disc_id =
     (case keydbcfg_new_config_file (fe_alloc E) of None \<Rightarrow> Some None
      | Some cf \<Rightarrow>
          let (ok1, cf) = (case configfile_path of
              Some path \<Rightarrow> let (r, cf) = parse s cf path disc_id in (r \<noteq> 0, cf)
            | None \<Rightarrow>
                let (r1, cf) = load_config_file E parse s cf False disc_id;
                    (r2, cf) = load_config_file E parse s cf True disc_id
                in (r2 \<noteq> 0 \<or> r1 \<noteq> 0, cf))
          in do {
            (n2, cf) \<leftarrow> load_pk_file E s cf;
            (n3, cf) \<leftarrow> load_cert_file E s cf;
            (n4, cf) \<leftarrow> parse_embedded E cf;
            Some (if n4 \<noteq> 0 \<or> n3 \<noteq> 0 \<or> n2 \<noteq> 0 \<or> ok1 then Some cf else None)
          })"

section \<open>What a save leaves in the file system\<close>

lemma chars_bytes [simp]: "chars (bytes s) = s"
proof -
  have "char_of (unat (word_of_nat (of_char c) :: byte)) = c" for c :: char
    by (simp add: unat_of_nat of_char_mod_256)
  then show ?thesis by (simp add: chars_def bytes_def comp_def)
qed

lemma length_bytes [simp]: "length (bytes s) = length s"
  by (simp add: bytes_def)

lemma length_chars [simp]: "length (chars s) = length s"
  by (simp add: chars_def)

lemma create_missing_files: "fs_files (snd (create_missing E s cs k n)) = fs_files s"
proof (induction E s cs k n rule: create_missing.induct)
  case (1 E s cs k n)
  show ?case
  proof (cases "k < n \<and> fe_mkdir E s (join_sep (take (k + 1) cs))")
    case True
    with 1 show ?thesis by (subst create_missing.simps) (simp add: Let_def)
  next
    case False
    then show ?thesis by (subst create_missing.simps) (auto simp: Let_def)
  qed
qed

lemma file_mkdirs_files: "file_mkdirs E s path = (r, s') \<Longrightarrow> fs_files s' = fs_files s"
  using create_missing_files [of E s "split_sep path"]
  by (auto simp: file_mkdirs_def Let_def split: if_splits dest: arg_cong [of _ _ snd]) (metis snd_conv)

lemma file_open_w_files:
  "file_open_w E s path = Some s' \<Longrightarrow> fs_files s' = (fs_files s)(path := Some [])"
  by (auto simp: file_open_w_def split: if_splits)

lemma file_write_files:
  assumes "file_write E s path bs = (n, s')" and "fs_files s path = Some old"
  shows "\<exists>new. fs_files s' = (fs_files s)(path := Some (old @ new)) \<and> (n = length bs \<longrightarrow> new = bs)"
  using assms by (auto simp: file_write_def Let_def)

lemma write_seq_files:
  assumes "write_seq E s path cs = (ok, s')" and "fs_files s path = Some old"
  shows "\<exists>new. fs_files s' = (fs_files s)(path := Some (old @ new)) \<and> (ok \<longrightarrow> new = concat cs)"
  using assms
proof (induction cs arbitrary: s old)
  case Nil
  then show ?case by (auto intro!: exI [of _ "[]"])
next
  case (Cons c cs)
  obtain n s1 where w: "file_write E s path c = (n, s1)" by fastforce
  from file_write_files [OF w Cons.prems(2)] obtain d
    where s1: "fs_files s1 = (fs_files s)(path := Some (old @ d))" and d: "n = length c \<longrightarrow> d = c" by blast
  show ?case
  proof (cases "n = length c")
    case True
    with Cons.prems(1) w have "write_seq E s1 path cs = (ok, s')" by simp
    moreover from s1 have "fs_files s1 path = Some (old @ d)" by simp
    ultimately obtain new
      where "fs_files s' = (fs_files s1)(path := Some ((old @ d) @ new))" "ok \<longrightarrow> new = concat cs"
      using Cons.IH by blast
    with s1 d True show ?thesis by (intro exI [of _ "d @ new"]) simp
  next
    case False
    with Cons.prems(1) w have "s' = s1" "\<not> ok" by auto
    with s1 show ?thesis by blast
  qed
qed

text \<open>Only the file at \<open>path\<close> may differ, and it holds \<open>d\<close> when the save succeeded.\<close>

definition saved :: "fs \<Rightarrow> fs \<Rightarrow> string \<Rightarrow> bool \<Rightarrow> byte list \<Rightarrow> bool" where
  "saved s s' path ok d \<longleftrightarrow>
     (\<forall>p. p \<noteq> path \<longrightarrow> fs_files s' p = fs_files s p) \<and> (ok \<longrightarrow> fs_files s' path = Some d)"

lemma saved_refl: "saved s s path False d"
  by (simp add: saved_def)

lemma saved_frame: "fs_files s1 = fs_files s \<Longrightarrow> saved s1 s' path ok d \<Longrightarrow> saved s s' path ok d"
  by (simp add: saved_def)

lemma saved_open_write:
  assumes "file_open_w E s path = Some s1" and "write_seq E s1 path cs = (ok, s')"
  shows "saved s s' path ok (concat cs)"
  using write_seq_files [OF assms(2), of "[]"] file_open_w_files [OF assms(1)]
  by (auto simp: saved_def)

lemma saved_mkdirs_fail: "file_mkdirs E s path = (r, s') \<Longrightarrow> saved s s' path False d"
  by (simp add: saved_def file_mkdirs_files)

section \<open>Stores of named values\<close>

text \<open>
  What a client of a cache relies on: a value that was saved is found, and saving one leaves
  the values of the other keys alone, whether it succeeds or not.
\<close>

fun save_all :: "('s \<Rightarrow> 'k \<Rightarrow> 'v \<Rightarrow> (bool \<times> 's) ub) \<Rightarrow> 's \<Rightarrow> ('k \<times> 'v) list \<Rightarrow> 's option" where
  "save_all save s [] = Some s"
| "save_all save s ((k, v) # kvs) =
     (case save s k v of Some (True, s) \<Rightarrow> save_all save s kvs | _ \<Rightarrow> None)"

locale blob_store =
  fixes save :: "'s \<Rightarrow> 'k \<Rightarrow> 'v \<Rightarrow> (bool \<times> 's) ub"
    and find :: "'s \<Rightarrow> 'k \<Rightarrow> 'v option"
    and ok_key :: "'k \<Rightarrow> bool"
    and ok_val :: "'v \<Rightarrow> bool"
  assumes find_saved: "ok_key k \<Longrightarrow> ok_val v \<Longrightarrow> save s k v = Some (True, s') \<Longrightarrow> find s' k = Some v"
    and find_other: "ok_key k \<Longrightarrow> ok_val v \<Longrightarrow> ok_key k' \<Longrightarrow> k \<noteq> k' \<Longrightarrow> save s k v = Some (b, s') \<Longrightarrow>
      find s' k' = find s k'"
begin

lemma find_after:
  "ok_key k \<Longrightarrow> ok_val v \<Longrightarrow> ok_key k' \<Longrightarrow> save s k v = Some (True, s') \<Longrightarrow>
     find s' k' = (if k = k' then Some v else find s k')"
  using find_saved find_other by auto

lemma save_all_refines:
  assumes "save_all save s kvs = Some s'" and "\<forall>(k, v) \<in> set kvs. ok_key k \<and> ok_val v" and "ok_key k"
  shows "find s' k = (find s ++ map_of (rev kvs)) k"
  using assms(1, 2)
proof (induction kvs arbitrary: s)
  case Nil
  then show ?case by simp
next
  case (Cons kv kvs)
  obtain k' v' where kv: "kv = (k', v')" by fastforce
  with Cons.prems(1) obtain s1 where s1: "save s k' v' = Some (True, s1)" "save_all save s1 kvs = Some s'"
    by (auto split: option.splits bool.splits)
  with Cons.IH [OF s1(2)] Cons.prems(2) have IH: "find s' k = (find s1 ++ map_of (rev kvs)) k" by simp
  have "find s1 k = (if k' = k then Some v' else find s k)"
    using find_after [OF _ _ assms(3) s1(1)] Cons.prems(2) kv by simp
  with IH kv show ?case by (auto simp: map_add_def split: option.splits)
qed

end

section \<open>The caches are stores\<close>

lemma file_open_r_content:
  "fs_files s path = fs_files s' path \<Longrightarrow> file_open_r E s path = file_open_r E s' path"
  by (simp add: file_open_r_def)

definition key_cache_save ::
    "fs_env \<Rightarrow> nat \<Rightarrow> fs \<Rightarrow> string \<times> byte list \<Rightarrow> byte list \<Rightarrow> (bool \<times> fs) ub" where
  "key_cache_save E n s k v =
     map_option (\<lambda>(r, s). (r = 1, s)) (keycache_save E s (fst k) (snd k) v n)"

definition key_cache_find :: "fs_env \<Rightarrow> nat \<Rightarrow> fs \<Rightarrow> string \<times> byte list \<Rightarrow> byte list option" where
  "key_cache_find E n s k =
     (case keycache_find E s (fst k) (snd k) (zeros n) n of
        Some (r, key) \<Rightarrow> if r = 1 then Some key else None | None \<Rightarrow> None)"

text \<open>A usable key: a disc id of 20 bytes whose cache file may be opened.\<close>

definition readable :: "fs_env \<Rightarrow> string ptr \<Rightarrow> bool" where
  "readable E file \<longleftrightarrow> (\<exists>p. file = Some p \<and> fe_open_r E p)"

definition key_cache_ok :: "fs_env \<Rightarrow> nat \<Rightarrow> string \<times> byte list \<Rightarrow> bool" where
  "key_cache_ok E n k \<longleftrightarrow> length (snd k) = 20 \<and> fe_alloc E (n * 2) \<and>
     (\<exists>f. keycache_file E (fst k) (snd k) = Some f \<and> readable E f)"

lemma str_printf_cases: "str_printf alloc out = Some r \<Longrightarrow> r = out"
  by (auto simp: str_printf_eq split: if_splits)

lemma keycache_file_inj:
  assumes "keycache_file E ty d = Some (Some p)" and "keycache_file E ty' d' = Some (Some p)"
    and "length d = 20" and "length d' = 20"
  shows "ty = ty' \<and> d = d'"
proof -
  obtain dir where dir: "file_get_cache_home E = Some dir"
    using assms(1) by (auto simp: keycache_file_def split: option.splits)
  have "p = dir @ ''/'' @ CFG_DIR @ ''/'' @ ty @ ''/'' @ print_hex_loop d"
    "p = dir @ ''/'' @ CFG_DIR @ ''/'' @ ty' @ ''/'' @ print_hex_loop d'"
    using assms dir by (auto simp: keycache_file_def str_print_hex_Some dest!: str_printf_cases)
  then have "(ty @ ''/'') @ print_hex_loop d = (ty' @ ''/'') @ print_hex_loop d'" by simp
  then have "ty @ ''/'' = ty' @ ''/'' \<and> print_hex_loop d = print_hex_loop d'"
    using assms(3, 4) by (subst (asm) append_eq_append_conv) simp_all
  then show ?thesis by (metis append_same_eq unhex_print_hex_all prod.inject)
qed

lemma keycache_save_saved:
  assumes "keycache_save E s ty d key n = Some (r, s')" and "keycache_file E ty d = Some (Some p)"
    and "n \<le> length key"
  shows "saved s s' p (r = 1) (bytes (print_hex_loop (take n key)))"
proof -
  let ?d = "bytes (print_hex_loop (take n key))"
  obtain r0 s0 where mk: "file_mkdirs E s p = (r0, s0)" by fastforce
  show ?thesis
  proof (cases "fe_alloc E (2 * (n + 1)) \<and> r0 = 0 \<and> (\<exists>s1. file_open_w E s0 p = Some s1)")
    case False
    with assms(1, 2) mk have "r = 0 \<and> (s' = s \<or> s' = s0)"
      by (auto simp: keycache_save_def split: if_splits option.splits)
    then show ?thesis using saved_mkdirs_fail [OF mk] saved_refl by auto
  next
    case True
    then obtain s1 where s1: "file_open_w E s0 p = Some s1" by blast
    obtain m s2 where w: "file_write E s1 p ?d = (m, s2)" by fastforce
    from True mk s1 w assms have rs: "r = (if m = n * 2 then 1 else 0)" "s' = s2"
      by (auto simp: keycache_save_def str_print_hex_Some)
    have "write_seq E s1 p [?d] = (m = n * 2, s2)"
      using w assms(3) by (simp add: mult.commute)
    from saved_open_write [OF s1 this] rs have "saved s0 s' p (r = 1) ?d"
      by (cases "m = n * 2") simp_all
    then show ?thesis by (rule saved_frame [OF file_mkdirs_files [OF mk]])
  qed
qed

lemma keycache_save_no_file:
  assumes "keycache_save E s ty d key n = Some (r, s')" and "keycache_file E ty d = Some None"
  shows "r = 0 \<and> s' = s"
  using assms by (simp add: keycache_save_def)

lemma keycache_find_content:
  assumes "keycache_file E ty d = Some (Some p)" and "fe_open_r E p" and "fe_alloc E (n * 2)"
    and "fs_files s p = Some c" and "length key = n"
  shows "keycache_find E s ty d key n =
    (if n * 2 \<le> length c
     then let (v, ok) = unhex (take (2 * n) (chars c)) in Some (if ok then 1 else 0, v @ drop (length v) key)
     else Some (0, key))"
  using assms
  by (auto simp: keycache_find_def file_open_r_def file_read_def hexstring_to_hex_array_unhex
      min_def Let_def case_prod_beta mult.commute chars_def take_map)

lemma keycache_find_frame:
  assumes "keycache_file E ty d = Some (Some p)" and "fs_files s p = fs_files s' p"
  shows "keycache_find E s ty d key n = keycache_find E s' ty d key n"
  using assms file_open_r_content [of s p s' E] by (simp add: keycache_find_def)

interpretation key_cache: blob_store
  "key_cache_save E n" "key_cache_find E n" "key_cache_ok E n" "\<lambda>v. length v = n" for E n
proof
  fix k v s s'
  assume k: "key_cache_ok E n k" and v: "length v = n" and s: "key_cache_save E n s k v = Some (True, s')"
  then obtain p where p: "keycache_file E (fst k) (snd k) = Some (Some p)" "fe_open_r E p" "fe_alloc E (n * 2)"
    by (auto simp: key_cache_ok_def readable_def)
  from s have "keycache_save E s (fst k) (snd k) v n = Some (1, s')"
    by (auto simp: key_cache_save_def)
  from keycache_save_saved [OF this p(1)] v have "fs_files s' p = Some (bytes (print_hex_loop v))"
    by (simp add: saved_def)
  from keycache_find_content [OF p this, of "zeros n"] v show "key_cache_find E n s' k = Some v"
    by (simp add: key_cache_find_def)
next
  fix k v k' s b s'
  assume k: "key_cache_ok E n k" and v: "length v = n" and k': "key_cache_ok E n k'" and ne: "k \<noteq> k'"
    and s: "key_cache_save E n s k v = Some (b, s')"
  then obtain p p' where p: "keycache_file E (fst k) (snd k) = Some (Some p)"
    and p': "keycache_file E (fst k') (snd k') = Some (Some p')"
    by (auto simp: key_cache_ok_def readable_def)
  from k k' ne have "p \<noteq> p'"
    using keycache_file_inj [OF p] p' by (auto simp: key_cache_ok_def prod_eq_iff)
  moreover from s obtain r where "keycache_save E s (fst k) (snd k) v n = Some (r, s')"
    by (auto simp: key_cache_save_def)
  from keycache_save_saved [OF this p] v have "saved s s' p (r = 1) (bytes (print_hex_loop v))" by simp
  ultimately have "fs_files s' p' = fs_files s p'" by (simp add: saved_def)
  from keycache_find_frame [OF p' this] show "key_cache_find E n s' k' = key_cache_find E n s k'"
    by (simp add: key_cache_find_def)
qed

text \<open>The versioned caches; the buffer offered to \<open>cache_get\<close> has \<open>cap\<close> bytes.\<close>

definition version_cache_save ::
    "fs_env \<Rightarrow> fs \<Rightarrow> string \<Rightarrow> nat \<times> byte list \<Rightarrow> (bool \<times> fs) ub" where
  "version_cache_save E s name v =
     map_option (\<lambda>(r, s). (r = 1, s)) (cache_save E s name (fst v) (snd v) (length (snd v)))"

definition version_cache_find :: "fs_env \<Rightarrow> nat \<Rightarrow> fs \<Rightarrow> string \<Rightarrow> (nat \<times> byte list) option" where
  "version_cache_find E cap s name =
     (case cache_get E s name True (Some (zeros cap)) cap of
        Some (r, version, len, Some b) \<Rightarrow> if r = 1 then Some (version, take len b) else None
      | _ \<Rightarrow> None)"

lemma read32_enc32: "enc32_ok E \<Longrightarrow> v < 2 ^ 32 \<Longrightarrow> read32 E (fe_enc32 E v) = v"
  by (simp add: read32_def enc32_ok_def)

lemma length_enc32: "enc32_ok E \<Longrightarrow> v < 2 ^ 32 \<Longrightarrow> length (fe_enc32 E v) = 4"
  by (simp add: enc32_ok_def)

lemma file_read_append:
  "drop (fh_pos fp) (fh_data fp) = xs @ ys \<Longrightarrow> xs \<noteq> [] \<Longrightarrow>
     file_read fp (length xs) = (xs, fp\<lparr>fh_pos := fh_pos fp + length xs\<rparr>)"
  by (simp add: file_read_def)

lemma drop_enc32:
  "length xs = 4 \<Longrightarrow> drop 4 (xs @ ys) = ys"
  "length xs = 4 \<Longrightarrow> take 4 (xs @ ys) = xs"
  by simp_all

lemma cache_save_saved:
  assumes "cache_save E s name ver d len = Some (r, s')" and "cache_file E name = Some p"
  shows "saved s s' p (r = 1) (fe_enc32 E ver @ fe_enc32 E len @ take len d)"
proof -
  obtain r0 s0 where mk: "file_mkdirs E s p = (r0, s0)" by fastforce
  show ?thesis
  proof (cases "r0 = 0 \<and> (\<exists>s1. file_open_w E s0 p = Some s1)")
    case False
    with assms mk have "r = 0 \<and> s' = s0"
      by (auto simp: cache_save_def split: if_splits option.splits)
    then show ?thesis using saved_mkdirs_fail [OF mk] by auto
  next
    case True
    then obtain s1 where s1: "file_open_w E s0 p = Some s1" by blast
    let ?cs = "[fe_enc32 E ver, fe_enc32 E len, take len d]"
    obtain ok s2 where w: "write_seq E s1 p ?cs = (ok, s2)" by fastforce
    from True mk s1 w assms have rs: "r = (if ok then 1 else 0)" "s' = s2"
      by (auto simp: cache_save_def rdn_def split: if_splits simp del: write_seq.simps)
    from saved_open_write [OF s1 w] rs have "saved s0 s' p (r = 1) (concat ?cs)"
      by (cases ok) (simp_all del: write_seq.simps)
    then have "saved s s' p (r = 1) (concat ?cs)" by (rule saved_frame [OF file_mkdirs_files [OF mk]])
    then show ?thesis by simp
  qed
qed

lemma cache_get_content:
  assumes "cache_file E name = Some p" and "fe_open_r E p" and "enc32_ok E"
    and "fs_files s p = Some (fe_enc32 E ver @ fe_enc32 E (length d) @ d)"
    and "ver < 2 ^ 32" and "length d < 2 ^ 32" and "length buf = cap"
  shows "cache_get E s name True (Some buf) cap =
    (if length d \<le> cap then Some (1, ver, length d, Some (d @ drop (length d) buf))
     else Some (0, ver, length d, Some buf))"
proof -
  let ?c = "fe_enc32 E ver @ fe_enc32 E (length d) @ d"
  note len = length_enc32 [OF assms(3, 5)] length_enc32 [OF assms(3, 6)]
  have fp: "file_open_r E s p = Some \<lparr>fh_data = ?c, fh_pos = 0\<rparr>"
    using assms(2, 4) by (simp add: file_open_r_def)
  have r1: "file_read \<lparr>fh_data = ?c, fh_pos = 0\<rparr> 4 = (fe_enc32 E ver, \<lparr>fh_data = ?c, fh_pos = 4\<rparr>)"
    using len by (simp add: file_read_def Let_def)
  have r2: "file_read \<lparr>fh_data = ?c, fh_pos = 4\<rparr> 4 = (fe_enc32 E (length d), \<lparr>fh_data = ?c, fh_pos = 8\<rparr>)"
    using len by (simp add: file_read_def Let_def)
  have r3: "file_read \<lparr>fh_data = ?c, fh_pos = 8\<rparr> (length d) = (d, \<lparr>fh_data = ?c, fh_pos = 8 + length d\<rparr>)"
    using len by (simp add: file_read_def Let_def)
  show ?thesis
    using assms(1, 7) len
    by (simp add: cache_get_def fp r1 r2 r3 read32_enc32 [OF assms(3, 5)] read32_enc32 [OF assms(3, 6)]
        memcpy_at_def Let_def del: append_assoc)
qed

lemma cache_get_frame:
  assumes "cache_file E name = Some p" and "fs_files s p = fs_files s' p"
  shows "cache_get E s name wl buf cap = cache_get E s' name wl buf cap"
  using assms file_open_r_content [of s p s' E] by (simp add: cache_get_def)

lemma cache_file_inj: "cache_file E a = Some p \<Longrightarrow> cache_file E b = Some p \<Longrightarrow> a = b"
  by (auto simp: cache_file_def split: option.splits dest!: str_printf_cases)

interpretation version_cache: blob_store
  "version_cache_save E" "version_cache_find E cap" "\<lambda>name. enc32_ok E \<and> readable E (cache_file E name)"
  "\<lambda>v. fst v < 2 ^ 32 \<and> length (snd v) \<le> cap \<and> cap < 2 ^ 32" for E cap
proof
  fix k v s s'
  assume k: "enc32_ok E \<and> readable E (cache_file E k)"
    and v: "fst v < 2 ^ 32 \<and> length (snd v) \<le> cap \<and> cap < 2 ^ 32"
    and s: "version_cache_save E s k v = Some (True, s')"
  from k obtain p where p: "cache_file E k = Some p" "fe_open_r E p" by (auto simp: readable_def)
  from s have "cache_save E s k (fst v) (snd v) (length (snd v)) = Some (1, s')"
    by (auto simp: version_cache_save_def)
  from cache_save_saved [OF this p(1)]
  have "fs_files s' p = Some (fe_enc32 E (fst v) @ fe_enc32 E (length (snd v)) @ snd v)"
    by (simp add: saved_def)
  from cache_get_content [OF p _ this, of "zeros cap" cap] k v
  show "version_cache_find E cap s' k = Some v" by (simp add: version_cache_find_def)
next
  fix k v k' s b s'
  assume k: "enc32_ok E \<and> readable E (cache_file E k)" and k': "enc32_ok E \<and> readable E (cache_file E k')"
    and ne: "k \<noteq> k'" and s: "version_cache_save E s k v = Some (b, s')"
  from k k' obtain p p' where p: "cache_file E k = Some p" and p': "cache_file E k' = Some p'"
    by (auto simp: readable_def)
  from ne p p' have "p \<noteq> p'" using cache_file_inj by blast
  moreover from s obtain r where "cache_save E s k (fst v) (snd v) (length (snd v)) = Some (r, s')"
    by (auto simp: version_cache_save_def)
  note cache_save_saved [OF this p]
  ultimately have "fs_files s' p' = fs_files s p'" by (simp add: saved_def)
  from cache_get_frame [OF p' this] show "version_cache_find E cap s' k' = version_cache_find E cap s k'"
    by (simp add: version_cache_find_def)
qed

text \<open>The sized files of the configuration directory, for values of \<open>n\<close> bytes.\<close>

definition config_store_save :: "fs_env \<Rightarrow> nat \<Rightarrow> fs \<Rightarrow> string \<Rightarrow> byte list \<Rightarrow> (bool \<times> fs) ub" where
  "config_store_save E n s name v = map_option (\<lambda>(r, s). (r = 1, s)) (config_save E s name v n)"

definition config_store_find :: "fs_env \<Rightarrow> nat \<Rightarrow> fs \<Rightarrow> string \<Rightarrow> byte list option" where
  "config_store_find E n s name =
     (case config_get E s name n (Some (zeros n)) of
        Some (r, len, Some b) \<Rightarrow> if r = 1 then Some b else None
      | _ \<Rightarrow> None)"

lemma config_save_saved:
  assumes "config_save E s name d len = Some (r, s')" and "config_file_user E name = Some p"
  shows "saved s s' p (r = 1) (fe_enc32 E len @ take len d)"
proof -
  obtain r0 s0 where mk: "file_mkdirs E s p = (r0, s0)" by fastforce
  show ?thesis
  proof (cases "\<not> r0 < 0 \<and> (\<exists>s1. file_open_w E s0 p = Some s1)")
    case False
    with assms mk have "r = 0 \<and> s' = s0"
      by (auto simp: config_save_def open_cfg_file_user_w_def split: if_splits option.splits)
    then show ?thesis using saved_mkdirs_fail [OF mk] by auto
  next
    case True
    then obtain s1 where s1: "file_open_w E s0 p = Some s1" by blast
    let ?cs = "[fe_enc32 E len, take len d]"
    obtain ok s2 where w: "write_seq E s1 p ?cs = (ok, s2)" by fastforce
    from True mk s1 w assms have rs: "r = (if ok then 1 else 0)" "s' = s2"
      by (auto simp: config_save_def open_cfg_file_user_w_def rdn_def split: if_splits simp del: write_seq.simps)
    from saved_open_write [OF s1 w] rs have "saved s0 s' p (r = 1) (concat ?cs)"
      by (cases ok) (simp_all del: write_seq.simps)
    then have "saved s s' p (r = 1) (concat ?cs)" by (rule saved_frame [OF file_mkdirs_files [OF mk]])
    then show ?thesis by simp
  qed
qed

text \<open>
  Reading a file of \<open>len\<close> bytes into \<open>buf\<close>: the announced length decides how much is copied,
  whatever the buffer holds.
\<close>

lemma config_get_content:
  assumes "config_file_user E name = Some p" and "fe_open_r E p" and "enc32_ok E"
    and "fs_files s p = Some (fe_enc32 E len @ d)" and "len < 2 ^ 32" and "n \<le> len"
  shows "config_get E s name n (Some buf) =
    do { b \<leftarrow> memcpy_at buf 0 (take len d); Some (if len \<le> length d then 1 else 0, len, Some b) }"
proof -
  let ?c = "fe_enc32 E len @ d"
  note l4 = length_enc32 [OF assms(3, 5)]
  have fp: "file_open_r E s p = Some \<lparr>fh_data = ?c, fh_pos = 0\<rparr>"
    using assms(2, 4) by (simp add: file_open_r_def)
  have r1: "file_read \<lparr>fh_data = ?c, fh_pos = 0\<rparr> 4 = (fe_enc32 E len, \<lparr>fh_data = ?c, fh_pos = 4\<rparr>)"
    using l4 by (simp add: file_read_def Let_def)
  have r2: "fst (file_read \<lparr>fh_data = ?c, fh_pos = 4\<rparr> len) = take len d"
    using l4 by (simp add: file_read_def Let_def)
  show ?thesis
    using assms(1, 6) l4 r2
    by (auto simp: config_get_def open_cfg_file_user_r_def fp r1 read32_enc32 [OF assms(3, 5)] Let_def
        case_prod_beta split: Option.bind_splits)
qed

lemma config_get_frame:
  assumes "config_file_user E name = Some p" and "fs_files s p = fs_files s' p"
  shows "config_get E s name n buf = config_get E s' name n buf"
  using assms file_open_r_content [of s p s' E] by (simp add: config_get_def open_cfg_file_user_r_def)

lemma config_file_user_inj: "config_file_user E a = Some p \<Longrightarrow> config_file_user E b = Some p \<Longrightarrow> a = b"
  by (auto simp: config_file_user_def split: option.splits dest!: str_printf_cases)

interpretation config_store: blob_store
  "config_store_save E n" "config_store_find E n" "\<lambda>name. enc32_ok E \<and> readable E (config_file_user E name)"
  "\<lambda>v. length v = n \<and> n < 2 ^ 32" for E n
proof
  fix k v s s'
  assume k: "enc32_ok E \<and> readable E (config_file_user E k)" and v: "length v = n \<and> n < 2 ^ 32"
    and s: "config_store_save E n s k v = Some (True, s')"
  from k obtain p where p: "config_file_user E k = Some p" "fe_open_r E p" by (auto simp: readable_def)
  from s have "config_save E s k v n = Some (1, s')" by (auto simp: config_store_save_def)
  from config_save_saved [OF this p(1)] v have "fs_files s' p = Some (fe_enc32 E n @ v)"
    by (simp add: saved_def)
  from config_get_content [OF p _ this] k v show "config_store_find E n s' k = Some v"
    by (simp add: config_store_find_def memcpy_at_def)
next
  fix k v k' s b s'
  assume k: "enc32_ok E \<and> readable E (config_file_user E k)"
    and k': "enc32_ok E \<and> readable E (config_file_user E k')"
    and ne: "k \<noteq> k'" and s: "config_store_save E n s k v = Some (b, s')"
  from k k' obtain p p' where p: "config_file_user E k = Some p" and p': "config_file_user E k' = Some p'"
    by (auto simp: readable_def)
  from ne p p' have "p \<noteq> p'" using config_file_user_inj by blast
  moreover from s obtain r where "config_save E s k v n = Some (r, s')"
    by (auto simp: config_store_save_def)
  note config_save_saved [OF this p]
  ultimately have "fs_files s' p' = fs_files s p'" by (simp add: saved_def)
  from config_get_frame [OF p' this] show "config_store_find E n s' k' = config_store_find E n s k'"
    by (simp add: config_store_find_def)
qed

section \<open>The simple key files\<close>

text \<open>The reference reader: the starts of the lines, and the key the hex string there denotes.\<close>

function line_starts :: "string \<Rightarrow> string list" where
  "line_starts p = (if p = [] then [] else p # line_starts (str_next_line p))"
  by pat_completeness auto
termination
  by (relation "measure length") (auto simp: str_next_line_less)

declare line_starts.simps [simp del]

definition line_key :: "string \<Rightarrow> byte list option" where
  "line_key p =
     (let p = str_skip_space p in
      if 32 \<le> length p \<and> list_all isxdigit (take 32 p) \<and> (32 < length p \<longrightarrow> \<not> isxdigit (p ! 32))
      then Some (fst (unhex (take 32 p))) else None)"

definition add_key :: "byte list \<Rightarrow> byte list list \<Rightarrow> byte list list" where
  "add_key k pkl = (if k \<in> set pkl then pkl else k # pkl)"

lemma pk_line_eq:
  assumes "\<forall>n. fe_alloc E n"
  shows "pk_line E pkl p =
    Some (case line_key p of None \<Rightarrow> (pkl, 0) | Some k \<Rightarrow> (add_key k pkl, 1))"
proof -
  let ?p = "str_skip_space p"
  have hex: "str_get_hex_string (fe_alloc E) p 32 =
    Some (if 32 \<le> length ?p \<and> list_all isxdigit (take 32 ?p) \<and> (32 < length ?p \<longrightarrow> \<not> isxdigit (?p ! 32))
          then Some (take 32 ?p) else None)"
    using assms str_is_hex_string_eq [of ?p 32]
    by (simp add: str_get_hex_string_def Let_def list_all_iff)
  have key: "hexstring_to_hex_array (zeros 16) 16 (take 32 ?p) = Some (fst (unhex (take 32 ?p)), True)"
    if "32 \<le> length ?p" "list_all isxdigit (take 32 ?p)"
  proof -
    have ok: "snd (unhex (take 32 ?p))"
      using that by (auto simp: unhex_ok_iff list_all_iff dest!: in_set_takeD)
    with that have "length (fst (unhex (take 32 ?p))) = 16" by (simp add: length_unhex_ok)
    with that ok show ?thesis by (simp add: hexstring_to_hex_array_unhex case_prod_beta)
  qed
  show ?thesis
    using assms key by (auto simp: pk_line_def hex line_key_def Let_def add_key_def is_duplicate_pk_def)
qed

lemma pk_lines_eq:
  assumes "\<forall>n. fe_alloc E n"
  shows "pk_lines E pkl p result =
    (let ks = List.map_filter line_key (line_starts p) in Some (fold add_key ks pkl, result + length ks))"
  using assms
proof (induction E pkl p result rule: pk_lines.induct)
  case (1 E pkl p result)
  show ?case
  proof (cases "p = []")
    case True
    then show ?thesis by (simp add: pk_lines.simps [of E] line_starts.simps [of "[]"])
  next
    case False
    note line = pk_line_eq [OF "1.prems", of pkl p]
    show ?thesis
    proof (cases "line_key p")
      case None
      with line have "pk_line E pkl p = Some (pkl, 0)" by simp
      with "1.IH" [OF False this refl "1.prems"] False None show ?thesis
        by (simp add: pk_lines.simps [of E pkl p] line_starts.simps [of p])
    next
      case (Some k)
      with line have "pk_line E pkl p = Some (add_key k pkl, 1)" by simp
      with "1.IH" [OF False this refl "1.prems"] False Some show ?thesis
        by (simp add: pk_lines.simps [of E pkl p] line_starts.simps [of p] Let_def)
    qed
  qed
qed

lemma set_fold_add_key: "set (fold add_key ks pkl) = set pkl \<union> set ks"
  by (induction ks arbitrary: pkl) (auto simp: add_key_def)

lemma distinct_fold_add_key: "distinct pkl \<Longrightarrow> distinct (fold add_key ks pkl)"
  by (induction ks arbitrary: pkl) (auto simp: add_key_def)

section \<open>Properties\<close>

text \<open>
  Reading a file of processing keys that can be loaded adds exactly the keys its lines
  start with, keeps the list free of duplicates, and returns how many such lines there were.
\<close>

theorem parse_pk_file_spec:
  assumes "\<forall>n. fe_alloc E n" and "load_file E fp = Some data" and "distinct (cf_pkl cf)"
  shows "\<exists>pkl. parse_pk_file E cf fp =
      Some (length (List.map_filter line_key (line_starts data)), cf\<lparr>cf_pkl := pkl\<rparr>) \<and>
    distinct pkl \<and> set pkl = set (cf_pkl cf) \<union> set (List.map_filter line_key (line_starts data))"
  using assms
  by (intro exI [of _ "fold add_key (List.map_filter line_key (line_starts data)) (cf_pkl cf)"])
    (simp add: parse_pk_file_def pk_lines_eq Let_def set_fold_add_key distinct_fold_add_key)

definition toy_key_text :: string where
  "toy_key_text = ''; keys'' @ [CHR 0x0A] @ ''0102030405060708090a0b0c0d0e0f10'' @ [CHR 0x0A]"

lemma toy_key_line:
  "line_starts toy_key_text = [toy_key_text, ''0102030405060708090a0b0c0d0e0f10'' @ [CHR 0x0A]]"
  "line_key toy_key_text = None"
  "line_key (''0102030405060708090a0b0c0d0e0f10'' @ [CHR 0x0A]) =
     Some [1, 2, 3, 4, 5, 6, 7, 8, 9, 10, 11, 12, 13, 14, 15, 16]"
proof -
  show "line_starts toy_key_text = [toy_key_text, ''0102030405060708090a0b0c0d0e0f10'' @ [CHR 0x0A]]"
    by (simp add: toy_key_text_def line_starts.simps str_next_line_def)
  show "line_key toy_key_text = None"
    by (simp add: line_key_def toy_key_text_def isxdigit_def)
  have "unhex ''0102030405060708090a0b0c0d0e0f10'' = ([1, 2, 3, 4, 5, 6, 7, 8, 9, 10, 11, 12, 13, 14, 15, 16], True)"
    by (simp add: isxdigit_def hexstring_to_unsigned_char_def hex_cases_def)
  then show "line_key (''0102030405060708090a0b0c0d0e0f10'' @ [CHR 0x0A]) =
     Some [1, 2, 3, 4, 5, 6, 7, 8, 9, 10, 11, 12, 13, 14, 15, 16]"
    by (simp add: line_key_def isxdigit_def del: unhex.simps)
qed

theorem parse_pk_file_spec_witness:
  "\<exists>pkl. parse_pk_file (free_env ''/h'') \<lparr>cf_dkl = [], cf_pkl = [], cf_host_cert_list = [], cf_list = []\<rparr>
       \<lparr>fh_data = bytes toy_key_text, fh_pos = 0\<rparr> =
     Some (1, \<lparr>cf_dkl = [], cf_pkl = pkl, cf_host_cert_list = [], cf_list = []\<rparr>) \<and>
     set pkl = {[1, 2, 3, 4, 5, 6, 7, 8, 9, 10, 11, 12, 13, 14, 15, 16]}"
proof -
  have "c_string toy_key_text = toy_key_text" "length toy_key_text = 40"
    by (simp_all add: c_string_def toy_key_text_def)
  then have l: "load_file (free_env ''/h'') \<lparr>fh_data = bytes toy_key_text, fh_pos = 0\<rparr> = Some toy_key_text"
    by (simp add: load_file_def file_size_def file_tell_def file_seek_def file_read_def free_env_def
        MIN_FILE_SIZE_def MAX_FILE_SIZE_def Let_def)
  have "\<forall>n. fe_alloc (free_env ''/h'') n" by (simp add: free_env_def)
  from parse_pk_file_spec [OF this l, of "\<lparr>cf_dkl = [], cf_pkl = [], cf_host_cert_list = [], cf_list = []\<rparr>"]
  moreover have "List.map_filter line_key (line_starts toy_key_text) =
      [[1, 2, 3, 4, 5, 6, 7, 8, 9, 10, 11, 12, 13, 14, 15, 16]]"
    by (simp only: toy_key_line map_filter_simps option.simps)
  ultimately show ?thesis by auto
qed

text \<open>
  C21: the key cache refines a finite map from cache type and disc id to keys: after any sequence
  of successful saves, \<open>keycache_find\<close> returns for every disc the key saved last, and for a disc
  that was not saved what it returned before.
\<close>

theorem keycache_refines_map:
  assumes "save_all (key_cache_save E n) s kvs = Some s'"
    and "\<forall>(k, v) \<in> set kvs. key_cache_ok E n k \<and> length v = n" and "key_cache_ok E n k"
  shows "key_cache_find E n s' k = (key_cache_find E n s ++ map_of (rev kvs)) k"
  using assms by (rule key_cache.save_all_refines)

text \<open>Saving in a file system where every directory that is asked for can be made.\<close>

lemma open_env_create:
  "(\<And>s d. fe_mkdir E s d) \<Longrightarrow> fst (create_missing E s cs k n) = 0"
proof (induction E s cs k n rule: create_missing.induct)
  case (1 E s cs k n)
  then show ?case by (subst create_missing.simps) (simp add: Let_def)
qed

definition open_env :: fs_env where
  "open_env = (free_env ''/home/u'')\<lparr>fe_mkdir := \<lambda>_ _. True\<rparr>"

lemma open_env_simps [simp]:
  "fe_alloc open_env n" "fe_mkdir open_env s d" "fe_open_r open_env p" "fe_open_w open_env s p"
  "fe_room open_env = 65536"
  "fe_getenv open_env v = (if v = ''HOME'' then Some ''/home/u'' else None)"
  "fe_enc32 open_env v' = rev (be_enc 4 v')" "fe_dec32 open_env bs = be_val (rev bs)"
  by (simp_all add: open_env_def free_env_def)

lemma open_env_mkdirs:
  "1 < length (split_sep p) \<Longrightarrow> fst (file_mkdirs open_env s p) = 0"
  by (simp add: file_mkdirs_def Let_def open_env_create)

lemma open_env_enc32: "enc32_ok open_env"
  by (simp add: enc32_ok_def be_val_be_enc)

lemma split_sep_root: "1 < length (split_sep (CHR ''/'' # p))"
  by (cases "split_sep p") simp_all

lemma open_env_write:
  assumes "p = CHR ''/'' # q"
  obtains s0 s1 where "file_mkdirs open_env s p = (0, s0)" and "file_open_w open_env s0 p = Some s1"
    and "fs_files s1 p = Some []"
proof -
  obtain s0 where s0: "file_mkdirs open_env s p = (0, s0)"
    using open_env_mkdirs [of p s] split_sep_root [of q] assms by (metis prod.collapse)
  show ?thesis
    by (rule that [OF s0, of "s0\<lparr>fs_files := (fs_files s0)(p := Some []), fs_exists := (fs_exists s0)(p := True)\<rparr>"])
      (simp_all add: file_open_w_def)
qed

lemma open_env_cache_home: "file_get_cache_home open_env = Some ''/home/u/.cache''"
  by (simp add: file_get_cache_home_def xdg_dir_def str_printf_eq)

lemma open_env_keycache_file:
  "length d = 20 \<Longrightarrow> keycache_file open_env ty d =
     Some (Some (''/home/u/.cache/aacs/'' @ ty @ ''/'' @ print_hex_loop d))"
  by (simp add: keycache_file_def open_env_cache_home str_printf_eq str_print_hex_Some CFG_DIR_def)

lemma open_env_key_cache_ok: "length (snd k) = 20 \<Longrightarrow> key_cache_ok open_env n k"
  by (simp add: key_cache_ok_def open_env_keycache_file readable_def)

lemma open_env_keycache_save:
  assumes "length d = 20" and "n \<le> length key" and "n \<le> 32768"
  shows "\<exists>s'. keycache_save open_env s ty d key n = Some (1, s')"
proof -
  obtain s0 s1 where w: "file_mkdirs open_env s (''/home/u/.cache/aacs/'' @ ty @ ''/'' @ print_hex_loop d) = (0, s0)"
    "file_open_w open_env s0 (''/home/u/.cache/aacs/'' @ ty @ ''/'' @ print_hex_loop d) = Some s1"
    "fs_files s1 (''/home/u/.cache/aacs/'' @ ty @ ''/'' @ print_hex_loop d) = Some []"
    by (rule open_env_write [of "''/home/u/.cache/aacs/'' @ ty @ ''/'' @ print_hex_loop d"
          "''home/u/.cache/aacs/'' @ ty @ ''/'' @ print_hex_loop d"]) auto
  with assms show ?thesis
    by (simp add: keycache_save_def open_env_keycache_file str_print_hex_Some file_write_def Let_def)
qed

lemma open_env_key_cache_save:
  assumes "length (snd k) = 20" and "length v = n" and "n \<le> 32768"
  shows "\<exists>s'. key_cache_save open_env n s k v = Some (True, s')"
  using open_env_keycache_save [OF assms(1), of n v s "fst k"] assms(2, 3)
  by (auto simp: key_cache_save_def)

definition toy_disc :: "byte \<Rightarrow> byte list" where "toy_disc b = replicate 20 b"

theorem keycache_refines_map_witness:
  "\<exists>s'. save_all (key_cache_save open_env 16) empty_fs
       [((''vid'', toy_disc 1), replicate 16 7), ((''mk'', toy_disc 1), replicate 16 8),
        ((''vid'', toy_disc 1), replicate 16 9)] = Some s' \<and>
     key_cache_find open_env 16 s' (''vid'', toy_disc 1) = Some (replicate 16 9) \<and>
     key_cache_find open_env 16 s' (''mk'', toy_disc 1) = Some (replicate 16 8)"
proof -
  note save = open_env_key_cache_save [of _ _ 16]
  obtain s1 where s1: "key_cache_save open_env 16 empty_fs (''vid'', toy_disc 1) (replicate 16 7) = Some (True, s1)"
    using save [of "(''vid'', toy_disc 1)" "replicate 16 7" empty_fs] by (auto simp: toy_disc_def)
  obtain s2 where s2: "key_cache_save open_env 16 s1 (''mk'', toy_disc 1) (replicate 16 8) = Some (True, s2)"
    using save [of "(''mk'', toy_disc 1)" "replicate 16 8" s1] by (auto simp: toy_disc_def)
  obtain s3 where s3: "key_cache_save open_env 16 s2 (''vid'', toy_disc 1) (replicate 16 9) = Some (True, s3)"
    using save [of "(''vid'', toy_disc 1)" "replicate 16 9" s2] by (auto simp: toy_disc_def)
  let ?kvs = "[((''vid'', toy_disc 1), replicate 16 7), ((''mk'', toy_disc 1), replicate 16 8),
        ((''vid'', toy_disc 1), replicate 16 9)]"
  have r: "save_all (key_cache_save open_env 16) empty_fs ?kvs = Some s3"
    by (simp only: save_all.simps s1 s2 s3 option.case prod.case bool.case)
  have ok: "\<forall>(k, v) \<in> set ?kvs. key_cache_ok open_env 16 k \<and> length v = 16"
    by (auto simp: open_env_key_cache_ok toy_disc_def)
  have okd: "key_cache_ok open_env 16 (ty, toy_disc 1)" for ty
    by (simp add: open_env_key_cache_ok toy_disc_def)
  have "key_cache_find open_env 16 s3 (''vid'', toy_disc 1) = Some (replicate 16 9)"
    using keycache_refines_map [OF r ok okd, of "''vid''"] by simp
  moreover have "key_cache_find open_env 16 s3 (''mk'', toy_disc 1) = Some (replicate 16 8)"
    using keycache_refines_map [OF r ok okd, of "''mk''"] by simp
  ultimately show ?thesis using r by blast
qed

text \<open>
  What \<open>cache_save\<close> wrote, \<open>cache_get\<close> returns: the version, the size and, when the buffer
  is large enough, the data at its start; a smaller buffer is left alone and the call fails.
\<close>

theorem cache_save_get:
  assumes "cache_save E s name ver d (length d) = Some (1, s')" and "cache_file E name = Some p"
    and "fe_open_r E p" and "enc32_ok E" and "ver < 2 ^ 32" and "length d < 2 ^ 32"
  shows "cache_get E s' name True (Some buf) (length buf) =
    (if length d \<le> length buf then Some (1, ver, length d, Some (d @ drop (length d) buf))
     else Some (0, ver, length d, Some buf))"
proof -
  from cache_save_saved [OF assms(1, 2)]
  have "fs_files s' p = Some (fe_enc32 E ver @ fe_enc32 E (length d) @ d)" by (simp add: saved_def)
  from cache_get_content [OF assms(2, 3, 4) this assms(5, 6) refl] show ?thesis .
qed

lemma open_env_cache_save:
  assumes "ver < 2 ^ 32" and "length d \<le> 65000"
  shows "\<exists>s'. cache_save open_env s name ver d (length d) = Some (1, s')"
proof -
  obtain s0 s1 where w: "file_mkdirs open_env s (''/home/u/.cache/aacs/'' @ name) = (0, s0)"
    "file_open_w open_env s0 (''/home/u/.cache/aacs/'' @ name) = Some s1"
    "fs_files s1 (''/home/u/.cache/aacs/'' @ name) = Some []"
    by (rule open_env_write [of "''/home/u/.cache/aacs/'' @ name" "''home/u/.cache/aacs/'' @ name"]) auto
  have f: "cache_file open_env name = Some (''/home/u/.cache/aacs/'' @ name)"
    by (simp add: cache_file_def open_env_cache_home str_printf_eq CFG_DIR_def)
  from w assms show ?thesis
    by (simp add: cache_save_def f rdn_def file_write_def Let_def)
qed

lemma open_env_cache_file: "cache_file open_env name = Some (''/home/u/.cache/aacs/'' @ name)"
  by (simp add: cache_file_def open_env_cache_home str_printf_eq CFG_DIR_def)

theorem cache_save_get_witness:
  "\<exists>s'. cache_save open_env empty_fs ''drl'' 68 [1, 2, 3] 3 = Some (1, s') \<and>
     cache_get open_env s' ''drl'' True (Some [0, 0, 0, 0]) 4 = Some (1, 68, 3, Some [1, 2, 3, 0]) \<and>
     cache_get open_env s' ''drl'' True (Some [0, 0]) 2 = Some (0, 68, 3, Some [0, 0])"
proof -
  obtain s' where s': "cache_save open_env empty_fs ''drl'' 68 [1, 2, 3] (length [1, 2, 3 :: byte]) = Some (1, s')"
    using open_env_cache_save [of 68 "[1, 2, 3]" empty_fs "''drl''"] by auto
  note get = cache_save_get [OF s' open_env_cache_file _ open_env_enc32]
  show ?thesis using s' get [of "[0, 0, 0, 0]"] get [of "[0, 0]"] by (auto simp: numeral_2_eq_2 [symmetric])
qed

text \<open>
  Asking for version and size without a buffer, as the comment in \<^verbatim>\<open>keydbcfg.h\<close> says, fails
  for every cache that holds data: the size is compared with a buffer size of 0 all the same.
  Both values are stored nevertheless, and asking for the version alone succeeds.
\<close>

theorem cache_get_query:
  assumes "cache_save E s name ver d (length d) = Some (1, s')" and "cache_file E name = Some p"
    and "fe_open_r E p" and "enc32_ok E" and "ver < 2 ^ 32" and "length d < 2 ^ 32" and "d \<noteq> []"
  shows "cache_get E s' name True None 0 = Some (0, ver, length d, None) \<and>
    cache_get E s' name False None 0 = Some (1, ver, 0, None)"
proof -
  let ?c = "fe_enc32 E ver @ fe_enc32 E (length d) @ d"
  from cache_save_saved [OF assms(1, 2)] have "fs_files s' p = Some ?c" by (simp add: saved_def)
  then have fp: "file_open_r E s' p = Some \<lparr>fh_data = ?c, fh_pos = 0\<rparr>"
    using assms(3) by (simp add: file_open_r_def)
  note len = length_enc32 [OF assms(4, 5)] length_enc32 [OF assms(4, 6)]
  have r1: "file_read \<lparr>fh_data = ?c, fh_pos = 0\<rparr> 4 = (fe_enc32 E ver, \<lparr>fh_data = ?c, fh_pos = 4\<rparr>)"
    using len by (simp add: file_read_def Let_def)
  have r2: "file_read \<lparr>fh_data = ?c, fh_pos = 4\<rparr> 4 = (fe_enc32 E (length d), \<lparr>fh_data = ?c, fh_pos = 8\<rparr>)"
    using len by (simp add: file_read_def Let_def)
  show ?thesis
    using assms(2, 7) len
    by (simp add: cache_get_def fp r1 r2 read32_enc32 [OF assms(4, 5)] read32_enc32 [OF assms(4, 6)]
        Let_def del: append_assoc)
qed

theorem cache_get_query_witness:
  "\<exists>s'. cache_save open_env empty_fs ''drl'' 68 [1, 2, 3] 3 = Some (1, s') \<and>
     cache_get open_env s' ''drl'' True None 0 = Some (0, 68, 3, None)"
proof -
  obtain s' where s': "cache_save open_env empty_fs ''drl'' 68 [1, 2, 3] (length [1, 2, 3 :: byte]) = Some (1, s')"
    using open_env_cache_save [of 68 "[1, 2, 3]" empty_fs "''drl''"] by auto
  from cache_get_query [OF s' open_env_cache_file _ open_env_enc32] s' show ?thesis
    by (auto simp: numeral_2_eq_2 [symmetric])
qed

text \<open>
  \<open>config_get\<close> compares the announced size with the buffer in the wrong direction: a file
  that announces and holds more than the buffer takes is copied past its end, while one that
  announces less is refused.  Only the exact size is safe.
\<close>

theorem config_get_overflow:
  assumes "config_file_user E name = Some p" and "fe_open_r E p" and "enc32_ok E"
    and "fs_files s p = Some (fe_enc32 E len @ d)" and "len < 2 ^ 32" and "length buf < length d"
  shows "config_get E s name (length buf) (Some buf) =
    (if len < length buf then Some (0, len, Some buf)
     else if len = length buf then Some (1, len, Some (take len d)) else None)"
proof (cases "length buf \<le> len")
  case True
  show ?thesis
    unfolding config_get_content [OF assms(1-5) True]
    using True assms(6) by (auto simp: memcpy_at_def)
next
  case False
  have "file_open_r E s p = Some \<lparr>fh_data = fe_enc32 E len @ d, fh_pos = 0\<rparr>"
    using assms(2, 4) by (simp add: file_open_r_def)
  moreover have "file_read \<lparr>fh_data = fe_enc32 E len @ d, fh_pos = 0\<rparr> 4 =
      (fe_enc32 E len, \<lparr>fh_data = fe_enc32 E len @ d, fh_pos = 4\<rparr>)"
    using length_enc32 [OF assms(3, 5)] by (simp add: file_read_def Let_def)
  ultimately show ?thesis
    using False assms(1) length_enc32 [OF assms(3, 5)]
    by (simp add: config_get_def open_cfg_file_user_r_def read32_enc32 [OF assms(3, 5)])
qed

theorem config_get_overflow_witness:
  "config_get open_env \<lparr>fs_files = [''/home/u/.config/aacs/device_binding_id'' \<mapsto> 17 # 0 # 0 # 0 # replicate 17 5],
       fs_exists = (\<lambda>_. True)\<rparr> ''device_binding_id'' 16 (Some (replicate 16 0)) = None"
proof -
  have f: "config_file_user open_env ''device_binding_id'' = Some ''/home/u/.config/aacs/device_binding_id''"
    by (simp add: config_file_user_def file_get_config_home_def xdg_dir_def str_printf_eq CFG_DIR_def)
  have e: "fe_enc32 open_env 17 = [17, 0, 0, 0]" by (simp add: be_enc_numeral)
  show ?thesis
    using config_get_overflow [OF f _ open_env_enc32, of _ 17 "replicate 17 5" "replicate 16 0"] e by simp
qed

end
