(* ===== verification/RevList.thy ===== *)
theory RevList
  imports KeyDb Mkb Mmc
begin

text \<open>
  The revocation lists of \<^verbatim>\<open>src/libaacs/aacs.c\<close>: lists found in a Media Key Block are kept in the
  versioned caches \<open>drl\<close> and \<open>hrl\<close> when their signature verifies, and handed out from there.
\<close>

section \<open>Storing\<close>

definition rl_verify_signature :: "fs_env \<Rightarrow> 's mmc_env \<Rightarrow> byte list \<Rightarrow> nat \<Rightarrow> bool ub" where
  "rl_verify_signature F E rl sz =
     (if sz < 40 then Some False
      else do {
        entries \<leftarrow> rd_be32 rl (12 + 8);
        if entries \<ge> (0xffffffff - 24 - 40) div 8 then Some False
        else
          let len = 12 + 12 + 8 * entries in
          if len > sz - 40 then Some False
          else do {
            err \<leftarrow> crypto_aacs_verify_aacsla (fe_alloc F) (me_mpi E) (me_gcrypt E) (drop len rl) rl len;
            Some (err = 0)
          }
      })"

text \<open>\<open>version_rec\<close> and \<open>rl_rec\<close> are offsets into the block \<open>buf\<close>.\<close>

definition save_rl ::
    "fs_env \<Rightarrow> 's mmc_env \<Rightarrow> fs \<Rightarrow> string \<Rightarrow> nat \<Rightarrow> byte list \<Rightarrow> nat \<Rightarrow> nat \<Rightarrow> nat \<Rightarrow> fs ub" where
  "save_rl F E s name version buf version_rec rl_rec rl_len = do {
     len \<leftarrow> rd_be24 buf (rl_rec - 3);
     entries \<leftarrow> rd_be32 buf (rl_rec + 4);
     if len < 4 \<or> entries = 0 then Some s
     else
       let rl_rec = rl_rec - 4; rl_len = rl_len + 4 in
       if \<not> fe_alloc F (12 + rl_len) then Some s
       else do {
         v \<leftarrow> rdn buf version_rec 12;
         r \<leftarrow> rdn buf rl_rec rl_len;
         ok \<leftarrow> rl_verify_signature F E (v @ r) (rl_len + 12);
         if \<not> ok then Some s
         else do {
           (_, s) \<leftarrow> cache_save F s name version (v @ r) (rl_len + 12);
           Some s
         }
       }
   }"

text \<open>One of the two blocks of \<open>_update_rl\<close>; \<open>entries\<close> is the accessor of the list.\<close>

definition update_one_rl ::
    "fs_env \<Rightarrow> 's mmc_env \<Rightarrow> fs \<Rightarrow> string \<Rightarrow> mkb \<Rightarrow> nat \<Rightarrow> (nat ptr \<times> nat) ub \<Rightarrow> fs ub" where
  "update_one_rl F E s name m version entries = do {
     (r, cache_version, _, _) \<leftarrow> cache_get F s name False None 0;
     if r = 0 \<or> cache_version < version then do {
       version_rec \<leftarrow> mkb_type_and_version_record m;
       (rec, rl_len) \<leftarrow> entries;
       case (rec, version_rec) of
         (Some rec, Some vrec) \<Rightarrow>
           if rl_len > 8 then save_rl F E s name version (mkb_buf m) vrec rec rl_len else Some s
       | _ \<Rightarrow> Some s
     } else Some s
   }"

definition update_rl :: "fs_env \<Rightarrow> 's mmc_env \<Rightarrow> fs \<Rightarrow> mkb \<Rightarrow> nat \<Rightarrow> fs ub" where
  "update_rl F E s m len0 = do {
     version \<leftarrow> mkb_version m;
     s \<leftarrow> update_one_rl F E s ''drl'' m version (mkb_drive_revokation_entries m len0);
     update_one_rl F E s ''hrl'' m version (mkb_host_revokation_entries m len0)
   }"

section \<open>Handing out\<close>

record rl_entry =
  rl_range :: nat
  rl_id :: "byte list"

fun read_rl :: "byte list \<Rightarrow> nat \<Rightarrow> nat \<Rightarrow> rl_entry list ub" where
  "read_rl data p 0 = Some []"
| "read_rl data p (Suc n) = do {
     range \<leftarrow> rd_be16 data p;
     id \<leftarrow> rdn data (p + 2) 6;
     rest \<leftarrow> read_rl data (p + 8) n;
     Some (\<lparr>rl_range = range, rl_id = id\<rparr> # rest)
   }"

text \<open>The list, \<open>*num_records\<close> and \<open>*mkbv\<close>.\<close>

definition get_rl :: "fs_env \<Rightarrow> 's mmc_env \<Rightarrow> fs \<Rightarrow> string \<Rightarrow> (rl_entry list ptr \<times> nat \<times> nat) ub" where
  "get_rl F E s ty = do {
     (_, version, len, _) \<leftarrow> cache_get F s ty True None 0;
     if version > 0 \<and> len > 24 then
       (if \<not> fe_alloc F len then Some (None, 0, 0)
        else do {
          (r, version, len, data) \<leftarrow> cache_get F s ty True (Some (zeros len)) len;
          data \<leftarrow> data;
          if r \<noteq> 0 \<and> len > 24 then do {
            ok \<leftarrow> rl_verify_signature F E data len;
            if ok then do {
              num \<leftarrow> rd_be32 data 20;
              let num = (if (len - 24) div 8 < num then (len - 24) div 8 else num);
              if fe_alloc F (num * 8) then do {
                rl \<leftarrow> read_rl data 24 num;
                Some (Some rl, num, version)
              } else Some (None, num, version)
            } else Some (None, 0, 0)
          } else Some (None, 0, 0)
        })
     else Some (None, 0, 0)
   }"

definition aacs_get_hrl :: "fs_env \<Rightarrow> 's mmc_env \<Rightarrow> fs \<Rightarrow> (rl_entry list ptr \<times> nat \<times> nat) ub" where
  "aacs_get_hrl F E s = get_rl F E s ''hrl''"

definition aacs_get_drl :: "fs_env \<Rightarrow> 's mmc_env \<Rightarrow> fs \<Rightarrow> (rl_entry list ptr \<times> nat \<times> nat) ub" where
  "aacs_get_drl F E s = get_rl F E s ''drl''"

section \<open>What is stored is signed\<close>

text \<open>The signed part of a stored list, and its entries.\<close>

definition rl_count :: "byte list \<Rightarrow> nat" where
  "rl_count data = be_val (take 4 (drop 20 data))"

definition rl_entries :: "byte list \<Rightarrow> rl_entry list" where
  "rl_entries data = map (\<lambda>i. \<lparr>rl_range = be_val (take 2 (drop (24 + 8 * i) data)),
     rl_id = take 6 (drop (26 + 8 * i) data)\<rparr>) [0..<rl_count data]"

lemma rl_verify_signature_size:
  assumes "rl_verify_signature F E data (length data) = Some True"
  shows "64 + 8 * rl_count data \<le> length data"
proof -
  have "40 \<le> length data" using assms by (simp add: rl_verify_signature_def split: if_splits)
  moreover from this have "rd_be32 data 20 = Some (rl_count data)"
    by (simp add: rd_be_eq rdn_def rl_count_def)
  ultimately show ?thesis using assms
    by (simp add: rl_verify_signature_def Let_def split: if_splits)
qed

lemma read_rl_eq:
  "p + 8 * n \<le> length data \<Longrightarrow> read_rl data p n =
     Some (map (\<lambda>i. \<lparr>rl_range = be_val (take 2 (drop (p + 8 * i) data)),
       rl_id = take 6 (drop (p + 2 + 8 * i) data)\<rparr>) [0..<n])"
proof (induction n arbitrary: p)
  case 0
  then show ?case by simp
next
  case (Suc n)
  then have "rd_be16 data p = Some (be_val (take 2 (drop p data)))" "rdn data (p + 2) 6 = Some (take 6 (drop (p + 2) data))"
    by (simp_all add: rd_be_eq rdn_def)
  with Suc.IH [of "p + 8"] Suc.prems show ?case
    by (simp add: upt_conv_Cons del: upt_Suc) (simp add: map_Suc_upt [symmetric] algebra_simps del: upt_Suc)
qed

text \<open>A successful \<open>cache_get\<close>: what it read from the file.\<close>

lemma cache_get_success:
  assumes "cache_get F s name True (Some b) cap = Some (r, v, len, d)" and "r \<noteq> 0" and "len > 0"
  shows "\<exists>p c. cache_file F name = Some p \<and> fs_files s p = Some c \<and> 8 + len \<le> length c \<and>
    v = read32 F (take 4 c) \<and> len = read32 F (take 4 (drop 4 c)) \<and>
    d = Some (take len (drop 8 c) @ drop len b) \<and> len \<le> cap \<and> len \<le> length b \<and>
    (\<exists>r'. cache_get F s name True None 0 = Some (r', v, len, None))"
proof -
  from assms(1, 2) obtain p where p: "cache_file F name = Some p"
    by (auto simp: cache_get_def split: option.splits)
  with assms(1, 2) obtain fp where fp: "file_open_r F s p = Some fp"
    by (auto simp: cache_get_def split: option.splits)
  then obtain c where c: "fs_files s p = Some c" "fp = \<lparr>fh_data = c, fh_pos = 0\<rparr>"
    by (auto simp: file_open_r_def split: if_splits)
  have r1: "file_read fp 4 = (take 4 c, \<lparr>fh_data = c, fh_pos = length (take 4 c)\<rparr>)"
    using c(2) by (simp add: file_read_def Let_def)
  from assms(1, 2) p fp r1 have l1: "4 \<le> length c"
    by (auto simp: cache_get_def Let_def split: if_splits)
  then have r1: "file_read fp 4 = (take 4 c, \<lparr>fh_data = c, fh_pos = 4\<rparr>)"
    using r1 by simp
  have r2: "file_read \<lparr>fh_data = c, fh_pos = 4\<rparr> 4 =
      (take 4 (drop 4 c), \<lparr>fh_data = c, fh_pos = 4 + length (take 4 (drop 4 c))\<rparr>)"
    by (simp add: file_read_def Let_def)
  from assms(1, 2) p fp r1 r2 l1 have l2: "8 \<le> length c"
    by (auto simp: cache_get_def Let_def split: if_splits)
  then have r2: "file_read \<lparr>fh_data = c, fh_pos = 4\<rparr> 4 = (take 4 (drop 4 c), \<lparr>fh_data = c, fh_pos = 8\<rparr>)"
    using r2 by simp
  let ?len = "read32 F (take 4 (drop 4 c))" and ?v = "read32 F (take 4 c)"
  have r3: "file_read \<lparr>fh_data = c, fh_pos = 8\<rparr> ?len =
      (take ?len (drop 8 c), \<lparr>fh_data = c, fh_pos = 8 + length (take ?len (drop 8 c))\<rparr>)" if "?len \<noteq> 0"
    using l2 that by (simp add: file_read_def Let_def)
  have get: "cache_get F s name True buf n =
    (if \<not> ?len \<le> n then Some (0, ?v, ?len, buf)
     else (case buf of None \<Rightarrow> Some (1, ?v, ?len, None)
       | Some b \<Rightarrow> (let (d, fp) = file_read \<lparr>fh_data = c, fh_pos = 8\<rparr> ?len in
          do { b \<leftarrow> memcpy_at b 0 d; Some (if length d = ?len then 1 else 0, ?v, ?len, Some b) })))" for buf n
    using p fp r1 r2 l1 l2 by (simp add: cache_get_def Let_def)
  from get [of "Some b" cap] assms have len: "len = ?len" "v = ?v" "?len \<le> cap"
    by (auto split: if_splits prod.splits Option.bind_splits)
  with assms(3) r3 get [of "Some b" cap] assms(1, 2) have
    "8 + len \<le> length c \<and> d = Some (take len (drop 8 c) @ drop len b) \<and> len \<le> length b"
    by (auto simp: memcpy_at_def min_def split: if_splits)
  moreover have "\<exists>r'. cache_get F s name True None 0 = Some (r', v, len, None)"
    using get [of None 0] len by auto
  ultimately show ?thesis using p c(1) len by blast
qed

lemma saved_rl_handed_out:
  assumes "\<forall>n. fe_alloc F n" and "enc32_ok F" and "cache_file F name = Some p" and "fe_open_r F p"
    and "0 < version" and "version < 2 ^ 32" and "length data < 2 ^ 32"
    and "rl_verify_signature F E data (length data) = Some True"
    and "cache_save F s name version data (length data) = Some (1, s')"
  shows "get_rl F E s' name = Some (Some (rl_entries data), rl_count data, version)"
proof -
  have sz: "64 + 8 * rl_count data \<le> length data" using assms(8) by (rule rl_verify_signature_size)
  have c: "fs_files s' p = Some (fe_enc32 F version @ fe_enc32 F (length data) @ data)"
    using cache_save_saved [OF assms(9, 3)] by (simp add: saved_def)
  have g: "cache_get F s' name True (Some (zeros (length data))) (length data) = Some (1, version, length data, Some data)"
    using cache_get_content [OF assms(3, 4, 2) c assms(6, 7), of "zeros (length data)"] by (simp add: zeros_def)
  have "data \<noteq> []" using sz by auto
  with cache_get_success [OF g] obtain r' where q: "cache_get F s' name True None 0 = Some (r', version, length data, None)"
    by auto
  have num: "rd_be32 data 20 = Some (rl_count data)" "\<not> (length data - 24) div 8 < rl_count data"
    using sz by (simp_all add: rd_be_eq rdn_def rl_count_def)
  have "read_rl data 24 (rl_count data) = Some (rl_entries data)"
    using read_rl_eq [of 24 "rl_count data" data] sz by (simp add: rl_entries_def)
  with q g num sz assms(1, 5, 8) show ?thesis
    by (simp add: get_rl_def)
qed

section \<open>Properties\<close>

text \<open>
  C7: a revocation list that is handed out was read from the cache, its signature verifies with the
  public key of the AACS LA, and the entries are the ones the signature covers, no more.
\<close>

theorem get_rl_authentic:
  assumes "get_rl F E s ty = Some (Some rl, n, version)"
  shows "\<exists>p c data. cache_file F ty = Some p \<and> fs_files s p = Some c \<and>
    version = read32 F (take 4 c) \<and> data = take (length data) (drop 8 c) \<and>
    rl_verify_signature F E data (length data) = Some True \<and>
    rl = rl_entries data \<and> n = rl_count data"
proof -
  from assms obtain r0 v0 len0 b0 where q: "cache_get F s ty True None 0 = Some (r0, v0, len0, b0)"
    by (auto simp: get_rl_def split: Option.bind_splits prod.splits)
  with assms have len0: "len0 > 24" "v0 > 0" by (auto simp: get_rl_def split: if_splits)
  from assms q obtain r v len data where g: "cache_get F s ty True (Some (zeros len0)) len0 = Some (r, v, len, Some data)"
    by (auto simp: get_rl_def split: if_splits Option.bind_splits)
  from assms q g have r: "r \<noteq> 0" "len > 24" by (auto simp: get_rl_def split: if_splits)
  from cache_get_success [OF g r(1)] r(2) obtain p c where
    c: "cache_file F ty = Some p" "fs_files s p = Some c" "8 + len \<le> length c" "v = read32 F (take 4 c)"
      "data = take len (drop 8 c) @ drop len (zeros len0)" and len: "len = len0"
    using q by auto
  then have data: "data = take len (drop 8 c)" "length data = len" by (simp_all add: zeros_def)
  from assms q g r len have ok: "rl_verify_signature F E data len = Some True"
    by (auto simp: get_rl_def split: if_splits Option.bind_splits)
  with data have sz: "64 + 8 * rl_count data \<le> len"
    using rl_verify_signature_size [of F E data] by simp
  then have num: "rd_be32 data 20 = Some (rl_count data)" "\<not> (len - 24) div 8 < rl_count data"
    using data(2) by (simp_all add: rd_be_eq rdn_def rl_count_def)
  have "read_rl data 24 (rl_count data) = Some (rl_entries data)"
    using read_rl_eq [of 24 "rl_count data" data] sz data(2) by (simp add: rl_entries_def)
  with assms q g r len ok num have "rl = rl_entries data \<and> n = rl_count data \<and> version = v"
    by (auto simp: get_rl_def Let_def split: if_splits Option.bind_splits)
  with c(1-4) data ok show ?thesis
    by (intro exI [of _ p] exI [of _ c] exI [of _ data]) simp
qed

text \<open>A list with one entry, as record 0x20 of a block, and its signature.\<close>

definition toy_rl :: "byte list" where
  "toy_rl = [0x20, 0, 0, 60, 0, 0, 0, 1, 0, 0, 0, 1, 0, 2, 1, 2, 3, 4, 5, 6] @ toy_signature"

definition toy_rl_data :: "byte list" where
  "toy_rl_data = [0x10, 0, 0, 12, 0, 3, 0x10, 3, 0, 0, 0, 68] @ toy_rl"

lemma toy_rl_signed: "rl_verify_signature open_env toy_env toy_rl_data 72 = Some True"
proof -
  have "rd_be32 toy_rl_data 20 = Some 1"
    by (simp add: toy_rl_data_def toy_rl_def rd_be_eq rdn_def)
  moreover have "drop 32 toy_rl_data = toy_signature" "length toy_rl_data = 72"
    by (simp_all add: toy_rl_data_def toy_rl_def)
  moreover have "fe_alloc open_env = (\<lambda>_. True)" by (simp add: open_env_def free_env_def)
  moreover have "me_mpi toy_env = std_mpi" "me_gcrypt toy_env = toy_gcrypt" by (simp_all add: toy_env_def)
  ultimately show ?thesis
    by (simp add: rl_verify_signature_def crypto_aacs_verify_aacsla_def toy_verify aacs_la_pubkey_x_def
        aacs_la_pubkey_y_def)
qed

lemma toy_rl_saved: "\<exists>s'. cache_save open_env empty_fs ''drl'' 68 toy_rl_data 72 = Some (1, s')"
  using open_env_cache_save [of 68 toy_rl_data empty_fs "''drl''"] by (simp add: toy_rl_data_def toy_rl_def)

text \<open>
  A list of a Media Key Block that \<open>_save_rl\<close> writes to the cache is the one \<open>_get_rl\<close> hands
  out: the entries of its first signature block, with the version of the block.
\<close>

theorem save_rl_get_rl:
  assumes "\<forall>n. fe_alloc F n" and "enc32_ok F" and "cache_file F name = Some p" and "fe_open_r F p"
    and "0 < version" and "version < 2 ^ 32" and "length data < 2 ^ 32"
    and "rd_be24 buf (rl_rec - 3) = Some l" and "4 \<le> l" and "rd_be32 buf (rl_rec + 4) = Some e" and "e \<noteq> 0"
    and "rdn buf version_rec 12 = Some v" and "rdn buf (rl_rec - 4) (rl_len + 4) = Some r" and "data = v @ r"
    and "rl_verify_signature F E data (length data) = Some True"
    and "cache_save F s name version data (length data) = Some (1, s')"
  shows "save_rl F E s name version buf version_rec rl_rec rl_len = Some s' \<and>
    get_rl F E s' name = Some (Some (rl_entries data), rl_count data, version)"
proof
  have len: "length data = rl_len + 16" using assms(12-14) rdn_length by fastforce
  show "save_rl F E s name version buf version_rec rl_rec rl_len = Some s'"
  proof -
    have "rl_len + 4 + 12 = length data" "\<not> (l < 4 \<or> e = 0)" "fe_alloc F (12 + (rl_len + 4)) = True"
      using len assms(1, 9, 11) by simp_all
    then show ?thesis
      using assms(16) by (simp only: save_rl_def Let_def assms(8, 10, 12, 13, 15) assms(14) [symmetric] if_False if_True
          Option.bind.bind_lunit prod.case not_True_eq_False)
  qed
  show "get_rl F E s' name = Some (Some (rl_entries data), rl_count data, version)"
    by (rule saved_rl_handed_out [OF assms(1-7, 15, 16)])
qed

theorem save_rl_get_rl_witness:
  "\<exists>s'. save_rl open_env toy_env empty_fs ''drl'' 68 toy_rl_data 0 16 56 = Some s' \<and>
     get_rl open_env toy_env s' ''drl'' =
       Some (Some (rl_entries toy_rl_data), rl_count toy_rl_data, 68)"
proof -
  obtain s' where s': "cache_save open_env empty_fs ''drl'' 68 toy_rl_data 72 = Some (1, s')"
    using toy_rl_saved by blast
  have len: "length toy_rl_data = 72" by (simp add: toy_rl_data_def toy_rl_def)
  have reads: "rd_be24 toy_rl_data (16 - 3) = Some 60" "rd_be32 toy_rl_data (16 + 4) = Some 1"
    "rdn toy_rl_data 0 12 = Some (take 12 toy_rl_data)" "rdn toy_rl_data (16 - 4) (56 + 4) = Some (drop 12 toy_rl_data)"
    by (simp_all add: toy_rl_data_def toy_rl_def rd_be_eq rdn_def)
  have "save_rl open_env toy_env empty_fs ''drl'' 68 toy_rl_data 0 16 56 = Some s' \<and>
     get_rl open_env toy_env s' ''drl'' = Some (Some (rl_entries toy_rl_data), rl_count toy_rl_data, 68)"
    by (rule save_rl_get_rl [OF _ open_env_enc32 open_env_cache_file _ _ _ _ reads(1) _ reads(2) _ reads(3) reads(4)])
      (use s' len toy_rl_signed in simp_all)
  then show ?thesis by blast
qed

theorem get_rl_authentic_witness:
  "\<exists>s' rl p c data. get_rl open_env toy_env s' ''drl'' = Some (Some rl, 1, 68) \<and>
     cache_file open_env ''drl'' = Some p \<and> fs_files s' p = Some c \<and> 68 = read32 open_env (take 4 c) \<and>
     data = take (length data) (drop 8 c) \<and> rl_verify_signature open_env toy_env data (length data) = Some True \<and>
     rl = rl_entries data \<and> 1 = rl_count data"
proof -
  obtain s' where s': "cache_save open_env empty_fs ''drl'' 68 toy_rl_data 72 = Some (1, s')"
    using toy_rl_saved by blast
  have len: "length toy_rl_data = 72" and cnt: "rl_count toy_rl_data = 1"
    by (simp_all add: toy_rl_data_def toy_rl_def rl_count_def)
  have "get_rl open_env toy_env s' ''drl'' = Some (Some (rl_entries toy_rl_data), 1, 68)"
    using saved_rl_handed_out [OF _ open_env_enc32 open_env_cache_file _ _ _ _ _ s' [folded len]]
      toy_rl_signed len cnt by simp
  from get_rl_authentic [OF this] this show ?thesis by blast
qed

end
