(* ===== verification/MediaKey.thy ===== *)
theory MediaKey
  imports KeyDb Mkb Mmc
begin

text \<open>
  The media key: the first part of \<^verbatim>\<open>src/libaacs/aacs.c\<close>.  Validation of processing keys against
  the verification data of the Media Key Block, the subset-difference search with device keys and
  the search with processing keys.  Loops without a bound
  of their own are partial functions: \<open>None\<close> when they never end.
\<close>

section \<open>Error codes\<close>

definition AACS_SUCCESS :: int where "AACS_SUCCESS = 0"
definition AACS_ERROR_CORRUPTED_DISC :: int where "AACS_ERROR_CORRUPTED_DISC = - 1"
definition AACS_ERROR_NO_CONFIG :: int where "AACS_ERROR_NO_CONFIG = - 2"
definition AACS_ERROR_NO_PK :: int where "AACS_ERROR_NO_PK = - 3"
definition AACS_ERROR_NO_CERT :: int where "AACS_ERROR_NO_CERT = - 4"
definition AACS_ERROR_CERT_REVOKED :: int where "AACS_ERROR_CERT_REVOKED = - 5"
definition AACS_ERROR_MMC_OPEN :: int where "AACS_ERROR_MMC_OPEN = - 6"
definition AACS_ERROR_MMC_FAILURE :: int where "AACS_ERROR_MMC_FAILURE = - 7"
definition AACS_ERROR_NO_DK :: int where "AACS_ERROR_NO_DK = - 8"
definition AACS_ERROR_UNKNOWN :: int where "AACS_ERROR_UNKNOWN = - 9"

lemmas aacs_error_defs = AACS_SUCCESS_def AACS_ERROR_CORRUPTED_DISC_def AACS_ERROR_NO_CONFIG_def
  AACS_ERROR_NO_PK_def AACS_ERROR_NO_CERT_def AACS_ERROR_CERT_REVOKED_def AACS_ERROR_MMC_OPEN_def
  AACS_ERROR_MMC_FAILURE_def AACS_ERROR_NO_DK_def AACS_ERROR_UNKNOWN_def

section \<open>Validating a processing key\<close>

definition vd_magic :: "byte list" where
  "vd_magic = [0x01, 0x23, 0x45, 0x67, 0x89, 0xAB, 0xCD, 0xEF]"

text \<open>Return value and contents of \<open>mk\<close>.\<close>

definition validate_pk ::
    "'s gcrypt \<Rightarrow> byte list \<Rightarrow> byte list \<Rightarrow> byte list \<Rightarrow> byte list \<Rightarrow> byte list \<Rightarrow> int \<times> byte list" where
  "validate_pk G pk cvalue uv vd mk =
     (let (crypto_err, mk) = crypto_aes128d G pk cvalue mk in
      if crypto_err \<noteq> 0 then (AACS_ERROR_UNKNOWN, mk)
      else
        let mk = take 12 mk @ xor_bytes (drop 12 mk) uv;
            (crypto_err, dec_vd) = crypto_aes128d G mk vd (zeros 16)
        in if crypto_err \<noteq> 0 then (AACS_ERROR_UNKNOWN, mk)
           else if take 8 dec_vd = vd_magic then (AACS_SUCCESS, mk)
           else (AACS_ERROR_NO_PK, mk))"

section \<open>Masks\<close>

partial_function (option) v_mask_loop :: "u32 \<Rightarrow> u32 \<Rightarrow> u32 option" where
  "v_mask_loop uv v_mask =
     (if uv AND NOT v_mask = 0 then v_mask_loop uv (push_bit 1 v_mask) else Some v_mask)"

definition calc_v_mask :: "u32 \<Rightarrow> u32 ub" where
  "calc_v_mask uv = v_mask_loop uv 0xffffffff"

text \<open>\<open>0xffffffff << shift\<close>: undefined from the width on.\<close>

definition calc_u_mask :: "byte \<Rightarrow> u32 ub" where
  "calc_u_mask shift = (if unat shift < 32 then Some (push_bit (unat shift) 0xffffffff) else None)"

section \<open>Walking down the key tree\<close>

text \<open>The highest zero bit, searched from bit 31 down; \<open>- 1\<close> when there is none.\<close>

fun high_zero :: "u32 \<Rightarrow> nat \<Rightarrow> int" where
  "high_zero v 0 = - 1"
| "high_zero v (Suc i) = (if \<not> bit v i then int i else high_zero v i)"

text \<open>The state of the loop: the children, the processing key and the mask.\<close>

partial_function (option) pk_loop ::
    "'s gcrypt \<Rightarrow> u32 \<Rightarrow> u32 \<Rightarrow> byte list \<Rightarrow> byte list \<Rightarrow> byte list \<Rightarrow> u32 \<Rightarrow> (int \<times> byte list) option" where
  "pk_loop G uv v_mask left_child right_child pk dev_key_v_mask =
     (if dev_key_v_mask = v_mask then Some (AACS_SUCCESS, pk)
      else
        let i = high_zero dev_key_v_mask 32;
            curr_key = (if i < 0 \<or> \<not> bit uv (nat i) then left_child else right_child);
            (crypto_err, l, r, p) = crypto_aesg3 G curr_key (Some left_child) (Some right_child) (Some pk)
        in if crypto_err \<noteq> 0 then Some (AACS_ERROR_UNKNOWN, the p)
           else pk_loop G uv v_mask (the l) (the r) (the p) (signed_drop_bit 1 dev_key_v_mask))"

definition calc_pk ::
    "'s gcrypt \<Rightarrow> byte list \<Rightarrow> byte list \<Rightarrow> u32 \<Rightarrow> u32 \<Rightarrow> u32 \<Rightarrow> (int \<times> byte list) ub" where
  "calc_pk G dk pk uv v_mask dev_key_v_mask =
     (let (crypto_err, l, r, p) = crypto_aesg3 G dk (Some (zeros 16)) (Some (zeros 16)) (Some pk) in
      if crypto_err \<noteq> 0 then Some (AACS_ERROR_UNKNOWN, the p)
      else pk_loop G uv v_mask (the l) (the r) (the p) dev_key_v_mask)"

section \<open>Device keys\<close>

fun find_dk_loop :: "nat \<Rightarrow> u32 \<Rightarrow> u32 \<Rightarrow> dk list \<Rightarrow> (dk \<times> u32) ptr ub" where
  "find_dk_loop device_number uv u_mask [] = Some None"
| "find_dk_loop device_number uv u_mask (dk # dkl) =
     (if device_number \<noteq> dk_node dk then find_dk_loop device_number uv u_mask dkl
      else if dk_uv dk = 0 then find_dk_loop device_number uv u_mask dkl
      else do {
        dev_key_u_mask \<leftarrow> calc_u_mask (dk_u_mask_shift dk);
        dev_key_v_mask \<leftarrow> calc_v_mask (dk_uv dk);
        if u_mask = dev_key_u_mask \<and> uv AND dev_key_v_mask = dk_uv dk AND dev_key_v_mask
        then Some (Some (dk, dev_key_v_mask))
        else find_dk_loop device_number uv u_mask dkl
      })"

text \<open>The key and its mask; the node of the first entry is truncated to 32 bits.\<close>

definition find_dk :: "dk list \<Rightarrow> u32 \<Rightarrow> u32 \<Rightarrow> (dk \<times> u32) ptr ub" where
  "find_dk dkl uv u_mask = find_dk_loop (dk_node (hd dkl) mod 2 ^ 32) uv u_mask dkl"

text \<open>The applying subset difference: its index, \<open>uv\<close> and the two masks.\<close>

function uvs_loop :: "byte list \<Rightarrow> nat \<Rightarrow> nat \<Rightarrow> u32 \<Rightarrow> nat \<Rightarrow> (nat \<times> u32 \<times> u32 \<times> u32) ptr ub" where
  "uvs_loop buf uvs num_uvs device_number uvs_idx =
     (if uvs_idx < num_uvs then do {
        u_mask_shift \<leftarrow> rd buf (uvs + 5 * uvs_idx);
        uv \<leftarrow> map_option mkint_be32 (rdn buf (uvs + 1 + 5 * uvs_idx) 4);
        if uv = 0 then uvs_loop buf uvs num_uvs device_number (uvs_idx + 1)
        else if u_mask_shift AND 0xc0 \<noteq> 0 then Some None
        else do {
          u_mask \<leftarrow> calc_u_mask u_mask_shift;
          v_mask \<leftarrow> calc_v_mask uv;
          if device_number AND u_mask = uv AND u_mask \<and> device_number AND v_mask \<noteq> uv AND v_mask
          then Some (Some (uvs_idx, uv, u_mask, v_mask))
          else uvs_loop buf uvs num_uvs device_number (uvs_idx + 1)
        }
      } else Some None)"
  by pat_completeness auto
termination
  by (relation "measure (\<lambda>(buf, uvs, num_uvs, device_number, uvs_idx). num_uvs - uvs_idx)") auto

declare uvs_loop.simps [simp del]

text \<open>One device: whether the media key was found, and the contents of \<open>mk\<close>.\<close>

definition try_device ::
    "'s gcrypt \<Rightarrow> byte list \<Rightarrow> nat \<Rightarrow> nat \<Rightarrow> nat \<Rightarrow> nat \<Rightarrow> dk list \<Rightarrow> byte list \<Rightarrow> (bool \<times> byte list) ub" where
  "try_device G buf uvs cvalues mk_dv num_uvs dk_num mk = do {
     r \<leftarrow> uvs_loop buf uvs num_uvs (word_of_nat (dk_node (hd dk_num))) 0;
     case r of None \<Rightarrow> Some (False, mk)
     | Some (uvs_idx, uv, u_mask, v_mask) \<Rightarrow> do {
         dk \<leftarrow> find_dk dk_num uv u_mask;
         case dk of None \<Rightarrow> Some (False, mk)
         | Some (dk, dev_key_v_mask) \<Rightarrow> do {
             (err, pk) \<leftarrow> calc_pk G (dk_key dk) (zeros 16) uv v_mask dev_key_v_mask;
             if err \<noteq> AACS_SUCCESS then Some (False, mk)
             else do {
               c \<leftarrow> rdn buf (cvalues + uvs_idx * 16) 16;
               u \<leftarrow> rdn buf (uvs + 1 + uvs_idx * 5) 4;
               vd \<leftarrow> rdn buf mk_dv 16;
               let (err, mk) = validate_pk G pk c u vd mk;
               Some (err = AACS_SUCCESS, mk)
             }
           }
       }
   }"

fun devices_loop ::
    "'s gcrypt \<Rightarrow> byte list \<Rightarrow> nat \<Rightarrow> nat \<Rightarrow> nat \<Rightarrow> nat \<Rightarrow> nat \<Rightarrow> dk list \<Rightarrow> byte list \<Rightarrow> (int \<times> byte list) ub" where
  "devices_loop G buf uvs cvalues mk_dv num_uvs device_number [] mk = Some (AACS_ERROR_NO_DK, mk)"
| "devices_loop G buf uvs cvalues mk_dv num_uvs device_number (dk # dkl) mk =
     (if device_number = dk_node dk
      then devices_loop G buf uvs cvalues mk_dv num_uvs device_number dkl mk
      else do {
        let device_number = dk_node dk mod 2 ^ 32;
        (found, mk) \<leftarrow> try_device G buf uvs cvalues mk_dv num_uvs (dk # dkl) mk;
        if found then Some (AACS_SUCCESS, mk)
        else devices_loop G buf uvs cvalues mk_dv num_uvs device_number dkl mk
      })"

text \<open>
  The number of subset differences comes from \<open>len\<close>, which holds the size of the \<open>cvalues\<close>
  record by then.
\<close>

definition calc_mk_dks :: "'s gcrypt \<Rightarrow> mkb \<Rightarrow> nat \<Rightarrow> dk list \<Rightarrow> byte list \<Rightarrow> (int \<times> byte list) ub" where
  "calc_mk_dks G m len0 dkl mk = do {
     (uvs, len) \<leftarrow> mkb_subdiff_records m len0;
     (cvalues, len) \<leftarrow> mkb_cvalues m len;
     mk_dv \<leftarrow> mkb_mk_dv m len0;
     case (uvs, cvalues, mk_dv) of
       (Some uvs, Some cvalues, Some mk_dv) \<Rightarrow>
         let num_uvs = len div 5 in
         if num_uvs < 1 then Some (AACS_ERROR_CORRUPTED_DISC, mk)
         else devices_loop G (mkb_buf m) uvs cvalues mk_dv num_uvs (2 ^ 32 - 1) dkl mk
     | _ \<Rightarrow> Some (AACS_ERROR_CORRUPTED_DISC, mk)
   }"

section \<open>Processing keys\<close>

text \<open>\<open>rec\<close> counts from \<open>uvs\<close>; reading through a null pointer is undefined.\<close>

function count_uvs :: "byte list \<Rightarrow> nat ptr \<Rightarrow> nat \<Rightarrow> nat \<Rightarrow> nat ub" where
  "count_uvs buf uvs len rec =
     (if rec < len then do {
        p \<leftarrow> uvs;
        b \<leftarrow> rd buf (p + rec);
        if b AND 0xc0 \<noteq> 0 then Some 0
        else map_option Suc (count_uvs buf uvs len (rec + 5))
      } else Some 0)"
  by pat_completeness auto
termination
  by (relation "measure (\<lambda>(buf, uvs, len, rec). len - rec)") auto

declare count_uvs.simps [simp del]

function try_uvs ::
    "'s gcrypt \<Rightarrow> byte list \<Rightarrow> nat \<Rightarrow> nat \<Rightarrow> nat \<Rightarrow> nat \<Rightarrow> byte list \<Rightarrow> nat \<Rightarrow> byte list \<Rightarrow> (bool \<times> byte list) ub" where
  "try_uvs G buf uvs rec mk_dv num_uvs key a mk =
     (if a < num_uvs then do {
        c \<leftarrow> rdn buf (rec + a * 16) 16;
        u \<leftarrow> rdn buf (uvs + 1 + a * 5) 4;
        vd \<leftarrow> rdn buf mk_dv 16;
        let (err, mk) = validate_pk G key c u vd mk;
        if err = AACS_SUCCESS then Some (True, mk)
        else try_uvs G buf uvs rec mk_dv num_uvs key (a + 1) mk
      } else Some (False, mk))"
  by pat_completeness auto
termination
  by (relation "measure (\<lambda>(G, buf, uvs, rec, mk_dv, num_uvs, key, a, mk). num_uvs - a)") auto

declare try_uvs.simps [simp del]

fun pks_loop ::
    "'s gcrypt \<Rightarrow> byte list \<Rightarrow> nat \<Rightarrow> nat \<Rightarrow> nat \<Rightarrow> nat \<Rightarrow> byte list list \<Rightarrow> byte list \<Rightarrow> (int \<times> byte list) ub" where
  "pks_loop G buf uvs rec mk_dv num_uvs [] mk = Some (AACS_ERROR_NO_PK, mk)"
| "pks_loop G buf uvs rec mk_dv num_uvs (key # pkl) mk = do {
     (found, mk) \<leftarrow> try_uvs G buf uvs rec mk_dv num_uvs key 0 mk;
     if found then Some (AACS_SUCCESS, mk) else pks_loop G buf uvs rec mk_dv num_uvs pkl mk
   }"

text \<open>A null \<open>uvs\<close> gets here only with \<open>num_uvs = 0\<close>, when it is not used any more.\<close>

definition calc_mk_pks :: "'s gcrypt \<Rightarrow> mkb \<Rightarrow> nat \<Rightarrow> byte list list \<Rightarrow> byte list \<Rightarrow> (int \<times> byte list) ub" where
  "calc_mk_pks G m len0 pkl mk = do {
     mk_dv \<leftarrow> mkb_mk_dv m len0;
     case mk_dv of None \<Rightarrow> Some (AACS_ERROR_CORRUPTED_DISC, mk)
     | Some mk_dv \<Rightarrow> do {
         (uvs, len) \<leftarrow> mkb_subdiff_records m len0;
         num_uvs \<leftarrow> count_uvs (mkb_buf m) uvs len 0;
         (rec, len) \<leftarrow> mkb_cvalues m len;
         case rec of None \<Rightarrow> Some (AACS_ERROR_CORRUPTED_DISC, mk)
         | Some rec \<Rightarrow>
             pks_loop G (mkb_buf m) (case uvs of None \<Rightarrow> 0 | Some p \<Rightarrow> p) rec mk_dv num_uvs pkl mk
       }
   }"

section \<open>The masks\<close>

text \<open>\<open>high_mask k\<close>: ones from bit \<open>k\<close> up.\<close>

definition high_mask :: "nat \<Rightarrow> u32" where
  "high_mask k = push_bit k (- 1)"

lemma bit_high_mask: "bit (high_mask k) n \<longleftrightarrow> k \<le> n \<and> n < 32"
  by (auto simp: high_mask_def bit_simps)

lemma push_high_mask: "push_bit 1 (high_mask k) = high_mask (Suc k)"
  by (simp only: high_mask_def push_bit_push_bit plus_1_eq_Suc)

lemma high_mask_times_2 [simp]: "high_mask k * 2 = high_mask (Suc k)"
  using push_high_mask [of k] by (simp add: push_bit_eq_mult)

lemma high_mask_0: "high_mask 0 = 0xffffffff"
  by (simp add: high_mask_def)

lemma and_not_high_mask: "uv AND NOT (high_mask k) = take_bit k uv"
  by (rule bit_word_eqI) (auto simp: bit_simps bit_high_mask)

lemma high_mask_inj: "j \<le> 32 \<Longrightarrow> k \<le> 32 \<Longrightarrow> high_mask j = high_mask k \<longleftrightarrow> j = k"
proof
  assume le: "j \<le> 32" "k \<le> 32" and eq: "high_mask j = high_mask k"
  have "bit (high_mask j) n = bit (high_mask k) n" for n by (simp add: eq)
  then have *: "j \<le> n \<and> n < 32 \<longleftrightarrow> k \<le> n \<and> n < 32" for n by (simp add: bit_high_mask)
  from *[of j] *[of k] le show "j = k" by linarith
qed simp

lemma calc_u_mask_eq: "unat sh < 32 \<Longrightarrow> calc_u_mask sh = Some (high_mask (unat sh))"
  by (simp only: calc_u_mask_def if_True high_mask_0 [symmetric]) (simp only: high_mask_def push_bit_push_bit add_0_right)

text \<open>The position of the lowest one bit, as the mask shows it.\<close>

definition lowest_bit :: "u32 \<Rightarrow> nat \<Rightarrow> bool" where
  "lowest_bit uv p \<longleftrightarrow> bit uv p \<and> take_bit p uv = 0"

lemma lowest_bit_exists: "uv \<noteq> 0 \<Longrightarrow> \<exists>p. lowest_bit uv p"
proof -
  assume "uv \<noteq> 0"
  then obtain n where "bit uv n" by (auto simp: bit_eq_iff)
  then have p: "bit uv (LEAST n. bit uv n)" by (rule LeastI)
  have "take_bit (LEAST n. bit uv n) uv = 0"
    by (rule bit_word_eqI) (auto simp: bit_simps dest: not_less_Least)
  with p show ?thesis by (auto simp: lowest_bit_def)
qed

lemma v_mask_loop_eq:
  assumes "lowest_bit uv p" and "i \<le> Suc p"
  shows "v_mask_loop uv (high_mask i) = Some (high_mask (Suc p))"
  using assms(2)
proof (induction "Suc p - i" arbitrary: i)
  case 0
  then have i: "i = Suc p" by simp
  have "bit (take_bit (Suc p) uv) p" using assms(1) by (simp add: lowest_bit_def bit_simps)
  then have "take_bit (Suc p) uv \<noteq> 0" by auto
  with i show ?case by (subst v_mask_loop.simps) (simp add: and_not_high_mask)
next
  case (Suc d)
  then have "i \<le> p" by simp
  then have "take_bit i uv = take_bit i (take_bit p uv)" by (simp add: min_def)
  with assms(1) have "take_bit i uv = 0" by (simp add: lowest_bit_def)
  with Suc show ?case
    by (subst v_mask_loop.simps) (simp add: and_not_high_mask push_high_mask)
qed

lemma v_mask_loop_returns:
  assumes "v_mask_loop uv m = Some r"
  shows "uv \<noteq> 0"
proof (rule v_mask_loop.raw_induct [OF _ assms, of "\<lambda>uv m r. uv \<noteq> 0"])
  fix f and uv m r :: u32
  assume "\<And>uv m r. f uv m = Some r \<Longrightarrow> uv \<noteq> 0"
    and "(if uv AND NOT m = 0 then f uv (push_bit 1 m) else Some m) = Some r"
  then show "uv \<noteq> 0" by (auto split: if_splits)
qed

lemma calc_v_mask_eq: "lowest_bit uv p \<Longrightarrow> calc_v_mask uv = Some (high_mask (Suc p))"
  using v_mask_loop_eq [of uv p 0] by (simp add: calc_v_mask_def high_mask_0)

lemma calc_v_mask_zero: "calc_v_mask 0 = None"
  using v_mask_loop_returns [of 0 "0xffffffff"] by (cases "calc_v_mask 0") (auto simp: calc_v_mask_def)

lemma high_zero_eq: "k \<le> n \<Longrightarrow> n \<le> 32 \<Longrightarrow> high_zero (high_mask k) n = int k - 1"
  by (induction n) (auto simp: bit_high_mask le_Suc_eq)

lemma signed_drop_high_mask:
  "1 \<le> k \<Longrightarrow> k \<le> 31 \<Longrightarrow> signed_drop_bit 1 (high_mask k) = high_mask (k - 1)"
  by (rule bit_word_eqI) (auto simp: bit_simps bit_high_mask min_def)

lemma signed_drop_high_mask_0: "signed_drop_bit 1 (high_mask 0) = high_mask 0"
  by (rule bit_word_eqI) (auto simp: bit_simps bit_high_mask min_def)

lemma signed_drop_high_mask_32: "signed_drop_bit 1 (high_mask 32) = high_mask 32"
  by (rule bit_word_eqI) (auto simp: bit_simps bit_high_mask min_def)

section \<open>The tree of keys\<close>

text \<open>The reference: AES-G3 with its three increments, and the walk that follows a bit string.\<close>

definition aes_g3 :: "'s gcrypt \<Rightarrow> byte list \<Rightarrow> byte \<Rightarrow> byte list" where
  "aes_g3 G key inc =
     (let seed = aesg3_seed[15 := aesg3_seed ! 15 + inc]
      in xor_bytes (snd (g_ecb_decrypt G key seed)) seed)"

fun subkey :: "'s gcrypt \<Rightarrow> byte list \<Rightarrow> bool list \<Rightarrow> byte list" where
  "subkey G key [] = key"
| "subkey G key (b # bs) = subkey G (aes_g3 G key (if b then 2 else 0)) bs"

text \<open>Decryption that always succeeds.\<close>

definition dec_ok :: "'s gcrypt \<Rightarrow> bool" where
  "dec_ok G \<longleftrightarrow> g_cipher_open G ECB = 0 \<and> (\<forall>k. g_cipher_setkey G k = 0) \<and>
     (\<forall>k x. fst (g_ecb_decrypt G k x) = 0 \<and> length (snd (g_ecb_decrypt G k x)) = length x)"

lemma dec_ok_aes128d: "dec_ok G \<Longrightarrow> crypto_aes128d G k x d = (0, snd (g_ecb_decrypt G k x))"
  by (simp add: dec_ok_def crypto_aes128d_def prod_eq_iff)

lemma dec_ok_aesg3:
  "dec_ok G \<Longrightarrow> crypto_aesg3 G D (Some a) (Some b) (Some c) =
     (0, Some (aes_g3 G D 0), Some (aes_g3 G D 2), Some (aes_g3 G D 1))"
  by (simp add: crypto_aesg3_def aesg3_opt_def aesg3_def dec_ok_aes128d aes_g3_def Let_def)

lemma pk_loop_step:
  assumes "dec_ok G" and "m \<noteq> v_mask"
  shows "pk_loop G uv v_mask l r p m =
    (let c = (if high_zero m 32 < 0 \<or> \<not> bit uv (nat (high_zero m 32)) then l else r)
     in pk_loop G uv v_mask (aes_g3 G c 0) (aes_g3 G c 2) (aes_g3 G c 1) (signed_drop_bit 1 m))"
  using assms(2) by (subst pk_loop.simps) (simp add: dec_ok_aesg3 [OF assms(1)] Let_def)

lemma pk_loop_done: "pk_loop G uv m l r p m = Some (AACS_SUCCESS, p)"
  by (subst pk_loop.simps) simp

lemma pk_loop_walk:
  assumes "dec_ok G" and "j \<le> k" and "k \<le> 31"
  shows "pk_loop G uv (high_mask j) (aes_g3 G key 0) (aes_g3 G key 2) (aes_g3 G key 1) (high_mask k) =
    Some (AACS_SUCCESS, aes_g3 G (subkey G key (map (bit uv) (rev [j..<k]))) 1)"
  using assms(2, 3)
proof (induction k arbitrary: key)
  case 0
  then show ?case by (simp add: pk_loop_done)
next
  case (Suc k)
  show ?case
  proof (cases "j = Suc k")
    case True
    then show ?thesis by (simp add: pk_loop_done)
  next
    case False
    with Suc.prems have ne: "high_mask (Suc k) \<noteq> high_mask j" and jk: "j \<le> k"
      by (simp_all add: high_mask_inj)
    have hz: "high_zero (high_mask (Suc k)) 32 = int k"
      using Suc.prems by (simp add: high_zero_eq)
    have sd: "signed_drop_bit (Suc 0) (high_mask (Suc k)) = high_mask k"
      using Suc.prems signed_drop_high_mask [of "Suc k"] by simp
    let ?c = "aes_g3 G key (if bit uv k then 2 else 0)"
    have "pk_loop G uv (high_mask j) (aes_g3 G key 0) (aes_g3 G key 2) (aes_g3 G key 1) (high_mask (Suc k)) =
        pk_loop G uv (high_mask j) (aes_g3 G ?c 0) (aes_g3 G ?c 2) (aes_g3 G ?c 1) (high_mask k)"
      by (simp add: pk_loop_step [OF assms(1) ne] hz sd Let_def)
    also have "\<dots> = Some (AACS_SUCCESS, aes_g3 G (subkey G ?c (map (bit uv) (rev [j..<k]))) 1)"
      using Suc.IH [of ?c] jk Suc.prems by simp
    finally show ?thesis using jk by simp
  qed
qed

text \<open>The masks the loop runs through.\<close>

lemma pk_loop_returns:
  assumes "pk_loop G uv v_mask l r p m = Some y"
  shows "dec_ok G \<longrightarrow> (\<exists>n. (signed_drop_bit 1 ^^ n) m = v_mask)"
proof (rule pk_loop.raw_induct [OF _ assms, of "\<lambda>G uv v_mask l r p m y.
    dec_ok G \<longrightarrow> (\<exists>n. (signed_drop_bit 1 ^^ n) m = v_mask)"])
  fix f and G :: "'a gcrypt" and uv v_mask m :: u32 and l r p :: "byte list" and y
  assume IH: "\<And>G uv v_mask l r p m y. f G uv v_mask l r p m = Some y \<Longrightarrow>
      dec_ok G \<longrightarrow> (\<exists>n. (signed_drop_bit 1 ^^ n) m = v_mask)"
    and eq: "(if m = v_mask then Some (AACS_SUCCESS, p)
      else let i = high_zero m 32; curr_key = (if i < 0 \<or> \<not> bit uv (nat i) then l else r);
          (crypto_err, l, r, p) = crypto_aesg3 G curr_key (Some l) (Some r) (Some p)
        in if crypto_err \<noteq> 0 then Some (AACS_ERROR_UNKNOWN, the p)
           else f G uv v_mask (the l) (the r) (the p) (signed_drop_bit 1 m)) = Some y"
  show "dec_ok G \<longrightarrow> (\<exists>n. (signed_drop_bit 1 ^^ n) m = v_mask)"
  proof
    assume ok: "dec_ok G"
    show "\<exists>n. (signed_drop_bit 1 ^^ n) m = v_mask"
    proof (cases "m = v_mask")
      case True
      then show ?thesis by (intro exI [of _ 0]) simp
    next
      case False
      with eq obtain l r p where "f G uv v_mask l r p (signed_drop_bit 1 m) = Some y"
        by (auto simp: dec_ok_aesg3 [OF ok] Let_def)
      from IH [OF this] ok obtain n where "(signed_drop_bit 1 ^^ n) (signed_drop_bit 1 m) = v_mask" by blast
      then show ?thesis by (intro exI [of _ "Suc n"]) (simp add: funpow_swap1)
    qed
  qed
qed

lemma signed_drop_orbit:
  "k \<le> 31 \<Longrightarrow> (signed_drop_bit 1 ^^ n) (high_mask k) = high_mask (k - n)"
proof (induction n arbitrary: k)
  case 0
  then show ?case by simp
next
  case (Suc n)
  have "signed_drop_bit 1 (high_mask k) = high_mask (k - 1)"
    using Suc.prems signed_drop_high_mask [of k] signed_drop_high_mask_0 by (cases k) auto
  with Suc.IH [of "k - 1"] Suc.prems show ?case by (simp add: funpow_swap1)
qed

lemma calc_pk_start:
  "dec_ok G \<Longrightarrow> calc_pk G dk pk uv v_mask m =
     pk_loop G uv v_mask (aes_g3 G dk 0) (aes_g3 G dk 2) (aes_g3 G dk 1) m"
  by (simp add: calc_pk_def dec_ok_aesg3)

lemma calc_pk_walk:
  "dec_ok G \<Longrightarrow> j \<le> k \<Longrightarrow> k \<le> 31 \<Longrightarrow> calc_pk G dk pk uv (high_mask j) (high_mask k) =
     Some (AACS_SUCCESS, aes_g3 G (subkey G dk (map (bit uv) (rev [j..<k]))) 1)"
  by (simp add: calc_pk_start pk_loop_walk)

lemma calc_pk_hangs:
  assumes "dec_ok G" and "k < j" and "j \<le> 32"
  shows "calc_pk G dk pk uv (high_mask j) (high_mask k) = None"
proof (rule ccontr)
  assume "calc_pk G dk pk uv (high_mask j) (high_mask k) \<noteq> None"
  then obtain y where
    "pk_loop G uv (high_mask j) (aes_g3 G dk 0) (aes_g3 G dk 2) (aes_g3 G dk 1) (high_mask k) = Some y"
    by (auto simp: calc_pk_start [OF assms(1)])
  from pk_loop_returns [OF this] assms(1) obtain n where "(signed_drop_bit 1 ^^ n) (high_mask k) = high_mask j"
    by blast
  moreover have "(signed_drop_bit 1 ^^ n) (high_mask k) = high_mask (k - n)"
    using assms(2, 3) by (intro signed_drop_orbit) simp
  ultimately have "high_mask (k - n) = high_mask j" by simp
  with assms(2, 3) show False by (subst (asm) high_mask_inj) simp_all
qed

section \<open>The chosen subset difference and device key\<close>

lemma uvs_loop_result:
  assumes "uvs_loop buf uvs n device i = Some (Some (idx, uv, u_mask, v_mask))"
  shows "idx < n \<and> uv \<noteq> 0 \<and> calc_v_mask uv = Some v_mask \<and>
    rdn buf (uvs + 1 + 5 * idx) 4 \<noteq> None \<and>
    device AND u_mask = uv AND u_mask \<and> device AND v_mask \<noteq> uv AND v_mask"
  using assms
proof (induction buf uvs n device i rule: uvs_loop.induct)
  case (1 buf uvs n device i)
  from "1.prems" have i: "i < n" by (subst (asm) uvs_loop.simps) (simp split: if_splits)
  with "1.prems" obtain sh z where sh: "rd buf (uvs + 5 * i) = Some sh"
    and z: "rdn buf (uvs + 1 + 5 * i) 4 = Some z"
    by (subst (asm) uvs_loop.simps) (auto split: if_splits Option.bind_splits)
  let ?w = "mkint_be32 z" and ?next = "uvs_loop buf uvs n device (i + 1)"
  have w: "map_option mkint_be32 (rdn buf (uvs + 1 + 5 * i) 4) = Some ?w" by (simp only: z option.map)
  have step: "uvs_loop buf uvs n device i =
    (if ?w = 0 then ?next else if sh AND 0xc0 \<noteq> 0 then Some None
     else do {
       um \<leftarrow> calc_u_mask sh;
       vm \<leftarrow> calc_v_mask ?w;
       if device AND um = ?w AND um \<and> device AND vm \<noteq> ?w AND vm then Some (Some (i, ?w, um, vm))
       else ?next })"
    by (subst uvs_loop.simps) (simp only: i sh w if_True Option.bind.bind_lunit)
  show ?case
  proof (cases "?w = 0")
    case True
    with "1.prems" step have "?next = Some (Some (idx, uv, u_mask, v_mask))" by simp
    from "1.IH"(1) [OF i sh w True this] show ?thesis .
  next
    case False
    with "1.prems" step have sh0: "\<not> sh AND 0xc0 \<noteq> 0" by (auto split: if_splits)
    with False "1.prems" step obtain um vm where um: "calc_u_mask sh = Some um" and vm: "calc_v_mask ?w = Some vm"
      by (auto split: Option.bind_splits)
    show ?thesis
    proof (cases "device AND um = ?w AND um \<and> device AND vm \<noteq> ?w AND vm")
      case True
      with "1.prems" step False sh0 um vm have "idx = i" "uv = ?w" "u_mask = um" "v_mask = vm" by simp_all
      with i z False vm True show ?thesis by auto
    next
      case no: False
      with "1.prems" step False sh0 um vm have "?next = Some (Some (idx, uv, u_mask, v_mask))"
        by (simp only: if_False Option.bind.bind_lunit)
      from "1.IH"(2) [OF i sh w False sh0 um vm no this] show ?thesis .
    qed
  qed
qed

lemma find_dk_loop_result:
  assumes "find_dk_loop device uv u_mask dkl = Some (Some (dk, m))"
  shows "dk \<in> set dkl \<and> dk_node dk = device \<and> calc_v_mask (dk_uv dk) = Some m \<and>
    uv AND m = dk_uv dk AND m \<and> calc_u_mask (dk_u_mask_shift dk) = Some u_mask"
  using assms
  by (induction device uv u_mask dkl rule: find_dk_loop.induct) (auto split: if_splits Option.bind_splits)

text \<open>
  A key of a device: the node it belongs to hangs off the path from the root to the device, so its
  parent, whose bits are those above the lowest one bit but one, is on that path.
\<close>

definition on_path :: "dk \<Rightarrow> bool" where
  "on_path dk \<longleftrightarrow> (\<exists>p < 31. lowest_bit (dk_uv dk) p \<and>
     (word_of_nat (dk_node dk) :: u32) AND high_mask (p + 2) = dk_uv dk AND high_mask (p + 2))"

lemma and_high_mask_bit: "x AND high_mask k = y AND high_mask k \<longleftrightarrow> (\<forall>n. k \<le> n \<and> n < 32 \<longrightarrow> bit x n = bit y n)"
  by (auto simp: bit_eq_iff [of "x AND high_mask k"] bit_simps bit_high_mask)

lemma lowest_bit_below: "lowest_bit uv q \<Longrightarrow> n < q \<Longrightarrow> \<not> bit uv n"
  by (metis bit_take_bit_iff bit_0_eq bot_apply bot_bool_def lowest_bit_def)

lemma on_path_ends:
  assumes "lowest_bit uv q" and "lowest_bit dkuv p" and "p < 31"
    and path: "device AND high_mask (p + 2) = dkuv AND high_mask (p + 2)"
    and sub: "device AND high_mask (Suc q) \<noteq> uv AND high_mask (Suc q)"
    and key: "uv AND high_mask (Suc p) = dkuv AND high_mask (Suc p)"
  shows "q \<le> p"
proof (rule ccontr)
  assume "\<not> q \<le> p"
  then have "p < q" by simp
  have "bit device n = bit uv n" if "Suc q \<le> n" "n < 32" for n
    using that \<open>p < q\<close> path key by (simp add: and_high_mask_bit)
  with sub show False by (simp add: and_high_mask_bit)
qed

section \<open>Validated media keys\<close>

text \<open>A media key that decrypts the verification data of the block.\<close>

definition mk_verified :: "'s gcrypt \<Rightarrow> mkb \<Rightarrow> byte list \<Rightarrow> bool" where
  "mk_verified G m mk =
     (case mkb_mk_dv m 0 of Some (Some p) \<Rightarrow>
        (case rdn (mkb_buf m) p 16 of
           Some vd \<Rightarrow> take 8 (snd (crypto_aes128d G mk vd (zeros 16))) = vd_magic
         | None \<Rightarrow> False)
      | _ \<Rightarrow> False)"

lemma validate_pk_success:
  "validate_pk G pk c u vd mk = (AACS_SUCCESS, mk') \<Longrightarrow>
     take 8 (snd (crypto_aes128d G mk' vd (zeros 16))) = vd_magic"
  by (auto simp: validate_pk_def Let_def aacs_error_defs split: prod.splits if_splits)

lemma validate_pk_indep:
  "dec_ok G \<Longrightarrow> validate_pk G pk c u vd mk = validate_pk G pk c u vd mk'"
  by (simp add: validate_pk_def dec_ok_aes128d)

lemma try_uvs_success:
  assumes "try_uvs G buf uvs rec p n key a mk = Some (True, mk')"
  shows "\<exists>vd. rdn buf p 16 = Some vd \<and> take 8 (snd (crypto_aes128d G mk' vd (zeros 16))) = vd_magic"
  using assms
proof (induction G buf uvs rec p n key a mk rule: try_uvs.induct)
  case (1 G buf uvs rec p n key a mk)
  from "1.prems" have a: "a < n" by (subst (asm) try_uvs.simps) (simp split: if_splits)
  with "1.prems" obtain c u vd where r: "rdn buf (rec + a * 16) 16 = Some c"
    "rdn buf (uvs + 1 + a * 5) 4 = Some u" "rdn buf p 16 = Some vd"
    by (subst (asm) try_uvs.simps) (auto split: if_splits Option.bind_splits)
  obtain err mk1 where v: "validate_pk G key c u vd mk = (err, mk1)" by fastforce
  show ?case
  proof (cases "err = AACS_SUCCESS")
    case True
    with "1.prems" a r v have "mk' = mk1" by (subst (asm) try_uvs.simps) simp
    with True v r(3) show ?thesis using validate_pk_success by blast
  next
    case False
    with "1.prems" a r v have "try_uvs G buf uvs rec p n key (a + 1) mk1 = Some (True, mk')"
      by (subst (asm) try_uvs.simps) simp
    from "1.IH" [OF a r v [symmetric] refl False this] show ?thesis .
  qed
qed

lemma pks_loop_success:
  assumes "pks_loop G buf uvs rec p n pkl mk = Some (AACS_SUCCESS, mk')"
  shows "\<exists>vd. rdn buf p 16 = Some vd \<and> take 8 (snd (crypto_aes128d G mk' vd (zeros 16))) = vd_magic"
  using assms
  by (induction G buf uvs rec p n pkl mk rule: pks_loop.induct)
    (auto simp: aacs_error_defs dest: try_uvs_success split: Option.bind_splits if_splits prod.splits)

lemma try_device_success:
  "try_device G buf uvs c p n dks mk = Some (True, mk') \<Longrightarrow>
     \<exists>vd. rdn buf p 16 = Some vd \<and> take 8 (snd (crypto_aes128d G mk' vd (zeros 16))) = vd_magic"
  by (auto simp: try_device_def Let_def split: Option.bind_splits option.splits if_splits prod.splits
      dest!: validate_pk_success)

lemma devices_loop_success:
  assumes "devices_loop G buf uvs c p n device dks mk = Some (AACS_SUCCESS, mk')"
  shows "\<exists>vd. rdn buf p 16 = Some vd \<and> take 8 (snd (crypto_aes128d G mk' vd (zeros 16))) = vd_magic"
  using assms
  by (induction G buf uvs c p n device dks mk rule: devices_loop.induct)
    (auto simp: aacs_error_defs Let_def dest: try_device_success split: Option.bind_splits if_splits prod.splits)

lemma calc_mk_pks_verified:
  assumes "wf_mkb m" and "calc_mk_pks G m len0 pkl mk = Some (AACS_SUCCESS, mk')"
  shows "mk_verified G m mk'"
proof -
  have dv: "mkb_mk_dv m 0 = mkb_mk_dv m len0" using assms(1) by (simp add: mkb_mk_dv_eq)
  from assms(2) show ?thesis
    by (auto simp: calc_mk_pks_def mk_verified_def dv aacs_error_defs(1-9) dest!: pks_loop_success [unfolded AACS_SUCCESS_def]
        split: Option.bind_splits option.splits prod.splits)
qed

lemma calc_mk_dks_verified:
  assumes "wf_mkb m" and "calc_mk_dks G m len0 dkl mk = Some (AACS_SUCCESS, mk')"
  shows "mk_verified G m mk'"
proof -
  have dv: "mkb_mk_dv m 0 = mkb_mk_dv m len0" using assms(1) by (simp add: mkb_mk_dv_eq)
  from assms(2) show ?thesis
    by (auto simp: calc_mk_dks_def mk_verified_def dv Let_def aacs_error_defs(1-9) dest!: devices_loop_success [unfolded AACS_SUCCESS_def]
        split: Option.bind_splits option.splits prod.splits if_splits)
qed

section \<open>Processing keys in order\<close>

text \<open>The subset differences in use: up to the first entry marked as revoked.\<close>

definition used_uvs :: "byte list \<Rightarrow> nat \<Rightarrow> nat \<Rightarrow> nat" where
  "used_uvs buf uvs len = length (takeWhile (\<lambda>i. buf ! (uvs + 5 * i) AND 0xc0 = 0) [0..<(len + 4) div 5])"

lemma count_uvs_eq:
  assumes "uvs + len \<le> length buf"
  shows "count_uvs buf (Some uvs) len (5 * i) =
    Some (length (takeWhile (\<lambda>i. buf ! (uvs + 5 * i) AND 0xc0 = 0) [i..<(len + 4) div 5]))"
proof (induction "(len + 4) div 5 - i" arbitrary: i)
  case 0
  then have "\<not> 5 * i < len" by simp
  with 0 show ?case by (simp add: count_uvs.simps)
next
  case (Suc d)
  then have i: "5 * i < len" "i < (len + 4) div 5" by simp_all
  with assms have rd: "rd buf (uvs + 5 * i) = Some (buf ! (uvs + 5 * i))" by (simp add: rd_def)
  have "count_uvs buf (Some uvs) len (5 * i) = (if buf ! (uvs + 5 * i) AND 0xc0 \<noteq> 0 then Some 0
      else map_option Suc (count_uvs buf (Some uvs) len (5 * i + 5)))"
    using i rd by (subst count_uvs.simps) simp
  moreover have "count_uvs buf (Some uvs) len (5 * Suc i) =
      Some (length (takeWhile (\<lambda>i. buf ! (uvs + 5 * i) AND 0xc0 = 0) [Suc i..<(len + 4) div 5]))"
    using Suc by (intro Suc.hyps(1)) simp
  ultimately show ?case using i(2) by (simp add: upt_conv_Cons algebra_simps)
qed

definition candidate :: "byte list \<Rightarrow> nat \<Rightarrow> nat \<Rightarrow> nat \<Rightarrow> byte list \<times> byte list" where
  "candidate buf uvs rec a = (take 16 (drop (rec + a * 16) buf), take 4 (drop (uvs + 1 + a * 5) buf))"

definition validates :: "'s gcrypt \<Rightarrow> byte list \<Rightarrow> byte list \<times> byte list \<times> byte list \<Rightarrow> bool" where
  "validates G vd x = (case x of (key, c, u) \<Rightarrow> fst (validate_pk G key c u vd (zeros 16)) = AACS_SUCCESS)"

lemma try_uvs_eq:
  assumes "dec_ok G" and "rec + 16 * n \<le> length buf" and "uvs + 5 * n \<le> length buf"
    and "rdn buf p 16 = Some vd" and "a \<le> n"
  shows "\<exists>mk'. try_uvs G buf uvs rec p n key a mk =
    (case find (\<lambda>x. validates G vd (key, x)) (map (candidate buf uvs rec) [a..<n]) of
       Some (c, u) \<Rightarrow> Some (True, snd (validate_pk G key c u vd (zeros 16))) | None \<Rightarrow> Some (False, mk'))"
  using assms(5)
proof (induction "n - a" arbitrary: a mk)
  case 0
  then show ?case by (simp add: try_uvs.simps)
next
  case (Suc d)
  then have a: "a < n" by simp
  let ?c = "take 16 (drop (rec + a * 16) buf)" and ?u = "take 4 (drop (uvs + 1 + a * 5) buf)"
  have r: "rdn buf (rec + a * 16) 16 = Some ?c" "rdn buf (uvs + 1 + a * 5) 4 = Some ?u"
    using a assms(2, 3) by (simp_all add: rdn_def)
  have v: "validate_pk G key ?c ?u vd mk = validate_pk G key ?c ?u vd (zeros 16)"
    by (rule validate_pk_indep [OF assms(1)])
  have step: "try_uvs G buf uvs rec p n key a mk =
      (if validates G vd (key, ?c, ?u) then Some (True, snd (validate_pk G key ?c ?u vd (zeros 16)))
       else try_uvs G buf uvs rec p n key (a + 1) (snd (validate_pk G key ?c ?u vd (zeros 16))))"
    using a r v assms(4) by (subst try_uvs.simps) (simp add: case_prod_beta validates_def)
  have "d = n - (a + 1)" "a + 1 \<le> n" using a Suc.hyps(2) by simp_all
  from Suc.hyps(1) [OF this] obtain mk' where "try_uvs G buf uvs rec p n key (a + 1) (snd (validate_pk G key ?c ?u vd (zeros 16))) =
    (case find (\<lambda>x. validates G vd (key, x)) (map (candidate buf uvs rec) [a + 1..<n]) of
       Some (c, u) \<Rightarrow> Some (True, snd (validate_pk G key c u vd (zeros 16))) | None \<Rightarrow> Some (False, mk'))"
    by blast
  with step a show ?case
    by (intro exI [of _ mk']) (simp add: upt_conv_Cons candidate_def)
qed

lemma pks_loop_eq:
  assumes "dec_ok G" and "rec + 16 * n \<le> length buf" and "uvs + 5 * n \<le> length buf"
    and "rdn buf p 16 = Some vd"
  shows "\<exists>mk'. pks_loop G buf uvs rec p n pkl mk =
    (case find (validates G vd) (List.product pkl (map (candidate buf uvs rec) [0..<n])) of
       Some (key, c, u) \<Rightarrow> Some (AACS_SUCCESS, snd (validate_pk G key c u vd (zeros 16)))
     | None \<Rightarrow> Some (AACS_ERROR_NO_PK, mk'))"
proof (induction pkl arbitrary: mk)
  case Nil
  show ?case by simp
next
  case (Cons key pkl)
  let ?cs = "map (candidate buf uvs rec) [0..<n]"
  obtain mk1 where t: "try_uvs G buf uvs rec p n key 0 mk =
    (case find (\<lambda>x. validates G vd (key, x)) ?cs of
       Some (c, u) \<Rightarrow> Some (True, snd (validate_pk G key c u vd (zeros 16))) | None \<Rightarrow> Some (False, mk1))"
    using try_uvs_eq [OF assms, of 0 key mk] by auto
  have f: "find (validates G vd) (map (Pair key) cs @ ys) =
      (case find (\<lambda>x. validates G vd (key, x)) cs of Some x \<Rightarrow> Some (key, x) | None \<Rightarrow> find (validates G vd) ys)"
    for cs ys by (induction cs) simp_all
  obtain mk2 where "pks_loop G buf uvs rec p n pkl mk1 =
    (case find (validates G vd) (List.product pkl ?cs) of
       Some (key, c, u) \<Rightarrow> Some (AACS_SUCCESS, snd (validate_pk G key c u vd (zeros 16)))
     | None \<Rightarrow> Some (AACS_ERROR_NO_PK, mk2))"
    using Cons.IH by blast
  with t f [of ?cs "List.product pkl ?cs"] show ?case
    by (intro exI [of _ mk2]) (auto split: option.splits)
qed

section \<open>Properties\<close>

text \<open>
  C16: \<open>_calc_pk\<close> refines a walk down the key tree: when the mask of the subset difference keeps at
  least the bits of the device key's mask, the processing key is the middle key of the node reached
  from the device key by the bits of \<open>uv\<close> between the two masks; when it keeps fewer, the loop
  never ends.
\<close>

theorem calc_pk_refines_walk:
  assumes "dec_ok G" and "k \<le> 31" and "j \<le> 32"
  shows "calc_pk G dk pk uv (high_mask j) (high_mask k) =
    (if j \<le> k then Some (AACS_SUCCESS, aes_g3 G (subkey G dk (map (bit uv) (rev [j..<k]))) 1) else None)"
  using calc_pk_walk [OF assms(1) _ assms(2)] calc_pk_hangs [OF assms(1) _ assms(3)]
  by (cases "j \<le> k") simp_all

lemma toy_dec_ok: "dec_ok toy_gcrypt"
  by (simp add: dec_ok_def toy_gcrypt_def)

theorem calc_pk_refines_walk_witness:
  "calc_pk toy_gcrypt (zeros 16) (zeros 16) 0x10 (high_mask 5) (high_mask 6) =
     Some (AACS_SUCCESS, aes_g3 toy_gcrypt (aes_g3 toy_gcrypt (zeros 16) 0) 1) \<and>
   calc_pk toy_gcrypt (zeros 16) (zeros 16) 0x10 (high_mask 7) (high_mask 6) = None"
  using calc_pk_refines_walk [OF toy_dec_ok, of 6 5 "zeros 16" "zeros 16" "0x10"]
    calc_pk_refines_walk [OF toy_dec_ok, of 6 7 "zeros 16" "zeros 16" "0x10"]
  by (simp add: bit_simps upt_rec)

text \<open>
  The mask of a number that is not zero ends above its lowest one bit, and the loop that
  computes it ends exactly for such numbers.
\<close>

theorem calc_v_mask_spec:
  "calc_v_mask uv =
     (if uv = 0 then None else Some (high_mask (Suc (LEAST p. bit uv p))))"
proof (cases "uv = 0")
  case True
  then show ?thesis by (simp add: calc_v_mask_zero)
next
  case False
  then obtain p where p: "lowest_bit uv p" using lowest_bit_exists by blast
  have "(LEAST p. bit uv p) = p"
    using p lowest_bit_below by (intro Least_equality) (auto simp: lowest_bit_def not_less [symmetric])
  with False calc_v_mask_eq [OF p] show ?thesis by simp
qed

text \<open>
  C17: for a list of device keys that hang off the paths to their devices, the subset difference and
  the device key that are found fit together: the walk ends, and the processing key is the one of
  the node the subset difference names.
\<close>

theorem device_key_walk:
  assumes "dec_ok G" and "\<forall>dk \<in> set dkl. dk_uv dk \<noteq> 0 \<longrightarrow> on_path dk"
    and "uvs_loop buf uvs n (word_of_nat (dk_node (hd dkl))) 0 = Some (Some (idx, uv, u_mask, v_mask))"
    and "find_dk dkl uv u_mask = Some (Some (dk, m))"
  shows "\<exists>p q. lowest_bit (dk_uv dk) p \<and> lowest_bit uv q \<and> q \<le> p \<and>
    calc_pk G (dk_key dk) pk uv v_mask m =
      Some (AACS_SUCCESS, aes_g3 G (subkey G (dk_key dk) (map (bit uv) (rev [Suc q..<Suc p]))) 1)"
proof -
  from uvs_loop_result [OF assms(3)] have uv: "uv \<noteq> 0" "calc_v_mask uv = Some v_mask"
    and sub: "(word_of_nat (dk_node (hd dkl)) :: u32) AND v_mask \<noteq> uv AND v_mask" by simp_all
  from find_dk_loop_result [OF assms(4) [unfolded find_dk_def]]
  have dk: "dk \<in> set dkl" "dk_node dk = dk_node (hd dkl) mod 2 ^ 32" "calc_v_mask (dk_uv dk) = Some m"
    "uv AND m = dk_uv dk AND m" by simp_all
  from dk(3) have "dk_uv dk \<noteq> 0" using calc_v_mask_zero by auto
  with assms(2) dk(1) obtain p where p: "p < 31" "lowest_bit (dk_uv dk) p"
    and path: "(word_of_nat (dk_node dk) :: u32) AND high_mask (p + 2) = dk_uv dk AND high_mask (p + 2)"
    by (auto simp: on_path_def)
  from uv(1) obtain q where q: "lowest_bit uv q" using lowest_bit_exists by blast
  have m: "m = high_mask (Suc p)" "v_mask = high_mask (Suc q)"
    using calc_v_mask_eq [OF p(2)] calc_v_mask_eq [OF q] dk(3) uv(2) by simp_all
  have dev: "(word_of_nat (dk_node dk) :: u32) = word_of_nat (dk_node (hd dkl))"
    unfolding dk(2) by (rule word_unat_eq_iff [THEN iffD2]) (simp add: unat_of_nat)
  have "q \<le> p"
    by (rule on_path_ends [OF q p(2) p(1) path]) (use sub dk(4) m dev in simp_all)
  then have "calc_pk G (dk_key dk) pk uv v_mask m =
      Some (AACS_SUCCESS, aes_g3 G (subkey G (dk_key dk) (map (bit uv) (rev [Suc q..<Suc p]))) 1)"
    unfolding m using p(1) by (intro calc_pk_walk [OF assms(1)]) simp_all
  with p(2) q \<open>q \<le> p\<close> show ?thesis by blast
qed

text \<open>Device 0x40 holds the key of the node with the prefix 00 at bit 6; the difference is 000.\<close>

definition toy_dk :: dk where
  "toy_dk = \<lparr>dk_key = zeros 16, dk_node = 0x40, dk_uv = 0x20, dk_u_mask_shift = 8\<rparr>"

lemma toy_masks: "calc_v_mask 0x20 = Some (high_mask 6)" "calc_v_mask 0x10 = Some (high_mask 5)"
  using calc_v_mask_eq [of "0x20" 5] calc_v_mask_eq [of "0x10" 4]
  by (simp_all add: lowest_bit_def bit_simps take_bit_eq_mod)

lemma toy_and:
  "(0x40 :: u32) AND high_mask 8 = 0x10 AND high_mask 8" "(0x40 :: u32) AND high_mask 5 \<noteq> 0x10 AND high_mask 5"
  "(0x10 :: u32) AND high_mask 6 = 0x20 AND high_mask 6" "(0x40 :: u32) AND high_mask 7 = 0x20 AND high_mask 7"
  by (simp_all add: high_mask_def mask_eq_exp_minus_1)

lemma toy_uvs_loop:
  "uvs_loop [8, 0, 0, 0, 0x10] 0 1 0x40 0 = Some (Some (0, 0x10, high_mask 8, high_mask 5))"
  by (subst uvs_loop.simps)
    (simp add: rd_def rdn_def mkint_be32_def calc_u_mask_eq toy_masks toy_and)

theorem device_key_walk_witness:
  "\<exists>p q. lowest_bit (dk_uv toy_dk) p \<and> lowest_bit (0x10 :: u32) q \<and> q \<le> p \<and>
    calc_pk toy_gcrypt (dk_key toy_dk) (zeros 16) 0x10 (high_mask 5) (high_mask 6) =
      Some (AACS_SUCCESS, aes_g3 toy_gcrypt (subkey toy_gcrypt (dk_key toy_dk)
        (map (bit (0x10 :: u32)) (rev [Suc q..<Suc p]))) 1)"
proof (rule device_key_walk [OF toy_dec_ok, of "[toy_dk]"])
  show "\<forall>dk \<in> set [toy_dk]. dk_uv dk \<noteq> 0 \<longrightarrow> on_path dk"
    by (simp add: on_path_def toy_dk_def, rule exI [of _ 5])
      (simp add: lowest_bit_def bit_simps take_bit_eq_mod toy_and)
  show "uvs_loop [8, 0, 0, 0, 0x10] 0 1 (word_of_nat (dk_node (hd [toy_dk]))) 0 =
      Some (Some (0, 0x10, high_mask 8, high_mask 5))"
    using toy_uvs_loop by (simp add: toy_dk_def)
  show "find_dk [toy_dk] 0x10 (high_mask 8) = Some (Some (toy_dk, high_mask 6))"
    by (simp add: find_dk_def toy_dk_def toy_masks calc_u_mask_eq toy_and)
qed

lemma mk_dv_read:
  assumes "wf_mkb m" and "mkb_mk_dv m len0 = Some (Some v)"
  shows "rdn (mkb_buf m) v 16 = Some (take 16 (drop v (mkb_buf m)))"
proof -
  obtain ty pos l where "mkb_record m ty = Some (Some (pos, l))" "\<not> l < 20" "v = pos + 4"
    using assms(2) by (auto simp: mkb_mk_dv_eq [OF assms(1)] split: Option.bind_splits option.splits if_splits)
  with mkb_record_bounds(1) [OF assms(1)] assms(1) show ?thesis by (fastforce simp: rdn_def wf_mkb_def)
qed

lemma calc_mk_pks_eq:
  assumes "dec_ok G" and "wf_mkb m" and "mkb_mk_dv m len0 = Some (Some v)"
    and "mkb_subdiff_records m len0 = Some (Some p, l)" and "mkb_cvalues m l = Some (Some c, l2)"
    and "n = used_uvs (mkb_buf m) p l" and "16 * n \<le> l2" and "p + 5 * n \<le> length (mkb_buf m)"
  shows "\<exists>mk'. calc_mk_pks G m len0 pkl mk =
    (case find (validates G (take 16 (drop v (mkb_buf m))))
        (List.product pkl (map (candidate (mkb_buf m) p c) [0..<n])) of
       Some (key, cv, u) \<Rightarrow> Some (AACS_SUCCESS, snd (validate_pk G key cv u (take 16 (drop v (mkb_buf m))) (zeros 16)))
     | None \<Rightarrow> Some (AACS_ERROR_NO_PK, mk'))"
proof -
  have "p + l \<le> length (mkb_buf m)"
    using simple_record_bounds [OF assms(2), of 4 len0] assms(2, 4)
    by (auto simp: mkb_subdiff_records_def wf_mkb_def)
  from count_uvs_eq [OF this, of 0] assms(6) have n: "count_uvs (mkb_buf m) (Some p) l 0 = Some n"
    by (simp add: used_uvs_def)
  have "c + l2 \<le> length (mkb_buf m)"
    using simple_record_bounds [OF assms(2), of 5 l] assms(2, 5)
    by (auto simp: mkb_cvalues_def wf_mkb_def)
  with assms(7) have "c + 16 * n \<le> length (mkb_buf m)" by simp
  from pks_loop_eq [OF assms(1) this assms(8) mk_dv_read [OF assms(2, 3)], of pkl mk]
  show ?thesis by (simp add: calc_mk_pks_def assms(3-5) n)
qed

text \<open>
  C18: with processing keys the media key is the first one that validates, in the order of the keys
  and, for each, of the subset differences in front of the first revoked one; without any the
  result is that no processing key matches.
\<close>

theorem calc_mk_pks_spec:
  assumes "dec_ok G" and "wf_mkb m" and "mkb_mk_dv m len0 = Some (Some v)"
    and "mkb_subdiff_records m len0 = Some (Some p, l)" and "mkb_cvalues m l = Some (Some c, l2)"
    and "n = used_uvs (mkb_buf m) p l" and "16 * n \<le> l2" and "p + 5 * n \<le> length (mkb_buf m)"
  shows "\<exists>mk'. calc_mk_pks G m len0 pkl mk =
    (case find (validates G (take 16 (drop v (mkb_buf m))))
        (List.product pkl (map (candidate (mkb_buf m) p c) [0..<n])) of
       Some (key, cv, u) \<Rightarrow> Some (AACS_SUCCESS, snd (validate_pk G key cv u (take 16 (drop v (mkb_buf m))) (zeros 16)))
     | None \<Rightarrow> Some (AACS_ERROR_NO_PK, mk'))"
  using assms by (rule calc_mk_pks_eq)

definition toy_mkb :: mkb where
  "toy_mkb = mkb_of [(0x10, zeros 8), (0x81, vd_magic @ zeros 8), (0x04, [8, 0, 0, 0, 0x10]), (0x05, zeros 16)] (zeros 4)"

lemma toy_mkb_buf:
  "mkb_buf toy_mkb = [0x10, 0, 0, 12, 0, 0, 0, 0, 0, 0, 0, 0,
     0x81, 0, 0, 20, 0x01, 0x23, 0x45, 0x67, 0x89, 0xAB, 0xCD, 0xEF, 0, 0, 0, 0, 0, 0, 0, 0,
     0x04, 0, 0, 9, 8, 0, 0, 0, 0x10, 0x05, 0, 0, 20, 0, 0, 0, 0, 0, 0, 0, 0, 0, 0, 0, 0, 0, 0, 0, 0,
     0, 0, 0, 0]"
  "mkb_size toy_mkb = 65"
  by (simp_all add: toy_mkb_def mkb_of_def enc_mkb_def vd_magic_def zeros_numeral be_enc_numeral)

lemmas mkb_eval = mkb_record_def record_loop.simps rd_def rd_be_eq rdn_def simple_record_def Let_def

lemma toy_mkb_records:
  "mkb_record toy_mkb 0x10 = Some (Some (0, 12))" "mkb_record toy_mkb 0x81 = Some (Some (12, 20))"
  "mkb_record toy_mkb 0x04 = Some (Some (32, 9))" "mkb_record toy_mkb 0x05 = Some (Some (41, 20))"
  by (simp_all add: mkb_eval toy_mkb_buf)

lemma toy_mkb_reads:
  "wf_mkb toy_mkb" "mkb_mk_dv toy_mkb n = Some (Some 16)" "mkb_subdiff_records toy_mkb n = Some (Some 36, 5)"
  "mkb_cvalues toy_mkb n = Some (Some 45, 16)"
  by (simp_all add: mkb_mk_dv_def mkb_subdiff_records_def mkb_cvalues_def simple_record_def toy_mkb_records
      mkb_type_def mkb_type_and_version_record_def rd_be_eq rdn_def toy_mkb_buf MKB_20_CATEGORY_C_def
      MKB_21_CATEGORY_C_def wf_mkb_def)

lemma toy_used_uvs: "used_uvs (mkb_buf toy_mkb) 36 5 = 1"
  by (simp add: used_uvs_def toy_mkb_buf upt_rec)

lemma toy_candidate: "candidate (mkb_buf toy_mkb) 36 45 0 = (zeros 16, [0, 0, 0, 0x10])"
  by (simp add: candidate_def toy_mkb_buf zeros_numeral)

lemma toy_aes128d:
  "crypto_aes128d toy_gcrypt k x d = (0, xor_bytes x (take (length x) (k @ zeros (length x))))"
  by (simp add: crypto_aes128d_def toy_gcrypt_def)

lemma toy_validates:
  "validate_pk toy_gcrypt (zeros 16) (zeros 16) [0, 0, 0, 0x10] (vd_magic @ zeros 8) (zeros 16) =
     (AACS_SUCCESS, zeros 15 @ [0x10])"
  by (simp add: validate_pk_def toy_aes128d xor_bytes_def zeros_numeral vd_magic_def)

theorem calc_mk_pks_spec_witness:
  "calc_mk_pks toy_gcrypt toy_mkb 0 [zeros 16] (zeros 16) = Some (AACS_SUCCESS, zeros 15 @ [0x10])"
proof -
  have vd: "take 16 (drop 16 (mkb_buf toy_mkb)) = vd_magic @ zeros 8"
    by (simp add: toy_mkb_buf vd_magic_def zeros_numeral)
  have "16 * used_uvs (mkb_buf toy_mkb) 36 5 \<le> 16" "36 + 5 * used_uvs (mkb_buf toy_mkb) 36 5 \<le> length (mkb_buf toy_mkb)"
    by (simp_all add: toy_used_uvs) (simp add: toy_mkb_buf)
  from calc_mk_pks_spec [OF toy_dec_ok toy_mkb_reads(1) toy_mkb_reads(2) [of 0] toy_mkb_reads(3) [of 0]
      toy_mkb_reads(4) refl this, where pkl = "[zeros 16]" and mk = "zeros 16"]
  show ?thesis by (simp add: toy_used_uvs toy_candidate vd validates_def toy_validates)
qed

lemma uvs_loop_overread:
  assumes "\<forall>i < k. rd buf (uvs + 5 * i) \<noteq> None \<and> rdn buf (uvs + 1 + 5 * i) 4 = Some (zeros 4)"
    and "k < n" and "length buf < uvs + 5 * k + 5" and "i \<le> k"
  shows "uvs_loop buf uvs n device i = None"
  using assms(4)
proof (induction "k - i" arbitrary: i)
  case 0
  then have "i = k" by simp
  moreover have "rdn buf (uvs + 1 + 5 * k) 4 = None" using assms(3) by (simp add: rdn_eq_None_iff)
  ultimately show ?case
    using assms(2) by (subst uvs_loop.simps) (auto split: Option.bind_splits)
next
  case (Suc d)
  then have i: "i < k" by simp
  with assms(1) obtain b where "rd buf (uvs + 5 * i) = Some b" "rdn buf (uvs + 1 + 5 * i) 4 = Some (zeros 4)"
    by blast
  moreover have "mkint_be32 (zeros 4) = 0" by (simp add: mkint_be32_def zeros_numeral)
  ultimately have "uvs_loop buf uvs n device i = uvs_loop buf uvs n device (i + 1)"
    using i assms(2) by (subst uvs_loop.simps) simp
  moreover have "uvs_loop buf uvs n device (i + 1) = None" using Suc by (intro Suc.hyps(1)) simp_all
  ultimately show ?case by simp
qed

text \<open>
  \<open>_calc_mk_dks\<close> takes the number of subset differences from the size of the \<open>cvalues\<close>
  record, not from the record it walks: when the subset differences are at the end of the block and
  none applies, the search reads past the end of the file.
\<close>

theorem calc_mk_dks_overread:
  assumes "mkb_subdiff_records m len0 = Some (Some p, l)" and "mkb_cvalues m l = Some (Some c, l2)"
    and "mkb_mk_dv m len0 = Some (Some v)" and "dk_node dk \<noteq> 2 ^ 32 - 1"
    and "\<forall>i < k. rd (mkb_buf m) (p + 5 * i) \<noteq> None \<and> rdn (mkb_buf m) (p + 1 + 5 * i) 4 = Some (zeros 4)"
    and "length (mkb_buf m) < p + 5 * k + 5" and "k < l2 div 5"
  shows "calc_mk_dks G m len0 (dk # dkl) mk = None"
proof -
  have "uvs_loop (mkb_buf m) p (l2 div 5) (word_of_nat (dk_node dk)) 0 = None"
    by (rule uvs_loop_overread [OF assms(5, 7, 6)]) simp
  then have "try_device G (mkb_buf m) p c v (l2 div 5) (dk # dkl) mk = None"
    by (simp add: try_device_def)
  then have "devices_loop G (mkb_buf m) p c v (l2 div 5) (2 ^ 32 - 1) (dk # dkl) mk = None"
    using assms(4) by (simp add: Let_def)
  moreover have "\<not> l2 div 5 < 1" using assms(7) by simp
  ultimately show ?thesis
    by (simp add: calc_mk_dks_def assms(1-3) Let_def del: devices_loop.simps)
qed

definition late_uvs_mkb :: mkb where
  "late_uvs_mkb = mkb_of [(0x10, zeros 8), (0x81, zeros 16), (0x05, zeros 16), (0x04, zeros 5)] []"

lemma late_uvs_buf:
  "mkb_buf late_uvs_mkb = [0x10, 0, 0, 12, 0, 0, 0, 0, 0, 0, 0, 0,
     0x81, 0, 0, 20, 0, 0, 0, 0, 0, 0, 0, 0, 0, 0, 0, 0, 0, 0, 0, 0,
     0x05, 0, 0, 20, 0, 0, 0, 0, 0, 0, 0, 0, 0, 0, 0, 0, 0, 0, 0, 0, 0x04, 0, 0, 9, 0, 0, 0, 0, 0]"
  "mkb_size late_uvs_mkb = 61"
  by (simp_all add: late_uvs_mkb_def mkb_of_def enc_mkb_def zeros_numeral be_enc_numeral)

lemma late_uvs_records:
  "mkb_record late_uvs_mkb 0x10 = Some (Some (0, 12))" "mkb_record late_uvs_mkb 0x81 = Some (Some (12, 20))"
  "mkb_record late_uvs_mkb 0x05 = Some (Some (32, 20))" "mkb_record late_uvs_mkb 0x04 = Some (Some (52, 9))"
  by (simp_all add: mkb_eval late_uvs_buf)

lemma late_uvs_reads:
  "mkb_mk_dv late_uvs_mkb n = Some (Some 16)" "mkb_subdiff_records late_uvs_mkb n = Some (Some 56, 5)"
  "mkb_cvalues late_uvs_mkb n = Some (Some 36, 16)"
  by (simp_all add: mkb_mk_dv_def mkb_subdiff_records_def mkb_cvalues_def simple_record_def late_uvs_records
      mkb_type_def mkb_type_and_version_record_def rd_be_eq rdn_def late_uvs_buf MKB_20_CATEGORY_C_def
      MKB_21_CATEGORY_C_def)

theorem calc_mk_dks_overread_witness:
  "calc_mk_dks toy_gcrypt late_uvs_mkb 0 [toy_dk] (zeros 16) = None"
  by (rule calc_mk_dks_overread [OF late_uvs_reads(2) late_uvs_reads(3) late_uvs_reads(1), of _ 1])
    (simp_all add: toy_dk_def late_uvs_buf rd_def rdn_def zeros_numeral)

text \<open>
  The check for revoked devices lets shift counts from 32 to 63 through, and the mask is then
  shifted by more than its width.
\<close>

theorem calc_mk_dks_wide_shift:
  assumes "mkb_subdiff_records m len0 = Some (Some p, l)" and "mkb_cvalues m l = Some (Some c, l2)"
    and "mkb_mk_dv m len0 = Some (Some v)" and "dk_node dk \<noteq> 2 ^ 32 - 1" and "5 \<le> l2"
    and "rd (mkb_buf m) p = Some sh" and "sh AND 0xc0 = 0" and "32 \<le> unat sh"
    and "rdn (mkb_buf m) (p + 1) 4 = Some u" and "mkint_be32 u \<noteq> 0"
  shows "calc_mk_dks G m len0 (dk # dkl) mk = None"
proof -
  have n: "0 < l2 div 5" "\<not> l2 div 5 < 1" using assms(5) by simp_all
  have "calc_u_mask sh = None" using assms(8) by (simp add: calc_u_mask_def)
  then have "uvs_loop (mkb_buf m) p (l2 div 5) (word_of_nat (dk_node dk)) 0 = None"
    using n(1) assms(6, 7, 9, 10) by (subst uvs_loop.simps) simp
  then have "try_device G (mkb_buf m) p c v (l2 div 5) (dk # dkl) mk = None"
    by (simp add: try_device_def)
  then have "devices_loop G (mkb_buf m) p c v (l2 div 5) (2 ^ 32 - 1) (dk # dkl) mk = None"
    using assms(4) by (simp add: Let_def)
  with n(2) show ?thesis by (simp add: calc_mk_dks_def assms(1-3) Let_def del: devices_loop.simps)
qed

definition wide_shift_mkb :: mkb where
  "wide_shift_mkb = toy_mkb\<lparr>mkb_buf := (mkb_buf toy_mkb)[36 := 0x20]\<rparr>"

lemma wide_shift_buf:
  "mkb_buf wide_shift_mkb = [0x10, 0, 0, 12, 0, 0, 0, 0, 0, 0, 0, 0,
     0x81, 0, 0, 20, 0x01, 0x23, 0x45, 0x67, 0x89, 0xAB, 0xCD, 0xEF, 0, 0, 0, 0, 0, 0, 0, 0,
     0x04, 0, 0, 9, 0x20, 0, 0, 0, 0x10, 0x05, 0, 0, 20, 0, 0, 0, 0, 0, 0, 0, 0, 0, 0, 0, 0, 0, 0, 0, 0,
     0, 0, 0, 0]"
  "mkb_size wide_shift_mkb = 65"
  by (simp_all add: wide_shift_mkb_def toy_mkb_buf)

lemma wide_shift_records:
  "mkb_record wide_shift_mkb 0x10 = Some (Some (0, 12))" "mkb_record wide_shift_mkb 0x81 = Some (Some (12, 20))"
  "mkb_record wide_shift_mkb 0x05 = Some (Some (41, 20))" "mkb_record wide_shift_mkb 0x04 = Some (Some (32, 9))"
  by (simp_all add: mkb_eval wide_shift_buf)

lemma wide_shift_reads:
  "mkb_mk_dv wide_shift_mkb n = Some (Some 16)" "mkb_subdiff_records wide_shift_mkb n = Some (Some 36, 5)"
  "mkb_cvalues wide_shift_mkb n = Some (Some 45, 16)"
  by (simp_all add: mkb_mk_dv_def mkb_subdiff_records_def mkb_cvalues_def simple_record_def wide_shift_records
      mkb_type_def mkb_type_and_version_record_def rd_be_eq rdn_def wide_shift_buf
      MKB_20_CATEGORY_C_def MKB_21_CATEGORY_C_def)

theorem calc_mk_dks_wide_shift_witness:
  "calc_mk_dks toy_gcrypt wide_shift_mkb 0 [toy_dk] (zeros 16) = None"
  by (rule calc_mk_dks_wide_shift [OF wide_shift_reads(2) wide_shift_reads(3) wide_shift_reads(1),
        of _ "0x20" "[0, 0, 0, 0x10]"])
    (simp_all add: toy_dk_def wide_shift_buf rd_def rdn_def mkint_be32_def)

text \<open>
  \<open>_calc_mk_pks\<close> does not check that there is a record of subset differences: without one it
  takes an indeterminate size, and any size but 0 makes it read through a null pointer.
\<close>

theorem calc_mk_pks_null_uvs:
  assumes "mkb_mk_dv m len0 = Some (Some v)" and "mkb_record m 0x04 = Some None" and "0 < len0"
  shows "calc_mk_pks G m len0 pkl mk = None"
proof -
  have "mkb_subdiff_records m len0 = Some (None, len0)"
    by (simp add: mkb_subdiff_records_def simple_record_def assms(2))
  moreover have "count_uvs (mkb_buf m) None len0 0 = None"
    using assms(3) by (simp add: count_uvs.simps)
  ultimately show ?thesis by (simp add: calc_mk_pks_def assms(1))
qed

definition no_uvs_mkb :: mkb where
  "no_uvs_mkb = mkb_of [(0x10, zeros 8), (0x81, zeros 16)] []"

theorem calc_mk_pks_null_uvs_witness:
  "calc_mk_pks toy_gcrypt no_uvs_mkb 1 [zeros 16] (zeros 16) = None"
proof -
  have buf: "mkb_buf no_uvs_mkb = [0x10, 0, 0, 12, 0, 0, 0, 0, 0, 0, 0, 0,
     0x81, 0, 0, 20, 0, 0, 0, 0, 0, 0, 0, 0, 0, 0, 0, 0, 0, 0, 0, 0]" "mkb_size no_uvs_mkb = 32"
    by (simp_all add: no_uvs_mkb_def mkb_of_def enc_mkb_def zeros_numeral be_enc_numeral)
  have "mkb_record no_uvs_mkb 0x10 = Some (Some (0, 12))" "mkb_record no_uvs_mkb 0x81 = Some (Some (12, 20))"
    and uvs: "mkb_record no_uvs_mkb 0x04 = Some None"
    by (simp_all add: mkb_eval buf)
  then have "mkb_mk_dv no_uvs_mkb 1 = Some (Some 16)"
    by (simp add: mkb_mk_dv_def simple_record_def mkb_type_def mkb_type_and_version_record_def rd_be_eq rdn_def
        buf MKB_20_CATEGORY_C_def MKB_21_CATEGORY_C_def)
  from calc_mk_pks_null_uvs [OF this uvs] show ?thesis by simp
qed

end
