(* ===== verification/Disc.thy ===== *)
theory Disc
  imports MediaKey RevList UnitKey Cci ContentCert
begin

text \<open>
  The \<open>AACS\<close> object of \<^verbatim>\<open>src/libaacs/aacs.c\<close> and its access to the files of a disc: the handle, the
  environment it runs in, reading whole files and Media Key Blocks, copy control information, the
  content certificate and the disc id.
\<close>

section \<open>State\<close>

text \<open>\<open>aa_fopen\<close> is the application's file access, when it gave one.\<close>

record aacs =
  aa_fopen :: "(string \<Rightarrow> fh option) option"
  aa_path :: "string ptr"
  aa_mkb_version :: nat
  aa_disc_id :: "byte list"
  aa_vid :: "byte list"
  aa_pmsn :: "byte list"
  aa_mk :: "byte list"
  aa_uk :: "aacs_uk ptr"
  aa_current_cps_unit :: nat
  aa_cps_unit_selected :: bool
  aa_no_cache :: bool
  aa_bee :: bool
  aa_bec :: int
  aa_read_data_key :: "byte list"
  aa_drive_cert_hash :: "byte list"
  aa_cc :: "content_cert ptr"
  aa_device_nonce :: "byte list"
  aa_device_binding_id :: "byte list"

text \<open>
  The environment: the file layer, the libraries, the drive.  Every opening of the drive may find
  it in another state and every call of the random generator returns other bytes; both are numbered
  by the counter in \<open>world\<close>.  \<open>ae_len0\<close> stands for an uninitialised size.
\<close>

record ('s, 'd) aacs_env =
  ae_fs :: fs_env
  ae_lib :: "'s mmc_env"
  ae_nonce :: "nat \<Rightarrow> byte list"
  ae_random :: "nat \<Rightarrow> byte list"
  ae_send :: "'d send_cmd"
  ae_device :: "nat \<Rightarrow> string \<Rightarrow> 'd ptr"
  ae_parse :: cfg_parser
  ae_len0 :: nat

record world =
  w_fs :: fs
  w_count :: nat

definition ae_gcrypt :: "('s, 'd) aacs_env \<Rightarrow> 's gcrypt" where
  "ae_gcrypt A = me_gcrypt (ae_lib A)"

definition ae_alloc :: "('s, 'd) aacs_env \<Rightarrow> nat \<Rightarrow> bool" where
  "ae_alloc A = fe_alloc (ae_fs A)"

text \<open>An object as \<open>calloc\<close> makes it, and an environment with a drive for concrete runs.\<close>

definition zero_aacs :: aacs where
  "zero_aacs = \<lparr>aa_fopen = None, aa_path = None, aa_mkb_version = 0, aa_disc_id = zeros 20,
     aa_vid = zeros 16, aa_pmsn = zeros 16, aa_mk = zeros 16, aa_uk = None, aa_current_cps_unit = 0,
     aa_cps_unit_selected = False, aa_no_cache = False, aa_bee = False, aa_bec = 0,
     aa_read_data_key = zeros 16, aa_drive_cert_hash = zeros 20, aa_cc = None,
     aa_device_nonce = zeros 16, aa_device_binding_id = zeros 16\<rparr>"

definition toy_aacs_env :: "(string \<times> int list, byte list list) aacs_env" where
  "toy_aacs_env = \<lparr>ae_fs = open_env, ae_lib = toy_env, ae_nonce = (\<lambda>_. zeros 20),
     ae_random = (\<lambda>_. zeros 19 @ [1]), ae_send = toy_send, ae_device = (\<lambda>n path. Some []),
     ae_parse = (\<lambda>s cf path disc_id. (1, cf)), ae_len0 = 0\<rparr>"

lemma toy_aacs_env_simps [simp]:
  "ae_gcrypt toy_aacs_env = toy_gcrypt" "ae_alloc toy_aacs_env n" "ae_fs toy_aacs_env = open_env"
  "ae_lib toy_aacs_env = toy_env" "ae_send toy_aacs_env = toy_send"
  by (simp_all add: ae_gcrypt_def ae_alloc_def toy_aacs_env_def) (simp add: toy_env_def)

section \<open>Files of the disc\<close>

definition aacs_file_open :: "('s, 'd) aacs_env \<Rightarrow> aacs \<Rightarrow> world \<Rightarrow> string \<Rightarrow> fh option" where
  "aacs_file_open A a w file =
     (case aa_fopen a of Some f \<Rightarrow> f file
      | None \<Rightarrow>
          (case aa_path a of None \<Rightarrow> None
           | Some path \<Rightarrow>
               (case str_printf (ae_alloc A) (path @ ''/'' @ file) of None \<Rightarrow> None
                | Some f_name \<Rightarrow> file_open_r (ae_fs A) (w_fs w) f_name)))"

text \<open>The whole file; \<open>None\<close> for a size of 0 and no data.\<close>

definition read_file :: "('s, 'd) aacs_env \<Rightarrow> aacs \<Rightarrow> world \<Rightarrow> string \<Rightarrow> byte list ptr" where
  "read_file A a w file =
     (case aacs_file_open A a w file of None \<Rightarrow> None
      | Some fp \<Rightarrow>
          let (f_size, fp) = file_size fp in
          if f_size \<le> 0 then None
          else if \<not> ae_alloc A (nat f_size) then None
          else
            let (d, fp) = file_read fp (nat f_size) in
            if int (length d) \<noteq> f_size then None else Some d)"

text \<open>
  The loop of \<open>_read_mkb_file\<close>: \<open>data\<close> is what has been read into a buffer of \<open>data_size\<close> bytes,
  \<open>chunk_size\<close> the number of bytes to read next.  It starts with \<open>chunk_size = 4\<close>, so testing the
  condition first changes nothing.
\<close>

function mkb_file_loop ::
    "('s, 'd) aacs_env \<Rightarrow> fh \<Rightarrow> nat \<Rightarrow> byte list \<Rightarrow> nat \<Rightarrow> nat \<Rightarrow> byte list ptr ub" where
  "mkb_file_loop A fp fsize data data_size chunk_size =
     (if chunk_size < 4 then Some (Some data)
      else if length data + chunk_size > data_size then None
      else
        let (bs, fp') = file_read fp chunk_size in
        if length bs \<noteq> chunk_size then Some None
        else
          let data = data @ bs; sz = length data;
              chunk_size = unat (mkint_be24 (take 3 (drop (sz - 4 + 1) data)))
          in if fsize - sz + 4 < chunk_size then Some (Some data)
             else if data_size < sz + chunk_size then
               (if ae_alloc A (2 * sz + chunk_size)
                then mkb_file_loop A fp' fsize data (2 * sz + chunk_size) chunk_size
                else Some None)
             else mkb_file_loop A fp' fsize data data_size chunk_size)"
  by pat_completeness auto
termination
  by (relation "measure (\<lambda>(A, fp, fsize, data, data_size, chunk_size). length (fh_data fp) - fh_pos fp)")
    (auto simp: file_read_def Let_def split: if_splits)

declare mkb_file_loop.simps [simp del]

definition read_mkb_file :: "('s, 'd) aacs_env \<Rightarrow> aacs \<Rightarrow> world \<Rightarrow> string \<Rightarrow> byte list ptr ub" where
  "read_mkb_file A a w file =
     (case aacs_file_open A a w file of None \<Rightarrow> Some None
      | Some fp \<Rightarrow>
          let (fsize, fp) = file_size fp in
          if fsize < 4 then Some None
          else if \<not> ae_alloc A 65536 then Some None
          else mkb_file_loop A fp (nat fsize) [] 65536 4)"

text \<open>A size below 4 includes the case of no data.\<close>

definition mkb_open :: "('s, 'd) aacs_env \<Rightarrow> aacs \<Rightarrow> world \<Rightarrow> mkb ptr ub" where
  "mkb_open A a w = do {
     data \<leftarrow> read_mkb_file A a w ''AACS/MKB_RO.inf'';
     data \<leftarrow> (case data of
         Some d \<Rightarrow> if length d < 4 then read_mkb_file A a w ''AACS/DUPLICATE/MKB_RO.inf'' else Some data
       | None \<Rightarrow> read_mkb_file A a w ''AACS/DUPLICATE/MKB_RO.inf'');
     case data of None \<Rightarrow> Some None
     | Some d \<Rightarrow> Some (if length d < 4 then None else mkb_init (ae_alloc A) d (length d))
   }"

section \<open>Copy control information\<close>

text \<open>The conversion \<open>%05d\<close> of a number that is not negative.\<close>

function decimal :: "nat \<Rightarrow> string" where
  "decimal n = (if n < 10 then [char_of (48 + n)] else decimal (n div 10) @ [char_of (48 + n mod 10)])"
  by pat_completeness auto
termination
  by (relation "measure id") auto

declare decimal.simps [simp del]

definition pad5 :: "nat \<Rightarrow> string" where
  "pad5 n = replicate (5 - length (decimal n)) CHR ''0'' @ decimal n"

definition cci_file_name :: "string \<Rightarrow> nat \<Rightarrow> string" where
  "cci_file_name dir cps_unit = dir @ ''CPSUnit'' @ pad5 cps_unit @ ''.cci''"

definition read_cci_copy :: "('s, 'd) aacs_env \<Rightarrow> aacs \<Rightarrow> world \<Rightarrow> string \<Rightarrow> nat \<Rightarrow> byte list ptr" where
  "read_cci_copy A a w dir cps_unit =
     (case str_printf (ae_alloc A) (cci_file_name dir cps_unit) of None \<Rightarrow> None
      | Some fname \<Rightarrow>
          (case read_file A a w fname of None \<Rightarrow> None
           | Some d \<Rightarrow> if length d \<ge> 2048 then Some d else None))"

definition read_cci_file :: "('s, 'd) aacs_env \<Rightarrow> aacs \<Rightarrow> world \<Rightarrow> nat \<Rightarrow> byte list ptr" where
  "read_cci_file A a w cps_unit =
     (case read_cci_copy A a w ''AACS/'' cps_unit of
        Some d \<Rightarrow> Some d
      | None \<Rightarrow> read_cci_copy A a w ''AACS/DUPLICATE/'' cps_unit)"

definition read_cci :: "('s, 'd) aacs_env \<Rightarrow> aacs \<Rightarrow> world \<Rightarrow> nat \<Rightarrow> aacs_cci ptr ub" where
  "read_cci A a w cps_unit =
     (case read_cci_file A a w cps_unit of None \<Rightarrow> Some None
      | Some d \<Rightarrow> cci_parse (ae_alloc A) d)"

definition check_cci_unencrypted :: "('s, 'd) aacs_env \<Rightarrow> aacs \<Rightarrow> world \<Rightarrow> nat \<Rightarrow> int ub" where
  "check_cci_unencrypted A a w cps_unit = do {
     cci \<leftarrow> read_cci A a w cps_unit;
     case cci of None \<Rightarrow> Some (- 1) | Some c \<Rightarrow> cci_is_unencrypted c
   }"

section \<open>Disc id and certificates\<close>

text \<open>The unit key file \<open>name\<close>: its bytes, when it could be read, and what they parse to.\<close>

definition try_unit_key_file ::
    "('s, 'd) aacs_env \<Rightarrow> aacs \<Rightarrow> world \<Rightarrow> string \<Rightarrow> bool \<Rightarrow> (byte list ptr \<times> aacs_uk ptr) ub" where
  "try_unit_key_file A a w name aacs2 =
     (case read_file A a w name of None \<Rightarrow> Some (None, None)
      | Some d \<Rightarrow>
          if length d > 2048 then do { u \<leftarrow> uk_parse (ae_alloc A) d aacs2; Some (Some d, u) }
          else Some (Some d, None))"

text \<open>For an object without unit keys, as it is when a disc is opened.\<close>

definition calc_title_hash :: "('s, 'd) aacs_env \<Rightarrow> aacs \<Rightarrow> world \<Rightarrow> (int \<times> aacs) ub" where
  "calc_title_hash A a w =
     (let aacs2 = (case aa_cc a of None \<Rightarrow> False | Some cc \<Rightarrow> cc_aacs2 cc \<noteq> 0) in do {
        (data, u) \<leftarrow> try_unit_key_file A a w ''AACS/Unit_Key_RO.inf'' aacs2;
        (data, u) \<leftarrow> (case u of
            None \<Rightarrow> try_unit_key_file A a w ''AACS/DUPLICATE/Unit_Key_RO.inf'' aacs2
          | Some u \<Rightarrow> Some (data, Some u));
        let a = a\<lparr>aa_uk := u\<rparr>;
        case (u, data) of
          (Some _, Some d) \<Rightarrow> do {
            h \<leftarrow> crypto_aacs_title_hash (ae_gcrypt A) d (length d);
            Some (AACS_SUCCESS, a\<lparr>aa_disc_id := h\<rparr>)
          }
        | _ \<Rightarrow> Some (AACS_ERROR_CORRUPTED_DISC, a)
      })"

definition read_cc_any :: "('s, 'd) aacs_env \<Rightarrow> aacs \<Rightarrow> world \<Rightarrow> content_cert ptr ub" where
  "read_cc_any A a w =
     (case (case read_file A a w ''AACS/Content000.cer'' of
              None \<Rightarrow> read_file A a w ''AACS/Content001.cer'' | Some d \<Rightarrow> Some d) of
        None \<Rightarrow> Some None
      | Some d \<Rightarrow> cc_parse (ae_alloc A) (me_mpi (ae_lib A)) (ae_gcrypt A) d)"

definition get_bus_encryption_enabled :: "aacs \<Rightarrow> bool" where
  "get_bus_encryption_enabled a =
     (case aa_cc a of None \<Rightarrow> False | Some cc \<Rightarrow> bus_encryption_enabled_flag cc \<noteq> 0)"

section \<open>Reading a Media Key Block\<close>

lemma file_read_eq:
  "file_read fp n = (take n (drop (fh_pos fp) (fh_data fp)), fp\<lparr>fh_pos := fh_pos fp + length (take n (drop (fh_pos fp) (fh_data fp)))\<rparr>)"
  by (cases fp) (simp add: file_read_def Let_def)

lemma file_size_eq: "file_size fp = (int (length (fh_data fp)), fp)"
  by (cases fp) (simp add: file_size_def file_seek_def file_tell_def Let_def)

lemma take_append_drop: "take n xs @ take m (drop n xs) = take (n + m) xs"
  by (simp add: take_add)

lemma mkb_file_loop_safe:
  assumes "length data + chunk_size \<le> data_size" and "data = take (length data) file"
    and "fh_data fp = pre @ file" and "fh_pos fp = length pre + length data"
  shows "\<exists>r. mkb_file_loop A fp fsize data data_size chunk_size = Some r \<and>
    (\<forall>d. r = Some d \<longrightarrow> length data \<le> length d \<and> d = take (length d) file)"
  using assms
proof (induction A fp fsize data data_size chunk_size rule: mkb_file_loop.induct)
  case (1 A fp fsize data data_size chunk_size)
  define bs where "bs = take chunk_size (drop (length data) file)"
  define fp' where "fp' = fp\<lparr>fh_pos := fh_pos fp + length bs\<rparr>"
  have rd: "file_read fp chunk_size = (bs, fp')"
    using 1(4-6) by (simp add: file_read_eq bs_def fp'_def)
  show ?case
  proof (cases "4 \<le> chunk_size \<and> length bs = chunk_size")
    case False
    then show ?thesis using 1(3,4) rd by (subst mkb_file_loop.simps) auto
  next
    case True
    define data' where "data' = data @ bs"
    define c where "c = unat (mkint_be24 (take 3 (drop (length data' - 4 + 1) data')))"
    have pre: "data' = take (length data') file"
      using True 1(4) by (metis bs_def data'_def length_append take_append_drop)
    have fp': "fh_data fp' = pre @ file" "fh_pos fp' = length pre + length data'"
      using 1(5,6) by (simp_all add: fp'_def data'_def)
    have step: "mkb_file_loop A fp fsize data data_size chunk_size =
      (if fsize - length data' + 4 < c then Some (Some data')
       else if data_size < length data' + c then
         (if ae_alloc A (2 * length data' + c)
          then mkb_file_loop A fp' fsize data' (2 * length data' + c) c else Some None)
       else mkb_file_loop A fp' fsize data' data_size c)"
      using True 1(3) rd by (subst mkb_file_loop.simps) (simp add: Let_def data'_def c_def)
    note IH = 1(1,2) [OF _ _ rd [symmetric] refl _ refl refl refl, folded data'_def, folded c_def]
    have ih: "\<exists>r. mkb_file_loop A fp' fsize data' s c = Some r \<and>
        (\<forall>d. r = Some d \<longrightarrow> length data' \<le> length d \<and> d = take (length d) file)"
      if "length data' + c \<le> s" "\<not> fsize - length data' + 4 < c"
        "s = (if data_size < length data' + c then 2 * length data' + c else data_size)"
        "data_size < length data' + c \<Longrightarrow> ae_alloc A (2 * length data' + c)" for s
    proof (cases "data_size < length data' + c")
      case True': True
      then show ?thesis
        using True 1(3) that pre fp' IH(1) by auto
    next
      case False
      then show ?thesis using True 1(3) that pre fp' IH(2) by auto
    qed
    have l: "length data \<le> length data'" by (simp add: data'_def)
    show ?thesis
      using ih [of "2 * length data' + c"] ih [of data_size] l pre unfolding step
      by (auto split: if_splits)
  qed
qed

text \<open>
  C36: reading a Media Key Block never writes outside the buffer, however the sizes in the file
  lie, and always comes to an end; what it returns is the beginning of the file.
\<close>

theorem read_mkb_file_bounded:
  "case aacs_file_open A a w file of None \<Rightarrow> read_mkb_file A a w file = Some None
   | Some fp \<Rightarrow> \<exists>r. read_mkb_file A a w file = Some r \<and>
      (case r of None \<Rightarrow> True
       | Some d \<Rightarrow> d = take (length d) (drop (fh_pos fp) (fh_data fp)))"
proof (cases "aacs_file_open A a w file")
  case None
  then show ?thesis by (simp add: read_mkb_file_def)
next
  case (Some fp)
  have "\<exists>r. mkb_file_loop A fp (length (fh_data fp)) [] 65536 4 = Some r \<and>
    (\<forall>d. r = Some d \<longrightarrow> length ([] :: byte list) \<le> length d \<and> d = take (length d) (drop (fh_pos fp) (fh_data fp)))"
  proof (cases "fh_pos fp \<le> length (fh_data fp)")
    case True
    then show ?thesis
      by (intro mkb_file_loop_safe [where pre = "take (fh_pos fp) (fh_data fp)"]) simp_all
  next
    case False
    then show ?thesis by (subst mkb_file_loop.simps) (simp add: file_read_eq)
  qed
  then show ?thesis
    using Some by (auto simp: read_mkb_file_def file_size_eq split: option.splits)
qed

section \<open>A block on the disc\<close>

definition next_size :: "byte list \<Rightarrow> nat" where
  "next_size xs = be_val (take 3 (drop 1 xs))"

lemma mkb_file_loop_entries:
  assumes "\<And>n. ae_alloc A n" and "wf_entries rs" and "4 \<le> length pad" and "next_size pad < 4"
    and "fh_data fp = pre @ enc_mkb rs pad" and "fh_pos fp = length pre + 4"
    and "length pre + 4 + next_size (enc_mkb rs pad) \<le> data_size"
  shows "mkb_file_loop A fp (length (fh_data fp)) (pre @ take 4 (enc_mkb rs pad)) data_size (next_size (enc_mkb rs pad)) =
    Some (Some (pre @ concat (map enc_entry rs) @ take 4 pad))"
  using assms(2, 5-)
proof (induction rs arbitrary: fp pre data_size)
  case Nil
  then show ?case using assms(4) by (subst mkb_file_loop.simps) (simp add: enc_mkb_def)
next
  case (Cons e rs)
  obtain t d where e: "e = (t, d)" by (cases e)
  let ?next = "enc_mkb rs pad" and ?pre = "pre @ enc_entry (t, d)"
  have d: "4 + length d < 256 ^ 3" and rs: "wf_entries rs"
    using Cons.prems(1) by (simp_all add: wf_entries_def e)
  have enc: "enc_mkb (e # rs) pad = t # be_enc 3 (4 + length d) @ d @ ?next" by (simp add: enc_mkb_def e)
  have sz: "next_size (enc_mkb (e # rs) pad) = 4 + length d"
    using be_val_be_enc [OF d] by (simp add: next_size_def enc)
  have ln: "4 \<le> length ?next" using assms(3) by (simp add: enc_mkb_def)
  define fp' where "fp' = fp\<lparr>fh_pos := fh_pos fp + (4 + length d)\<rparr>"
  have t4: "take 4 (t # be_enc 3 (4 + length d) @ xs) = t # be_enc 3 (4 + length d)" for xs
    by simp
  have rd: "file_read fp (4 + length d) = (d @ take 4 ?next, fp')"
    using Cons.prems(2,3) ln enc by (simp add: file_read_eq fp'_def)
  have data: "(pre @ take 4 (enc_mkb (e # rs) pad)) @ d @ take 4 ?next = ?pre @ take 4 ?next"
    using t4 by (simp add: enc)
  have c: "unat (mkint_be24 (take 3 (drop (length (?pre @ take 4 ?next) - 4 + 1) (?pre @ take 4 ?next)))) = next_size ?next"
  proof -
    have "drop (length a + 1) (a @ x) = drop 1 x" for a x :: "byte list" by simp
    moreover have "length (?pre @ take 4 ?next) - 4 + 1 = length ?pre + 1" using ln by simp
    ultimately have "drop (length (?pre @ take 4 ?next) - 4 + 1) (?pre @ take 4 ?next) = drop 1 (take 4 ?next)"
      by (simp only:)
    moreover have "take 3 (drop 1 (take 4 ?next)) = take 3 (drop 1 ?next)" by (simp add: drop_take)
    moreover have "rd_be24 ?next 1 = Some (be_val (take 3 (drop 1 ?next)))" using ln by (simp add: rd_be_defined)
    ultimately show ?thesis using ln by (simp add: rd_be24_def rdn_def next_size_def)
  qed
  have fit: "\<not> length (fh_data fp) - length (?pre @ take 4 ?next) + 4 < next_size ?next"
  proof (cases rs)
    case Nil
    then show ?thesis using assms(4) by (simp add: enc_mkb_def)
  next
    case (Cons e' rs')
    obtain t' d' where e': "e' = (t', d')" by (cases e')
    have "4 + length d' < 256 ^ 3" using rs Cons by (simp add: wf_entries_def e')
    from be_val_be_enc [OF this] have "next_size ?next = 4 + length d'"
      by (simp add: next_size_def Cons e' enc_mkb_def)
    moreover have "length ?next \<ge> 4 + length d'" by (simp add: Cons e' enc_mkb_def)
    ultimately show ?thesis using Cons.prems(2) enc ln by simp
  qed
  have fp': "fh_data fp' = ?pre @ ?next" "fh_pos fp' = length ?pre + 4" "length (fh_data fp) = length (fh_data fp')"
    using Cons.prems(2,3) by (simp_all add: fp'_def enc)
  have ih: "mkb_file_loop A fp' (length (fh_data fp)) (?pre @ take 4 ?next) s (next_size ?next) =
      Some (Some (pre @ concat (map enc_entry (e # rs)) @ take 4 pad))"
    if "length ?pre + 4 + next_size ?next \<le> s" for s
    using Cons.IH [OF rs fp'(1,2) that] by (simp add: fp'(3) e)
  have len: "length (?pre @ take 4 ?next) = length ?pre + 4" using ln by simp
  have step: "mkb_file_loop A fp (length (fh_data fp)) (pre @ take 4 (enc_mkb (e # rs) pad)) data_size (4 + length d) =
      (if data_size < length ?pre + 4 + next_size ?next
       then mkb_file_loop A fp' (length (fh_data fp)) (?pre @ take 4 ?next) (2 * (length ?pre + 4) + next_size ?next) (next_size ?next)
       else mkb_file_loop A fp' (length (fh_data fp)) (?pre @ take 4 ?next) data_size (next_size ?next))"
  proof -
    have "\<not> length (pre @ take 4 (enc_mkb (e # rs) pad)) + (4 + length d) > data_size"
      using Cons.prems(4) [unfolded sz] ln by (simp add: enc)
    then show ?thesis
      using ln assms(1) fit [unfolded len] c [unfolded len] data
      by (subst mkb_file_loop.simps) (simp only: rd prod.case Let_def data len, simp)
  qed
  show ?case unfolding sz step using ih by simp
qed

lemma mkb_open_enc:
  assumes "\<And>n. ae_alloc A n" and "aacs_file_open A a w ''AACS/MKB_RO.inf'' = Some fp" and "fh_pos fp = 0"
    and "fh_data fp = enc_mkb rs pad" and "wf_entries rs" and "4 \<le> length pad" and "next_size pad < 4"
  shows "mkb_open A a w = Some (Some (mkb_of rs (take 4 pad)))"
proof -
  let ?e = "enc_mkb rs pad" and ?d = "concat (map enc_entry rs) @ take 4 pad"
  define fp' where "fp' = fp\<lparr>fh_pos := 4\<rparr>"
  have len: "4 \<le> length ?e" using assms(6) by (simp add: enc_mkb_def)
  have rd: "file_read fp 4 = (take 4 ?e, fp')"
    using len by (simp add: file_read_eq assms(3,4) fp'_def)
  have c: "unat (mkint_be24 (take 3 (drop (4 - 4 + 1) (take 4 ?e)))) = next_size ?e"
    using rd_be_defined(2) [of 1 ?e] len by (simp add: rd_be24_def rdn_def next_size_def drop_take)
  have fit: "next_size ?e \<le> length ?e \<or> next_size ?e < 4"
  proof (cases rs)
    case Nil
    then show ?thesis using assms(7) by (simp add: enc_mkb_def)
  next
    case (Cons e' rs')
    obtain t' d' where e': "e' = (t', d')" by (cases e')
    have "4 + length d' < 256 ^ 3" using assms(5) Cons by (simp add: wf_entries_def e')
    from be_val_be_enc [OF this] show ?thesis by (simp add: next_size_def Cons e' enc_mkb_def)
  qed
  have main: "mkb_file_loop A fp' (length ?e) (take 4 ?e) s (next_size ?e) = Some (Some ?d)"
    if "4 + next_size ?e \<le> s" for s
    using mkb_file_loop_entries [OF assms(1,5-7), of fp' "[]" s] that by (simp add: fp'_def assms(4))
  have "mkb_file_loop A fp (length ?e) [] 65536 4 = Some (Some ?d)"
    using len fit c main [of 65536] main [of "8 + next_size ?e"] assms(1)
    by (subst mkb_file_loop.simps) (simp add: rd Let_def, linarith)
  moreover have "4 \<le> length ?d" using assms(6) by simp
  moreover have "mkb_init (ae_alloc A) ?d (length ?d) = Some (mkb_of rs (take 4 pad))"
    using assms(1) by (simp add: mkb_init_def mkb_of_def enc_mkb_def)
  ultimately show ?thesis
    using len by (simp add: mkb_open_def read_mkb_file_def assms(1-4) file_size_eq del: length_append)
qed

text \<open>
  A disc whose file \<open>AACS/MKB_RO.inf\<close> holds a list of records, then a record header with a size
  below 4, then anything: what is opened are exactly these records and that header, so that the
  searches of the accessors see the list of records.
\<close>

theorem mkb_open_records:
  assumes "\<And>n. ae_alloc A n" and "aacs_file_open A a w ''AACS/MKB_RO.inf'' = Some fp" and "fh_pos fp = 0"
    and "fh_data fp = enc_mkb rs pad" and "wf_entries rs" and "4 \<le> length pad" and "next_size pad < 4"
  shows "mkb_open A a w = Some (Some (mkb_of rs (take 4 pad)))"
  using assms by (rule mkb_open_enc)

text \<open>A disc in the directory \<open>/d\<close> with the block that \<open>mkb\<close> gives.\<close>

definition mkb_world :: "byte list \<Rightarrow> world" where
  "mkb_world data = \<lparr>w_fs = empty_fs\<lparr>fs_files := [''/d/AACS/MKB_RO.inf'' \<mapsto> data]\<rparr>, w_count = 0\<rparr>"

lemma mkb_world_file:
  assumes "aa_path a = Some ''/d''" and "aa_fopen a = None"
  shows "aacs_file_open toy_aacs_env a (mkb_world data) ''AACS/MKB_RO.inf'' = Some \<lparr>fh_data = data, fh_pos = 0\<rparr>"
  using assms by (simp add: aacs_file_open_def str_printf_eq file_open_r_def mkb_world_def)

theorem mkb_open_records_witness:
  "mkb_open toy_aacs_env (zero_aacs\<lparr>aa_path := Some ''/d''\<rparr>)
     (mkb_world (enc_mkb [(0x10, [0, 3, 0x10, 3, 0, 0, 0, 9]), (0x81, zeros 16)] (zeros 12))) =
   Some (Some (mkb_of [(0x10, [0, 3, 0x10, 3, 0, 0, 0, 9]), (0x81, zeros 16)] (take 4 (zeros 12))))"
proof (rule mkb_open_records)
  show "aacs_file_open toy_aacs_env (zero_aacs\<lparr>aa_path := Some ''/d''\<rparr>)
     (mkb_world (enc_mkb [(0x10, [0, 3, 0x10, 3, 0, 0, 0, 9]), (0x81, zeros 16)] (zeros 12))) ''AACS/MKB_RO.inf'' =
     Some \<lparr>fh_data = enc_mkb [(0x10, [0, 3, 0x10, 3, 0, 0, 0, 9]), (0x81, zeros 16)] (zeros 12), fh_pos = 0\<rparr>"
    by (rule mkb_world_file) (simp_all add: zero_aacs_def)
qed (simp_all add: wf_entries_def next_size_def zeros_numeral)

end
