(* ===== verification/DiscKeys.thy ===== *)
theory DiscKeys
  imports Disc
begin

text \<open>
  The keys of a disc: the middle part of \<^verbatim>\<open>src/libaacs/aacs.c\<close>.  Media key, authenticated reads
  from the drive, volume unique key and unit keys, each from the configuration, the cache or a
  computation, in the order the code tries them.
\<close>

section \<open>Media key\<close>

text \<open>Saving a key for a disc with an id, unless caching is off; the result is not looked at.\<close>

definition save_key :: "('s, 'd) aacs_env \<Rightarrow> aacs \<Rightarrow> world \<Rightarrow> string \<Rightarrow> byte list \<Rightarrow> world ub" where
  "save_key A a w ty key =
     (if \<not> aa_no_cache a \<and> \<not> is_zero (aa_disc_id a) then do {
        (_, s) \<leftarrow> keycache_save (ae_fs A) (w_fs w) ty (aa_disc_id a) key 16;
        Some (w\<lparr>w_fs := s\<rparr>)
      } else Some w)"

text \<open>Return value, contents of \<open>mk\<close>, object, world.\<close>

definition calc_mk ::
    "('s, 'd) aacs_env \<Rightarrow> aacs \<Rightarrow> world \<Rightarrow> byte list \<Rightarrow> byte list list \<Rightarrow> dk list \<Rightarrow>
     (int \<times> byte list \<times> aacs \<times> world) ub" where
  "calc_mk A a w mk pkl dkl =
     (if \<not> is_zero mk then Some (AACS_SUCCESS, mk, a, w)
      else do {
        (found, mk) \<leftarrow> (if aa_no_cache a then Some (0, mk)
          else keycache_find (ae_fs A) (w_fs w) ''mk'' (aa_disc_id a) mk 16);
        if found \<noteq> 0 then Some (AACS_SUCCESS, mk, a, w)
        else do {
          m \<leftarrow> mkb_open A a w;
          case m of None \<Rightarrow> Some (AACS_ERROR_CORRUPTED_DISC, mk, a, w)
          | Some m \<Rightarrow> do {
              v \<leftarrow> mkb_version m;
              let a = a\<lparr>aa_mkb_version := v\<rparr>;
              s \<leftarrow> (if aa_no_cache a then Some (w_fs w)
                else update_rl (ae_fs A) (ae_lib A) (w_fs w) m (ae_len0 A));
              let w = w\<lparr>w_fs := s\<rparr>;
              (result, mk) \<leftarrow> (if dkl = [] then Some (AACS_ERROR_NO_PK, mk)
                else calc_mk_dks (ae_gcrypt A) m (ae_len0 A) dkl mk);
              (result, mk) \<leftarrow> (if result = AACS_SUCCESS then Some (result, mk)
                else calc_mk_pks (ae_gcrypt A) m (ae_len0 A) pkl mk);
              if result = AACS_SUCCESS then do {
                let a = a\<lparr>aa_mk := mk\<rparr>;
                w \<leftarrow> save_key A a w ''mk'' mk;
                Some (result, mk, a, w)
              } else Some (result, mk, a, w)
            }
        }
      })"

section \<open>The drive\<close>

text \<open>The libraries as they answer while the drive is open for the \<open>n\<close>-th time.\<close>

definition ae_lib_at :: "('s, 'd) aacs_env \<Rightarrow> nat \<Rightarrow> 's mmc_env" where
  "ae_lib_at A n = (ae_lib A)\<lparr>me_nonce := ae_nonce A n, me_random := ae_random A n\<rparr>"

definition open_drive :: "('s, 'd) aacs_env \<Rightarrow> aacs \<Rightarrow> world \<Rightarrow> ('d mmc ptr \<times> world) ub" where
  "open_drive A a w = do {
     m \<leftarrow> mmc_open (ae_lib_at A (w_count w)) (ae_send A) (ae_device A (w_count w)) (aa_path a);
     Some (m, w\<lparr>w_count := w_count w + 1\<rparr>)
   }"

text \<open>
  One host certificate after the other; \<open>error_code\<close> is the reason of the last failure.  The
  buffers keep what a failed attempt left in them.
\<close>

fun host_certs_loop ::
    "'s mmc_env \<Rightarrow> 'd send_cmd \<Rightarrow> 'd mmc \<Rightarrow> cert_entry list \<Rightarrow> int \<Rightarrow> int \<Rightarrow> byte list ptr \<Rightarrow> byte list ptr \<Rightarrow>
     (int \<times> byte list ptr \<times> byte list ptr) ub" where
  "host_certs_loop E send m [] type error_code p1 p2 = Some (error_code, p1, p2)"
| "host_certs_loop E send m (hc # hcl) type error_code p1 p2 = do {
     crypto_error \<leftarrow> crypto_aacs_verify_host_cert (me_alloc E) (me_mpi E) (me_gcrypt E) (host_cert hc);
     if crypto_error \<noteq> 0 then host_certs_loop E send m hcl type error_code p1 p2
     else do {
       (mmc_result, p1, p2, m) \<leftarrow> mmc_read_auth E send m (host_priv_key hc) (host_cert hc) type p1 p2;
       if mmc_result = MMC_SUCCESS then Some (AACS_SUCCESS, p1, p2)
       else host_certs_loop E send m hcl type
         (if mmc_result = MMC_ERROR_CERT_REVOKED then AACS_ERROR_CERT_REVOKED else AACS_ERROR_MMC_FAILURE) p1 p2
     }
   }"

definition aacs_mmc_read_auth ::
    "('s, 'd) aacs_env \<Rightarrow> aacs \<Rightarrow> world \<Rightarrow> cert_entry list \<Rightarrow> int \<Rightarrow> byte list ptr \<Rightarrow> byte list ptr \<Rightarrow>
     (int \<times> byte list ptr \<times> byte list ptr \<times> world) ub" where
  "aacs_mmc_read_auth A a w hcl type p1 p2 = do {
     (m, w') \<leftarrow> open_drive A a w;
     case m of None \<Rightarrow> Some (AACS_ERROR_MMC_OPEN, p1, p2, w')
     | Some m \<Rightarrow> do {
         (e, p1, p2) \<leftarrow> host_certs_loop (ae_lib_at A (w_count w)) (ae_send A) m hcl type AACS_ERROR_NO_CERT p1 p2;
         Some (e, p1, p2, w')
       }
   }"

definition aacs_read_vid ::
    "('s, 'd) aacs_env \<Rightarrow> aacs \<Rightarrow> world \<Rightarrow> cert_entry list \<Rightarrow> (int \<times> aacs \<times> world) ub" where
  "aacs_read_vid A a w hcl =
     (if \<not> is_zero (aa_vid a) then Some (AACS_SUCCESS, a, w)
      else do {
        (error_code, p1, _, w) \<leftarrow> aacs_mmc_read_auth A a w hcl MMC_READ_VID (Some (aa_vid a)) None;
        vid \<leftarrow> p1;
        let a = a\<lparr>aa_vid := vid\<rparr>;
        if error_code \<noteq> AACS_SUCCESS then Some (error_code, a, w)
        else do {
          w \<leftarrow> save_key A a w ''vid'' vid;
          Some (error_code, a, w)
        }
      })"

text \<open>
  A null \<open>cache_path\<close> is not handled: printing it is undefined, once there is a cache directory
  to print it after.
\<close>

definition rdk_type :: "('s, 'd) aacs_env \<Rightarrow> string ptr \<Rightarrow> string ub" where
  "rdk_type A cache_path =
     (case cache_path of Some p \<Rightarrow> Some p
      | None \<Rightarrow> if file_get_cache_home (ae_fs A) = None then Some [] else None)"

definition read_read_data_key ::
    "('s, 'd) aacs_env \<Rightarrow> aacs \<Rightarrow> world \<Rightarrow> cert_entry list \<Rightarrow> (int \<times> aacs \<times> world) ub" where
  "read_read_data_key A a w hcl = do {
     str \<leftarrow> str_print_hex 41 (aa_drive_cert_hash a) 20;
     let cache_path = str_printf (ae_alloc A) (''rdk/'' @ str);
     (error_code, p1, _, w) \<leftarrow> aacs_mmc_read_auth A a w hcl MMC_READ_DATA_KEYS (Some (aa_read_data_key a)) None;
     k \<leftarrow> p1;
     let a = a\<lparr>aa_read_data_key := k\<rparr>;
     if error_code = AACS_SUCCESS then
       (if \<not> aa_no_cache a then do {
          ty \<leftarrow> rdk_type A cache_path;
          (_, s) \<leftarrow> keycache_save (ae_fs A) (w_fs w) ty (aa_disc_id a) k 16;
          Some (error_code, a, w\<lparr>w_fs := s\<rparr>)
        } else Some (error_code, a, w))
     else if \<not> aa_no_cache a then do {
       ty \<leftarrow> rdk_type A cache_path;
       (found, k) \<leftarrow> keycache_find (ae_fs A) (w_fs w) ty (aa_disc_id a) k 16;
       Some (if found \<noteq> 0 then AACS_SUCCESS else error_code, a\<lparr>aa_read_data_key := k\<rparr>, w)
     } else Some (error_code, a, w)
   }"

definition aacs_read_pmsn ::
    "('s, 'd) aacs_env \<Rightarrow> aacs \<Rightarrow> world \<Rightarrow> cert_entry list \<Rightarrow> (int \<times> aacs \<times> world) ub" where
  "aacs_read_pmsn A a w hcl = do {
     (error_code, p1, _, w) \<leftarrow> aacs_mmc_read_auth A a w hcl MMC_READ_PMSN (Some (aa_pmsn a)) None;
     pmsn \<leftarrow> p1;
     Some (error_code, a\<lparr>aa_pmsn := pmsn\<rparr>, w)
   }"

definition get_bus_encryption_capable ::
    "('s, 'd) aacs_env \<Rightarrow> aacs \<Rightarrow> world \<Rightarrow> string ptr \<Rightarrow> (int \<times> aacs \<times> world) ub" where
  "get_bus_encryption_capable A a w path = do {
     (m, w') \<leftarrow> open_drive A (a\<lparr>aa_path := path\<rparr>) w;
     case m of None \<Rightarrow> Some (0, a, w')
     | Some m \<Rightarrow> do {
         (r, drive_cert, _) \<leftarrow> mmc_read_drive_cert (ae_lib_at A (w_count w)) (ae_send A) m (zeros 92);
         if r = MMC_SUCCESS then do {
           h \<leftarrow> crypto_aacs_title_hash (ae_gcrypt A) drive_cert 92;
           b \<leftarrow> rd drive_cert 1;
           Some (int (unat (b AND 1)), a\<lparr>aa_drive_cert_hash := h\<rparr>, w')
         } else Some (0, a\<lparr>aa_drive_cert_hash := zeros 20\<rparr>, w')
       }
   }"

section \<open>Volume unique key\<close>

text \<open>Return value, contents of \<open>mk\<close> and \<open>vuk\<close>, object, world; \<open>cf\<close> may be null.\<close>

definition calc_vuk ::
    "('s, 'd) aacs_env \<Rightarrow> aacs \<Rightarrow> world \<Rightarrow> byte list \<Rightarrow> byte list \<Rightarrow> config_file ptr \<Rightarrow>
     (int \<times> byte list \<times> byte list \<times> aacs \<times> world) ub" where
  "calc_vuk A a w mk vuk cf =
     (if \<not> is_zero vuk then Some (AACS_SUCCESS, mk, vuk, a, w)
      else do {
        (found, vuk) \<leftarrow> (if aa_no_cache a then Some (0, vuk)
          else keycache_find (ae_fs A) (w_fs w) ''vuk'' (aa_disc_id a) vuk 16);
        if found \<noteq> 0 then Some (AACS_SUCCESS, mk, vuk, a, w)
        else (case cf of None \<Rightarrow> Some (AACS_ERROR_NO_CONFIG, mk, vuk, a, w)
          | Some cf \<Rightarrow> do {
              (error_code, mk, a, w) \<leftarrow> calc_mk A a w mk (cf_pkl cf) (cf_dkl cf);
              if error_code \<noteq> AACS_SUCCESS then Some (error_code, mk, vuk, a, w)
              else do {
                (error_code, a, w) \<leftarrow> aacs_read_vid A a w (cf_host_cert_list cf);
                if error_code \<noteq> AACS_SUCCESS then Some (error_code, mk, vuk, a, w)
                else
                  let (crypto_err, vuk) = crypto_aes128d (ae_gcrypt A) mk (aa_vid a) vuk in
                  if crypto_err \<noteq> 0 then Some (AACS_ERROR_UNKNOWN, mk, vuk, a, w)
                  else do {
                    let vuk = xor_bytes vuk (aa_vid a);
                    w \<leftarrow> save_key A a w ''vuk'' vuk;
                    Some (AACS_SUCCESS, mk, vuk, a, w)
                  }
              }
            })
      })"

section \<open>Unit keys\<close>

text \<open>The keys of the entry at the start of the array that \<open>calloc\<close> returned.\<close>

definition fill_keys :: "nat \<Rightarrow> byte list list \<Rightarrow> byte list list" where
  "fill_keys n ks = ks @ replicate (n - length ks) (zeros 16)"

text \<open>An object without unit keys is undefined: the code reads \<open>aacs->uk->num_uk\<close>.\<close>

definition config_unit_keys ::
    "('s, 'd) aacs_env \<Rightarrow> aacs \<Rightarrow> world \<Rightarrow> config_file \<Rightarrow> byte list \<Rightarrow> byte list \<Rightarrow> byte list list \<Rightarrow>
     (byte list \<times> byte list \<times> aacs \<times> world) ub" where
  "config_unit_keys A a w cf mk vuk ks = do {
     uk \<leftarrow> aa_uk a;
     let num_uks = length ks;
     (ignore, mk, vuk, a, w) \<leftarrow> (if num_uks \<noteq> num_uk uk then do {
         (r, mk, vuk, a, w) \<leftarrow> calc_vuk A a w mk vuk (Some cf);
         Some (r = AACS_SUCCESS, mk, vuk, a, w)
       } else Some (False, mk, vuk, a, w));
     if ignore then Some (mk, vuk, a, w)
     else
       let n = max (num_uk uk) num_uks; uk = uk\<lparr>num_uk := n\<rparr> in
       if ae_alloc A (n * 16)
       then Some (mk, vuk, a\<lparr>aa_uk := Some (uk\<lparr>dec_uk := Some (fill_keys n ks)\<rparr>)\<rparr>, w)
       else Some (mk, vuk, a\<lparr>aa_uk := Some (uk\<lparr>dec_uk := None\<rparr>)\<rparr>, w)
   }"

definition find_config_entry ::
    "('s, 'd) aacs_env \<Rightarrow> aacs \<Rightarrow> world \<Rightarrow> config_file \<Rightarrow> byte list \<Rightarrow> byte list \<Rightarrow>
     (byte list \<times> byte list \<times> aacs \<times> world) ub" where
  "find_config_entry A a w cf mk vuk =
     (case find (\<lambda>ce. te_discid ce = aa_disc_id a) (cf_list cf) of
        None \<Rightarrow> Some (mk, vuk, a, w)
      | Some ce \<Rightarrow>
          let (mk, a) = (if \<not> is_zero (te_mk ce) then (te_mk ce, a\<lparr>aa_mk := te_mk ce\<rparr>) else (mk, a));
              a = (if \<not> is_zero (te_vid ce) then a\<lparr>aa_vid := te_vid ce\<rparr> else a);
              vuk = (if \<not> is_zero (te_vuk ce) then te_vuk ce else vuk)
          in if te_uk ce = [] then Some (mk, vuk, a, w)
             else config_unit_keys A a w cf mk vuk (map snd (te_uk ce)))"

text \<open>
  The loop over the unit keys from \<open>i\<close> on: the error code and the keys; \<open>err\<close> is the result of the
  computation of the volume unique key.
\<close>

function uks_loop ::
    "('s, 'd) aacs_env \<Rightarrow> aacs \<Rightarrow> world \<Rightarrow> byte list \<Rightarrow> int \<Rightarrow> byte list list \<Rightarrow> nat \<Rightarrow> nat \<Rightarrow> byte list list \<Rightarrow>
     (int \<times> byte list list) ub" where
  "uks_loop A a w vuk err enc n i keys =
     (if i < n then do {
        stop \<leftarrow> (if err \<noteq> AACS_SUCCESS then do {
            u \<leftarrow> check_cci_unencrypted A a w (i + 1);
            Some (u = 0)
          } else Some False);
        if stop then Some (err, keys)
        else do {
          e \<leftarrow> (if i < length enc then Some (enc ! i) else None);
          k \<leftarrow> (if i < length keys then Some (keys ! i) else None);
          let (crypto_err, k) = crypto_aes128d (ae_gcrypt A) vuk e k;
          if crypto_err \<noteq> 0 then Some (AACS_ERROR_UNKNOWN, keys[i := k])
          else uks_loop A a w vuk err enc n (i + 1) (keys[i := k])
        }
      } else Some (AACS_SUCCESS, keys))"
  by pat_completeness auto
termination
  by (relation "measure (\<lambda>(A, a, w, vuk, err, enc, n, i, keys). n - i)") auto

declare uks_loop.simps [simp del]

text \<open>The last part of \<open>_calc_uks\<close>: decrypting the unit keys.\<close>

definition decrypt_uks ::
    "('s, 'd) aacs_env \<Rightarrow> aacs \<Rightarrow> world \<Rightarrow> byte list \<Rightarrow> int \<Rightarrow> (int \<times> aacs) ub" where
  "decrypt_uks A a w vuk err = do {
     uk \<leftarrow> aa_uk a;
     if \<not> ae_alloc A (num_uk uk * 16)
     then Some (AACS_ERROR_CORRUPTED_DISC, a\<lparr>aa_uk := Some (uk\<lparr>dec_uk := None\<rparr>)\<rparr>)
     else do {
       enc \<leftarrow> enc_uk uk;
       (e, keys) \<leftarrow> uks_loop A a w vuk err enc (num_uk uk) 0 (replicate (num_uk uk) (zeros 16));
       Some (e, a\<lparr>aa_uk := Some (uk\<lparr>dec_uk := Some keys\<rparr>)\<rparr>)
     }
   }"

definition calc_uks ::
    "('s, 'd) aacs_env \<Rightarrow> aacs \<Rightarrow> world \<Rightarrow> config_file ptr \<Rightarrow> (int \<times> aacs \<times> world) ub" where
  "calc_uks A a w cf = do {
     uk \<leftarrow> aa_uk a;
     if num_uk uk < 1 then Some (AACS_SUCCESS, a, w)
     else do {
       (err, mk, vuk, a, w) \<leftarrow> calc_vuk A a w (zeros 16) (zeros 16) None;
       if err \<noteq> AACS_SUCCESS then do {
         (mk, vuk, a, w) \<leftarrow> (case cf of None \<Rightarrow> Some (mk, vuk, a, w)
           | Some cf \<Rightarrow> find_config_entry A a w cf mk vuk);
         uk \<leftarrow> aa_uk a;
         if cf \<noteq> None \<and> dec_uk uk \<noteq> None then Some (AACS_SUCCESS, a, w)
         else do {
           (err, mk, vuk, a, w) \<leftarrow> calc_vuk A a w mk vuk cf;
           (e, a) \<leftarrow> decrypt_uks A a w vuk err;
           Some (e, a, w)
         }
       } else do {
         (e, a) \<leftarrow> decrypt_uks A a w vuk err;
         Some (e, a, w)
       }
     }
   }"

section \<open>What the key steps compute\<close>

text \<open>The decryption of one block.\<close>

definition aes_dec :: "'s gcrypt \<Rightarrow> byte list \<Rightarrow> byte list \<Rightarrow> byte list" where
  "aes_dec G k x = snd (g_ecb_decrypt G k x)"

lemma crypto_aes128d_dec: "dec_ok G \<Longrightarrow> crypto_aes128d G k x d = (0, aes_dec G k x)"
  by (simp add: dec_ok_aes128d aes_dec_def)

text \<open>The units from \<open>i\<close> on before the first one that is known to be encrypted.\<close>

lemma uks_loop_eq:
  assumes "dec_ok (ae_gcrypt A)" and "length enc = n" and "length keys = n" and "i \<le> j" and "j \<le> n"
    and "\<And>k. i \<le> k \<Longrightarrow> k < j \<Longrightarrow> err \<noteq> AACS_SUCCESS \<Longrightarrow> \<exists>r. check_cci_unencrypted A a w (k + 1) = Some r \<and> r \<noteq> 0"
    and "j < n \<Longrightarrow> err \<noteq> AACS_SUCCESS \<and> check_cci_unencrypted A a w (j + 1) = Some 0"
  shows "uks_loop A a w vuk err enc n i keys =
    Some (if j < n then err else AACS_SUCCESS,
      take i keys @ map (aes_dec (ae_gcrypt A) vuk) (take (j - i) (drop i enc)) @ drop j keys)"
  using assms(3-6)
proof (induction "j - i" arbitrary: i keys)
  case 0
  then have ij: "i = j" by simp
  then show ?case
    using assms(7) by (subst uks_loop.simps) (simp split: if_splits)
next
  case (Suc d)
  let ?k = "aes_dec (ae_gcrypt A) vuk (enc ! i)"
  from Suc.hyps(2) have ij: "i < j" by simp
  then have inn: "i < n" using Suc.prems(3) by simp
  have stop: "(if err \<noteq> AACS_SUCCESS then do {
      u \<leftarrow> check_cci_unencrypted A a w (i + 1);
      Some (u = 0)
    } else Some False) = Some False"
    using Suc.prems(4) [of i] ij by auto
  have "uks_loop A a w vuk err enc n i keys = uks_loop A a w vuk err enc n (i + 1) (keys[i := ?k])"
    using inn stop assms(1,2) Suc.prems(1)
    by (subst uks_loop.simps) (simp add: crypto_aes128d_dec)
  also have "\<dots> = Some (if j < n then err else AACS_SUCCESS,
      take (i + 1) (keys[i := ?k]) @ map (aes_dec (ae_gcrypt A) vuk) (take (j - (i + 1)) (drop (i + 1) enc)) @
      drop j (keys[i := ?k]))"
    by (rule Suc.hyps(1)) (use Suc.hyps(2) Suc.prems ij in auto)
  also have "take (i + 1) (keys[i := ?k]) = take i keys @ [?k]"
    using inn Suc.prems(1) by (simp add: take_Suc_conv_app_nth)
  also have "drop j (keys[i := ?k]) = drop j keys" using ij by simp
  also have "take (j - i) (drop i enc) = enc ! i # take (j - (i + 1)) (drop (i + 1) enc)"
    using inn ij assms(2) Suc.hyps(2) by (simp add: Cons_nth_drop_Suc [symmetric] take_Cons')
  ultimately show ?case by simp
qed

definition with_keys :: "aacs \<Rightarrow> byte list list \<Rightarrow> aacs" where
  "with_keys a ks = a\<lparr>aa_uk := map_option (\<lambda>uk. uk\<lparr>dec_uk := Some ks\<rparr>) (aa_uk a)\<rparr>"

text \<open>All keys are decrypted when the key of the volume is known or no unit is known to need it.\<close>

lemma decrypt_uks_all:
  assumes "dec_ok (ae_gcrypt A)" and "\<And>n. ae_alloc A n" and "aa_uk a = Some uk" and "enc_uk uk = Some enc"
    and "length enc = num_uk uk"
    and "\<And>k. k < num_uk uk \<Longrightarrow> err \<noteq> AACS_SUCCESS \<Longrightarrow> \<exists>r. check_cci_unencrypted A a w (k + 1) = Some r \<and> r \<noteq> 0"
  shows "decrypt_uks A a w vuk err = Some (AACS_SUCCESS, with_keys a (map (aes_dec (ae_gcrypt A) vuk) enc))"
  using uks_loop_eq [OF assms(1,5) _ _ order_refl, of "replicate (num_uk uk) (zeros 16)" 0 err a w vuk] assms
  by (simp add: decrypt_uks_def with_keys_def)

text \<open>Where the loop stops at a unit that is known to be encrypted, the error is the one before.\<close>

lemma decrypt_uks_stops:
  assumes "dec_ok (ae_gcrypt A)" and "\<And>n. ae_alloc A n" and "aa_uk a = Some uk" and "enc_uk uk = Some enc"
    and "length enc = num_uk uk" and "err \<noteq> AACS_SUCCESS" and "j < num_uk uk"
    and "check_cci_unencrypted A a w (j + 1) = Some 0"
    and "\<And>k. k < j \<Longrightarrow> \<exists>r. check_cci_unencrypted A a w (k + 1) = Some r \<and> r \<noteq> 0"
  shows "\<exists>a'. decrypt_uks A a w vuk err = Some (err, a')"
  using uks_loop_eq [OF assms(1,5), of "replicate (num_uk uk) (zeros 16)" 0 j err a w vuk] assms
  by (auto simp: decrypt_uks_def)

lemma calc_uks_vuk:
  assumes "aa_uk a = Some uk" and "1 \<le> num_uk uk"
    and "calc_vuk A a w (zeros 16) (zeros 16) None = Some (AACS_SUCCESS, mk, vuk, a, w)"
  shows "calc_uks A a w cf = map_option (\<lambda>(e, a). (e, a, w)) (decrypt_uks A a w vuk AACS_SUCCESS)"
  using assms by (cases "decrypt_uks A a w vuk AACS_SUCCESS") (auto simp: calc_uks_def)

section \<open>Where the keys come from\<close>

lemma mkb_open_wf: "mkb_open A a w = Some (Some m) \<Longrightarrow> wf_mkb m"
  by (auto simp: mkb_open_def mkb_init_def wf_mkb_def split: Option.bind_splits option.splits if_splits)

lemma opened_mk_verified:
  "mkb_open A a w = Some (Some m) \<Longrightarrow> calc_mk_pks G m len0 pkl mk = Some (0, mk') \<Longrightarrow> mk_verified G m mk'"
  "mkb_open A a w = Some (Some m) \<Longrightarrow> calc_mk_dks G m len0 dkl mk = Some (0, mk') \<Longrightarrow> mk_verified G m mk'"
  using calc_mk_pks_verified calc_mk_dks_verified mkb_open_wf unfolding AACS_SUCCESS_def by blast+

lemma calc_mk_source:
  assumes "calc_mk A a w mk pkl dkl = Some (AACS_SUCCESS, mk', a', w')"
  shows "\<not> is_zero mk \<and> mk' = mk \<or>
    \<not> aa_no_cache a \<and> (\<exists>r. r \<noteq> 0 \<and> keycache_find (ae_fs A) (w_fs w) ''mk'' (aa_disc_id a) mk 16 = Some (r, mk')) \<or>
    (\<exists>m. mkb_open A a w = Some (Some m) \<and> mk_verified (ae_gcrypt A) m mk' \<and> aa_mk a' = mk')"
  using assms unfolding calc_mk_def
  by (auto simp: Let_def aacs_error_defs intro: opened_mk_verified
      split: Option.bind_splits option.splits prod.splits if_splits)

section \<open>The volume id\<close>

lemma host_certs_success:
  assumes "host_certs_loop E send m hcl ty e p1 p2 = Some (AACS_SUCCESS, q1, q2)" and "e \<noteq> AACS_SUCCESS"
  shows "\<exists>hc \<in> set hcl. \<exists>m1 r1 r2 m2.
    crypto_aacs_verify_host_cert (me_alloc E) (me_mpi E) (me_gcrypt E) (host_cert hc) = Some 0 \<and>
    mmc_read_auth E send m1 (host_priv_key hc) (host_cert hc) ty r1 r2 = Some (MMC_SUCCESS, q1, q2, m2)"
  using assms
proof (induction hcl arbitrary: m e p1 p2)
  case Nil
  then show ?case by simp
next
  case (Cons hc hcl)
  obtain ce where ce: "crypto_aacs_verify_host_cert (me_alloc E) (me_mpi E) (me_gcrypt E) (host_cert hc) = Some ce"
    using Cons.prems by (auto split: Option.bind_splits)
  show ?case
  proof (cases "ce = 0")
    case False
    with Cons ce show ?thesis by fastforce
  next
    case True
    obtain r s1 s2 m2 where ra: "mmc_read_auth E send m (host_priv_key hc) (host_cert hc) ty p1 p2 = Some (r, s1, s2, m2)"
      using Cons.prems ce True by (auto split: Option.bind_splits)
    show ?thesis
    proof (cases "r = MMC_SUCCESS")
      case success: True
      with Cons.prems ce True ra show ?thesis by auto
    next
      case False
      let ?e = "if r = MMC_ERROR_CERT_REVOKED then AACS_ERROR_CERT_REVOKED else AACS_ERROR_MMC_FAILURE"
      have "?e \<noteq> AACS_SUCCESS" by (simp add: aacs_error_defs)
      moreover have "host_certs_loop E send m2 hcl ty ?e s1 s2 = Some (AACS_SUCCESS, q1, q2)"
        using Cons.prems(1) ce True ra False by simp
      ultimately show ?thesis using Cons.IH by fastforce
    qed
  qed
qed

text \<open>
  A volume id that was authenticated: read with a valid host certificate of the list from a drive
  that went through the protocol, with the drive's MAC over it.
\<close>

definition vid_authentic :: "'s mmc_env \<Rightarrow> 'd send_cmd \<Rightarrow> cert_entry list \<Rightarrow> byte list \<Rightarrow> bool" where
  "vid_authentic E send hcl vid \<longleftrightarrow> (\<exists>hc \<in> set hcl. \<exists>(m :: 'd mmc) dkp bus_key mac agid m1 m2.
     crypto_aacs_verify_host_cert (me_alloc E) (me_mpi E) (me_gcrypt E) (host_cert hc) = Some 0 \<and>
     drive_authenticated E m dkp bus_key \<and>
     crypto_aes_cmac_16 (me_gcrypt E) (me_loc E) vid bus_key (zeros 16) = Some (0, mac) \<and>
     mmc_read_vid_mac send m1 agid = Some (Some (vid, mac), m2))"

lemma read_auth_vid_shape:
  "mmc_read_auth E send m priv cert MMC_READ_VID p1 p2 = Some (MMC_SUCCESS, q1, q2, m') \<Longrightarrow>
     \<exists>v0 vid. p1 = Some v0 \<and> q1 = Some vid"
  unfolding mmc_read_auth_def mmc_request_def Let_def
  by (auto simp: MMC_ERROR_def MMC_SUCCESS_def split: Option.bind_splits prod.splits if_splits)

lemma aacs_mmc_read_auth_vid:
  assumes "aacs_mmc_read_auth A a w hcl MMC_READ_VID p1 p2 = Some (AACS_SUCCESS, Some vid, q2, w')"
  shows "vid_authentic (ae_lib_at A (w_count w)) (ae_send A) hcl vid"
proof -
  let ?E = "ae_lib_at A (w_count w)"
  obtain m where "host_certs_loop ?E (ae_send A) m hcl MMC_READ_VID AACS_ERROR_NO_CERT p1 p2 = Some (AACS_SUCCESS, Some vid, q2)"
    using assms by (auto simp: aacs_mmc_read_auth_def aacs_error_defs split: Option.bind_splits option.splits)
  from host_certs_success [OF this] obtain hc m1 r1 r2 m2 where hc: "hc \<in> set hcl"
    "crypto_aacs_verify_host_cert (me_alloc ?E) (me_mpi ?E) (me_gcrypt ?E) (host_cert hc) = Some 0"
    and ra: "mmc_read_auth ?E (ae_send A) m1 (host_priv_key hc) (host_cert hc) MMC_READ_VID r1 r2 = Some (MMC_SUCCESS, Some vid, q2, m2)"
    by (auto simp: aacs_error_defs)
  from read_auth_vid_shape [OF ra] obtain v0 where "r1 = Some v0" by blast
  with mmc_read_auth_vid [of ?E "ae_send A" m1 "host_priv_key hc" "host_cert hc" v0 r2 vid q2 m2] ra
  obtain dkp bus_key mac agid n1 n2 where "drive_authenticated ?E m2 dkp bus_key"
    "crypto_aes_cmac_16 (me_gcrypt ?E) (me_loc ?E) vid bus_key (zeros 16) = Some (0, mac)"
    "mmc_read_vid_mac (ae_send A) n1 agid = Some (Some (vid, mac), n2)"
    by (auto simp: MMC_SUCCESS_def)
  with hc show ?thesis unfolding vid_authentic_def by blast
qed

lemma aacs_read_vid_authentic:
  assumes "aacs_read_vid A a w hcl = Some (AACS_SUCCESS, a', w')" and "is_zero (aa_vid a)"
  shows "vid_authentic (ae_lib_at A (w_count w)) (ae_send A) hcl (aa_vid a')"
  using assms unfolding aacs_read_vid_def
  by (auto simp: Let_def dest!: aacs_mmc_read_auth_vid split: Option.bind_splits prod.splits if_splits)

section \<open>The volume unique key\<close>

lemma save_key_frame: "save_key A a w ty k = Some w' \<Longrightarrow> w_count w' = w_count w \<and> (aa_no_cache a \<longrightarrow> w' = w)"
  by (auto simp: save_key_def split: if_splits Option.bind_splits)

lemma calc_mk_frame:
  assumes "calc_mk A a w mk pkl dkl = Some (e, mk', a', w')"
  shows "w_count w' = w_count w \<and> aa_vid a' = aa_vid a \<and> aa_no_cache a' = aa_no_cache a \<and>
    aa_uk a' = aa_uk a \<and> aa_current_cps_unit a' = aa_current_cps_unit a \<and> aa_disc_id a' = aa_disc_id a \<and> aa_path a' = aa_path a \<and> aa_fopen a' = aa_fopen a \<and>
    (aa_no_cache a \<longrightarrow> w_fs w' = w_fs w)"
  using assms unfolding calc_mk_def
  by (auto simp: Let_def dest!: save_key_frame split: Option.bind_splits option.splits prod.splits if_splits)

lemma calc_vuk_computed:
  assumes "dec_ok (ae_gcrypt A)" and "calc_vuk A a w mk vuk cf = Some (AACS_SUCCESS, mk', vuk', a', w')"
  shows "\<not> is_zero vuk \<and> vuk' = vuk \<or>
    \<not> aa_no_cache a \<and> (\<exists>r. r \<noteq> 0 \<and> keycache_find (ae_fs A) (w_fs w) ''vuk'' (aa_disc_id a) vuk 16 = Some (r, vuk')) \<or>
    (\<exists>c a1 w1 w2. cf = Some c \<and> calc_mk A a w mk (cf_pkl c) (cf_dkl c) = Some (AACS_SUCCESS, mk', a1, w1) \<and>
       aacs_read_vid A a1 w1 (cf_host_cert_list c) = Some (AACS_SUCCESS, a', w2) \<and>
       vuk' = xor_bytes (aes_dec (ae_gcrypt A) mk' (aa_vid a')) (aa_vid a'))"
  using assms(2) unfolding calc_vuk_def
  by (auto simp: Let_def crypto_aes128d_dec [OF assms(1)] aacs_error_defs
      split: Option.bind_splits option.splits prod.splits if_splits)

section \<open>Properties\<close>

text \<open>
  C1: the chain of keys.  Without given or cached keys, a volume unique key is reported only when a
  media key was found that the verification data of the disc's Media Key Block confirms, and a
  volume id was read from a drive that authenticated itself and its MAC over the id; the key is
  then AES-128D of the id under the media key, xor the id.
\<close>

theorem vuk_chain:
  assumes "dec_ok (ae_gcrypt A)" and "calc_vuk A a w mk vuk cf = Some (AACS_SUCCESS, mk', vuk', a', w')"
    and "is_zero vuk" and "is_zero mk" and "is_zero (aa_vid a)" and "aa_no_cache a"
  shows "\<exists>c m. cf = Some c \<and> mkb_open A a w = Some (Some m) \<and> mk_verified (ae_gcrypt A) m mk' \<and>
    vid_authentic (ae_lib_at A (w_count w)) (ae_send A) (cf_host_cert_list c) (aa_vid a') \<and>
    vuk' = xor_bytes (aes_dec (ae_gcrypt A) mk' (aa_vid a')) (aa_vid a')"
proof -
  obtain c a1 w1 w2 where c: "cf = Some c"
    and mk: "calc_mk A a w mk (cf_pkl c) (cf_dkl c) = Some (AACS_SUCCESS, mk', a1, w1)"
    and vid: "aacs_read_vid A a1 w1 (cf_host_cert_list c) = Some (AACS_SUCCESS, a', w2)"
    and vuk: "vuk' = xor_bytes (aes_dec (ae_gcrypt A) mk' (aa_vid a')) (aa_vid a')"
    using calc_vuk_computed [OF assms(1, 2)] assms(3, 6) by auto
  from calc_mk_frame [OF mk] have fr: "w_count w1 = w_count w" "aa_vid a1 = aa_vid a" by simp_all
  from calc_mk_source [OF mk] assms(4, 6) obtain m where
    "mkb_open A a w = Some (Some m)" "mk_verified (ae_gcrypt A) m mk'" by auto
  moreover have "vid_authentic (ae_lib_at A (w_count w)) (ae_send A) (cf_host_cert_list c) (aa_vid a')"
    using aacs_read_vid_authentic [OF vid] fr assms(5) by simp
  ultimately show ?thesis using c vuk by blast
qed

text \<open>A run with the toy drive, a host certificate, a processing key and the block of \<open>toy_mkb\<close>.\<close>

definition toy_host_cert :: "byte list" where
  "toy_host_cert = toy_cert[0 := 0x02]"

definition toy_config :: config_file where
  "toy_config = \<lparr>cf_dkl = [], cf_pkl = [zeros 16],
     cf_host_cert_list = [\<lparr>host_priv_key = zeros 20, host_cert = toy_host_cert\<rparr>], cf_list = []\<rparr>"

definition toy_mkb_world :: world where
  "toy_mkb_world = mkb_world (enc_mkb [(0x10, zeros 8), (0x81, vd_magic @ zeros 8), (0x04, [8, 0, 0, 0, 0x10]),
     (0x05, zeros 16)] (zeros 12))"

definition fresh_aacs :: aacs where
  "fresh_aacs = zero_aacs\<lparr>aa_path := Some ''/d'', aa_no_cache := True\<rparr>"

lemma toy_host_cert_accepted:
  "crypto_aacs_verify_host_cert (\<lambda>_. True) std_mpi toy_gcrypt toy_host_cert = Some 0"
proof -
  have "take 40 (drop 52 toy_host_cert) = toy_signature"
    by (simp add: toy_host_cert_def toy_cert_def toy_signature_def drop_update_cancel)
  then have "crypto_aacs_verify_aacsla (\<lambda>_. True) std_mpi toy_gcrypt (drop 52 toy_host_cert) toy_host_cert 52 = Some 0"
    unfolding crypto_aacs_verify_aacsla_def
    by (intro toy_verify) (simp_all add: aacs_la_pubkey_x_def aacs_la_pubkey_y_def toy_host_cert_def)
  moreover have "rd_be16 toy_host_cert 2 = Some 92" by (simp add: rd_be_eq rdn_def toy_host_cert_def toy_cert_def)
  moreover have "rd toy_host_cert 0 = Some 2" by (simp add: rd_def toy_host_cert_def)
  ultimately show ?thesis by (simp add: crypto_aacs_verify_host_cert_def aacs_verify_cert_def)
qed

lemma toy_lib_at [simp]: "ae_lib_at toy_aacs_env n = toy_env"
  by (simp add: ae_lib_at_def toy_aacs_env_def) (simp add: toy_env_def)

lemma toy_drive_mac:
  assumes "aa_path a = Some p" and "length vid = 16" and "length mac = 16"
  shows "aacs_mmc_read_auth (toy_aacs_env\<lparr>ae_send := toy_drive (vid @ mac)\<rparr>) a w
      (cf_host_cert_list toy_config) MMC_READ_VID (Some v0) None =
    Some (if mac = zeros 16 then AACS_SUCCESS else AACS_ERROR_MMC_FAILURE, Some vid, None, w\<lparr>w_count := w_count w + 1\<rparr>)"
proof -
  let ?send = "toy_drive (vid @ mac)" and ?A = "toy_aacs_env\<lparr>ae_send := toy_drive (vid @ mac)\<rparr>"
  obtain d where "mmc_open toy_env ?send (\<lambda>_. Some []) (Some p) = Some (Some (toy_mmc\<lparr>mmc_dev := d\<rparr>))"
    using toy_mmc_open [of "vid @ mac" p] by blast
  moreover have "ae_device ?A n = (\<lambda>_. Some [])" "ae_lib_at ?A n = toy_env" for n
    using toy_lib_at [of n] by (simp_all add: toy_aacs_env_def ae_lib_at_def)
  moreover obtain m' where "mmc_read_auth toy_env ?send (toy_mmc\<lparr>mmc_dev := d\<rparr>) (zeros 20) toy_host_cert MMC_READ_VID (Some v0) None =
      Some (if mac = zeros 16 then MMC_SUCCESS else MMC_ERROR, Some vid, None, m')"
    using toy_read_vid_mac [of "zeros 20" toy_host_cert vid mac d v0] assms by (auto simp: toy_host_cert_def)
  moreover have "crypto_aacs_verify_host_cert (me_alloc toy_env) (me_mpi toy_env) (me_gcrypt toy_env) toy_host_cert = Some 0"
    using toy_host_cert_accepted by (simp add: toy_env_def)
  ultimately show ?thesis
    by (simp add: aacs_mmc_read_auth_def open_drive_def assms toy_config_def MMC_SUCCESS_def MMC_ERROR_def
        MMC_ERROR_CERT_REVOKED_def)
qed

lemma toy_drive_vid:
  assumes "aa_path a = Some p"
  shows "aacs_mmc_read_auth toy_aacs_env a w (cf_host_cert_list toy_config) MMC_READ_VID (Some v0) None =
    Some (AACS_SUCCESS, Some (zeros 16), None, w\<lparr>w_count := w_count w + 1\<rparr>)"
proof -
  have "toy_aacs_env\<lparr>ae_send := toy_send\<rparr> = toy_aacs_env" by (simp add: toy_aacs_env_def)
  with toy_drive_mac [OF assms, of "zeros 16" "zeros 16" w v0] show ?thesis by simp
qed

lemma toy_mkb_open:
  assumes "aa_path a = Some ''/d''" and "aa_fopen a = None"
  shows "mkb_open toy_aacs_env a toy_mkb_world = Some (Some toy_mkb)"
proof -
  have "mkb_open toy_aacs_env a toy_mkb_world = Some (Some (mkb_of [(0x10, zeros 8), (0x81, vd_magic @ zeros 8),
      (0x04, [8, 0, 0, 0, 0x10]), (0x05, zeros 16)] (take 4 (zeros 12))))"
    unfolding toy_mkb_world_def
    by (rule mkb_open_enc [OF _ mkb_world_file [OF assms]]) (simp_all add: wf_entries_def next_size_def zeros_numeral vd_magic_def)
  moreover have "take 4 (zeros 12) = zeros 4" by (simp add: zeros_def)
  ultimately show ?thesis by (simp add: toy_mkb_def)
qed

lemma toy_calc_mk_pks:
  "calc_mk_pks toy_gcrypt toy_mkb 0 [zeros 16] (zeros 16) = Some (AACS_SUCCESS, zeros 15 @ [0x10])"
proof -
  have vd: "take 16 (drop 16 (mkb_buf toy_mkb)) = vd_magic @ zeros 8"
    by (simp add: toy_mkb_buf vd_magic_def zeros_numeral)
  have "16 * used_uvs (mkb_buf toy_mkb) 36 5 \<le> 16" "36 + 5 * used_uvs (mkb_buf toy_mkb) 36 5 \<le> length (mkb_buf toy_mkb)"
    by (simp_all add: toy_used_uvs) (simp add: toy_mkb_buf)
  from calc_mk_pks_eq [OF toy_dec_ok toy_mkb_reads(1) toy_mkb_reads(2) [of 0] toy_mkb_reads(3) [of 0]
      toy_mkb_reads(4) refl this, where pkl = "[zeros 16]" and mk = "zeros 16"]
  show ?thesis by (simp add: toy_used_uvs toy_candidate vd validates_def toy_validates)
qed

lemma toy_calc_mk:
  "calc_mk toy_aacs_env fresh_aacs toy_mkb_world (zeros 16) (cf_pkl toy_config) (cf_dkl toy_config) =
     Some (AACS_SUCCESS, zeros 15 @ [0x10], fresh_aacs\<lparr>aa_mk := zeros 15 @ [0x10]\<rparr>, toy_mkb_world)"
proof -
  have o: "mkb_open toy_aacs_env fresh_aacs toy_mkb_world = Some (Some toy_mkb)"
    by (rule toy_mkb_open) (simp_all add: fresh_aacs_def zero_aacs_def)
  have v: "mkb_version toy_mkb = Some 0"
    by (simp add: mkb_version_def mkb_type_and_version_record_def toy_mkb_records rd_be_eq rdn_def toy_mkb_buf)
  have f: "aa_no_cache fresh_aacs" "fresh_aacs\<lparr>aa_mkb_version := 0\<rparr> = fresh_aacs" "ae_len0 toy_aacs_env = 0"
    "aa_mkb_version fresh_aacs = 0"
    by (simp_all add: fresh_aacs_def zero_aacs_def toy_aacs_env_def)
  have "is_zero (zeros 16)" by (simp add: is_zero_def)
  moreover have "toy_mkb_world\<lparr>w_fs := w_fs toy_mkb_world\<rparr> = toy_mkb_world" by simp
  ultimately show ?thesis
    using toy_calc_mk_pks
    by (simp add: calc_mk_def o v f toy_config_def save_key_def aacs_error_defs)
qed

theorem vuk_chain_witness:
  "\<exists>vuk a w. calc_vuk toy_aacs_env fresh_aacs toy_mkb_world (zeros 16) (zeros 16) (Some toy_config) =
      Some (AACS_SUCCESS, zeros 15 @ [0x10], vuk, a, w) \<and>
    mk_verified toy_gcrypt toy_mkb (zeros 15 @ [0x10]) \<and>
    vid_authentic toy_env toy_send (cf_host_cert_list toy_config) (aa_vid a) \<and>
    vuk = xor_bytes (aes_dec toy_gcrypt (zeros 15 @ [0x10]) (aa_vid a)) (aa_vid a)"
proof -
  let ?mk = "zeros 15 @ [0x10] :: byte list"
  have z: "is_zero (zeros 16)" "is_zero (aa_vid fresh_aacs)" "aa_no_cache fresh_aacs" "aa_vid fresh_aacs = zeros 16"
    "aa_path fresh_aacs = Some ''/d''"
    by (simp_all add: is_zero_def fresh_aacs_def zero_aacs_def)
  obtain vuk a w where run: "calc_vuk toy_aacs_env fresh_aacs toy_mkb_world (zeros 16) (zeros 16) (Some toy_config) =
      Some (AACS_SUCCESS, ?mk, vuk, a, w)"
    using toy_drive_vid [of "fresh_aacs\<lparr>aa_mk := ?mk\<rparr>" "''/d''" toy_mkb_world "zeros 16"] z
    by (auto simp: calc_vuk_def toy_calc_mk aacs_read_vid_def save_key_def crypto_aes128d_dec [OF toy_dec_ok] AACS_SUCCESS_def
        split: if_splits)
  have "mkb_open toy_aacs_env fresh_aacs toy_mkb_world = Some (Some toy_mkb)"
    by (rule toy_mkb_open) (simp_all add: fresh_aacs_def zero_aacs_def)
  with vuk_chain [OF _ run z(1,1,2,3)] toy_dec_ok run show ?thesis by auto
qed

section \<open>Unit keys\<close>


text \<open>A disc with two unit keys and a file in the key cache.\<close>

definition toy_enc_uk :: "byte list list \<Rightarrow> aacs_uk" where
  "toy_enc_uk es = empty_uk\<lparr>num_uk := 2, enc_uk := Some es\<rparr>"

definition cached_aacs :: "byte list list \<Rightarrow> aacs" where
  "cached_aacs es = zero_aacs\<lparr>aa_disc_id := toy_disc 1, aa_uk := Some (toy_enc_uk es)\<rparr>"

definition cached_world :: "string \<Rightarrow> string \<Rightarrow> world" where
  "cached_world ty c = \<lparr>w_fs = empty_fs\<lparr>fs_files :=
     [''/home/u/.cache/aacs/'' @ ty @ ''/'' @ print_hex_loop (toy_disc 1) \<mapsto> bytes c]\<rparr>, w_count = 0\<rparr>"

lemma cached_find:
  assumes "length c = 32"
  shows "keycache_find open_env (w_fs (cached_world ty c)) ty (toy_disc 1) (zeros 16) 16 =
    (let (v, ok) = unhex c in Some (if ok then 1 else 0, v @ drop (length v) (zeros 16)))"
  using assms
  by (subst keycache_find_content [OF open_env_keycache_file, where c = "bytes c"])
    (simp_all add: cached_world_def toy_disc_def)

lemma no_cci:
  "aa_path a = None \<Longrightarrow> aa_fopen a = None \<Longrightarrow> read_cci toy_aacs_env a w i = Some None"
  by (simp add: read_cci_def read_cci_file_def read_cci_copy_def read_file_def aacs_file_open_def split: option.splits)

lemma cached_aacs_fields [simp]:
  "aa_uk (cached_aacs es) = Some (toy_enc_uk es)" "enc_uk (toy_enc_uk es) = Some es" "num_uk (toy_enc_uk es) = 2"
  "aa_path (cached_aacs es) = None" "aa_fopen (cached_aacs es) = None" "aa_no_cache (cached_aacs es) = False"
  "aa_disc_id (cached_aacs es) = toy_disc 1" "dec_uk (toy_enc_uk es) = None"
  by (simp_all add: cached_aacs_def toy_enc_uk_def zero_aacs_def empty_uk_def)


text \<open>
  An unreadable copy control file counts as an unencrypted unit: with none of these files, the
  unit keys are computed and success is reported although there is no volume unique key.
\<close>

theorem unreadable_cci_unencrypted:
  assumes "dec_ok (ae_gcrypt A)" and "\<And>n. ae_alloc A n" and "aa_uk a = Some uk" and "enc_uk uk = Some enc"
    and "length enc = num_uk uk" and "\<And>i. read_cci A a w i = Some None"
  shows "decrypt_uks A a w vuk err = Some (AACS_SUCCESS, with_keys a (map (aes_dec (ae_gcrypt A) vuk) enc))"
  by (rule decrypt_uks_all [OF assms(1-5)]) (simp add: check_cci_unencrypted_def assms(6))

theorem unreadable_cci_unencrypted_witness:
  "decrypt_uks toy_aacs_env (cached_aacs [replicate 16 5, replicate 16 6]) toy_mkb_world (zeros 16) AACS_ERROR_NO_CONFIG =
     Some (AACS_SUCCESS, with_keys (cached_aacs [replicate 16 5, replicate 16 6])
       (map (aes_dec toy_gcrypt (zeros 16)) [replicate 16 5, replicate 16 6]))"
  using unreadable_cci_unencrypted [of toy_aacs_env "cached_aacs [replicate 16 5, replicate 16 6]"
      "toy_enc_uk [replicate 16 5, replicate 16 6]" _ toy_mkb_world "zeros 16" AACS_ERROR_NO_CONFIG]
  by (simp add: toy_dec_ok no_cci)

lemma calc_vuk_cached:
  assumes "\<not> aa_no_cache a" and "keycache_find (ae_fs A) (w_fs w) ''vuk'' (aa_disc_id a) (zeros 16) 16 = Some (r, k)"
  shows "calc_vuk A a w (zeros 16) (zeros 16) None =
    Some (if r \<noteq> 0 then AACS_SUCCESS else AACS_ERROR_NO_CONFIG, zeros 16, k, a, w)"
  using assms by (simp add: calc_vuk_def is_zero_def)

lemma calc_uks_cached_keys:
  assumes "dec_ok (ae_gcrypt A)" and "\<And>n. ae_alloc A n"
    and "\<And>x. length x = 16 \<Longrightarrow> aes_dec (ae_gcrypt A) vuk (enc x) = x"
    and "aa_uk a = Some uk" and "enc_uk uk = Some (map enc ks)" and "length ks = num_uk uk" and "1 \<le> num_uk uk"
    and "\<forall>k \<in> set ks. length k = 16" and "\<not> aa_no_cache a" and "r \<noteq> 0"
    and "keycache_find (ae_fs A) (w_fs w) ''vuk'' (aa_disc_id a) (zeros 16) 16 = Some (r, vuk)"
  shows "calc_uks A a w cf = Some (AACS_SUCCESS, with_keys a ks, w)"
proof -
  have "map (aes_dec (ae_gcrypt A) vuk) (map enc ks) = ks"
    using assms(3, 8) by (simp add: map_idI)
  moreover have "decrypt_uks A a w vuk AACS_SUCCESS = Some (AACS_SUCCESS, with_keys a (map (aes_dec (ae_gcrypt A) vuk) (map enc ks)))"
    by (rule decrypt_uks_all [OF assms(1, 2, 4, 5)]) (use assms(6) in simp_all)
  ultimately show ?thesis
    using calc_uks_vuk [OF assms(4, 7), of A w "zeros 16" vuk cf] calc_vuk_cached [OF assms(9, 11)] assms(10) by simp
qed

text \<open>
  With the volume unique key in the cache, the unit keys that were encrypted with it are the
  ones the object gets, whatever the configuration.
\<close>

theorem unit_keys_roundtrip:
  assumes "dec_ok (ae_gcrypt A)" and "\<And>n. ae_alloc A n"
    and "\<And>x. length x = 16 \<Longrightarrow> aes_dec (ae_gcrypt A) vuk (enc x) = x"
    and "aa_uk a = Some uk" and "enc_uk uk = Some (map enc ks)" and "length ks = num_uk uk" and "1 \<le> num_uk uk"
    and "\<forall>k \<in> set ks. length k = 16" and "\<not> aa_no_cache a" and "r \<noteq> 0"
    and "keycache_find (ae_fs A) (w_fs w) ''vuk'' (aa_disc_id a) (zeros 16) 16 = Some (r, vuk)"
  shows "calc_uks A a w cf = Some (AACS_SUCCESS, with_keys a ks, w)"
  using assms by (rule calc_uks_cached_keys)

theorem unit_keys_roundtrip_witness:
  "let a = cached_aacs (map (aes_dec toy_gcrypt (replicate 16 9)) [replicate 16 5, replicate 16 6]);
       w = cached_world ''vuk'' (print_hex_loop (replicate 16 9))
   in calc_uks toy_aacs_env a w None = Some (AACS_SUCCESS, with_keys a [replicate 16 5, replicate 16 6], w)"
  unfolding Let_def
proof (rule unit_keys_roundtrip [where vuk = "replicate 16 9" and r = 1 and
      uk = "toy_enc_uk (map (aes_dec toy_gcrypt (replicate 16 9)) [replicate 16 5, replicate 16 6])" and enc = "aes_dec toy_gcrypt (replicate 16 9)"])
  show "aes_dec (ae_gcrypt toy_aacs_env) (replicate 16 9) (aes_dec toy_gcrypt (replicate 16 9) x) = x" if "length x = 16" for x
    using that by (simp add: aes_dec_def toy_gcrypt_def xor_bytes_cancel)
  show "keycache_find (ae_fs toy_aacs_env) (w_fs (cached_world ''vuk'' (print_hex_loop (replicate 16 9)))) ''vuk''
     (aa_disc_id (cached_aacs (map (aes_dec toy_gcrypt (replicate 16 9)) [replicate 16 5, replicate 16 6]))) (zeros 16) 16 =
     Some (1, replicate 16 9)"
    using cached_find [of "print_hex_loop (replicate 16 9)" "''vuk''"] unhex_print_hex [of "replicate 16 9" "[]"] by simp
qed (simp_all add: toy_dec_ok)

text \<open>
  C40: a damaged file in the cache: digits of the volume unique key that are followed by something
  else are refused, but stay in the variable; the next attempt takes that for a key from the
  configuration, and without any configuration wrong unit keys are computed and success is reported.
\<close>

theorem damaged_vuk_accepted:
  assumes "dec_ok (ae_gcrypt A)" and "\<And>n. ae_alloc A n" and "aa_uk a = Some uk" and "enc_uk uk = Some enc"
    and "length enc = num_uk uk" and "1 \<le> num_uk uk" and "\<not> aa_no_cache a"
    and "keycache_find (ae_fs A) (w_fs w) ''vuk'' (aa_disc_id a) (zeros 16) 16 = Some (0, k)" and "\<not> is_zero k"
  shows "calc_uks A a w None = Some (AACS_SUCCESS, with_keys a (map (aes_dec (ae_gcrypt A) k) enc), w)"
proof -
  have "calc_vuk A a w (zeros 16) k None = Some (AACS_SUCCESS, zeros 16, k, a, w)"
    using assms(9) by (simp add: calc_vuk_def)
  moreover have "decrypt_uks A a w k AACS_SUCCESS = Some (AACS_SUCCESS, with_keys a (map (aes_dec (ae_gcrypt A) k) enc))"
    by (rule decrypt_uks_all [OF assms(1-5)]) simp
  ultimately show ?thesis
    using calc_vuk_cached [OF assms(7, 8)] assms(3, 6) by (simp add: calc_uks_def aacs_error_defs)
qed

theorem damaged_vuk_accepted_witness:
  "let a = cached_aacs [replicate 16 5, replicate 16 6]; w = cached_world ''vuk'' (''ab'' @ replicate 30 CHR ''?'')
   in calc_uks toy_aacs_env a w None =
     Some (AACS_SUCCESS, with_keys a (map (aes_dec toy_gcrypt (0xab # zeros 15)) [replicate 16 5, replicate 16 6]), w)"
proof -
  have "unhex (''ab'' @ replicate 30 CHR ''?'') = ([0xab], False)"
    by (simp add: numeral_eq_Suc isxdigit_def hexstring_to_unsigned_char_def hex_cases_def)
  then have "keycache_find (ae_fs toy_aacs_env) (w_fs (cached_world ''vuk'' (''ab'' @ replicate 30 CHR ''?''))) ''vuk''
      (aa_disc_id (cached_aacs [replicate 16 5, replicate 16 6])) (zeros 16) 16 = Some (0, 0xab # zeros 15)"
    using cached_find [of "''ab'' @ replicate 30 CHR ''?''" "''vuk''"] by (simp add: zeros_def)
  note d = damaged_vuk_accepted [of toy_aacs_env "cached_aacs [replicate 16 5, replicate 16 6]"
      "toy_enc_uk [replicate 16 5, replicate 16 6]" _ _ "0xab # zeros 15", OF _ _ _ _ _ _ _ this]
  have "\<not> is_zero (0xab # zeros 15)" by (simp add: is_zero_def zeros_numeral)
  with d show ?thesis by (simp add: toy_dec_ok Let_def)
qed

end
