(* ===== verification/Decrypt.thy ===== *)
theory Decrypt
  imports DiscKeys
begin

text \<open>
  Decrypting a disc: the last part of \<^verbatim>\<open>src/libaacs/aacs.c\<close>.  Aligned units of 6144 bytes are
  decrypted with the key of the current CPS unit, or with the first key that yields a transport
  stream; bus encryption is removed before.
\<close>

definition SECTOR_LEN :: nat where "SECTOR_LEN = 2048"
definition ALIGNED_UNIT_LEN :: nat where "ALIGNED_UNIT_LEN = 6144"

lemmas unit_lens = SECTOR_LEN_def ALIGNED_UNIT_LEN_def

section \<open>Units\<close>

text \<open>Whether every packet starts with the sync byte; the permission bits are cleared on the way.\<close>

function verify_ts_loop :: "byte list \<Rightarrow> nat \<Rightarrow> (bool \<times> byte list) ub" where
  "verify_ts_loop buf i =
     (if i < ALIGNED_UNIT_LEN then do {
        sync \<leftarrow> rd buf (i + 4);
        if sync \<noteq> 0x47 then Some (False, buf)
        else do {
          b \<leftarrow> rd buf i;
          verify_ts_loop (buf[i := b AND NOT 0xc0]) (i + 192)
        }
      } else Some (True, buf))"
  by pat_completeness auto
termination
  by (relation "measure (\<lambda>(buf, i). ALIGNED_UNIT_LEN - i)") auto

declare verify_ts_loop.simps [simp del]

definition verify_ts :: "byte list \<Rightarrow> (bool \<times> byte list) ub" where
  "verify_ts buf = verify_ts_loop buf 0"

definition uk_key :: "aacs \<Rightarrow> nat \<Rightarrow> byte list ub" where
  "uk_key a i = do {
     uk \<leftarrow> aa_uk a;
     keys \<leftarrow> dec_uk uk;
     if i < length keys then Some (keys ! i) else None
   }"

text \<open>
  \<open>in_buf\<close> is \<open>None\<close> for decryption in place.  Errors of the cipher are only logged; \<open>key\<close> is
  uninitialised before.
\<close>

definition decrypt_unit ::
    "('s, 'd) aacs_env \<Rightarrow> aacs \<Rightarrow> byte list \<Rightarrow> byte list ptr \<Rightarrow> nat \<Rightarrow> (bool \<times> byte list) ub" where
  "decrypt_unit A a out_buf in_buf curr_uk = do {
     out_buf \<leftarrow> (case in_buf of None \<Rightarrow> Some out_buf
       | Some inp \<Rightarrow> do { h \<leftarrow> rdn inp 0 16; memcpy_at out_buf 0 h });
     k \<leftarrow> uk_key a curr_uk;
     h \<leftarrow> rdn out_buf 0 16;
     let key = snd (crypto_aes128e (ae_gcrypt A) k (Some h) (fst (me_loc (ae_lib A))));
     let key = xor_bytes key h;
     body \<leftarrow> rdn out_buf 16 (ALIGNED_UNIT_LEN - 16);
     inp \<leftarrow> (case in_buf of None \<Rightarrow> Some None
       | Some inp \<Rightarrow> map_option Some (rdn inp 16 (ALIGNED_UNIT_LEN - 16)));
     out_buf \<leftarrow> memcpy_at out_buf 16 (snd (crypto_aacs_decrypt (ae_gcrypt A) key body inp));
     verify_ts out_buf
   }"

section \<open>Bus encryption\<close>

function bus_loop :: "('s, 'd) aacs_env \<Rightarrow> byte list \<Rightarrow> byte list \<Rightarrow> nat \<Rightarrow> byte list ub" where
  "bus_loop A key buf i =
     (if i < ALIGNED_UNIT_LEN then do {
        sector \<leftarrow> rdn buf (i + 16) (SECTOR_LEN - 16);
        buf \<leftarrow> memcpy_at buf (i + 16) (snd (crypto_aacs_decrypt (ae_gcrypt A) key sector None));
        bus_loop A key buf (i + SECTOR_LEN)
      } else Some buf)"
  by pat_completeness auto
termination
  by (relation "measure (\<lambda>(A, key, buf, i). ALIGNED_UNIT_LEN - i)") (auto simp: unit_lens)

declare bus_loop.simps [simp del]

definition decrypt_unit_bus :: "('s, 'd) aacs_env \<Rightarrow> aacs \<Rightarrow> byte list \<Rightarrow> byte list ub" where
  "decrypt_unit_bus A a buf =
     (if aa_bee a \<and> aa_bec a > 0 then bus_loop A (aa_read_data_key a) buf 0 else Some buf)"

definition aacs_decrypt_bus :: "('s, 'd) aacs_env \<Rightarrow> aacs \<Rightarrow> byte list \<Rightarrow> (int \<times> byte list) ub" where
  "aacs_decrypt_bus A a buf = do {
     b \<leftarrow> rd buf 0;
     buf \<leftarrow> (if b AND 0xc0 \<noteq> 0 then decrypt_unit_bus A a buf else Some buf);
     Some (1, buf)
   }"

section \<open>The unit of the application\<close>

text \<open>
  Trying the keys from \<open>i\<close> on into \<open>out_buf\<close>: the index of the first key that works, and the
  decrypted unit.
\<close>

function try_keys ::
    "('s, 'd) aacs_env \<Rightarrow> aacs \<Rightarrow> byte list \<Rightarrow> byte list \<Rightarrow> nat \<Rightarrow> nat \<Rightarrow> (nat \<times> byte list) ptr ub" where
  "try_keys A a out_buf buf n i =
     (if i < n then do {
        (ok, out_buf) \<leftarrow> decrypt_unit A a out_buf (Some buf) i;
        if ok then Some (Some (i, out_buf)) else try_keys A a out_buf buf n (i + 1)
      } else Some None)"
  by pat_completeness auto
termination
  by (relation "measure (\<lambda>(A, a, out_buf, buf, n, i). n - i)") auto

declare try_keys.simps [simp del]

definition keys_loaded :: "aacs \<Rightarrow> bool" where
  "keys_loaded a \<longleftrightarrow> (case aa_uk a of None \<Rightarrow> False | Some uk \<Rightarrow> dec_uk uk \<noteq> None)"

text \<open>Return value, object and buffer; \<open>out_buf0\<close> is the uninitialised local buffer.\<close>

definition aacs_decrypt_unit ::
    "('s, 'd) aacs_env \<Rightarrow> aacs \<Rightarrow> byte list \<Rightarrow> byte list \<Rightarrow> (int \<times> aacs \<times> byte list) ub" where
  "aacs_decrypt_unit A a out_buf0 buf = do {
     b \<leftarrow> rd buf 0;
     if b AND 0xc0 = 0 then Some (1, a, buf)
     else if \<not> keys_loaded a then Some (- 1, a, buf)
     else do {
       buf \<leftarrow> decrypt_unit_bus A a buf;
       uk \<leftarrow> aa_uk a;
       if aa_cps_unit_selected a \<or> num_uk uk = 1 then do {
         (ok, buf) \<leftarrow> decrypt_unit A a buf None (aa_current_cps_unit a);
         Some (if ok then 1 else 0, a, buf)
       } else do {
         r \<leftarrow> try_keys A a out_buf0 buf (num_uk uk) 0;
         case r of None \<Rightarrow> Some (0, a, buf)
         | Some (i, out_buf) \<Rightarrow> do {
             buf \<leftarrow> memcpy_at buf 0 (take ALIGNED_UNIT_LEN out_buf);
             Some (1, a\<lparr>aa_current_cps_unit := i mod 2 ^ 16, aa_cps_unit_selected := True\<rparr>, buf)
           }
       }
     }
   }"

section \<open>Titles\<close>

definition cps_unit :: "aacs ptr \<Rightarrow> nat \<Rightarrow> int ub" where
  "cps_unit a title =
     (case a of None \<Rightarrow> Some (- 1)
      | Some a \<Rightarrow> (case aa_uk a of None \<Rightarrow> Some (- 1)
        | Some uk \<Rightarrow> (case title_cps_unit uk of None \<Rightarrow> Some (- 1)
          | Some ts \<Rightarrow>
              if title = 0xffff then (if 0 < length ts then Some (int (ts ! 0)) else None)
              else if title \<le> num_titles uk then
                (if title + 1 < length ts then Some (int (ts ! (title + 1))) else None)
              else Some (- 1))))"

definition aacs_get_basic_cci :: "('s, 'd) aacs_env \<Rightarrow> aacs ptr \<Rightarrow> world \<Rightarrow> nat \<Rightarrow> basic_cci ptr ub" where
  "aacs_get_basic_cci A a w title = do {
     unit \<leftarrow> cps_unit a title;
     if unit < 0 then Some None
     else do {
       a \<leftarrow> a;
       cci \<leftarrow> read_cci A a w (nat unit);
       case cci of None \<Rightarrow> Some None
       | Some cci \<Rightarrow>
           Some (case cci_get_basic_cci cci of None \<Rightarrow> None
             | Some b \<Rightarrow> if ae_alloc A 136 then Some b else None)
     }
   }"

definition aacs_select_title :: "aacs \<Rightarrow> nat \<Rightarrow> aacs ub" where
  "aacs_select_title a title =
     (case aa_uk a of None \<Rightarrow> Some a
      | Some uk \<Rightarrow> (case title_cps_unit uk of None \<Rightarrow> Some a
        | Some ts \<Rightarrow>
            if title = 0xffff then
              (if 0 < length ts
               then Some (a\<lparr>aa_current_cps_unit := ts ! 0, aa_cps_unit_selected := False\<rparr>) else None)
            else if title \<le> num_titles uk then
              (if title + 1 < length ts
               then Some (a\<lparr>aa_current_cps_unit := ts ! (title + 1), aa_cps_unit_selected := True\<rparr>) else None)
            else Some a))"

section \<open>What decryption of a unit computes\<close>

text \<open>The reference: a unit is a transport stream when all 32 packets start with the sync byte.\<close>

definition is_ts :: "byte list \<Rightarrow> bool" where
  "is_ts buf \<longleftrightarrow> (\<forall>j < 32. buf ! (192 * j + 4) = 0x47)"

definition clear_from :: "nat \<Rightarrow> byte list \<Rightarrow> byte list" where
  "clear_from k buf =
     map (\<lambda>i. if i mod 192 = 0 \<and> k \<le> i then buf ! i AND NOT 0xc0 else buf ! i) [0..<length buf]"

definition clear_cpi :: "byte list \<Rightarrow> byte list" where
  "clear_cpi buf = clear_from 0 buf"

lemma length_clear_from [simp]: "length (clear_from k buf) = length buf"
  by (simp add: clear_from_def)

lemma length_clear_cpi [simp]: "length (clear_cpi buf) = length buf"
  by (simp add: clear_cpi_def)

lemma clear_from_end: "length buf \<le> k \<Longrightarrow> clear_from k buf = buf"
  by (rule nth_equalityI) (simp_all add: clear_from_def)

lemma clear_from_step:
  assumes "192 * j < length buf"
  shows "clear_from (192 * Suc j) (buf[192 * j := buf ! (192 * j) AND NOT 0xc0]) = clear_from (192 * j) buf"
proof (rule nth_equalityI)
  show "length (clear_from (192 * Suc j) (buf[192 * j := buf ! (192 * j) AND NOT 0xc0])) = length (clear_from (192 * j) buf)"
    by simp
  fix i
  assume "i < length (clear_from (192 * Suc j) (buf[192 * j := buf ! (192 * j) AND NOT 0xc0]))"
  then have i: "i < length buf" by simp
  have "i = 192 * j" if "i mod 192 = 0" "192 * j \<le> i" "i < 192 * Suc j"
  proof -
    from that(1) obtain q where q: "i = 192 * q" by auto
    with that have "j \<le> q" "q < Suc j" by simp_all
    with q show ?thesis by simp
  qed
  then show "clear_from (192 * Suc j) (buf[192 * j := buf ! (192 * j) AND NOT 0xc0]) ! i = clear_from (192 * j) buf ! i"
    using i by (cases "i = 192 * j") (auto simp: clear_from_def not_le)
qed

lemma verify_ts_loop_eq:
  assumes "length buf = 6144" and "j \<le> 32"
  shows "if \<forall>k. j \<le> k \<and> k < 32 \<longrightarrow> buf ! (192 * k + 4) = 0x47
    then verify_ts_loop buf (192 * j) = Some (True, clear_from (192 * j) buf)
    else \<exists>buf'. verify_ts_loop buf (192 * j) = Some (False, buf') \<and> length buf' = 6144"
  using assms
proof (induction "32 - j" arbitrary: j buf)
  case 0
  then show ?case by (simp add: verify_ts_loop.simps [of buf] unit_lens clear_from_end)
next
  case (Suc d)
  then have j: "j < 32" by simp
  have rds: "rd buf (192 * j + 4) = Some (buf ! (192 * j + 4))" "rd buf (192 * j) = Some (buf ! (192 * j))"
    using j Suc.prems(1) by (simp_all add: rd_def)
  let ?b = "buf[192 * j := buf ! (192 * j) AND NOT 0xc0]"
  show ?case
  proof (cases "buf ! (192 * j + 4) = 0x47")
    case False
    then have "verify_ts_loop buf (192 * j) = Some (False, buf)"
      using j rds by (subst verify_ts_loop.simps) (simp add: unit_lens)
    with False j Suc.prems(1) show ?thesis by auto
  next
    case True
    have "192 * j + 192 = 192 * Suc j" by simp
    then have step: "verify_ts_loop buf (192 * j) = verify_ts_loop ?b (192 * Suc j)"
      using j rds True by (subst verify_ts_loop.simps) (simp only: unit_lens, simp)
    have sync: "?b ! (192 * k + 4) = buf ! (192 * k + 4)" for k
    proof -
      have "192 * k + 4 \<noteq> 192 * j" by presburger
      then show ?thesis by simp
    qed
    have all: "(\<forall>k. j \<le> k \<and> k < 32 \<longrightarrow> buf ! (192 * k + 4) = 0x47) \<longleftrightarrow>
        (\<forall>k. Suc j \<le> k \<and> k < 32 \<longrightarrow> ?b ! (192 * k + 4) = 0x47)"
      unfolding sync using True by (metis Suc_leD Suc_leI le_neq_implies_less)
    have IH: "if \<forall>k. Suc j \<le> k \<and> k < 32 \<longrightarrow> ?b ! (192 * k + 4) = 0x47
      then verify_ts_loop ?b (192 * Suc j) = Some (True, clear_from (192 * Suc j) ?b)
      else \<exists>buf'. verify_ts_loop ?b (192 * Suc j) = Some (False, buf') \<and> length buf' = 6144"
      using Suc.hyps(2) Suc.prems j by (intro Suc.hyps(1)) simp_all
    have "192 * j < length buf" using j Suc.prems(1) by simp
    then have cl: "clear_from (192 * Suc j) ?b = clear_from (192 * j) buf" by (rule clear_from_step)
    show ?thesis unfolding all step cl [symmetric] by (rule IH)
  qed
qed

lemma verify_ts_True: "length buf = 6144 \<Longrightarrow> is_ts buf \<Longrightarrow> verify_ts buf = Some (True, clear_cpi buf)"
  using verify_ts_loop_eq [of buf 0] by (simp add: verify_ts_def is_ts_def clear_cpi_def split: if_splits)

lemma verify_ts_False:
  "length buf = 6144 \<Longrightarrow> \<not> is_ts buf \<Longrightarrow> \<exists>b. verify_ts buf = Some (False, b) \<and> length b = 6144"
  using verify_ts_loop_eq [of buf 0] by (auto simp: verify_ts_def is_ts_def split: if_splits)

text \<open>A library whose set-up calls succeed.\<close>

definition cipher_ok :: "'s gcrypt \<Rightarrow> bool" where
  "cipher_ok G \<longleftrightarrow> gcrypt_ok G \<and> (\<forall>m. g_cipher_open G m = 0) \<and> (\<forall>k. g_cipher_setkey G k = 0) \<and>
     (\<forall>v. g_cipher_setiv G v = 0)"

text \<open>The key of a unit and its plain text, for the unit key \<open>k\<close>.\<close>

definition block_key :: "'s gcrypt \<Rightarrow> byte list \<Rightarrow> byte list \<Rightarrow> byte list" where
  "block_key G k buf = xor_bytes (snd (g_ecb_encrypt G k (take 16 buf))) (take 16 buf)"

definition plain_unit :: "'s gcrypt \<Rightarrow> byte list \<Rightarrow> byte list \<Rightarrow> byte list" where
  "plain_unit G k buf = take 16 buf @ snd (g_cbc_decrypt G (block_key G k buf) aacs_iv (drop 16 buf))"

lemma length_plain_unit: "gcrypt_ok G \<Longrightarrow> length buf = 6144 \<Longrightarrow> length (plain_unit G k buf) = 6144"
  by (simp add: plain_unit_def gcrypt_ok_def)

lemma cipher_ok_cbc:
  "cipher_ok G \<Longrightarrow> crypto_aacs_decrypt G key out inp =
     g_cbc_decrypt G key aacs_iv (case inp of None \<Rightarrow> out | Some d \<Rightarrow> d)"
  by (simp add: cipher_ok_def crypto_aacs_decrypt_def)

lemma cipher_ok_aes128e: "cipher_ok G \<Longrightarrow> crypto_aes128e G key (Some d) dst = g_ecb_encrypt G key d"
  by (simp add: cipher_ok_def crypto_aes128e_def)

lemma drop_16_unit: "length buf = 6144 \<Longrightarrow> take 6128 (drop 16 buf) = drop 16 buf"
  by simp

lemma decrypt_unit_eq:
  assumes "cipher_ok (ae_gcrypt A)" and "length out = 6144" and "length buf = 6144" and "uk_key a i = Some k"
    and "inp = Some buf \<or> inp = None \<and> out = buf"
  shows "decrypt_unit A a out inp i = verify_ts (plain_unit (ae_gcrypt A) k buf)"
proof -
  let ?G = "ae_gcrypt A"
  have g: "gcrypt_ok ?G" using assms(1) by (simp add: cipher_ok_def)
  define d where "d = snd (g_cbc_decrypt ?G (block_key ?G k buf) aacs_iv (drop 16 buf))"
  have ld: "length d = 6128" using g assms(3) by (simp add: d_def gcrypt_ok_def)
  have p: "plain_unit ?G k buf = take 16 buf @ d" by (simp add: plain_unit_def d_def)
  show ?thesis
  proof (cases inp)
    case None
    with assms(5) have o: "out = buf" by simp
    have "memcpy_at buf 16 d = Some (take 16 buf @ d)"
      using ld assms(3) by (simp add: memcpy_at_def)
    then show ?thesis
      using assms(3) None
      by (simp add: decrypt_unit_def o assms(4) rdn_def unit_lens cipher_ok_aes128e [OF assms(1)]
          cipher_ok_cbc [OF assms(1)] p block_key_def [symmetric] d_def [symmetric])
  next
    case (Some b)
    with assms(5) have b: "b = buf" by simp
    have m1: "memcpy_at out 0 (take 16 buf) = Some (take 16 buf @ drop 16 out)"
      using assms(2, 3) by (simp add: memcpy_at_def)
    have "memcpy_at (take 16 buf @ drop 16 out) 16 d = Some (take 16 buf @ d)"
      using ld assms(2, 3) by (simp add: memcpy_at_def)
    then show ?thesis
      using assms(2, 3) Some
      by (simp add: decrypt_unit_def b m1 assms(4) rdn_def unit_lens cipher_ok_aes128e [OF assms(1)]
          cipher_ok_cbc [OF assms(1)] p block_key_def [symmetric] d_def [symmetric])
  qed
qed

section \<open>What removing bus encryption computes\<close>

definition bus_sector :: "'s gcrypt \<Rightarrow> byte list \<Rightarrow> byte list \<Rightarrow> byte list" where
  "bus_sector G key s = take 16 s @ snd (g_cbc_decrypt G key aacs_iv (drop 16 s))"

definition bus_plain :: "'s gcrypt \<Rightarrow> byte list \<Rightarrow> byte list \<Rightarrow> byte list" where
  "bus_plain G key buf = concat (map (\<lambda>i. bus_sector G key (take 2048 (drop (2048 * i) buf))) [0..<3])"

lemma length_bus_sector: "gcrypt_ok G \<Longrightarrow> length s = 2048 \<Longrightarrow> length (bus_sector G key s) = 2048"
  by (simp add: bus_sector_def gcrypt_ok_def)

lemma bus_loop_step:
  assumes "cipher_ok (ae_gcrypt A)" and "length pre < 6144" and "length s = 2048"
  shows "bus_loop A key (pre @ s @ post) (length pre) =
    bus_loop A key (pre @ bus_sector (ae_gcrypt A) key s @ post) (length pre + 2048)"
proof -
  let ?G = "ae_gcrypt A"
  have g: "gcrypt_ok ?G" using assms(1) by (simp add: cipher_ok_def)
  define d where "d = snd (g_cbc_decrypt ?G key aacs_iv (drop 16 s))"
  have ld: "length d = 2032" using g assms(3) by (simp add: d_def gcrypt_ok_def)
  have r: "rdn (pre @ s @ post) (length pre + 16) 2032 = Some (drop 16 s)"
    using assms(3) by (simp add: rdn_append_right) (simp add: rdn_def)
  have m: "memcpy_at (pre @ s @ post) (length pre + 16) d = Some (pre @ bus_sector ?G key s @ post)"
    using assms(3) ld by (simp add: memcpy_at_def bus_sector_def d_def)
  show ?thesis
    using assms(2) r m
    by (subst bus_loop.simps) (simp add: unit_lens cipher_ok_cbc [OF assms(1)] d_def [symmetric])
qed

lemma bus_loop_eq:
  assumes "cipher_ok (ae_gcrypt A)" and "length buf = 6144"
  shows "bus_loop A key buf 0 = Some (bus_plain (ae_gcrypt A) key buf)"
proof -
  let ?G = "ae_gcrypt A"
  have g: "gcrypt_ok ?G" using assms(1) by (simp add: cipher_ok_def)
  define s0 s1 s2 where "s0 = take 2048 buf" and "s1 = take 2048 (drop 2048 buf)" and "s2 = drop 4096 buf"
  have len: "length s0 = 2048" "length s1 = 2048" "length s2 = 2048" using assms(2) by (simp_all add: s0_def s1_def s2_def)
  note lb = length_bus_sector [OF g len(1), of key] length_bus_sector [OF g len(2), of key]
  have "drop 2048 buf = s1 @ s2" unfolding s1_def s2_def by (metis append_take_drop_id drop_drop numeral_Bit0)
  then have buf: "buf = s0 @ s1 @ s2" unfolding s0_def by (metis append_take_drop_id)
  have "bus_loop A key (s0 @ s1 @ s2) 0 = bus_loop A key (bus_sector ?G key s0 @ s1 @ s2) 2048"
    using bus_loop_step [OF assms(1), of "[]" s0 key "s1 @ s2"] len by simp
  also have "\<dots> = bus_loop A key ((bus_sector ?G key s0 @ bus_sector ?G key s1) @ s2) 4096"
    using bus_loop_step [OF assms(1), of "bus_sector ?G key s0" s1 key s2] len lb by simp
  also have "\<dots> = bus_loop A key ((bus_sector ?G key s0 @ bus_sector ?G key s1) @ bus_sector ?G key s2) 6144"
    using bus_loop_step [OF assms(1), of "bus_sector ?G key s0 @ bus_sector ?G key s1" s2 key "[]"] len lb by simp
  also have "\<dots> = Some (bus_sector ?G key s0 @ bus_sector ?G key s1 @ bus_sector ?G key s2)"
    by (simp add: bus_loop.simps unit_lens)
  finally have "bus_loop A key buf 0 = Some (bus_sector ?G key s0 @ bus_sector ?G key s1 @ bus_sector ?G key s2)"
    using buf by simp
  moreover have "take 2048 (drop 4096 buf) = s2" using assms(2) by (simp add: s2_def)
  ultimately show ?thesis
    by (simp add: bus_plain_def upt_rec s0_def s1_def)
qed

text \<open>The buffer after bus decryption, whether it is in use or not.\<close>

definition bus_removed :: "('s, 'd) aacs_env \<Rightarrow> aacs \<Rightarrow> byte list \<Rightarrow> byte list" where
  "bus_removed A a buf =
     (if aa_bee a \<and> aa_bec a > 0 then bus_plain (ae_gcrypt A) (aa_read_data_key a) buf else buf)"

lemma length_bus_removed:
  "gcrypt_ok (ae_gcrypt A) \<Longrightarrow> length buf = 6144 \<Longrightarrow> length (bus_removed A a buf) = 6144"
  by (simp add: bus_removed_def bus_plain_def upt_rec length_bus_sector)

lemma decrypt_unit_bus_eq:
  "cipher_ok (ae_gcrypt A) \<Longrightarrow> length buf = 6144 \<Longrightarrow> decrypt_unit_bus A a buf = Some (bus_removed A a buf)"
  by (simp add: decrypt_unit_bus_def bus_removed_def bus_loop_eq)

section \<open>Invariant of the object\<close>

definition keys_ok :: "aacs_uk \<Rightarrow> bool" where
  "keys_ok uk \<longleftrightarrow> (case dec_uk uk of None \<Rightarrow> True
     | Some ks \<Rightarrow> length ks = num_uk uk \<and> 0 < num_uk uk)"

definition aacs_inv :: "aacs \<Rightarrow> bool" where
  "aacs_inv a \<longleftrightarrow> (case aa_uk a of None \<Rightarrow> aa_current_cps_unit a = 0
     | Some uk \<Rightarrow> keys_ok uk \<and> wf_titles uk \<and> aa_current_cps_unit a < max 1 (num_uk uk))"

lemma uk_key_inv:
  assumes "aacs_inv a" and "keys_loaded a"
  obtains uk ks where "aa_uk a = Some uk" and "dec_uk uk = Some ks" and "length ks = num_uk uk"
    and "aa_current_cps_unit a < num_uk uk" and "\<And>i. i < num_uk uk \<Longrightarrow> uk_key a i = Some (ks ! i)"
proof -
  from assms(2) obtain uk ks where u: "aa_uk a = Some uk" "dec_uk uk = Some ks"
    by (auto simp: keys_loaded_def split: option.splits)
  with assms(1) have "length ks = num_uk uk" "0 < num_uk uk" "aa_current_cps_unit a < num_uk uk"
    by (auto simp: aacs_inv_def keys_ok_def max_def split: if_splits)
  with u show ?thesis by (intro that [OF u]) (simp_all add: uk_key_def)
qed

section \<open>Detecting the unit key\<close>

lemma try_keys_eq:
  assumes "cipher_ok (ae_gcrypt A)" and "length buf = 6144" and "length out = 6144" and "i \<le> n"
    and "\<And>i. i < n \<Longrightarrow> uk_key a i = Some (ks ! i)"
  shows "try_keys A a out buf n i =
    Some (map_option (\<lambda>i. (i, clear_cpi (plain_unit (ae_gcrypt A) (ks ! i) buf)))
      (find (\<lambda>i. is_ts (plain_unit (ae_gcrypt A) (ks ! i) buf)) [i..<n]))"
  using assms(3, 4)
proof (induction "n - i" arbitrary: i out)
  case 0
  then show ?case by (simp add: try_keys.simps)
next
  case (Suc d)
  then have i: "i < n" by simp
  let ?p = "plain_unit (ae_gcrypt A) (ks ! i) buf"
  have g: "gcrypt_ok (ae_gcrypt A)" using assms(1) by (simp add: cipher_ok_def)
  have u: "decrypt_unit A a out (Some buf) i = verify_ts ?p"
    by (rule decrypt_unit_eq [OF assms(1) Suc.prems(1) assms(2) assms(5) [OF i]]) simp
  have lp: "length ?p = 6144" by (rule length_plain_unit [OF g assms(2)])
  show ?case
  proof (cases "is_ts ?p")
    case True
    with i u verify_ts_True [OF lp True] show ?thesis
      by (subst try_keys.simps) (simp add: upt_conv_Cons)
  next
    case False
    from verify_ts_False [OF lp False] obtain b where b: "verify_ts ?p = Some (False, b)" "length b = 6144" by blast
    have "try_keys A a out buf n i = try_keys A a b buf n (i + 1)"
      using i u b by (subst try_keys.simps) simp
    also have "\<dots> = Some (map_option (\<lambda>i. (i, clear_cpi (plain_unit (ae_gcrypt A) (ks ! i) buf)))
      (find (\<lambda>i. is_ts (plain_unit (ae_gcrypt A) (ks ! i) buf)) [i + 1..<n]))"
      using Suc.hyps(2) i b(2) by (intro Suc.hyps(1)) simp_all
    finally show ?thesis using i False by (simp add: upt_conv_Cons)
  qed
qed

text \<open>The function of the application on every branch.\<close>

lemma aacs_decrypt_unit_eq:
  assumes "cipher_ok (ae_gcrypt A)" and "length buf = 6144" and "length out = 6144" and "aacs_inv a"
    and "buf ! 0 AND 0xc0 \<noteq> 0" and "keys_loaded a" and "aa_uk a = Some uk" and "dec_uk uk = Some ks"
  shows "aacs_decrypt_unit A a out buf =
    (let buf = bus_removed A a buf; G = ae_gcrypt A in
     if aa_cps_unit_selected a \<or> num_uk uk = 1 then
       map_option (\<lambda>(ok, b). (if ok then 1 else 0, a, b))
         (verify_ts (plain_unit G (ks ! aa_current_cps_unit a) buf))
     else (case find (\<lambda>i. is_ts (plain_unit G (ks ! i) buf)) [0..<num_uk uk] of
         None \<Rightarrow> Some (0, a, buf)
       | Some i \<Rightarrow> Some (1, a\<lparr>aa_current_cps_unit := i mod 2 ^ 16, aa_cps_unit_selected := True\<rparr>,
           clear_cpi (plain_unit G (ks ! i) buf))))"
proof -
  let ?G = "ae_gcrypt A" and ?b = "bus_removed A a buf"
  have g: "gcrypt_ok ?G" using assms(1) by (simp add: cipher_ok_def)
  have lb: "length ?b = 6144" by (rule length_bus_removed [OF g assms(2)])
  obtain uk' ks' where "aa_uk a = Some uk'" "dec_uk uk' = Some ks'" "aa_current_cps_unit a < num_uk uk'"
    "\<And>i. i < num_uk uk' \<Longrightarrow> uk_key a i = Some (ks' ! i)"
    by (rule uk_key_inv [OF assms(4, 6)]) blast
  with assms(7, 8) have cur: "aa_current_cps_unit a < num_uk uk" and key: "\<And>i. i < num_uk uk \<Longrightarrow> uk_key a i = Some (ks ! i)"
    by simp_all
  have b0: "rd buf 0 = Some (buf ! 0)" using assms(2) by (simp add: rd_def)
  note bus = decrypt_unit_bus_eq [OF assms(1, 2), of a]
  show ?thesis
  proof (cases "aa_cps_unit_selected a \<or> num_uk uk = 1")
    case True
    have "decrypt_unit A a ?b None (aa_current_cps_unit a) = verify_ts (plain_unit ?G (ks ! aa_current_cps_unit a) ?b)"
      by (rule decrypt_unit_eq [OF assms(1) lb lb key [OF cur]]) simp
    with True assms(5-7) b0 bus show ?thesis
      by (cases "verify_ts (plain_unit ?G (ks ! aa_current_cps_unit a) ?b)") (auto simp: aacs_decrypt_unit_def)
  next
    case False
    note tk = try_keys_eq [OF assms(1) lb assms(3) _ key, of 0]
    have cp: "memcpy_at ?b 0 (take ALIGNED_UNIT_LEN (clear_cpi (plain_unit ?G k ?b))) = Some (clear_cpi (plain_unit ?G k ?b))" for k
      using lb length_plain_unit [OF g lb, of k] by (simp add: memcpy_at_def unit_lens)
    from False assms(5-7) b0 bus tk cp show ?thesis
      by (auto simp: aacs_decrypt_unit_def Let_def split: option.splits)
  qed
qed

section \<open>Units as a disc holds them\<close>

text \<open>
  The other direction, on the side of whoever mastered the disc: \<open>enc\<close> is an inverse of the CBC
  mode the library decrypts with.
\<close>

definition cbc_inverse :: "'s gcrypt \<Rightarrow> (byte list \<Rightarrow> byte list \<Rightarrow> byte list) \<Rightarrow> bool" where
  "cbc_inverse G enc \<longleftrightarrow> (\<forall>k d. length (enc k d) = length d \<and> snd (g_cbc_decrypt G k aacs_iv (enc k d)) = d)"

definition encrypt_unit :: "'s gcrypt \<Rightarrow> (byte list \<Rightarrow> byte list \<Rightarrow> byte list) \<Rightarrow> byte list \<Rightarrow> byte list \<Rightarrow> byte list" where
  "encrypt_unit G enc k u = take 16 u @ enc (block_key G k u) (drop 16 u)"

definition encrypt_sector :: "(byte list \<Rightarrow> byte list \<Rightarrow> byte list) \<Rightarrow> byte list \<Rightarrow> byte list \<Rightarrow> byte list" where
  "encrypt_sector enc key s = take 16 s @ enc key (drop 16 s)"

definition encrypt_bus ::
    "('s, 'd) aacs_env \<Rightarrow> aacs \<Rightarrow> (byte list \<Rightarrow> byte list \<Rightarrow> byte list) \<Rightarrow> byte list \<Rightarrow> byte list" where
  "encrypt_bus A a enc buf =
     (if aa_bee a \<and> aa_bec a > 0
      then concat (map (\<lambda>i. encrypt_sector enc (aa_read_data_key a) (take 2048 (drop (2048 * i) buf))) [0..<3])
      else buf)"

lemma plain_encrypt_unit:
  assumes "cbc_inverse G enc" and "length u = 6144"
  shows "plain_unit G k (encrypt_unit G enc k u) = u" "length (encrypt_unit G enc k u) = 6144"
  using assms by (simp_all add: plain_unit_def encrypt_unit_def block_key_def cbc_inverse_def)

lemma bus_sector_encrypt:
  "cbc_inverse G enc \<Longrightarrow> length s = 2048 \<Longrightarrow>
     bus_sector G key (encrypt_sector enc key s) = s \<and> length (encrypt_sector enc key s) = 2048"
  by (simp add: bus_sector_def encrypt_sector_def cbc_inverse_def)

lemma sectors:
  assumes "length buf = 6144"
  obtains s0 s1 s2 :: "byte list" where "buf = s0 @ s1 @ s2" and "length s0 = 2048" and "length s1 = 2048" and "length s2 = 2048"
proof
  show "buf = take 2048 buf @ take 2048 (drop 2048 buf) @ drop 4096 buf"
    by (metis append_take_drop_id drop_drop numeral_Bit0)
qed (use assms in simp_all)

lemma three_sectors:
  assumes "length s0 = 2048" and "length s1 = 2048" and "length s2 = 2048"
  shows "map (\<lambda>i. take 2048 (drop (2048 * i) (s0 @ s1 @ s2))) [0..<3] = [s0, s1, s2]"
  using assms by (simp add: upt_rec)

lemma bus_removed_encrypt_bus:
  assumes "cbc_inverse (ae_gcrypt A) enc" and "length buf = 6144"
  shows "bus_removed A a (encrypt_bus A a enc buf) = buf" "length (encrypt_bus A a enc buf) = 6144"
proof -
  let ?e = "encrypt_sector enc (aa_read_data_key a)" and ?d = "bus_sector (ae_gcrypt A) (aa_read_data_key a)"
  obtain s0 s1 s2 where s: "buf = s0 @ s1 @ s2" "length s0 = 2048" "length s1 = 2048" "length s2 = 2048"
    by (rule sectors [OF assms(2)])
  note e = bus_sector_encrypt [OF assms(1), of _ "aa_read_data_key a"]
  have c: "concat (map (\<lambda>i. f (take 2048 (drop (2048 * i) (t0 @ t1 @ t2)))) [0..<3]) = f t0 @ f t1 @ f t2"
    if "length t0 = 2048" "length t1 = 2048" "length t2 = 2048" for f and t0 t1 t2 :: "byte list"
    using arg_cong [OF three_sectors [OF that], of "\<lambda>l. concat (map f l)"] by (simp add: comp_def)
  have "concat (map (\<lambda>i. ?d (take 2048 (drop (2048 * i) (?e s0 @ ?e s1 @ ?e s2)))) [0..<3]) = s0 @ s1 @ s2"
    using e s(2-4) by (subst c) simp_all
  then show "bus_removed A a (encrypt_bus A a enc buf) = buf" "length (encrypt_bus A a enc buf) = 6144"
    using e s c [OF s(2-4), of ?e] by (simp_all add: bus_removed_def encrypt_bus_def bus_plain_def)
qed

lemma nth_0_encrypt: "length u = 6144 \<Longrightarrow> encrypt_unit G enc k u ! 0 = u ! 0"
  by (simp add: encrypt_unit_def nth_append)

lemma nth_0_encrypt_bus: "length buf = 6144 \<Longrightarrow> encrypt_bus A a enc buf ! 0 = buf ! 0"
  by (simp add: encrypt_bus_def encrypt_sector_def upt_rec nth_append)

lemma decrypt_encrypted_unit:
  assumes "cipher_ok (ae_gcrypt A)" and "cbc_inverse (ae_gcrypt A) enc"
    and "length u = 6144" and "is_ts u" and "u ! 0 AND 0xc0 \<noteq> 0" and "length out = 6144"
    and "aacs_inv a" and "aa_uk a = Some uk" and "dec_uk uk = Some ks"
    and "aa_cps_unit_selected a \<or> num_uk uk = 1"
  shows "aacs_decrypt_unit A a out
    (encrypt_bus A a enc (encrypt_unit (ae_gcrypt A) enc (ks ! aa_current_cps_unit a) u)) = Some (1, a, clear_cpi u)"
proof -
  let ?G = "ae_gcrypt A" and ?k = "ks ! aa_current_cps_unit a"
  let ?e = "encrypt_unit ?G enc ?k u"
  note pe = plain_encrypt_unit [OF assms(2, 3), of ?k]
  note be = bus_removed_encrypt_bus [OF assms(2) pe(2), of a]
  have b0: "encrypt_bus A a enc ?e ! 0 AND 0xc0 \<noteq> 0"
    using assms(3, 5) nth_0_encrypt_bus [OF pe(2), of A a enc] nth_0_encrypt [OF assms(3), of ?G enc ?k] by simp
  have "keys_loaded a" using assms(8, 9) by (simp add: keys_loaded_def)
  from aacs_decrypt_unit_eq [OF assms(1) be(2) assms(6, 7) b0 this assms(8, 9)] assms(10)
  show ?thesis by (simp add: be(1) pe(1) verify_ts_True [OF assms(3, 4)])
qed

text \<open>
  C3: decryption undoes encryption.  A transport stream unit \<open>u\<close> with its copy permission bits set,
  encrypted with the key of the current CPS unit and, where disc and drive use it, with bus
  encryption on top, comes back from \<open>aacs_decrypt_unit\<close> with the result 1 and nothing changed
  but the copy permission bits, which are cleared in all 32 packets.
\<close>

theorem decrypt_unit_roundtrip:
  assumes "cipher_ok (ae_gcrypt A)" and "cbc_inverse (ae_gcrypt A) enc"
    and "length u = 6144" and "is_ts u" and "u ! 0 AND 0xc0 \<noteq> 0" and "length out = 6144"
    and "aacs_inv a" and "aa_uk a = Some uk" and "dec_uk uk = Some ks"
    and "aa_cps_unit_selected a \<or> num_uk uk = 1"
  shows "aacs_decrypt_unit A a out
    (encrypt_bus A a enc (encrypt_unit (ae_gcrypt A) enc (ks ! aa_current_cps_unit a) u)) = Some (1, a, clear_cpi u)"
  using assms by (rule decrypt_encrypted_unit)

text \<open>An object with two unit keys.\<close>

definition toy_uk :: aacs_uk where
  "toy_uk = empty_uk\<lparr>num_uk := 2, dec_uk := Some [replicate 16 1, replicate 16 2], num_titles := 1,
     title_cps_unit := Some [0, 1, 1]\<rparr>"

definition toy_aacs :: aacs where
  "toy_aacs = zero_aacs\<lparr>aa_uk := Some toy_uk, aa_current_cps_unit := 1, aa_cps_unit_selected := True,
     aa_bee := True, aa_bec := 1, aa_read_data_key := replicate 16 7\<rparr>"

definition toy_ts :: "byte list" where
  "toy_ts = concat (replicate 32 ([0xc1, 2, 3, 4, 0x47] @ zeros 187))"

definition toy_cbc :: "byte list \<Rightarrow> byte list \<Rightarrow> byte list" where
  "toy_cbc k d = snd (g_cbc_decrypt toy_gcrypt k aacs_iv d)"

lemma toy_cbc_inverse: "cbc_inverse toy_gcrypt toy_cbc"
proof -
  have "xor_bytes (xor_bytes d m) m = d" if "length d = length m" for d m :: "byte list"
    using that by (intro nth_equalityI) (simp_all add: xor_bytes_def xor.assoc)
  then show ?thesis by (simp add: cbc_inverse_def toy_cbc_def toy_gcrypt_def)
qed

lemma toy_cipher_ok: "cipher_ok toy_gcrypt"
  using toy_gcrypt_ok(1) by (simp add: cipher_ok_def) (simp add: toy_gcrypt_def)

lemma toy_aacs_inv: "aacs_inv toy_aacs"
  by (simp add: aacs_inv_def toy_aacs_def toy_uk_def keys_ok_def wf_titles_def empty_uk_def max_def)

lemma toy_aacs_fields [simp]:
  "aa_uk toy_aacs = Some toy_uk" "dec_uk toy_uk = Some [replicate 16 1, replicate 16 2]" "num_uk toy_uk = 2"
  "aa_cps_unit_selected toy_aacs" "aa_current_cps_unit toy_aacs = 1" "aa_bee toy_aacs" "aa_bec toy_aacs = 1"
  "aa_read_data_key toy_aacs = replicate 16 7"
  by (simp_all add: toy_aacs_def toy_uk_def)

lemma length_toy_ts: "length toy_ts = 6144"
  by (simp add: toy_ts_def length_concat sum_list_replicate)

lemma nth_packets:
  assumes "i < n" and "j < length p"
  shows "concat (replicate n p) ! (length p * i + j) = p ! j"
  using assms
proof (induction n arbitrary: i)
  case (Suc n)
  then show ?case by (cases i) (simp_all add: nth_append)
qed simp

lemma toy_ts_sync: "is_ts toy_ts" "toy_ts ! 0 AND 0xc0 \<noteq> 0"
proof -
  let ?p = "[0xc1, 2, 3, 4, 0x47] @ zeros 187 :: byte list"
  have l: "length ?p = 192" by simp
  have "toy_ts ! (192 * j + 4) = 0x47" if "j < 32" for j
    using nth_packets [of j 32 4 ?p] that l by (simp add: toy_ts_def)
  then show "is_ts toy_ts" by (simp add: is_ts_def)
  have "toy_ts ! 0 = 0xc1" using nth_packets [of 0 32 0 ?p] by (simp add: toy_ts_def)
  then show "toy_ts ! 0 AND 0xc0 \<noteq> 0" by simp
qed

theorem decrypt_unit_roundtrip_witness:
  "aacs_decrypt_unit toy_aacs_env toy_aacs (zeros 6144)
     (encrypt_bus toy_aacs_env toy_aacs toy_cbc (encrypt_unit toy_gcrypt toy_cbc (replicate 16 2) toy_ts)) =
   Some (1, toy_aacs, clear_cpi toy_ts)"
  using decrypt_unit_roundtrip [of toy_aacs_env toy_cbc toy_ts "zeros 6144" toy_aacs toy_uk]
    toy_cipher_ok toy_cbc_inverse length_toy_ts toy_ts_sync toy_aacs_inv by simp

text \<open>
  C20: detection of the unit key.  As long as no title was selected on a disc with several CPS
  units, a unit is decrypted with the first of the keys under which it becomes a transport stream;
  that key is then the current one.  When no key fits, the result is 0, the object is unchanged and
  the buffer holds the unit as it was, without bus encryption.
\<close>

theorem decrypt_unit_detects_key:
  assumes "cipher_ok (ae_gcrypt A)" and "length buf = 6144" and "length out = 6144"
    and "aacs_inv a" and "buf ! 0 AND 0xc0 \<noteq> 0" and "aa_uk a = Some uk" and "dec_uk uk = Some ks"
    and "\<not> aa_cps_unit_selected a" and "num_uk uk \<noteq> 1"
  shows "(\<forall>i < num_uk uk. is_ts (plain_unit (ae_gcrypt A) (ks ! i) (bus_removed A a buf)) \<longrightarrow>
      (\<forall>j < i. \<not> is_ts (plain_unit (ae_gcrypt A) (ks ! j) (bus_removed A a buf))) \<longrightarrow>
      aacs_decrypt_unit A a out buf = Some (1,
        a\<lparr>aa_current_cps_unit := i mod 2 ^ 16, aa_cps_unit_selected := True\<rparr>,
        clear_cpi (plain_unit (ae_gcrypt A) (ks ! i) (bus_removed A a buf)))) \<and>
    ((\<forall>i < num_uk uk. \<not> is_ts (plain_unit (ae_gcrypt A) (ks ! i) (bus_removed A a buf))) \<longrightarrow>
      aacs_decrypt_unit A a out buf = Some (0, a, bus_removed A a buf))"
proof -
  let ?P = "\<lambda>i. is_ts (plain_unit (ae_gcrypt A) (ks ! i) (bus_removed A a buf))"
  have "keys_loaded a" using assms(6, 7) by (simp add: keys_loaded_def)
  note eq = aacs_decrypt_unit_eq [OF assms(1-5) this assms(6, 7)]
  have "find ?P [0..<num_uk uk] = Some i" if "i < num_uk uk" "?P i" "\<forall>j < i. \<not> ?P j" for i
    using that by (auto simp: find_Some_iff intro!: exI [of _ i])
  moreover have "find ?P [0..<num_uk uk] = None" if "\<forall>i < num_uk uk. \<not> ?P i"
    using that by (auto simp: find_None_iff)
  ultimately show ?thesis using eq assms(8, 9) by simp
qed

lemma plain_unit_other_key:
  assumes "length u = 6144" and "length k = 16" and "length k' = 16"
  shows "plain_unit toy_gcrypt k' (encrypt_unit toy_gcrypt toy_cbc k u) ! 4 = u ! 4"
  using assms by (simp add: plain_unit_def encrypt_unit_def nth_append)

theorem decrypt_unit_detects_key_witness:
  "aacs_decrypt_unit toy_aacs_env (toy_aacs\<lparr>aa_cps_unit_selected := False, aa_bec := 0\<rparr>) (zeros 6144)
     (encrypt_unit toy_gcrypt toy_cbc (replicate 16 1) toy_ts) =
   Some (1, toy_aacs\<lparr>aa_current_cps_unit := 0, aa_bec := 0\<rparr>, clear_cpi toy_ts)"
proof -
  let ?a = "toy_aacs\<lparr>aa_cps_unit_selected := False, aa_bec := 0\<rparr>"
  let ?u = "encrypt_unit toy_gcrypt toy_cbc (replicate 16 1) toy_ts"
  note pe = plain_encrypt_unit [OF toy_cbc_inverse length_toy_ts, of "replicate 16 1"]
  have inv: "aacs_inv ?a" using toy_aacs_inv by (simp add: aacs_inv_def)
  have c0: "?u ! 0 AND 0xc0 \<noteq> 0" using toy_ts_sync(2) by (simp only: nth_0_encrypt [OF length_toy_ts] not_False_eq_True)
  have b: "bus_removed toy_aacs_env ?a ?u = ?u" by (simp add: bus_removed_def)
  have "aacs_decrypt_unit toy_aacs_env ?a (zeros 6144) ?u = Some (1,
      ?a\<lparr>aa_current_cps_unit := 0 mod 2 ^ 16, aa_cps_unit_selected := True\<rparr>,
      clear_cpi (plain_unit (ae_gcrypt toy_aacs_env) ([replicate 16 1, replicate 16 2] ! 0) (bus_removed toy_aacs_env ?a ?u)))"
    by (rule decrypt_unit_detects_key [THEN conjunct1, rule_format, of _ _ _ _ toy_uk])
      (use toy_cipher_ok pe inv c0 toy_ts_sync(1) in \<open>simp_all add: b\<close>)
  then have "aacs_decrypt_unit toy_aacs_env ?a (zeros 6144) ?u = Some (1,
      ?a\<lparr>aa_current_cps_unit := 0 mod 2 ^ 16, aa_cps_unit_selected := True\<rparr>, clear_cpi toy_ts)"
    by (simp add: b pe)
  then show ?thesis by (simp add: toy_aacs_def)
qed

section \<open>Numbers of CPS units\<close>

text \<open>A disc in the directory \<open>/d\<close> with the usage file of its first CPS unit, which is not free to copy.\<close>

definition copy_never_cci :: "byte list" where
  "copy_never_cci = enc_cci [(0x0101, 0x0100, 0x03 # zeros 131)] (zeros 14) (zeros 1900)"

definition usage_world :: world where
  "usage_world = \<lparr>w_fs = empty_fs\<lparr>fs_files := [''/d/AACS/CPSUnit00001.cci'' \<mapsto> copy_never_cci]\<rparr>, w_count = 0\<rparr>"

lemma pad5_digit: "n < 10 \<Longrightarrow> pad5 n = ''0000'' @ [char_of (48 + n)]"
  by (simp add: pad5_def decimal.simps [of n] numeral_eq_Suc)

lemma usage_file:
  assumes "aa_path a = Some ''/d''" and "aa_fopen a = None"
  shows "read_cci toy_aacs_env a usage_world 1 =
     Some (Some \<lparr>cci_num_entry = 1, cci_entries = [entry_of (0x0101, 0x0100, 0x03 # zeros 131)]\<rparr>)"
    and "read_cci toy_aacs_env a usage_world 0 = Some None"
proof -
  have len: "length copy_never_cci = 2054" by (simp add: copy_never_cci_def enc_cci_def)
  have "be_val (take 2 (drop 2 (0x03 # zeros 131))) = 0" by (simp add: zeros_numeral)
  then have p: "cci_parse (\<lambda>_. True) copy_never_cci =
      Some (Some \<lparr>cci_num_entry = 1, cci_entries = [entry_of (0x0101, 0x0100, 0x03 # zeros 131)]\<rparr>)"
    unfolding copy_never_cci_def
    by (subst cci_parse_enc) (simp_all add: enc_cci_def)
  have al: "ae_alloc toy_aacs_env = (\<lambda>_. True)" by (rule ext) simp
  have d: "char_of (48 :: nat) = CHR ''0''" "char_of (49 :: nat) = CHR ''1''" by code_simp+
  note f = read_cci_def read_cci_file_def read_cci_copy_def cci_file_name_def pad5_digit d al assms
    str_printf_eq read_file_def aacs_file_open_def file_open_r_def usage_world_def
  show "read_cci toy_aacs_env a usage_world 1 =
     Some (Some \<lparr>cci_num_entry = 1, cci_entries = [entry_of (0x0101, 0x0100, 0x03 # zeros 131)]\<rparr>)"
    using len p by (simp add: f file_size_def file_seek_def file_tell_def file_read_def Let_def)
  show "read_cci toy_aacs_env a usage_world 0 = Some None"
    by (simp add: f empty_fs_def)
qed

text \<open>
  The usage file of a title.  \<open>aacs_get_basic_cci\<close> looks for the file of a title under the index
  of its CPS unit, which counts from 0, while the files are numbered from 1 (\<open>_calc_uks\<close> checks the
  unit with index \<open>i\<close> in file \<open>i + 1\<close>): without a file of that lower number it returns null, for a
  disc with one CPS unit always, since that asks for the file 00000.
\<close>

theorem basic_cci_off_by_one:
  assumes "aa_uk a = Some uk" and "wf_titles uk" and "num_uk uk \<le> 1" and "title \<le> num_titles uk"
    and "title_cps_unit uk \<noteq> None" and "read_cci A a w 0 = Some None"
  shows "aacs_get_basic_cci A (Some a) w title = Some None"
proof -
  obtain ts where ts: "title_cps_unit uk = Some ts" using assms(5) by blast
  with assms(2-4) have len: "title + 1 < length ts" and all: "\<forall>t \<in> set ts. t = 0"
    by (auto simp: wf_titles_def max_def split: if_splits)
  moreover have "0 < length ts" using len by linarith
  ultimately have "ts ! (title + 1) = 0" "ts ! 0 = 0" using nth_mem [OF len] nth_mem [of 0 ts] by blast+
  moreover have "0 < length ts" using len by linarith
  ultimately show ?thesis using assms ts len
    by (cases "title = 0xffff") (simp_all add: aacs_get_basic_cci_def cps_unit_def)
qed

theorem basic_cci_off_by_one_witness:
  "let a = toy_aacs\<lparr>aa_path := Some ''/d'', aa_uk := Some (toy_uk\<lparr>num_uk := 1, title_cps_unit := Some [0, 0, 0]\<rparr>)\<rparr> in
   aacs_get_basic_cci toy_aacs_env (Some a) usage_world 1 = Some None \<and>
   check_cci_unencrypted toy_aacs_env a usage_world 1 = Some 0"
proof -
  let ?a = "toy_aacs\<lparr>aa_path := Some ''/d'', aa_uk := Some (toy_uk\<lparr>num_uk := 1, title_cps_unit := Some [0, 0, 0]\<rparr>)\<rparr>"
  have "aa_path ?a = Some ''/d''" "aa_fopen ?a = None" by (simp_all add: toy_aacs_def zero_aacs_def)
  note f = usage_file [OF this] usage_file(1) [OF this, unfolded One_nat_def]
  have "aacs_get_basic_cci toy_aacs_env (Some ?a) usage_world 1 = Some None"
    by (rule basic_cci_off_by_one [where uk = "toy_uk\<lparr>num_uk := 1, title_cps_unit := Some [0, 0, 0]\<rparr>"])
      (simp_all add: wf_titles_def toy_uk_def empty_uk_def, use f in \<open>simp add: toy_uk_def empty_uk_def\<close>)
  moreover have "check_cci_unencrypted toy_aacs_env ?a usage_world 1 = Some 0"
    by (simp add: check_cci_unencrypted_def f cci_is_unencrypted_def basic_unencrypted_def
        cci_AACS_BASIC_CCI_def cci_AACS_ENHANCED_TITLE_USAGE_def basic_payload_def)
  ultimately show ?thesis by (simp add: Let_def)
qed

section \<open>From the unit key file to the stream\<close>



end
