(* ===== verification/Aacs.thy ===== *)
theory Aacs
  imports Decrypt
begin

text \<open>
  The interface of the library: opening a disc and the functions of \<^verbatim>\<open>src/libaacs/aacs.h\<close> that
  are not in the theories below, and the life of an \<open>AACS\<close> object as a step relation.
\<close>

section \<open>Errors\<close>

definition error_strings :: "string ptr list" where
  "error_strings = [Some ''Success'', Some ''Corrupt disc'', Some ''Missing configuration file'',
     Some ''No matching processing key'', Some ''No valid certificate'', Some ''Revoked certificate'',
     Some ''Failed opening MMC device'', Some ''MMC failure'', Some ''No matching device key'',
     Some ''Error'']"

definition aacs_error_str :: "int \<Rightarrow> string" where
  "aacs_error_str err =
     (let err = - err in
      if err < 0 \<or> nat err \<ge> length error_strings then ''Unknown error code''
      else case error_strings ! nat err of None \<Rightarrow> ''Unknown error code'' | Some s \<Rightarrow> s)"

section \<open>Opening and closing\<close>

definition SIZEOF_AACS :: nat where "SIZEOF_AACS = 200"

text \<open>\<open>crypto_ok\<close> is the result of the initialisation of libgcrypt.\<close>

definition aacs_init :: "('s, 'd) aacs_env \<Rightarrow> bool \<Rightarrow> aacs ptr" where
  "aacs_init A crypto_ok =
     (if \<not> crypto_ok then None
      else if \<not> ae_alloc A SIZEOF_AACS then None
      else Some (zero_aacs\<lparr>aa_no_cache := fe_getenv (ae_fs A) ''AACS_NO_CACHE'' \<noteq> None\<rparr>))"

definition aacs_set_key_caching :: "aacs ptr \<Rightarrow> bool \<Rightarrow> aacs ptr" where
  "aacs_set_key_caching a enable = map_option (\<lambda>a. a\<lparr>aa_no_cache := \<not> enable\<rparr>) a"

definition aacs_set_fopen :: "aacs ptr \<Rightarrow> (string \<Rightarrow> fh option) option \<Rightarrow> aacs ptr" where
  "aacs_set_fopen a p = map_option (\<lambda>a. a\<lparr>aa_fopen := p\<rparr>) a"

text \<open>The part of \<open>aacs_open_device\<close> that deals with bus encryption; the configuration is null or not.\<close>

definition open_bus_encryption ::
    "('s, 'd) aacs_env \<Rightarrow> aacs \<Rightarrow> world \<Rightarrow> string ptr \<Rightarrow> config_file ptr \<Rightarrow> (int \<times> aacs \<times> world) ub" where
  "open_bus_encryption A a w path cf =
     (case cf of None \<Rightarrow> Some (AACS_ERROR_NO_CONFIG, a, w)
      | Some cf \<Rightarrow> do {
          (a, w) \<leftarrow> (if aa_bec a < 0 then do {
              (bec, a, w) \<leftarrow> get_bus_encryption_capable A a w path;
              Some (a\<lparr>aa_bec := bec\<rparr>, w)
            } else Some (a, w));
          if aa_bec a > 0 then read_read_data_key A a w (cf_host_cert_list cf)
          else Some (AACS_SUCCESS, a, w)
        })"

definition aacs_open_device ::
    "('s, 'd) aacs_env \<Rightarrow> aacs \<Rightarrow> world \<Rightarrow> string ptr \<Rightarrow> string ptr \<Rightarrow> (int \<times> aacs \<times> world) ub" where
  "aacs_open_device A a w path configfile_path =
     (let a = a\<lparr>aa_path := str_dup (ae_alloc A) path\<rparr> in do {
        cc \<leftarrow> read_cc_any A a w;
        let a = a\<lparr>aa_cc := cc\<rparr>;
        let a = a\<lparr>aa_bee := get_bus_encryption_enabled a, aa_bec := - 1\<rparr>;
        (error_code, a) \<leftarrow> calc_title_hash A a w;
        if error_code \<noteq> AACS_SUCCESS then Some (error_code, a, w)
        else do {
          cf \<leftarrow> keydbcfg_config_load (ae_fs A) (ae_parse A) (w_fs w) configfile_path (Some (aa_disc_id a));
          (error_code, a, w) \<leftarrow> calc_uks A a w cf;
          if error_code = AACS_SUCCESS \<and> aa_bee a then open_bus_encryption A a w path cf
          else Some (error_code, a, w)
        }
      })"

definition aacs_open2 ::
    "('s, 'd) aacs_env \<Rightarrow> bool \<Rightarrow> world \<Rightarrow> string ptr \<Rightarrow> string ptr \<Rightarrow> (aacs ptr \<times> int ptr \<times> world) ub" where
  "aacs_open2 A crypto_ok w path configfile_path =
     (case aacs_init A crypto_ok of None \<Rightarrow> Some (None, None, w)
      | Some a \<Rightarrow> do {
          (e, a, w) \<leftarrow> aacs_open_device A a w path configfile_path;
          Some (Some a, Some e, w)
        })"

definition aacs_open ::
    "('s, 'd) aacs_env \<Rightarrow> bool \<Rightarrow> world \<Rightarrow> string ptr \<Rightarrow> string ptr \<Rightarrow> (aacs ptr \<times> world) ub" where
  "aacs_open A crypto_ok w path configfile_path = do {
     (a, e, w) \<leftarrow> aacs_open2 A crypto_ok w path configfile_path;
     Some (if a = None \<or> e = Some AACS_SUCCESS then a else None, w)
   }"

section \<open>Information about the disc\<close>

definition aacs_get_mkb_version :: "('s, 'd) aacs_env \<Rightarrow> aacs \<Rightarrow> world \<Rightarrow> (nat \<times> aacs) ub" where
  "aacs_get_mkb_version A a w =
     (if aa_mkb_version a \<noteq> 0 then Some (aa_mkb_version a, a)
      else do {
        m \<leftarrow> mkb_open A a w;
        case m of None \<Rightarrow> Some (0, a)
        | Some m \<Rightarrow> do { v \<leftarrow> mkb_version m; Some (v, a\<lparr>aa_mkb_version := v\<rparr>) }
      })"

definition aacs_get_disc_id :: "aacs \<Rightarrow> byte list ptr" where
  "aacs_get_disc_id a = (if is_zero (aa_disc_id a) then None else Some (aa_disc_id a))"

definition aacs_get_content_cert_id :: "aacs ptr \<Rightarrow> byte list ptr" where
  "aacs_get_content_cert_id a = (case a of None \<Rightarrow> None | Some a \<Rightarrow> map_option cc_id (aa_cc a))"

definition aacs_get_bdj_root_cert_hash :: "aacs ptr \<Rightarrow> byte list ptr" where
  "aacs_get_bdj_root_cert_hash a =
     (case a of None \<Rightarrow> None
      | Some a \<Rightarrow> (case aa_cc a of None \<Rightarrow> None
        | Some cc \<Rightarrow> if cc_aacs2 cc = 0 then Some (bdj_root_cert_hash cc) else None))"

definition aacs_get_mk :: "('s, 'd) aacs_env \<Rightarrow> aacs \<Rightarrow> world \<Rightarrow> (byte list ptr \<times> aacs \<times> world) ub" where
  "aacs_get_mk A a w =
     (if is_zero (aa_mk a) then do {
        cf \<leftarrow> keydbcfg_config_load (ae_fs A) (ae_parse A) (w_fs w) None None;
        (a, w) \<leftarrow> (case cf of None \<Rightarrow> Some (a, w)
          | Some cf \<Rightarrow> do {
              (r, mk, a, w) \<leftarrow> calc_mk A a w (zeros 16) (cf_pkl cf) (cf_dkl cf);
              Some (if r = AACS_SUCCESS then a\<lparr>aa_mk := mk\<rparr> else a, w)
            });
        Some (if is_zero (aa_mk a) then None else Some (aa_mk a), a, w)
      } else Some (Some (aa_mk a), a, w))"

definition aacs_get_vid :: "('s, 'd) aacs_env \<Rightarrow> aacs \<Rightarrow> world \<Rightarrow> (byte list ptr \<times> aacs \<times> world) ub" where
  "aacs_get_vid A a w =
     (if is_zero (aa_vid a) then do {
        (found, vid) \<leftarrow> (if aa_no_cache a then Some (0, aa_vid a)
          else keycache_find (ae_fs A) (w_fs w) ''vid'' (aa_disc_id a) (aa_vid a) 16);
        let a = a\<lparr>aa_vid := vid\<rparr>;
        if found \<noteq> 0 then Some (Some vid, a, w)
        else do {
          cf \<leftarrow> keydbcfg_config_load (ae_fs A) (ae_parse A) (w_fs w) None None;
          (a, w) \<leftarrow> (case cf of None \<Rightarrow> Some (a, w)
            | Some cf \<Rightarrow> do {
                (_, a, w) \<leftarrow> aacs_read_vid A a w (cf_host_cert_list cf);
                Some (a, w)
              });
          Some (if is_zero (aa_vid a) then None else Some (aa_vid a), a, w)
        }
      } else Some (Some (aa_vid a), a, w))"

definition aacs_get_pmsn :: "('s, 'd) aacs_env \<Rightarrow> aacs \<Rightarrow> world \<Rightarrow> (byte list ptr \<times> aacs \<times> world) ub" where
  "aacs_get_pmsn A a w =
     (if is_zero (aa_pmsn a) then do {
        cf \<leftarrow> keydbcfg_config_load (ae_fs A) (ae_parse A) (w_fs w) None None;
        (a, w) \<leftarrow> (case cf of None \<Rightarrow> Some (a, w)
          | Some cf \<Rightarrow> do {
              (_, a, w) \<leftarrow> aacs_read_pmsn A a w (cf_host_cert_list cf);
              Some (a, w)
            });
        Some (if is_zero (aa_pmsn a) then None else Some (aa_pmsn a), a, w)
      } else Some (Some (aa_pmsn a), a, w))"

text \<open>The random bytes are the next ones of the generator.\<close>

definition aacs_get_device_binding_id ::
    "('s, 'd) aacs_env \<Rightarrow> aacs \<Rightarrow> world \<Rightarrow> (byte list \<times> aacs \<times> world) ub" where
  "aacs_get_device_binding_id A a w = do {
     (r, len, buf) \<leftarrow> config_get (ae_fs A) (w_fs w) ''device_binding_id'' 16 (Some (aa_device_binding_id a));
     id \<leftarrow> buf;
     if r = 0 \<or> len \<noteq> 16 then do {
       let id = take 16 (ae_nonce A (w_count w));
       (_, s) \<leftarrow> config_save (ae_fs A) (w_fs w) ''device_binding_id'' id 16;
       Some (id, a\<lparr>aa_device_binding_id := id\<rparr>, \<lparr>w_fs = s, w_count = w_count w + 1\<rparr>)
     } else Some (id, a\<lparr>aa_device_binding_id := id\<rparr>, w)
   }"

definition aacs_get_device_nonce :: "('s, 'd) aacs_env \<Rightarrow> aacs \<Rightarrow> world \<Rightarrow> byte list \<times> aacs \<times> world" where
  "aacs_get_device_nonce A a w =
     (let n = take 16 (ae_nonce A (w_count w))
      in (n, a\<lparr>aa_device_nonce := n\<rparr>, w\<lparr>w_count := w_count w + 1\<rparr>))"

text \<open>The flags as an unsigned number; \<open>bec\<close> is 0 or 1 by then.\<close>

definition aacs_get_bus_encryption :: "('s, 'd) aacs_env \<Rightarrow> aacs \<Rightarrow> world \<Rightarrow> (nat \<times> aacs \<times> world) ub" where
  "aacs_get_bus_encryption A a w = do {
     (a, w) \<leftarrow> (if aa_bec a < 0 then do {
         (bec, a, w) \<leftarrow> get_bus_encryption_capable A a w (aa_path a);
         Some (a\<lparr>aa_bec := bec\<rparr>, w)
       } else Some (a, w));
     Some (((if aa_bee a then 1 else 0) * 1) OR (nat (aa_bec a) * 2), a, w)
   }"

section \<open>What the operations keep\<close>

text \<open>
  Without key caching nothing is written: \<open>quiet A a w a' w'\<close> says that the object still has caching
  switched off and the file system is the one before.
\<close>

definition quiet :: "aacs \<Rightarrow> world \<Rightarrow> aacs \<Rightarrow> world \<Rightarrow> bool" where
  "quiet a w a' w' \<longleftrightarrow> aa_no_cache a' = aa_no_cache a \<and> (aa_no_cache a \<longrightarrow> w_fs w' = w_fs w)"

text \<open>The unit keys and the current CPS unit are untouched.\<close>

definition same_keys :: "aacs \<Rightarrow> aacs \<Rightarrow> bool" where
  "same_keys a a' \<longleftrightarrow> aa_uk a' = aa_uk a \<and> aa_current_cps_unit a' = aa_current_cps_unit a"

named_theorems frame "what an operation leaves alone"

lemma open_drive_frame [frame]: "open_drive A a w = Some (m, w') \<Longrightarrow> w_fs w' = w_fs w"
  by (auto simp: open_drive_def split: Option.bind_splits)

lemma aacs_mmc_read_auth_frame [frame]:
  "aacs_mmc_read_auth A a w hcl ty p1 p2 = Some (e, q1, q2, w') \<Longrightarrow> w_fs w' = w_fs w"
  by (auto simp: aacs_mmc_read_auth_def dest: open_drive_frame split: Option.bind_splits option.splits)

lemma save_key_quiet [frame]: "save_key A a w ty k = Some w' \<Longrightarrow> aa_no_cache a \<Longrightarrow> w' = w"
  by (simp add: save_key_def)

lemma aacs_read_vid_frame [frame]:
  "aacs_read_vid A a w hcl = Some (e, a', w') \<Longrightarrow> quiet a w a' w' \<and> same_keys a a'"
  by (auto simp: aacs_read_vid_def quiet_def same_keys_def Let_def dest!: frame
      split: Option.bind_splits if_splits)

lemma aacs_read_pmsn_frame [frame]:
  "aacs_read_pmsn A a w hcl = Some (e, a', w') \<Longrightarrow> quiet a w a' w' \<and> same_keys a a'"
  by (auto simp: aacs_read_pmsn_def quiet_def same_keys_def Let_def dest!: frame split: Option.bind_splits)

lemma read_read_data_key_frame [frame]:
  "read_read_data_key A a w hcl = Some (e, a', w') \<Longrightarrow> quiet a w a' w' \<and> same_keys a a'"
  by (auto simp: read_read_data_key_def quiet_def same_keys_def Let_def dest!: frame
      split: Option.bind_splits if_splits)

lemma get_bus_encryption_capable_frame [frame]:
  "get_bus_encryption_capable A a w p = Some (b, a', w') \<Longrightarrow> quiet a w a' w' \<and> same_keys a a'"
  by (auto simp: get_bus_encryption_capable_def quiet_def same_keys_def Let_def dest!: frame
      split: Option.bind_splits option.splits if_splits)

lemma calc_mk_keys:
  "calc_mk A a w mk pkl dkl = Some (e, mk', a', w') \<Longrightarrow> quiet a w a' w' \<and> same_keys a a'"
  using calc_mk_frame [of A a w mk pkl dkl e mk' a' w'] by (simp add: quiet_def same_keys_def)

lemma quiet_trans: "quiet a w a1 w1 \<Longrightarrow> quiet a1 w1 a2 w2 \<Longrightarrow> quiet a w a2 w2"
  by (simp add: quiet_def)

lemma same_keys_trans: "same_keys a a1 \<Longrightarrow> same_keys a1 a2 \<Longrightarrow> same_keys a a2"
  by (simp add: same_keys_def)

lemma calc_vuk_frame [frame]:
  assumes "calc_vuk A a w mk vuk cf = Some (e, mk', vuk', a', w')"
  shows "quiet a w a' w' \<and> same_keys a a'"
proof -
  have r: "quiet a w a w" "same_keys a a" for a w by (simp_all add: quiet_def same_keys_def)
  have s: "quiet a1 w1 a1 w2" if "save_key A a1 w1 ty k = Some w2" for a1 w1 w2 ty k
    using that by (auto simp: quiet_def dest: save_key_quiet)
  show ?thesis
    using assms r unfolding calc_vuk_def
    by (auto simp: Let_def dest!: calc_mk_keys aacs_read_vid_frame s intro: quiet_trans same_keys_trans
        split: Option.bind_splits option.splits prod.splits if_splits)
qed

text \<open>The current CPS unit stays a valid index, and the unit keys stay well formed.\<close>

lemma aacs_inv_same: "same_keys a a' \<Longrightarrow> aacs_inv a \<Longrightarrow> aacs_inv a'"
  by (simp add: same_keys_def aacs_inv_def split: option.splits)

lemma config_unit_keys_frame:
  assumes "config_unit_keys A a w cf mk vuk ks = Some (mk', vuk', a', w')" and "aacs_inv a" and "aa_uk a = Some uk"
    and "ks \<noteq> []"
  shows "quiet a w a' w' \<and> aacs_inv a' \<and> (\<exists>uk'. aa_uk a' = Some uk' \<and> num_uk uk \<le> num_uk uk')"
proof -
  let ?n = "length ks"
  define step where "step = (if ?n \<noteq> num_uk uk then do {
      (r, mk, vuk, a, w) \<leftarrow> calc_vuk A a w mk vuk (Some cf);
      Some (r = AACS_SUCCESS, mk, vuk, a, w)
    } else Some (False, mk, vuk, a, w))"
  obtain ig mk3 vuk3 a3 w3 where r: "step = Some (ig, mk3, vuk3, a3, w3)"
    and res: "(if ig then Some (mk3, vuk3, a3, w3) else
       let n = max (num_uk uk) ?n; uk = uk\<lparr>num_uk := n\<rparr> in
       if ae_alloc A (n * 16)
       then Some (mk3, vuk3, a3\<lparr>aa_uk := Some (uk\<lparr>dec_uk := Some (fill_keys n ks)\<rparr>)\<rparr>, w3)
       else Some (mk3, vuk3, a3\<lparr>aa_uk := Some (uk\<lparr>dec_uk := None\<rparr>)\<rparr>, w3)) = Some (mk', vuk', a', w')"
    using assms(1) unfolding config_unit_keys_def assms(3) bind.bind_lunit Let_def step_def [symmetric]
    by (cases step) (auto simp: step_def)
  from r have k3: "quiet a w a3 w3" "same_keys a a3"
    unfolding step_def by (auto simp: quiet_def same_keys_def split: if_splits Option.bind_splits dest!: calc_vuk_frame)
  show ?thesis
  proof (cases ig)
    case True
    with res have "a' = a3" "w' = w3" by auto
    with k3 assms(3) aacs_inv_same [OF k3(2) assms(2)] show ?thesis by (auto simp: same_keys_def)
  next
    case False
    have cur: "aa_current_cps_unit a3 = aa_current_cps_unit a" using k3(2) by (simp add: same_keys_def)
    have wf: "wf_titles uk" "aa_current_cps_unit a < max 1 (num_uk uk)"
      using assms(2,3) by (simp_all add: aacs_inv_def)
    have "wf_titles (uk\<lparr>num_uk := max (num_uk uk) ?n, dec_uk := d\<rparr>)" for d
      using wf(1) by (auto simp: wf_titles_def less_max_iff_disj split: option.splits)
    moreover have "aa_current_cps_unit a < max 1 (max (num_uk uk) ?n)" using wf(2) by auto
    moreover have "0 < ?n" using assms(4) by simp
    moreover have "length (fill_keys (max (num_uk uk) ?n) ks) = max (num_uk uk) ?n"
      by (simp add: fill_keys_def)
    ultimately show ?thesis
      using res False k3(1) cur
      by (auto simp: Let_def aacs_inv_def keys_ok_def quiet_def split: if_splits)
  qed
qed

lemma find_config_entry_frame:
  assumes "find_config_entry A a w cf mk vuk = Some (mk', vuk', a', w')" and "aacs_inv a" and "aa_uk a = Some uk"
  shows "quiet a w a' w' \<and> aacs_inv a' \<and> (\<exists>uk'. aa_uk a' = Some uk' \<and> num_uk uk \<le> num_uk uk')"
proof (cases "find (\<lambda>ce. te_discid ce = aa_disc_id a) (cf_list cf)")
  case None
  with assms show ?thesis by (simp add: find_config_entry_def quiet_def)
next
  case (Some ce)
  define a1 where "a1 = (if \<not> is_zero (te_mk ce) then a\<lparr>aa_mk := te_mk ce\<rparr> else a)"
  define a2 where "a2 = (if \<not> is_zero (te_vid ce) then a1\<lparr>aa_vid := te_vid ce\<rparr> else a1)"
  have q: "quiet a w a2 w" "same_keys a a2" by (simp_all add: quiet_def same_keys_def a2_def a1_def)
  then have uk: "aa_uk a2 = Some uk" "aacs_inv a2"
    using assms(3) aacs_inv_same [OF q(2) assms(2)] by (auto simp: same_keys_def)
  show ?thesis
  proof (cases "te_uk ce = []")
    case True
    with assms(1) Some have "a' = a2 \<and> w' = w"
      by (auto simp: find_config_entry_def Let_def a2_def a1_def split: if_splits)
    with q uk show ?thesis by auto
  next
    case False
    then obtain mk1 vuk1 where "config_unit_keys A a2 w cf mk1 vuk1 (map snd (te_uk ce)) = Some (mk', vuk', a', w')"
      using assms(1) Some by (auto simp: find_config_entry_def Let_def a2_def a1_def split: if_splits)
    from config_unit_keys_frame [OF this uk(2,1)] False q(1) show ?thesis by (auto intro: quiet_trans)
  qed
qed

lemma uks_loop_length:
  "uks_loop A a w vuk err enc n i keys = Some (e, keys') \<Longrightarrow> length keys' = length keys"
proof (induction A a w vuk err enc n i keys arbitrary: keys' rule: uks_loop.induct)
  case (1 A a w vuk err enc n i keys)
  from 1(2) show ?case
    by (subst (asm) uks_loop.simps) (auto split: if_splits Option.bind_splits prod.splits dest: 1(1))
qed

lemma decrypt_uks_frame:
  assumes "decrypt_uks A a w vuk err = Some (e, a')" and "aacs_inv a" and "aa_uk a = Some uk" and "1 \<le> num_uk uk"
  shows "quiet a w a' w \<and> aacs_inv a'"
proof -
  have "wf_titles (uk\<lparr>dec_uk := d\<rparr>)" for d
    using assms(2,3) by (auto simp: aacs_inv_def wf_titles_def split: option.splits)
  with assms show ?thesis
    by (auto simp: decrypt_uks_def quiet_def aacs_inv_def keys_ok_def dest: uks_loop_length
        split: if_splits Option.bind_splits)
qed

lemma calc_uks_frame:
  assumes "calc_uks A a w cf = Some (e, a', w')" and "aacs_inv a" and "aa_uk a = Some uk"
  shows "quiet a w a' w' \<and> aacs_inv a'"
proof (cases "num_uk uk < 1")
  case True
  with assms show ?thesis by (simp add: calc_uks_def quiet_def)
next
  case False
  then have n: "1 \<le> num_uk uk" by simp
  obtain err mk vuk a1 w1 where v: "calc_vuk A a w (zeros 16) (zeros 16) None = Some (err, mk, vuk, a1, w1)"
    using assms(1,3) n by (auto simp: calc_uks_def split: Option.bind_splits)
  have k1: "quiet a w a1 w1" "same_keys a a1" using calc_vuk_frame [OF v] by simp_all
  then have i1: "aacs_inv a1" "aa_uk a1 = Some uk"
    using aacs_inv_same [OF k1(2) assms(2)] assms(3) by (simp_all add: same_keys_def)
  show ?thesis
  proof (cases "err = AACS_SUCCESS")
    case True
    with assms(1,3) n v obtain a2 where "decrypt_uks A a1 w1 vuk err = Some (e, a2)" "a' = a2" "w' = w1"
      by (auto simp: calc_uks_def split: Option.bind_splits)
    with decrypt_uks_frame [OF this(1) i1 n] k1(1) show ?thesis by (auto intro: quiet_trans)
  next
    case False
    define entry where "entry = (case cf of None \<Rightarrow> Some (mk, vuk, a1, w1) | Some cf \<Rightarrow> find_config_entry A a1 w1 cf mk vuk)"
    obtain mk2 vuk2 a2 w2 where en: "entry = Some (mk2, vuk2, a2, w2)"
      using assms(1,3) n v False unfolding entry_def [symmetric]
      by (auto simp: calc_uks_def entry_def [symmetric] split: Option.bind_splits)
    have k2: "quiet a1 w1 a2 w2 \<and> aacs_inv a2 \<and> (\<exists>uk'. aa_uk a2 = Some uk' \<and> num_uk uk \<le> num_uk uk')"
      using en i1 unfolding entry_def
      by (auto simp: quiet_def split: option.splits dest!: find_config_entry_frame [OF _ i1])
    then obtain uk2 where uk2: "aa_uk a2 = Some uk2" "1 \<le> num_uk uk2" using n by auto
    show ?thesis
    proof (cases "cf \<noteq> None \<and> dec_uk uk2 \<noteq> None")
      case True
      with assms(1,3) n v False en uk2 have "a' = a2" "w' = w2"
        by (auto simp: calc_uks_def entry_def [symmetric])
      with k1 k2 show ?thesis by (auto intro: quiet_trans)
    next
      case nk: False
      obtain err3 mk3 vuk3 a3 w3 where v3: "calc_vuk A a2 w2 mk2 vuk2 cf = Some (err3, mk3, vuk3, a3, w3)"
        using assms(1,3) n v False en uk2 nk
        by (auto simp: calc_uks_def entry_def [symmetric] split: Option.bind_splits)
      have k3: "quiet a2 w2 a3 w3" "same_keys a2 a3" using calc_vuk_frame [OF v3] by simp_all
      have i3: "aacs_inv a3" using aacs_inv_same [OF k3(2)] k2 by simp
      have u3: "aa_uk a3 = Some uk2" using k3(2) uk2(1) by (simp add: same_keys_def)
      obtain a4 where d: "decrypt_uks A a3 w3 vuk3 err3 = Some (e, a4)" "a' = a4" "w' = w3"
        using assms(1,3) n v False en uk2 nk v3
        by (auto simp: calc_uks_def entry_def [symmetric] split: Option.bind_splits)
      with decrypt_uks_frame [OF d(1) i3 u3 uk2(2)] k1(1) k2 k3(1) show ?thesis by (blast intro: quiet_trans)
    qed
  qed
qed

lemma calc_title_hash_frame:
  assumes "calc_title_hash A a w = Some (e, a')" and "aacs_inv a" and "aa_uk a = None"
  shows "aa_no_cache a' = aa_no_cache a \<and> aacs_inv a' \<and> (e = AACS_SUCCESS \<longrightarrow> aa_uk a' \<noteq> None)"
proof -
  have u: "wf_uk u" if "try_unit_key_file A a w name aacs2 = Some (d, Some u)" for name aacs2 d u
    using that by (auto simp: try_unit_key_file_def dest: uk_parse_wf_uk split: option.splits if_splits Option.bind_splits)
  have i: "aacs_inv (a\<lparr>aa_uk := Some u\<rparr>)" if "wf_uk u" for u
    using that assms(2,3) by (auto simp: aacs_inv_def wf_uk_def keys_ok_def)
  have i2: "aacs_inv (a\<lparr>aa_uk := Some u, aa_disc_id := h\<rparr>)" if "wf_uk u" for u h
    using i [OF that] by (simp add: aacs_inv_def)
  have n: "aacs_inv (a\<lparr>aa_uk := None\<rparr>)" using assms(2,3) by (simp add: aacs_inv_def)
  from assms(1) show ?thesis
    by (auto simp: calc_title_hash_def Let_def aacs_error_defs n dest!: u intro: i i2
        split: Option.bind_splits option.splits prod.splits)
qed

lemma open_bus_encryption_frame:
  "open_bus_encryption A a w path cf = Some (e, a', w') \<Longrightarrow> quiet a w a' w' \<and> same_keys a a'"
  by (auto simp: open_bus_encryption_def quiet_def same_keys_def
      dest!: read_read_data_key_frame get_bus_encryption_capable_frame
      split: option.splits Option.bind_splits if_splits)

lemma aacs_open_device_frame:
  assumes "aacs_open_device A a w path cfg = Some (e, a', w')" and "aacs_inv a" and "aa_uk a = None"
  shows "quiet a w a' w' \<and> aacs_inv a'"
proof -
  define a0 where "a0 = a\<lparr>aa_path := str_dup (ae_alloc A) path\<rparr>"
  obtain cc where cc: "read_cc_any A a0 w = Some cc"
    using assms(1) by (auto simp: aacs_open_device_def Let_def a0_def split: Option.bind_splits)
  define a1 where "a1 = a0\<lparr>aa_cc := cc\<rparr>"
  define a2 where "a2 = a1\<lparr>aa_bee := get_bus_encryption_enabled a1, aa_bec := - 1\<rparr>"
  obtain e3 a3 where t: "calc_title_hash A a2 w = Some (e3, a3)"
    using assms(1) cc
    by (auto simp: aacs_open_device_def Let_def a0_def [symmetric] a1_def [symmetric] a2_def [symmetric] split: Option.bind_splits)
  have i2: "aacs_inv a2" "aa_uk a2 = None" "aa_no_cache a2 = aa_no_cache a"
    using assms(2,3) by (simp_all add: a2_def a1_def a0_def aacs_inv_def)
  have k3: "aa_no_cache a3 = aa_no_cache a" "aacs_inv a3" "e3 = AACS_SUCCESS \<Longrightarrow> aa_uk a3 \<noteq> None"
    using calc_title_hash_frame [OF t i2(1,2)] i2(3) by auto
  show ?thesis
  proof (cases "e3 = AACS_SUCCESS")
    case False
    with assms(1) cc t have "a' = a3" "w' = w"
      by (auto simp: aacs_open_device_def Let_def a0_def [symmetric] a1_def [symmetric] a2_def [symmetric])
    with k3 show ?thesis by (simp add: quiet_def)
  next
    case True
    then obtain uk where uk: "aa_uk a3 = Some uk" using k3 by auto
    from assms(1) cc t True obtain cf e4 a4 w4 where c: "calc_uks A a3 w cf = Some (e4, a4, w4)"
      and r: "(if e4 = AACS_SUCCESS \<and> aa_bee a4 then open_bus_encryption A a4 w4 path cf
          else Some (e4, a4, w4)) = Some (e, a', w')"
      by (auto simp: aacs_open_device_def Let_def a0_def [symmetric] a1_def [symmetric] a2_def [symmetric] split: Option.bind_splits)
    from calc_uks_frame [OF c k3(2) uk] have k4: "quiet a3 w a4 w4" "aacs_inv a4" by simp_all
    from r have "quiet a4 w4 a' w'" "same_keys a4 a'"
      by (auto simp: quiet_def same_keys_def dest!: open_bus_encryption_frame split: if_splits)
    with k4 k3(1) aacs_inv_same [of a4 a'] show ?thesis by (simp add: quiet_def)
  qed
qed

section \<open>The life of an object\<close>

text \<open>The calls an application can make on an object, and what each does to it and to the world.\<close>

datatype api_op =
    SetKeyCaching bool
  | SetFopen "(string \<Rightarrow> fh option) option"
  | OpenDevice "string ptr" "string ptr"
  | SelectTitle nat
  | DecryptUnit "byte list" "byte list"
  | GetMkbVersion
  | GetMk
  | GetVid
  | GetPmsn
  | GetDeviceBindingId
  | GetDeviceNonce
  | GetBusEncryption

fun api :: "('s, 'd) aacs_env \<Rightarrow> api_op \<Rightarrow> aacs \<Rightarrow> world \<Rightarrow> (aacs \<times> world) ub" where
  "api A (SetKeyCaching e) a w = Some (a\<lparr>aa_no_cache := \<not> e\<rparr>, w)"
| "api A (SetFopen p) a w = Some (a\<lparr>aa_fopen := p\<rparr>, w)"
| "api A (OpenDevice path cfg) a w = map_option snd (aacs_open_device A a w path cfg)"
| "api A (SelectTitle t) a w = map_option (\<lambda>a. (a, w)) (aacs_select_title a t)"
| "api A (DecryptUnit out buf) a w = map_option (\<lambda>(r, a, buf). (a, w)) (aacs_decrypt_unit A a out buf)"
| "api A GetMkbVersion a w = map_option (\<lambda>(v, a). (a, w)) (aacs_get_mkb_version A a w)"
| "api A GetMk a w = map_option snd (aacs_get_mk A a w)"
| "api A GetVid a w = map_option snd (aacs_get_vid A a w)"
| "api A GetPmsn a w = map_option snd (aacs_get_pmsn A a w)"
| "api A GetDeviceBindingId a w = map_option snd (aacs_get_device_binding_id A a w)"
| "api A GetDeviceNonce a w = Some (snd (aacs_get_device_nonce A a w))"
| "api A GetBusEncryption a w = map_option snd (aacs_get_bus_encryption A a w)"

text \<open>What the application has to respect: one disc per object, units of 6144 bytes.\<close>

fun may_call :: "api_op \<Rightarrow> aacs \<Rightarrow> bool" where
  "may_call (OpenDevice path cfg) a \<longleftrightarrow> aa_uk a = None"
| "may_call (DecryptUnit out buf) a \<longleftrightarrow> length out = ALIGNED_UNIT_LEN \<and> length buf = ALIGNED_UNIT_LEN"
| "may_call _ a \<longleftrightarrow> True"

inductive api_step :: "('s, 'd) aacs_env \<Rightarrow> api_op \<Rightarrow> aacs \<times> world \<Rightarrow> aacs \<times> world \<Rightarrow> bool" for A where
  call: "may_call op a \<Longrightarrow> api A op a w = Some s' \<Longrightarrow> api_step A op (a, w) s'"

inductive api_run :: "('s, 'd) aacs_env \<Rightarrow> api_op list \<Rightarrow> aacs \<times> world \<Rightarrow> aacs \<times> world \<Rightarrow> bool" for A where
  stop: "api_run A [] s s"
| more: "api_step A op s s' \<Longrightarrow> api_run A ops s' s'' \<Longrightarrow> api_run A (op # ops) s s''"

inductive_cases api_stepE: "api_step A op (a, w) s'"
inductive_cases api_run_NilE: "api_run A [] s s'"
inductive_cases api_run_ConsE: "api_run A (op # ops) s s''"

text \<open>What a run of calls on a new object can lead to.\<close>

inductive reachable :: "('s, 'd) aacs_env \<Rightarrow> aacs \<times> world \<Rightarrow> bool" for A where
  "aacs_init A True = Some a \<Longrightarrow> api_run A ops (a, w) s \<Longrightarrow> reachable A s"

lemma try_keys_index:
  "try_keys A a out buf n i = Some (Some (k, b)) \<Longrightarrow> k < n"
proof (induction "n - i" arbitrary: i out)
  case 0
  then show ?case by (simp add: try_keys.simps [of A a out buf n i])
next
  case (Suc d)
  then have i: "i < n" by simp
  obtain ok ob where u: "decrypt_unit A a out (Some buf) i = Some (ok, ob)"
    using Suc.prems i by (cases "decrypt_unit A a out (Some buf) i") (auto simp: try_keys.simps [of A a out buf n i])
  show ?case
  proof (cases ok)
    case True
    with Suc.prems i u show ?thesis by (simp add: try_keys.simps [of A a out buf n i])
  next
    case False
    with Suc.prems i u have "try_keys A a ob buf n (i + 1) = Some (Some (k, b))"
      by (simp add: try_keys.simps [of A a out buf n i])
    from Suc.hyps(1) [OF _ this] Suc.hyps(2) show ?thesis by simp
  qed
qed

lemma select_title_inv: "aacs_select_title a t = Some a' \<Longrightarrow> aacs_inv a \<Longrightarrow> aacs_inv a'"
  by (auto simp: aacs_select_title_def aacs_inv_def wf_titles_def split: option.splits if_splits)

lemma decrypt_unit_inv:
  assumes "aacs_decrypt_unit A a out buf = Some (r, a', buf')" and "aacs_inv a"
  shows "aacs_inv a' \<and> aa_no_cache a' = aa_no_cache a"
proof -
  have "aacs_inv (a\<lparr>aa_current_cps_unit := i mod 65536, aa_cps_unit_selected := True\<rparr>)"
    if "aa_uk a = Some uk" "i < num_uk uk" for i uk
  proof -
    have "i mod 65536 \<le> i" by simp
    then have "i mod 65536 < num_uk uk" using that(2) by (rule le_less_trans)
    with that(1) assms(2) show ?thesis by (simp add: aacs_inv_def)
  qed
  note upd = this
  obtain b where b: "rd buf 0 = Some b" using assms(1) by (auto simp: aacs_decrypt_unit_def split: Option.bind_splits)
  show ?thesis
  proof (cases "b AND 0xc0 = 0 \<or> \<not> keys_loaded a")
    case True
    with assms(1) b have "a' = a" by (cases "b AND 0xc0 = 0") (auto simp: aacs_decrypt_unit_def)
    with assms(2) show ?thesis by simp
  next
    case False
    then obtain buf1 uk where u: "decrypt_unit_bus A a buf = Some buf1" "aa_uk a = Some uk"
      using assms(1) b by (auto simp: aacs_decrypt_unit_def split: Option.bind_splits)
    show ?thesis
    proof (cases "aa_cps_unit_selected a \<or> num_uk uk = 1")
      case True
      with assms b False u show ?thesis by (auto simp: aacs_decrypt_unit_def split: Option.bind_splits)
    next
      case nsel: False
      obtain t where t: "try_keys A a out buf1 (num_uk uk) 0 = Some t"
        using assms(1) b False u nsel by (auto simp: aacs_decrypt_unit_def split: Option.bind_splits)
      show ?thesis
      proof (cases t)
        case None
        with assms b False u nsel t show ?thesis by (auto simp: aacs_decrypt_unit_def)
      next
        case (Some x)
        obtain i ob where x: "x = (i, ob)" by (cases x)
        with assms(1) b False u nsel t Some
        have "a' = a\<lparr>aa_current_cps_unit := i mod 65536, aa_cps_unit_selected := True\<rparr>"
          by (auto simp: aacs_decrypt_unit_def split: Option.bind_splits)
        with upd [OF u(2) try_keys_index [OF t [unfolded Some x]]] show ?thesis by simp
      qed
    qed
  qed
qed

lemma aacs_get_mk_frame: "aacs_get_mk A a w = Some (r, a', w') \<Longrightarrow> quiet a w a' w' \<and> same_keys a a'"
  by (auto simp: aacs_get_mk_def quiet_def same_keys_def dest!: calc_mk_keys
      split: if_splits Option.bind_splits option.splits)

lemma aacs_get_vid_frame: "aacs_get_vid A a w = Some (r, a', w') \<Longrightarrow> quiet a w a' w' \<and> same_keys a a'"
  by (auto simp: aacs_get_vid_def Let_def quiet_def same_keys_def dest!: aacs_read_vid_frame
      split: if_splits Option.bind_splits option.splits)

lemma aacs_get_pmsn_frame: "aacs_get_pmsn A a w = Some (r, a', w') \<Longrightarrow> quiet a w a' w' \<and> same_keys a a'"
  by (auto simp: aacs_get_pmsn_def quiet_def same_keys_def dest!: aacs_read_pmsn_frame
      split: if_splits Option.bind_splits option.splits)

lemma aacs_get_bus_encryption_frame:
  "aacs_get_bus_encryption A a w = Some (r, a', w') \<Longrightarrow> quiet a w a' w' \<and> same_keys a a'"
  by (auto simp: aacs_get_bus_encryption_def quiet_def same_keys_def dest!: get_bus_encryption_capable_frame
      split: if_splits Option.bind_splits)

lemma aacs_get_mkb_version_frame:
  "aacs_get_mkb_version A a w = Some (v, a') \<Longrightarrow> quiet a w a' w \<and> same_keys a a'"
  by (auto simp: aacs_get_mkb_version_def quiet_def same_keys_def split: if_splits Option.bind_splits option.splits)

lemma aacs_get_device_binding_id_frame:
  "aacs_get_device_binding_id A a w = Some (r, a', w') \<Longrightarrow> same_keys a a'"
  by (auto simp: aacs_get_device_binding_id_def Let_def same_keys_def split: if_splits Option.bind_splits)

lemmas api_frames = aacs_get_mk_frame aacs_get_vid_frame aacs_get_pmsn_frame aacs_get_bus_encryption_frame
  aacs_get_mkb_version_frame

text \<open>The calls that are allowed to change the caching or to write a file of the configuration.\<close>

definition writes :: "api_op \<Rightarrow> bool" where
  "writes op \<longleftrightarrow> (case op of SetKeyCaching e \<Rightarrow> True | GetDeviceBindingId \<Rightarrow> True | _ \<Rightarrow> False)"

lemma api_step_inv:
  assumes "api_step A op (a, w) (a', w')" and "aacs_inv a"
  shows "aacs_inv a' \<and> (\<not> writes op \<longrightarrow> quiet a w a' w')"
proof -
  from assms(1) have ok: "may_call op a" and run: "api A op a w = Some (a', w')"
    by (auto elim: api_stepE)
  have set: "aacs_inv (a\<lparr>aa_no_cache := e\<rparr>)" "aacs_inv (a\<lparr>aa_fopen := p\<rparr>)" "aacs_inv (a\<lparr>aa_device_nonce := n\<rparr>)" for e p n
    by (rule aacs_inv_same [OF _ assms(2)], simp add: same_keys_def)+
  have keys: "aacs_inv a'" if "same_keys a a'" using aacs_inv_same [OF that assms(2)] .
  have sel: "aa_no_cache a' = aa_no_cache a" if "aacs_select_title a t = Some a'" for t
    using that by (auto simp: aacs_select_title_def split: option.splits if_splits)
  show ?thesis
    using ok run set keys
    by (cases op)
      (auto simp: writes_def quiet_def aacs_get_device_nonce_def Let_def same_keys_def
        dest: aacs_open_device_frame [OF _ assms(2)] api_frames select_title_inv [OF _ assms(2)] sel
          decrypt_unit_inv [OF _ assms(2)] aacs_get_device_binding_id_frame)
qed

section \<open>Decryption is always defined\<close>

lemma crypto_aacs_decrypt_length:
  "gcrypt_ok G \<Longrightarrow> length out = n \<Longrightarrow> (\<And>d. inp = Some d \<Longrightarrow> length d = n) \<Longrightarrow>
     length (snd (crypto_aacs_decrypt G key out inp)) = n"
  by (auto simp: crypto_aacs_decrypt_def gcrypt_ok_def Let_def split: option.splits)

lemma verify_ts_defined: "length buf = 6144 \<Longrightarrow> \<exists>ok b. verify_ts buf = Some (ok, b) \<and> length b = 6144"
  using verify_ts_True [of buf] verify_ts_False [of buf] by (cases "is_ts buf") auto

lemma decrypt_unit_defined:
  assumes "gcrypt_ok (ae_gcrypt A)" and "length out = 6144" and "inp = None \<or> inp = Some buf \<and> length buf = 6144"
    and "uk_key a i = Some k"
  shows "\<exists>ok b. decrypt_unit A a out inp i = Some (ok, b) \<and> length b = 6144"
proof -
  define out1 where "out1 = (case inp of None \<Rightarrow> out | Some b \<Rightarrow> take 16 b @ drop 16 out)"
  have l1: "length out1 = 6144" using assms(2,3) by (auto simp: out1_def)
  have c: "(case inp of None \<Rightarrow> Some out | Some inp \<Rightarrow> do { h \<leftarrow> rdn inp 0 16; memcpy_at out 0 h }) = Some out1"
    using assms(2,3) by (auto simp: out1_def rdn_def memcpy_at_def)
  define key where "key = xor_bytes (snd (crypto_aes128e (ae_gcrypt A) k (Some (take 16 out1)) (fst (me_loc (ae_lib A))))) (take 16 out1)"
  define i2 where "i2 = map_option (\<lambda>b. drop 16 b) inp"
  have i: "(case inp of None \<Rightarrow> Some None | Some inp \<Rightarrow> map_option Some (rdn inp 16 (ALIGNED_UNIT_LEN - 16))) = Some i2"
    using assms(3) by (auto simp: i2_def rdn_def unit_lens)
  define d where "d = snd (crypto_aacs_decrypt (ae_gcrypt A) key (drop 16 out1) i2)"
  have ld: "length d = 6128"
    unfolding d_def using assms(3) l1 by (intro crypto_aacs_decrypt_length [OF assms(1)]) (auto simp: i2_def)
  have h: "rdn out1 0 16 = Some (take 16 out1)" "rdn out1 16 (ALIGNED_UNIT_LEN - 16) = Some (drop 16 out1)"
    using l1 by (simp_all add: rdn_def unit_lens)
  have m: "memcpy_at out1 16 d = Some (take 16 out1 @ d)" using l1 ld by (simp add: memcpy_at_def)
  have "decrypt_unit A a out inp i = verify_ts (take 16 out1 @ d)"
    unfolding decrypt_unit_def c i by (simp add: assms(4) h key_def [symmetric] d_def [symmetric] m)
  then show ?thesis using verify_ts_defined [of "take 16 out1 @ d"] l1 ld by simp
qed

lemma try_keys_defined:
  assumes "gcrypt_ok (ae_gcrypt A)" and "length buf = 6144" and "\<And>i. i < n \<Longrightarrow> uk_key a i \<noteq> None" and "length out = 6144"
  shows "\<exists>r. try_keys A a out buf n i = Some r \<and> (\<forall>k b. r = Some (k, b) \<longrightarrow> length b = 6144)"
  using assms(4)
proof (induction "n - i" arbitrary: i out)
  case 0
  then show ?case by (simp add: try_keys.simps)
next
  case (Suc d)
  then have i: "i < n" by simp
  with assms(3) obtain k where k: "uk_key a i = Some k" by blast
  obtain ok b where u: "decrypt_unit A a out (Some buf) i = Some (ok, b)" "length b = 6144"
    using decrypt_unit_defined [OF assms(1) Suc.prems _ k, of "Some buf"] assms(2) by auto
  show ?case
  proof (cases ok)
    case True
    with i u show ?thesis by (subst try_keys.simps) simp
  next
    case False
    have "d = n - (i + 1)" using Suc.hyps(2) by simp
    from Suc.hyps(1) [OF this u(2)] i u False show ?thesis by (subst try_keys.simps) simp
  qed
qed

lemma bus_loop_defined:
  assumes "gcrypt_ok (ae_gcrypt A)" and "length buf = 6144" and "2048 dvd i"
  shows "\<exists>b. bus_loop A key buf i = Some b \<and> length b = 6144"
  using assms(2,3)
proof (induction "6144 - i" arbitrary: i buf rule: less_induct)
  case less
  show ?case
  proof (cases "i < 6144")
    case False
    with less.prems show ?thesis by (simp add: bus_loop.simps [of A key buf i] unit_lens)
  next
    case True
    then have fit: "i + 2048 \<le> 6144" using less.prems(2) by (auto elim!: dvdE)
    let ?s = "take 2032 (drop (i + 16) buf)"
    have s: "rdn buf (i + 16) (SECTOR_LEN - 16) = Some ?s" using fit less.prems(1) by (simp add: rdn_def unit_lens)
    have ls: "length ?s = 2032" using fit less.prems(1) by simp
    define d where "d = snd (crypto_aacs_decrypt (ae_gcrypt A) key ?s None)"
    have ld: "length d = 2032" unfolding d_def by (rule crypto_aacs_decrypt_length [OF assms(1) ls]) simp
    obtain b where m: "memcpy_at buf (i + 16) d = Some b" "length b = 6144"
      using fit less.prems(1) ld by (simp add: memcpy_at_def)
    have "bus_loop A key buf i = bus_loop A key b (i + 2048)"
      using True by (subst bus_loop.simps) (simp add: unit_lens s [unfolded unit_lens, simplified] d_def [symmetric] m)
    moreover have "6144 - (i + 2048) < 6144 - i" "2048 dvd i + 2048" using True less.prems(2) by simp_all
    ultimately show ?thesis using less.hyps [of "i + 2048" b] m(2) by simp
  qed
qed

lemma aacs_decrypt_unit_defined:
  assumes "gcrypt_ok (ae_gcrypt A)" and "length buf = 6144" and "length out = 6144" and "aacs_inv a"
  shows "\<exists>r a' b. aacs_decrypt_unit A a out buf = Some (r, a', b) \<and> length b = 6144"
proof (cases "buf ! 0 AND 0xc0 = 0 \<or> \<not> keys_loaded a")
  case True
  with assms(2) show ?thesis by (auto simp: aacs_decrypt_unit_def rd_def)
next
  case False
  obtain uk ks where uk: "aa_uk a = Some uk" "aa_current_cps_unit a < num_uk uk"
    "\<And>i. i < num_uk uk \<Longrightarrow> uk_key a i = Some (ks ! i)"
    using uk_key_inv [OF assms(4)] False by metis
  obtain b1 where b1: "decrypt_unit_bus A a buf = Some b1" "length b1 = 6144"
    using bus_loop_defined [OF assms(1,2), of 0 "aa_read_data_key a"] assms(2)
    by (cases "aa_bee a \<and> 0 < aa_bec a") (auto simp: decrypt_unit_bus_def)
  show ?thesis
  proof (cases "aa_cps_unit_selected a \<or> num_uk uk = 1")
    case True
    obtain ok b where "decrypt_unit A a b1 None (aa_current_cps_unit a) = Some (ok, b)" "length b = 6144"
      using decrypt_unit_defined [OF assms(1) b1(2) _ uk(3) [OF uk(2)], of None] by auto
    with True False assms(2) uk b1 show ?thesis by (auto simp: aacs_decrypt_unit_def rd_def)
  next
    case nsel: False
    obtain r where r: "try_keys A a out b1 (num_uk uk) 0 = Some r" "\<And>k b. r = Some (k, b) \<Longrightarrow> length b = 6144"
      using try_keys_defined [OF assms(1) b1(2) _ assms(3), of "num_uk uk" a 0] uk(3) by auto
    with nsel False assms(2) uk b1 show ?thesis
      by (cases r) (auto simp: aacs_decrypt_unit_def rd_def memcpy_at_def unit_lens)
  qed
qed

lemma aacs_select_title_defined: "aacs_inv a \<Longrightarrow> aacs_select_title a t \<noteq> None"
  by (auto simp: aacs_inv_def wf_titles_def aacs_select_title_def split: option.splits)

lemma cps_unit_defined: "aacs_inv a \<Longrightarrow> cps_unit (Some a) t \<noteq> None"
  by (auto simp: aacs_inv_def wf_titles_def cps_unit_def split: option.splits)

section \<open>Properties\<close>

lemma api_run_inv: "api_run A ops s s' \<Longrightarrow> aacs_inv (fst s) \<Longrightarrow> aacs_inv (fst s')"
proof (induction rule: api_run.induct)
  case (more op s s' ops s'')
  then show ?case using api_step_inv [of A op "fst s" "snd s" "fst s'" "snd s'"] by simp
qed simp

lemma reachable_inv: "reachable A s \<Longrightarrow> aacs_inv (fst s)"
proof (induction rule: reachable.induct)
  case (1 a ops w s)
  then have "aacs_inv a" by (auto simp: aacs_init_def aacs_inv_def zero_aacs_def split: if_splits)
  with api_run_inv [OF 1(2)] show ?case by simp
qed



lemma api_run_quiet:
  assumes "api_run A ops s s'" and "aacs_inv (fst s)" and "\<forall>op \<in> set ops. \<not> writes op"
  shows "quiet (fst s) (snd s) (fst s') (snd s')"
  using assms
proof (induction rule: api_run.induct)
  case (stop s)
  then show ?case by (simp add: quiet_def)
next
  case (more op s s' ops s'')
  from api_step_inv [of A op "fst s" "snd s" "fst s'" "snd s'"] more show ?case
    by (auto intro: quiet_trans)
qed

text \<open>
  C23: with key caching off, opening a disc, reading keys and ids, selecting titles and decrypting
  write nothing to the file system, however the calls are ordered; only switching caching on again
  and the device binding id, which is not a cache entry, are left out.
\<close>

theorem no_cache_writes_nothing:
  assumes "api_run A ops (a, w) (a', w')" and "aacs_inv a" and "aa_no_cache a" and "\<forall>op \<in> set ops. \<not> writes op"
  shows "w_fs w' = w_fs w"
  using api_run_quiet [OF assms(1) _ assms(4)] assms(2,3) by (simp add: quiet_def)

text \<open>A short life without a disc: caching off, opening fails, then a title and a unit.\<close>

definition toy_calls :: "api_op list" where
  "toy_calls = [SetKeyCaching False, SelectTitle 3, DecryptUnit (zeros 6144) (zeros 6144), GetDeviceNonce]"

lemma toy_init: "aacs_init toy_aacs_env True = Some zero_aacs"
  by (simp add: aacs_init_def zero_aacs_def)

lemma toy_calls_run:
  "\<exists>a. api_run toy_aacs_env toy_calls (zero_aacs, usage_world) (a, usage_world\<lparr>w_count := 1\<rparr>) \<and> aa_no_cache a"
proof -
  let ?a = "zero_aacs\<lparr>aa_no_cache := True\<rparr>" and ?a2 = "zero_aacs\<lparr>aa_no_cache := True, aa_device_nonce := zeros 16\<rparr>"
  have z: "rd (zeros 6144) 0 = Some 0" by (simp add: rd_def zeros_def)
  have "api_step toy_aacs_env (SetKeyCaching False) (zero_aacs, usage_world) (?a, usage_world)"
    by (rule call) simp_all
  moreover have "api_step toy_aacs_env (SelectTitle 3) (?a, usage_world) (?a, usage_world)"
    by (rule call) (simp_all add: aacs_select_title_def zero_aacs_def)
  moreover have "api_step toy_aacs_env (DecryptUnit (zeros 6144) (zeros 6144)) (?a, usage_world) (?a, usage_world)"
    by (rule call) (simp_all add: aacs_decrypt_unit_def unit_lens z)
  moreover have "api_step toy_aacs_env GetDeviceNonce (?a, usage_world) (?a2, usage_world\<lparr>w_count := 1\<rparr>)"
    by (rule call) (simp_all add: aacs_get_device_nonce_def toy_aacs_env_def usage_world_def zeros_def Let_def)
  ultimately have "api_run toy_aacs_env toy_calls (zero_aacs, usage_world) (?a2, usage_world\<lparr>w_count := 1\<rparr>)"
    unfolding toy_calls_def by (simp add: api_run.more api_run.stop)
  then show ?thesis by (intro exI [of _ ?a2]) simp
qed

lemma toy_reachable: "\<exists>a. reachable toy_aacs_env (a, usage_world\<lparr>w_count := 1\<rparr>)"
  using toy_calls_run reachable.intros [OF toy_init] by blast



theorem no_cache_writes_nothing_witness:
  "\<exists>a w. api_run toy_aacs_env (tl toy_calls) (zero_aacs\<lparr>aa_no_cache := True\<rparr>, usage_world) (a, w) \<and>
    w_fs w = w_fs usage_world"
proof -
  obtain a where run: "api_run toy_aacs_env toy_calls (zero_aacs, usage_world) (a, usage_world\<lparr>w_count := 1\<rparr>)"
    using toy_calls_run by blast
  then have tl: "api_run toy_aacs_env (tl toy_calls) (zero_aacs\<lparr>aa_no_cache := True\<rparr>, usage_world) (a, usage_world\<lparr>w_count := 1\<rparr>)"
    unfolding toy_calls_def by (auto elim!: api_run_ConsE [of _ "SetKeyCaching False"] elim: api_stepE)
  have "aacs_inv (zero_aacs\<lparr>aa_no_cache := True\<rparr>)" by (simp add: aacs_inv_def zero_aacs_def)
  from no_cache_writes_nothing [OF tl this]
  have "w_fs (usage_world\<lparr>w_count := 1\<rparr>) = w_fs usage_world" by (simp add: toy_calls_def writes_def)
  with tl show ?thesis by blast
qed

section \<open>Volume ids without authentication\<close>

text \<open>
  C39: when the drive's MAC over the volume id is wrong, reading fails, but the id stays in the
  object, and \<open>aacs_get_vid\<close>, which ignores the failure, hands it out; every later call and every
  later computation of a volume unique key takes it for a good one.
\<close>

theorem unauthenticated_vid:
  assumes "is_zero (aa_vid a)" and "aa_no_cache a"
    and "keydbcfg_config_load (ae_fs A) (ae_parse A) (w_fs w) None None = Some (Some cf)"
    and "aacs_mmc_read_auth A a w (cf_host_cert_list cf) MMC_READ_VID (Some (aa_vid a)) None = Some (e, Some vid, q, w')"
    and "e \<noteq> AACS_SUCCESS" and "\<not> is_zero vid"
  shows "aacs_get_vid A a w = Some (Some vid, a\<lparr>aa_vid := vid\<rparr>, w') \<and>
    aacs_read_vid A (a\<lparr>aa_vid := vid\<rparr>) w' hcl = Some (AACS_SUCCESS, a\<lparr>aa_vid := vid\<rparr>, w')"
proof -
  have "aacs_read_vid A (a\<lparr>aa_vid := aa_vid a\<rparr>) w (cf_host_cert_list cf) = Some (e, a\<lparr>aa_vid := vid\<rparr>, w')"
    using assms(1, 4, 5) by (simp add: aacs_read_vid_def Let_def)
  then show ?thesis using assms(1-3, 6) by (simp add: aacs_get_vid_def Let_def) (simp add: aacs_read_vid_def)
qed

text \<open>A configuration in the home directory.\<close>

definition config_world :: world where
  "config_world = \<lparr>w_fs = empty_fs\<lparr>fs_files := [''/home/u/.config/aacs/KEYDB.cfg'' \<mapsto> []]\<rparr>, w_count = 0\<rparr>"

lemma toy_config_load:
  "keydbcfg_config_load open_env (\<lambda>s cf path disc_id. (1, toy_config)) (w_fs config_world) None None = Some (Some toy_config)"
proof -
  have home: "file_get_config_home open_env = Some ''/home/u/.config''"
    by (simp add: file_get_config_home_def xdg_dir_def str_printf_eq)
  have user: "open_cfg_file_user_r open_env (w_fs config_world) CFG_FILE_NAME = Some (''/home/u/.config/aacs/KEYDB.cfg'', \<lparr>fh_data = [], fh_pos = 0\<rparr>)"
    "open_cfg_file_user_r open_env (w_fs config_world) PK_FILE_NAME = None"
    "open_cfg_file_user_r open_env (w_fs config_world) CERT_FILE_NAME = None"
    by (simp_all add: open_cfg_file_user_r_def config_file_user_def home str_printf_eq CFG_DIR_def CFG_FILE_NAME_def
        PK_FILE_NAME_def CERT_FILE_NAME_def file_open_r_def config_world_def empty_fs_def)
  have sys: "open_cfg_file_system open_env (w_fs config_world) f = None"
    if "f = CFG_FILE_NAME \<or> f = PK_FILE_NAME \<or> f = CERT_FILE_NAME" for f
    using that
    by (auto simp: open_cfg_file_system_def config_system_dirs_def str_printf_eq file_open_r_def config_world_def empty_fs_def
        CFG_DIR_def CFG_FILE_NAME_def PK_FILE_NAME_def CERT_FILE_NAME_def)
  have "embedded_dks a (rev internal_dk_list) l 0 = Some (l, 0)" "embedded_pks a internal_pk_list l' 0 = Some (l', 0)"
    "embedded_hcs a internal_hc_list l'' 0 = Some (l'', 0)" for a l l' l''
    by (simp_all add: internal_dk_list_def internal_pk_list_def internal_hc_list_def decrypt_key_def rdn_def rd_def
        rd_be_eq is_zero_def zeros_numeral mkint_be32_def)
  then have emb: "parse_embedded open_env toy_config = Some (0, toy_config)"
    by (simp add: parse_embedded_def)
  show ?thesis
    by (simp add: keydbcfg_config_load_def keydbcfg_new_config_file_def load_config_file_def load_pk_file_def
        load_cert_file_def user sys emb)
qed

theorem unauthenticated_vid_witness:
  "let A = toy_aacs_env\<lparr>ae_parse := \<lambda>s cf path disc_id. (1, toy_config), ae_send := toy_drive (replicate 16 7 @ replicate 16 8)\<rparr>
   in aacs_get_vid A fresh_aacs config_world =
     Some (Some (replicate 16 7), fresh_aacs\<lparr>aa_vid := replicate 16 7\<rparr>, config_world\<lparr>w_count := 1\<rparr>)"
proof -
  let ?p = "\<lambda>s cf path disc_id. (1, toy_config)" and ?send = "toy_drive (replicate 16 7 @ replicate 16 8)"
  let ?A = "toy_aacs_env\<lparr>ae_parse := ?p, ae_send := ?send\<rparr>"
  have same: "aacs_mmc_read_auth ?A a w hcl ty p1 p2 = aacs_mmc_read_auth (toy_aacs_env\<lparr>ae_send := ?send\<rparr>) a w hcl ty p1 p2"
    for a w hcl ty p1 p2
  proof -
    have e: "ae_lib_at ?A = ae_lib_at (toy_aacs_env\<lparr>ae_send := ?send\<rparr>)" "ae_send ?A = ae_send (toy_aacs_env\<lparr>ae_send := ?send\<rparr>)"
      "ae_device ?A = ae_device (toy_aacs_env\<lparr>ae_send := ?send\<rparr>)"
      by (simp_all add: fun_eq_iff ae_lib_at_def)
    show ?thesis unfolding aacs_mmc_read_auth_def open_drive_def e ..
  qed
  have z: "replicate 16 8 \<noteq> zeros 16" "\<not> is_zero (replicate 16 7)" by (simp_all add: is_zero_def zeros_def)
  have f: "is_zero (aa_vid fresh_aacs)" "aa_no_cache fresh_aacs" "aa_path fresh_aacs = Some ''/d''"
    by (simp_all add: fresh_aacs_def zero_aacs_def is_zero_def)
  have "aacs_mmc_read_auth ?A fresh_aacs config_world (cf_host_cert_list toy_config) MMC_READ_VID (Some (aa_vid fresh_aacs)) None =
      Some (AACS_ERROR_MMC_FAILURE, Some (replicate 16 7), None, config_world\<lparr>w_count := 1\<rparr>)"
    using toy_drive_mac [OF f(3), of "replicate 16 7" "replicate 16 8" config_world] z(1)
    by (simp add: same config_world_def)
  moreover have "keydbcfg_config_load (ae_fs ?A) (ae_parse ?A) (w_fs config_world) None None = Some (Some toy_config)"
    using toy_config_load by simp
  ultimately have "aacs_get_vid ?A fresh_aacs config_world =
      Some (Some (replicate 16 7), fresh_aacs\<lparr>aa_vid := replicate 16 7\<rparr>, config_world\<lparr>w_count := 1\<rparr>)"
    using unauthenticated_vid [OF f(1,2), of ?A config_world toy_config AACS_ERROR_MMC_FAILURE "replicate 16 7" None _ "[]"] z(2)
    by (simp add: aacs_error_defs)
  then show ?thesis by (simp only: Let_def)
qed

section \<open>Progress\<close>

text \<open>Once an object has keys no call replaces them: another disc cannot be opened on it.\<close>

lemma api_step_uk:
  assumes "api_step A op (a, w) (a', w')" and "aa_uk a = Some uk"
  shows "aa_uk a' = Some uk"
proof -
  have sel: "aa_uk a2 = aa_uk a" if "aacs_select_title a t = Some a2" for a2 t
    using that by (auto simp: aacs_select_title_def split: option.splits if_splits)
  have dec: "aa_uk a2 = aa_uk a" if "aacs_decrypt_unit A a out buf = Some (r, a2, b)" for r a2 b out buf
    using that by (auto simp: aacs_decrypt_unit_def split: Option.bind_splits option.splits if_splits)
  from assms show ?thesis
    by (cases op)
      (auto elim!: api_stepE simp: aacs_get_device_nonce_def Let_def same_keys_def
        dest!: sel dec api_frames aacs_get_device_binding_id_frame)
qed

lemma api_run_uk: "api_run A ops s s' \<Longrightarrow> aa_uk (fst s) = Some uk \<Longrightarrow> aa_uk (fst s') = Some uk"
proof (induction rule: api_run.induct)
  case (more op s s' ops s'')
  then show ?case using api_step_uk [of A op "fst s" "snd s" "fst s'" "snd s'" uk] by simp
qed simp

text \<open>A run whose every call leads back to the state it started in; the calls have one result.\<close>

lemma api_run_loop:
  assumes "\<forall>op \<in> set ops. may_call op a \<and> api A op a w = Some (a, w)"
  shows "api_run A ops (a, w) s \<longleftrightarrow> s = (a, w)"
  using assms
proof (induction ops)
  case Nil
  show ?case by (auto elim: api_run_NilE intro: api_run.stop)
next
  case (Cons op ops)
  then have "api_step A op (a, w) s' \<longleftrightarrow> s' = (a, w)" for s' by (auto elim: api_stepE intro: call)
  with Cons show ?case by (auto elim!: api_run_ConsE intro: api_run.more)
qed



end
