(* ===== verification/KeydbActions.thy ===== *)
theory KeydbActions
  imports KeyDb
begin

text \<open>
  The semantic actions of the grammar of \<^verbatim>\<open>KEYDB.cfg\<close>: the functions that follow the
  grammar in \<^verbatim>\<open>src/file/keydbcfg-parser.y\<close>, as they stand in the generated file
  \<^verbatim>\<open>SMP/src/file/keydbcfg-parser.c\<close>, and the parser's own state.  A pointer to an entry of the
  list of discs is the number of entries behind it, which stays the same when entries are put in
  front; a pointer to a unit key always points to the last one of its disc and is that disc.
\<close>

section \<open>State\<close>

definition MAX_KEY_SIZE :: nat where "MAX_KEY_SIZE = 128"

text \<open>\<open>ps_hexkey\<close> is the string in the buffer \<open>hexkey.b\<close>.\<close>

record parser_state =
  ps_celist :: "nat ptr"
  ps_dkplist :: "nat ptr"
  ps_want_disc_id :: "string ptr"
  ps_all_discs :: bool
  ps_hexkey_size :: nat
  ps_hexkey :: string

datatype entry_type = ENTRY_TYPE_DISCID | ENTRY_TYPE_MEK | ENTRY_TYPE_VID | ENTRY_TYPE_VUK | ENTRY_TYPE_UK

definition title_at :: "config_file \<Rightarrow> nat \<Rightarrow> title_entry ub" where
  "title_at cf i = (if i < length (cf_list cf) then Some (rev (cf_list cf) ! i) else None)"

definition set_title :: "config_file \<Rightarrow> nat \<Rightarrow> title_entry \<Rightarrow> config_file" where
  "set_title cf i e = cf\<lparr>cf_list := rev ((rev (cf_list cf))[i := e])\<rparr>"

text \<open>Five words of eight characters are compared, all letters in lower case.\<close>

definition discid_cmp :: "string \<Rightarrow> string \<Rightarrow> bool ub" where
  "discid_cmp want_disc_id disc_id =
     (if length want_disc_id < 40 \<or> length disc_id < 40 then None
      else Some (take 40 (bytes want_disc_id) = map (\<lambda>b. b OR 0x20) (take 40 (bytes disc_id))))"

section \<open>Adding entries\<close>

definition SIZEOF_DK_LIST :: nat where "SIZEOF_DK_LIST = 40"
definition SIZEOF_PK_LIST :: nat where "SIZEOF_PK_LIST = 24"
definition SIZEOF_CERT_LIST :: nat where "SIZEOF_CERT_LIST = 120"
definition SIZEOF_TITLE_ENTRY_LIST :: nat where "SIZEOF_TITLE_ENTRY_LIST = 88"
definition SIZEOF_DIGIT_KEY_PAIR_LIST :: nat where "SIZEOF_DIGIT_KEY_PAIR_LIST = 32"

text \<open>\<open>strtoul (s, NULL, 16)\<close> of a string of hexadecimal digits: too large numbers saturate.\<close>

definition strtoul_16 :: "string \<Rightarrow> nat" where
  "strtoul_16 s =
     min (foldl (\<lambda>n c. 16 * n + unat (fst (hexstring_to_unsigned_char c))) 0 (takeWhile isxdigit s)) (2 ^ 64 - 1)"

definition add_dk_entry ::
    "(nat \<Rightarrow> bool) \<Rightarrow> config_file \<Rightarrow> string ptr \<Rightarrow> string ptr \<Rightarrow> string ptr \<Rightarrow> string ptr \<Rightarrow> config_file ub" where
  "add_dk_entry alloc cf key node uv u_mask_shift =
     (case (key, node) of
        (Some key, Some node) \<Rightarrow>
          if length key \<noteq> 32 then Some cf
          else if \<not> alloc SIZEOF_DK_LIST then Some cf
          else do {
            (k, _) \<leftarrow> hexstring_to_hex_array (zeros 16) 16 key;
            let e = \<lparr>dk_key = k, dk_node = strtoul_16 node,
              dk_uv = (case uv of None \<Rightarrow> 0 | Some s \<Rightarrow> word_of_nat (strtoul_16 s)),
              dk_u_mask_shift = (case u_mask_shift of None \<Rightarrow> 0 | Some s \<Rightarrow> word_of_nat (strtoul_16 s))\<rparr>;
            Some (cf\<lparr>cf_dkl := cf_dkl cf @ [e]\<rparr>)
          }
      | _ \<Rightarrow> Some cf)"

definition add_pk_entry :: "(nat \<Rightarrow> bool) \<Rightarrow> config_file \<Rightarrow> string ptr \<Rightarrow> config_file ub" where
  "add_pk_entry alloc cf key =
     (case key of None \<Rightarrow> Some cf
      | Some key \<Rightarrow>
          if length key \<noteq> 32 then Some cf
          else if \<not> alloc SIZEOF_PK_LIST then Some cf
          else do {
            (k, _) \<leftarrow> hexstring_to_hex_array (zeros 16) 16 key;
            Some (cf\<lparr>cf_pkl := cf_pkl cf @ [k]\<rparr>)
          })"

definition add_cert_entry :: "(nat \<Rightarrow> bool) \<Rightarrow> config_file \<Rightarrow> string ptr \<Rightarrow> string ptr \<Rightarrow> config_file ub" where
  "add_cert_entry alloc cf hpriv hcert =
     (case hpriv of None \<Rightarrow> Some cf
      | Some hpriv \<Rightarrow>
          if length hpriv \<noteq> 40 then Some cf
          else (case hcert of None \<Rightarrow> Some cf
            | Some hcert \<Rightarrow>
                if length hcert \<noteq> 184 then Some cf
                else if \<not> alloc SIZEOF_CERT_LIST then Some cf
                else do {
                  (k, _) \<leftarrow> hexstring_to_hex_array (zeros 20) 20 hpriv;
                  (c, _) \<leftarrow> hexstring_to_hex_array (zeros 92) 92 hcert;
                  Some (cf\<lparr>cf_host_cert_list := cf_host_cert_list cf @ [\<lparr>host_priv_key = k, host_cert = c\<rparr>]\<rparr>)
                }))"

definition new_title_entry :: title_entry where
  "new_title_entry = \<lparr>te_discid = zeros 20, te_mk = zeros 16, te_vid = zeros 16, te_vuk = zeros 16, te_uk = []\<rparr>"

definition add_entry :: "config_file \<Rightarrow> nat ptr \<Rightarrow> entry_type \<Rightarrow> string ptr \<Rightarrow> config_file ub" where
  "add_entry cf list ty entry =
     (case list of None \<Rightarrow> Some cf
      | Some i \<Rightarrow> do {
          e \<leftarrow> title_at cf i;
          case entry of None \<Rightarrow> Some cf
          | Some s \<Rightarrow>
             (case ty of
                ENTRY_TYPE_DISCID \<Rightarrow>
                  if length s \<noteq> 40 then Some cf
                  else do { (a, _) \<leftarrow> hexstring_to_hex_array (te_discid e) 20 s; Some (set_title cf i (e\<lparr>te_discid := a\<rparr>)) }
              | ENTRY_TYPE_MEK \<Rightarrow>
                  if length s \<noteq> 32 then Some cf
                  else do { (a, _) \<leftarrow> hexstring_to_hex_array (te_mk e) 16 s; Some (set_title cf i (e\<lparr>te_mk := a\<rparr>)) }
              | ENTRY_TYPE_VID \<Rightarrow>
                  if length s \<noteq> 32 then Some cf
                  else do { (a, _) \<leftarrow> hexstring_to_hex_array (te_vid e) 16 s; Some (set_title cf i (e\<lparr>te_vid := a\<rparr>)) }
              | ENTRY_TYPE_VUK \<Rightarrow>
                  if length s \<noteq> 32 then Some cf
                  else do { (a, _) \<leftarrow> hexstring_to_hex_array (te_vuk e) 16 s; Some (set_title cf i (e\<lparr>te_vuk := a\<rparr>)) }
              | ENTRY_TYPE_UK \<Rightarrow> Some cf)
        })"

definition new_digit_key_pair_entry :: "(nat \<Rightarrow> bool) \<Rightarrow> nat \<Rightarrow> string ptr \<Rightarrow> (nat \<times> byte list) ptr ub" where
  "new_digit_key_pair_entry alloc digit key =
     (case key of None \<Rightarrow> Some None
      | Some key \<Rightarrow>
          if length key \<noteq> 32 then Some None
          else if \<not> alloc SIZEOF_DIGIT_KEY_PAIR_LIST then Some None
          else do {
            (k, _) \<leftarrow> hexstring_to_hex_array (zeros 16) 16 key;
            Some (Some (digit, k))
          })"

section \<open>The longer actions\<close>

text \<open>\<open>disc_info\<close>: a disc id and a title; the id is the key that was read last.\<close>

definition disc_info :: "(nat \<Rightarrow> bool) \<Rightarrow> config_file \<Rightarrow> parser_state \<Rightarrow> (config_file \<times> parser_state) ub" where
  "disc_info alloc cf ps =
     (if ps_hexkey_size ps \<noteq> 40 then Some (cf, ps\<lparr>ps_celist := None\<rparr>)
      else do {
        ignore \<leftarrow> (if ps_all_discs ps then Some False
          else (case ps_want_disc_id ps of None \<Rightarrow> Some True
            | Some want \<Rightarrow> map_option Not (discid_cmp want (ps_hexkey ps))));
        if ignore then Some (cf, ps\<lparr>ps_celist := None\<rparr>)
        else if \<not> alloc SIZEOF_TITLE_ENTRY_LIST then Some (cf, ps\<lparr>ps_celist := None\<rparr>)
        else do {
          (d, _) \<leftarrow> hexstring_to_hex_array (te_discid new_title_entry) 20 (ps_hexkey ps);
          Some (cf\<lparr>cf_list := new_title_entry\<lparr>te_discid := d\<rparr> # cf_list cf\<rparr>,
                ps\<lparr>ps_celist := Some (length (cf_list cf))\<rparr>)
        }
      })"

text \<open>\<open>uk_data\<close>: a number and a unit key.\<close>

definition uk_data :: "(nat \<Rightarrow> bool) \<Rightarrow> config_file \<Rightarrow> parser_state \<Rightarrow> nat \<Rightarrow> string ptr \<Rightarrow>
    (config_file \<times> parser_state) ub" where
  "uk_data alloc cf ps digit key =
     (case ps_celist ps of None \<Rightarrow> Some (cf, ps)
      | Some c \<Rightarrow>
          (case ps_dkplist ps of
             None \<Rightarrow> do {
               e \<leftarrow> title_at cf c;
               if te_uk e \<noteq> [] then Some (cf, ps)
               else do {
                 n \<leftarrow> new_digit_key_pair_entry alloc digit key;
                 case n of None \<Rightarrow> Some (cf, ps\<lparr>ps_dkplist := None\<rparr>)
                 | Some x \<Rightarrow> Some (set_title cf c (e\<lparr>te_uk := [x]\<rparr>), ps\<lparr>ps_dkplist := Some c\<rparr>)
               }
             }
           | Some d \<Rightarrow> do {
               e \<leftarrow> title_at cf d;
               n \<leftarrow> new_digit_key_pair_entry alloc digit key;
               case n of None \<Rightarrow> Some (cf, ps)
               | Some x \<Rightarrow> Some (set_title cf d (e\<lparr>te_uk := te_uk e @ [x]\<rparr>), ps)
             }))"

text \<open>\<open>hexkey\<close>: the first part of a key, and a further one.\<close>

definition hexkey_first :: "parser_state \<Rightarrow> string \<Rightarrow> parser_state" where
  "hexkey_first ps s =
     (if length s \<ge> MAX_KEY_SIZE then ps\<lparr>ps_hexkey := [], ps_hexkey_size := 0\<rparr>
      else ps\<lparr>ps_hexkey := s, ps_hexkey_size := length s\<rparr>)"

definition hexkey_more :: "parser_state \<Rightarrow> string \<Rightarrow> parser_state ub" where
  "hexkey_more ps s =
     (if ps_hexkey_size ps + length s \<ge> MAX_KEY_SIZE then Some ps
      else if ps_hexkey_size ps \<le> length (ps_hexkey ps)
      then Some (ps\<lparr>ps_hexkey := take (ps_hexkey_size ps) (ps_hexkey ps) @ s,
                    ps_hexkey_size := ps_hexkey_size ps + length s\<rparr>)
      else None)"

section \<open>The invariant of the actions\<close>

definition wf_title :: "title_entry \<Rightarrow> bool" where
  "wf_title e \<longleftrightarrow> length (te_discid e) = 20 \<and> length (te_mk e) = 16 \<and> length (te_vid e) = 16 \<and> length (te_vuk e) = 16"

definition wf_ps :: "config_file \<Rightarrow> parser_state \<Rightarrow> bool" where
  "wf_ps cf ps \<longleftrightarrow> (\<forall>e \<in> set (cf_list cf). wf_title e) \<and>
     (\<forall>i. ps_celist ps = Some i \<longrightarrow> i < length (cf_list cf)) \<and>
     (\<forall>i. ps_dkplist ps = Some i \<longrightarrow> i < length (cf_list cf) \<and> te_uk (rev (cf_list cf) ! i) \<noteq> []) \<and>
     (\<forall>w. ps_want_disc_id ps = Some w \<longrightarrow> length w = 40) \<and>
     ps_hexkey_size ps = length (ps_hexkey ps) \<and> length (ps_hexkey ps) < MAX_KEY_SIZE"

lemma wf_psD:
  assumes "wf_ps cf ps"
  shows "e \<in> set (cf_list cf) \<Longrightarrow> wf_title e" "ps_celist ps = Some i \<Longrightarrow> i < length (cf_list cf)"
    "ps_dkplist ps = Some i \<Longrightarrow> i < length (cf_list cf)"
    "ps_dkplist ps = Some i \<Longrightarrow> te_uk (rev (cf_list cf) ! i) \<noteq> []"
    "ps_want_disc_id ps = Some w \<Longrightarrow> length w = 40" "ps_hexkey_size ps = length (ps_hexkey ps)"
    "length (ps_hexkey ps) < MAX_KEY_SIZE"
  using assms by (auto simp: wf_ps_def)

text \<open>Conversion of a string with exactly the digits that are asked for.\<close>

lemma hex_array_exact:
  assumes "length a = n" and "length s = 2 * n"
  obtains d ok where "hexstring_to_hex_array a n s = Some (d, ok)" "length d = n"
proof -
  have "length (fst (unhex s)) \<le> n" using length_unhex [of s] assms(2) by simp
  then show ?thesis
    using that assms by (simp add: hexstring_to_hex_array_unhex case_prod_beta Let_def)
qed

lemma hex_array_prefix:
  assumes "length a = n" and "2 * n \<le> length s"
  obtains d ok where "hexstring_to_hex_array a n s = Some (d, ok)" "length d = n"
proof -
  have "length (fst (unhex (take (2 * n) s))) \<le> n" using length_unhex [of "take (2 * n) s"] assms(2) by simp
  then show ?thesis
    using that assms by (simp add: hexstring_to_hex_array_unhex case_prod_beta Let_def)
qed

end
