(* ===== verification/KeydbParser.thy ===== *)
theory KeydbParser
  imports KeydbActions
begin

text \<open>
  The parser of \<^verbatim>\<open>KEYDB.cfg\<close>: the table driven automaton \<open>yyparse\<close> of the generated file
  \<^verbatim>\<open>SMP/src/file/keydbcfg-parser.c\<close> with its tables, the actions of its rules and its error
  recovery.  Its input is the list of tokens that the scanner returns, in order; after the last
  one the scanner returns the end of file for ever.  \<open>yyparse\<close> jumps between labels; a step
  here goes from \<open>yysetstate\<close> to the next \<open>yysetstate\<close>.
\<close>

section \<open>Tokens\<close>

datatype token =
    HEXSTRING string
  | DISC_TITLE string
  | DIGIT nat
  | KEYWORD_DEVICE_KEY
  | KEYWORD_DEVICE_NODE
  | KEYWORD_KEY_UV
  | KEYWORD_KEY_U_MASK_SHIFT
  | KEYWORD_HOST_PRIV_KEY
  | KEYWORD_HOST_CERT
  | KEYWORD_HOST_NONCE
  | KEYWORD_HOST_KEY_POINT
  | PUNCT_EQUALS_SIGN
  | PUNCT_VERTICAL_BAR
  | PUNCT_HYPHEN
  | ENTRY_ID_DK
  | ENTRY_ID_PK
  | ENTRY_ID_HC
  | ENTRY_ID_DATE
  | ENTRY_ID_MEK
  | ENTRY_ID_VID
  | ENTRY_ID_BN
  | ENTRY_ID_VUK
  | ENTRY_ID_PAK
  | ENTRY_ID_TK
  | ENTRY_ID_UK
  | NEWLINE
  | BAD_ENTRY

primrec token_code :: "token \<Rightarrow> nat" where
  "token_code (HEXSTRING _) = 258"
| "token_code (DISC_TITLE _) = 259"
| "token_code (DIGIT _) = 260"
| "token_code KEYWORD_DEVICE_KEY = 261"
| "token_code KEYWORD_DEVICE_NODE = 262"
| "token_code KEYWORD_KEY_UV = 263"
| "token_code KEYWORD_KEY_U_MASK_SHIFT = 264"
| "token_code KEYWORD_HOST_PRIV_KEY = 265"
| "token_code KEYWORD_HOST_CERT = 266"
| "token_code KEYWORD_HOST_NONCE = 267"
| "token_code KEYWORD_HOST_KEY_POINT = 268"
| "token_code PUNCT_EQUALS_SIGN = 269"
| "token_code PUNCT_VERTICAL_BAR = 270"
| "token_code PUNCT_HYPHEN = 271"
| "token_code ENTRY_ID_DK = 272"
| "token_code ENTRY_ID_PK = 273"
| "token_code ENTRY_ID_HC = 274"
| "token_code ENTRY_ID_DATE = 275"
| "token_code ENTRY_ID_MEK = 276"
| "token_code ENTRY_ID_VID = 277"
| "token_code ENTRY_ID_BN = 278"
| "token_code ENTRY_ID_VUK = 279"
| "token_code ENTRY_ID_PAK = 280"
| "token_code ENTRY_ID_TK = 281"
| "token_code ENTRY_ID_UK = 282"
| "token_code NEWLINE = 283"
| "token_code BAD_ENTRY = 284"

definition YYEMPTY :: int where "YYEMPTY = - 2"
definition YYEOF :: int where "YYEOF = 0"

section \<open>The tables\<close>

definition YYFINAL :: nat where "YYFINAL = 25"
definition YYLAST :: int where "YYLAST = 140"
definition YYNTOKENS :: nat where "YYNTOKENS = 30"
definition YYPACT_NINF :: int where "YYPACT_NINF = - 39"

definition yytranslate :: "nat list" where
  "yytranslate =
    0 # replicate 255 2 @
    [1, 2, 3, 4, 5, 6, 7, 8, 9, 10, 11, 12, 13, 14, 15, 16, 17, 18, 19, 20, 21, 22, 23, 24, 25, 26, 27, 28, 29]"

definition yypact :: "int list" where
  "yypact =
    [11, - 15, - 39, 13, 14, 31, - 39, 23, 15, - 39, - 39, - 39, - 39, - 39, 18, 67, 28, 42,
     - 39, 14, 32, - 39, - 2, 14, 33, - 39, - 39, 18, 13, 14, 31, - 39, 67, 44, 47, 47,
     46, 47, 60, 62, 63, 34, - 39, - 39, - 39, - 39, - 39, - 39, - 39, - 39, - 39, 48, - 39, 68,
     56, - 39, - 39, 68, 59, 57, - 1, 61, 58, 79, 42, 42, 80, 82, - 39, 42, 83, 86,
     - 39, 87, 89, - 39, 90, 92, - 39, - 39, - 39, - 39, - 39, 14, - 8, 14, - 6, 56, - 39, 59,
     - 39, 69, 14, 46, 14, 60, 14, 62, 47, 63, 68, 94, - 39, 68, 93, - 39, 10, 16,
     95, 68, - 39, 68, - 39, 68, - 39, 42, - 39, 14, 97, 14, 98, 94, - 39, 93, - 39, 103,
     68, 100, 68, 102, 104, 105, - 39, 14, 96, 14, 99, 100, 102, 68, - 39, 68, - 39, 101,
     106, - 39, - 39]"

definition yydefact :: "nat list" where
  "yydefact =
    [0, 0, 69, 0, 0, 0, 34, 0, 0, 7, 8, 9, 10, 11, 4, 0, 0, 36,
     12, 0, 0, 71, 0, 0, 0, 1, 6, 2, 0, 0, 0, 33, 0, 0, 0, 0,
     0, 0, 0, 0, 0, 0, 39, 40, 41, 42, 43, 44, 45, 46, 47, 0, 68, 17,
     0, 70, 22, 27, 0, 0, 0, 0, 0, 0, 49, 50, 0, 51, 53, 55, 0, 56,
     58, 0, 60, 62, 0, 64, 66, 32, 38, 37, 35, 0, 0, 0, 0, 0, 21, 0,
     31, 0, 0, 0, 0, 0, 0, 0, 0, 0, 18, 0, 16, 28, 0, 26, 0, 0,
     0, 54, 52, 59, 57, 63, 61, 67, 65, 0, 0, 0, 0, 0, 14, 0, 25, 0,
     19, 0, 29, 0, 0, 0, 48, 0, 0, 0, 0, 0, 0, 20, 15, 30, 24, 0,
     0, 13, 23]"

definition yypgoto :: "int list" where
  "yypgoto =
    [- 39, - 39, - 39, 109, - 39, 107, 35, - 11, - 16, - 39, - 39, 88, 36, 0, - 12, - 39, 120, 26,
     - 39, - 39, 108, - 38, - 39, - 39, - 39, - 39, - 39, 37, - 39, - 39, - 39, 38, - 39, - 39, 39, - 39,
     - 39, 40, - 29, - 19]"

definition yydefgoto :: "nat list" where
  "yydefgoto =
    [0, 7, 8, 9, 10, 20, 84, 118, 134, 11, 12, 24, 86, 120, 136, 13, 14, 15,
     16, 82, 41, 42, 43, 44, 45, 46, 67, 68, 47, 48, 71, 72, 49, 74, 75, 50,
     77, 78, 17, 22]"

definition yytable :: "int list" where
  "yytable =
    [53, 55, 55, 80, 57, 64, 65, 101, 69, 104, 60, - 5, 1, 18, 2, - 3, 1, 21,
     2, 19, 102, 2, 105, 25, 80, 121, 56, 88, 3, 4, 5, 123, 3, 4, 5, 28,
     29, 30, 122, 6, 32, 23, 51, 6, 124, 52, 31, 54, 58, 63, 2, 66, 81, 32,
     33, 34, 35, 36, 37, 38, 39, 40, 79, 83, 100, 70, 103, 73, 76, 115, 85, 55,
     87, 109, 108, 111, 89, 113, 33, 34, 35, 36, 37, 38, 39, 40, 90, 33, 34, 35,
     36, 37, 38, 39, 40, 91, 92, 93, 126, 94, 128, 95, 117, 96, 97, 119, 98, 99,
     132, 133, 130, 125, 127, 129, 139, 135, 141, 26, 61, 137, 138, 143, 106, 131, 140, 107,
     144, 142, 27, 145, 110, 0, 0, 112, 146, 59, 114, 0, 0, 116, 62]"

definition yycheck :: "int list" where
  "yycheck =
    [19, 3, 3, 41, 23, 34, 35, 15, 37, 15, 29, 0, 1, 28, 3, 0, 1, 3,
     3, 6, 28, 3, 28, 0, 62, 15, 28, 28, 17, 18, 19, 15, 17, 18, 19, 17,
     18, 19, 28, 28, 14, 10, 14, 28, 28, 3, 28, 15, 15, 5, 3, 5, 4, 27,
     20, 21, 22, 23, 24, 25, 26, 27, 28, 7, 83, 5, 85, 5, 5, 98, 11, 3,
     15, 92, 5, 94, 15, 96, 20, 21, 22, 23, 24, 25, 26, 27, 28, 20, 21, 22,
     23, 24, 25, 26, 27, 16, 16, 15, 117, 16, 119, 15, 8, 16, 15, 12, 16, 15,
     5, 9, 121, 16, 15, 15, 133, 13, 135, 8, 30, 15, 15, 137, 87, 123, 28, 89,
     138, 28, 8, 28, 93, - 1, - 1, 95, 28, 28, 97, - 1, - 1, 99, 32]"

definition yyr1 :: "nat list" where
  "yyr1 =
    [0, 30, 31, 31, 31, 31, 32, 32, 33, 33, 33, 33, 33, 34, 34, 34, 34, 35,
     36, 37, 38, 39, 39, 40, 40, 40, 40, 41, 42, 43, 44, 45, 45, 46, 46, 47,
     48, 49, 50, 50, 51, 51, 51, 51, 51, 51, 51, 51, 52, 53, 54, 55, 56, 56,
     57, 58, 59, 60, 60, 61, 62, 63, 63, 64, 65, 66, 66, 67, 68, 68, 69, 69]"

definition yyr2 :: "nat list" where
  "yyr2 =
    [0, 2, 2, 1, 1, 0, 2, 1, 1, 1, 1, 1, 2, 10, 6, 9, 5, 2,
     2, 2, 2, 4, 3, 10, 9, 6, 5, 2, 2, 2, 2, 4, 3, 2, 1, 3,
     1, 1, 2, 1, 1, 1, 1, 1, 1, 1, 1, 1, 6, 2, 2, 2, 3, 1,
     3, 2, 2, 3, 1, 3, 2, 3, 1, 3, 2, 3, 1, 3, 2, 1, 2, 1]"

definition yystos :: "nat list" where
  "yystos =
    [0, 1, 3, 17, 18, 19, 28, 31, 32, 33, 34, 39, 40, 45, 46, 47, 48, 68,
     28, 6, 35, 3, 69, 10, 41, 0, 33, 46, 17, 18, 19, 28, 47, 20, 21, 22,
     23, 24, 25, 26, 27, 50, 51, 52, 53, 54, 55, 58, 59, 62, 65, 14, 3, 69,
     15, 3, 28, 69, 15, 35, 69, 41, 50, 5, 68, 68, 5, 56, 57, 68, 5, 60,
     61, 5, 63, 64, 5, 66, 67, 28, 51, 4, 49, 7, 36, 11, 42, 15, 28, 15,
     28, 16, 16, 15, 16, 15, 16, 15, 16, 15, 69, 15, 28, 69, 15, 28, 36, 42,
     5, 69, 57, 69, 61, 69, 64, 68, 67, 8, 37, 12, 43, 15, 28, 15, 28, 16,
     69, 15, 69, 15, 37, 43, 5, 9, 38, 13, 44, 15, 15, 69, 28, 69, 28, 38,
     44, 28, 28]"

text \<open>An element of a table; outside of it is undefined.\<close>

definition yyget :: "'a list \<Rightarrow> int \<Rightarrow> 'a ub" where
  "yyget xs i = (if 0 \<le> i \<and> i < int (length xs) then Some (xs ! nat i) else None)"

section \<open>What to do\<close>

datatype yyact = Shift nat | Reduce nat | Error

definition yydefault :: "nat \<Rightarrow> yyact ub" where
  "yydefault yystate = do {
     yyn \<leftarrow> yyget yydefact (int yystate);
     Some (if yyn = 0 then Error else Reduce yyn)
   }"

text \<open>\<open>yyn\<close> is the entry of \<open>yypact\<close>, \<open>yytoken\<close> the lookahead.\<close>

definition yydecide :: "nat \<Rightarrow> int \<Rightarrow> nat \<Rightarrow> yyact ub" where
  "yydecide yystate yyn yytoken = do {
     let yyn = yyn + int yytoken;
     if yyn < 0 \<or> YYLAST < yyn then yydefault yystate
     else do {
       c \<leftarrow> yyget yycheck yyn;
       if c \<noteq> int yytoken then yydefault yystate
       else do {
         yyn \<leftarrow> yyget yytable yyn;
         Some (if yyn \<le> 0 then Reduce (nat (- yyn)) else Shift (nat yyn))
       }
     }
   }"

text \<open>The state after a reduction to the left-hand side of rule \<open>yyn\<close> on top of \<open>yystate\<close>.\<close>

definition yygoto :: "nat \<Rightarrow> nat \<Rightarrow> nat ub" where
  "yygoto yyn yystate = do {
     lhs \<leftarrow> yyget yyr1 (int yyn);
     let yylhs = int lhs - int YYNTOKENS;
     g \<leftarrow> yyget yypgoto yylhs;
     let yyi = g + int yystate;
     d \<leftarrow> yyget yydefgoto yylhs;
     if 0 \<le> yyi \<and> yyi \<le> YYLAST then do {
       c \<leftarrow> yyget yycheck yyi;
       if c = int yystate then do { s \<leftarrow> yyget yytable yyi; Some (nat s) } else Some d
     } else Some d
   }"

section \<open>Semantic values\<close>

text \<open>
  A value is a pointer into the text of the token that was read last, a string that an action
  allocated (or null), the address of the parser's key buffer, or a number.  \<open>YUndef\<close> is what was
  never written, or a pointer into the text of an older token, which the scanner has overwritten.
\<close>

datatype yyval = YText string | YStr "string ptr" | YHexkey | YDigit nat | YUndef

definition stale :: "yyval \<Rightarrow> yyval" where
  "stale v = (case v of YText _ \<Rightarrow> YUndef | _ \<Rightarrow> v)"

definition token_lval :: "token \<Rightarrow> yyval \<Rightarrow> yyval" where
  "token_lval t old = (case t of HEXSTRING s \<Rightarrow> YText s | DISC_TITLE s \<Rightarrow> YText s | DIGIT n \<Rightarrow> YDigit n | _ \<Rightarrow> stale old)"

definition yystr :: "parser_state \<Rightarrow> yyval \<Rightarrow> string ptr ub" where
  "yystr ps v = (case v of YText s \<Rightarrow> Some (Some s) | YStr p \<Rightarrow> Some p | YHexkey \<Rightarrow> Some (Some (ps_hexkey ps))
     | YDigit _ \<Rightarrow> None | YUndef \<Rightarrow> None)"

text \<open>\<open>yyvsp[-k]\<close>, as a value and as the string it points to.\<close>

definition yyvsp :: "yyval list \<Rightarrow> nat \<Rightarrow> yyval ub" where
  "yyvsp vs k = (if k < length vs then Some (vs ! k) else None)"

definition yyarg :: "parser_state \<Rightarrow> yyval list \<Rightarrow> nat \<Rightarrow> string ptr ub" where
  "yyarg ps vs k = do { v \<leftarrow> yyvsp vs k; yystr ps v }"

section \<open>Actions\<close>

text \<open>A string in memory of its own, of one and of two parts (\<open>hexstring_list\<close>).\<close>

definition hexstring_list :: "(nat \<Rightarrow> bool) \<Rightarrow> string \<Rightarrow> string ptr" where
  "hexstring_list alloc s = (if alloc (length s + 1) then Some s else None)"

text \<open>The switch over the rules: the value of the left-hand side, the configuration, the parser's state.\<close>

definition yyaction :: "(nat \<Rightarrow> bool) \<Rightarrow> nat \<Rightarrow> yyval list \<Rightarrow> yyval \<Rightarrow> config_file \<Rightarrow> parser_state \<Rightarrow>
    (yyval \<times> config_file \<times> parser_state) ub" where
  "yyaction alloc yyn vs yyval cf ps =
     (if yyn = 13 \<or> yyn = 15 then do {
        key \<leftarrow> yyarg ps vs 7; node \<leftarrow> yyarg ps vs 5; uv \<leftarrow> yyarg ps vs 3; shift \<leftarrow> yyarg ps vs 1;
        cf \<leftarrow> add_dk_entry alloc cf key node uv shift;
        Some (yyval, cf, ps)
      } else if yyn = 14 \<or> yyn = 16 then do {
        key \<leftarrow> yyarg ps vs 3; node \<leftarrow> yyarg ps vs 1;
        cf \<leftarrow> add_dk_entry alloc cf key node None None;
        Some (yyval, cf, ps)
      } else if yyn = 17 \<or> yyn = 18 \<or> yyn = 19 \<or> yyn = 20 \<or> yyn = 27 \<or> yyn = 28 \<or> yyn = 29 \<or> yyn = 30 then do {
        v \<leftarrow> yyvsp vs 0;
        Some (v, cf, ps)
      } else if yyn = 21 \<or> yyn = 22 then do {
        key \<leftarrow> yyarg ps vs 1;
        cf \<leftarrow> add_pk_entry alloc cf key;
        Some (yyval, cf, ps)
      } else if yyn = 23 \<or> yyn = 24 then do {
        hpriv \<leftarrow> yyarg ps vs 7; hcert \<leftarrow> yyarg ps vs 5;
        cf \<leftarrow> add_cert_entry alloc cf hpriv hcert;
        Some (yyval, cf, ps)
      } else if yyn = 25 \<or> yyn = 26 then do {
        hpriv \<leftarrow> yyarg ps vs 3; hcert \<leftarrow> yyarg ps vs 1;
        cf \<leftarrow> add_cert_entry alloc cf hpriv hcert;
        Some (yyval, cf, ps)
      } else if yyn = 35 then do {
        (cf, ps) \<leftarrow> disc_info alloc cf ps;
        Some (yyval, cf, ps)
      } else if yyn = 49 then do {
        s \<leftarrow> yyarg ps vs 0;
        cf \<leftarrow> add_entry cf (ps_celist ps) ENTRY_TYPE_MEK s;
        Some (yyval, cf, ps)
      } else if yyn = 50 then do {
        s \<leftarrow> yyarg ps vs 0;
        cf \<leftarrow> add_entry cf (ps_celist ps) ENTRY_TYPE_VID s;
        Some (yyval, cf, ps)
      } else if yyn = 55 then do {
        s \<leftarrow> yyarg ps vs 0;
        cf \<leftarrow> add_entry cf (ps_celist ps) ENTRY_TYPE_VUK s;
        Some (yyval, cf, ps)
      } else if yyn = 51 \<or> yyn = 56 \<or> yyn = 60 \<or> yyn = 64 then
        Some (yyval, cf, ps\<lparr>ps_dkplist := None\<rparr>)
      else if yyn = 67 then do {
        d \<leftarrow> yyvsp vs 2; s \<leftarrow> yyarg ps vs 0;
        digit \<leftarrow> (case d of YDigit n \<Rightarrow> Some n | _ \<Rightarrow> None);
        (cf, ps) \<leftarrow> uk_data alloc cf ps digit s;
        Some (yyval, cf, ps)
      } else if yyn = 68 then do {
        s \<leftarrow> yyarg ps vs 0; s \<leftarrow> s;
        ps \<leftarrow> hexkey_more ps s;
        Some (YHexkey, cf, ps)
      } else if yyn = 69 then do {
        s \<leftarrow> yyarg ps vs 0; s \<leftarrow> s;
        Some (YHexkey, cf, hexkey_first ps s)
      } else if yyn = 70 then do {
        s1 \<leftarrow> yyarg ps vs 1; s1 \<leftarrow> s1; s2 \<leftarrow> yyarg ps vs 0; s2 \<leftarrow> s2;
        Some (YStr (hexstring_list alloc (s1 @ s2)), cf, ps)
      } else if yyn = 71 then do {
        s \<leftarrow> yyarg ps vs 0; s \<leftarrow> s;
        Some (YStr (hexstring_list alloc s), cf, ps)
      } else Some (yyval, cf, ps))"

section \<open>The automaton\<close>

definition YYINITDEPTH :: nat where "YYINITDEPTH = 200"
definition YYMAXDEPTH :: nat where "YYMAXDEPTH = 10000"

text \<open>States and values are on one stack, top first.\<close>

record yymach =
  yy_stack :: "(nat \<times> yyval) list"
  yy_stacksize :: nat
  yy_errstatus :: nat
  yy_char :: int
  yy_lval :: yyval
  yy_input :: "token list"
  yy_cf :: config_file
  yy_ps :: parser_state

datatype yyresult = Next yymach | Done nat yymach

text \<open>Reading a token overwrites the text of the previous one.\<close>

definition yyread :: "yymach \<Rightarrow> yymach" where
  "yyread m = (let m = m\<lparr>yy_stack := map (\<lambda>(s, v). (s, stale v)) (yy_stack m)\<rparr> in
     case yy_input m of
       [] \<Rightarrow> m\<lparr>yy_char := YYEOF, yy_lval := stale (yy_lval m)\<rparr>
     | t # ts \<Rightarrow> m\<lparr>yy_char := int (token_code t), yy_lval := token_lval t (yy_lval m), yy_input := ts\<rparr>)"

definition yyshift :: "nat \<Rightarrow> yymach \<Rightarrow> yymach" where
  "yyshift s m = m\<lparr>yy_errstatus := yy_errstatus m - 1, yy_stack := (s, yy_lval m) # yy_stack m, yy_char := YYEMPTY\<rparr>"

definition yyreduce :: "(nat \<Rightarrow> bool) \<Rightarrow> nat \<Rightarrow> yymach \<Rightarrow> yymach ub" where
  "yyreduce alloc yyn m = do {
     yylen \<leftarrow> yyget yyr2 (int yyn);
     let vs = map snd (yy_stack m);
     yyval \<leftarrow> (if yylen = 0 then Some YUndef else yyvsp vs (yylen - 1));
     (yyval, cf, ps) \<leftarrow> yyaction alloc yyn vs yyval (yy_cf m) (yy_ps m);
     let stack = drop yylen (yy_stack m);
     (s, _) \<leftarrow> (case stack of [] \<Rightarrow> None | x # _ \<Rightarrow> Some x);
     g \<leftarrow> yygoto yyn s;
     Some (m\<lparr>yy_stack := (g, yyval) # stack, yy_cf := cf, yy_ps := ps,
             yy_errstatus := (if yyn = 12 then 0 else yy_errstatus m)\<rparr>)
   }"

text \<open>The state that shifts the error token, if any, of one state.\<close>

definition error_shift :: "nat \<Rightarrow> nat ptr ub" where
  "error_shift yystate = do {
     yyn \<leftarrow> yyget yypact (int yystate);
     if yyn = YYPACT_NINF then Some None
     else let yyn = yyn + 1 in
       if 0 \<le> yyn \<and> yyn \<le> YYLAST then do {
         c \<leftarrow> yyget yycheck yyn;
         if c = 1 then do { s \<leftarrow> yyget yytable yyn; Some (if 0 < s then Some (nat s) else None) }
         else Some None
       } else Some None
   }"

fun yyerr_pop :: "(nat \<times> yyval) list \<Rightarrow> (nat \<times> (nat \<times> yyval) list) ptr ub" where
  "yyerr_pop [] = None"
| "yyerr_pop ((s, v) # rest) = do {
     e \<leftarrow> error_shift s;
     case e of Some s' \<Rightarrow> Some (Some (s', (s, v) # rest))
     | None \<Rightarrow> if rest = [] then Some None else yyerr_pop rest
   }"

definition yyerrlab1 :: "yymach \<Rightarrow> yyresult ub" where
  "yyerrlab1 m = (let m = m\<lparr>yy_errstatus := 3\<rparr> in do {
     r \<leftarrow> yyerr_pop (yy_stack m);
     case r of None \<Rightarrow> Some (Done 1 m)
     | Some (s, stack) \<Rightarrow> Some (Next (m\<lparr>yy_stack := (s, yy_lval m) # stack\<rparr>))
   })"

definition yyerrlab :: "yymach \<Rightarrow> yyresult ub" where
  "yyerrlab m =
     (if yy_errstatus m = 3 then
        (if yy_char m \<le> YYEOF then (if yy_char m = YYEOF then Some (Done 1 m) else yyerrlab1 m)
         else yyerrlab1 (m\<lparr>yy_char := YYEMPTY\<rparr>))
      else yyerrlab1 m)"

definition yydispatch :: "(nat \<Rightarrow> bool) \<Rightarrow> yymach \<Rightarrow> yyact \<Rightarrow> yyresult ub" where
  "yydispatch alloc m a =
     (case a of Shift s \<Rightarrow> Some (Next (yyshift s m))
      | Reduce r \<Rightarrow> map_option Next (yyreduce alloc r m)
      | Error \<Rightarrow> yyerrlab m)"

text \<open>The stack grows by doubling; \<open>None\<close> when it cannot.\<close>

definition yygrow :: "(nat \<Rightarrow> bool) \<Rightarrow> yymach \<Rightarrow> yymach option" where
  "yygrow alloc m =
     (if length (yy_stack m) < yy_stacksize m then Some m
      else if YYMAXDEPTH \<le> yy_stacksize m then None
      else
        let n = min (yy_stacksize m * 2) YYMAXDEPTH in
        if alloc (n * 9 + 7) then Some (m\<lparr>yy_stacksize := n\<rparr>) else None)"

definition yystep :: "(nat \<Rightarrow> bool) \<Rightarrow> yymach \<Rightarrow> yyresult ub" where
  "yystep alloc m =
     (case yygrow alloc m of None \<Rightarrow> Some (Done 2 m)
      | Some m \<Rightarrow> do {
          (yystate, _) \<leftarrow> (case yy_stack m of [] \<Rightarrow> None | x # _ \<Rightarrow> Some x);
          if yystate = YYFINAL then Some (Done 0 m)
          else do {
            yyn \<leftarrow> yyget yypact (int yystate);
            if yyn = YYPACT_NINF then do { a \<leftarrow> yydefault yystate; yydispatch alloc m a }
            else
              let m = (if yy_char m = YYEMPTY then yyread m else m) in do {
                yytoken \<leftarrow> yyget yytranslate (yy_char m);
                a \<leftarrow> yydecide yystate yyn yytoken;
                yydispatch alloc m a
              }
          }
        })"

partial_function (option) yyloop :: "(nat \<Rightarrow> bool) \<Rightarrow> yymach \<Rightarrow> (nat \<times> config_file) option" where
  "yyloop alloc m = do {
     r \<leftarrow> yystep alloc m;
     case r of Next m \<Rightarrow> yyloop alloc m | Done n m \<Rightarrow> Some (n, yy_cf m)
   }"

definition yyparse :: "(nat \<Rightarrow> bool) \<Rightarrow> token list \<Rightarrow> config_file \<Rightarrow> parser_state \<Rightarrow> (nat \<times> config_file) ub" where
  "yyparse alloc toks cf ps = yyloop alloc
     \<lparr>yy_stack = [(0, YUndef)], yy_stacksize = YYINITDEPTH, yy_errstatus = 0, yy_char = YYEMPTY,
      yy_lval = YUndef, yy_input = toks, yy_cf = cf, yy_ps = ps\<rparr>"

end
