(* ===== verification/KeydbTables.thy ===== *)
theory KeydbTables
  imports KeydbParser
begin

text \<open>
  The tables of the parser as equations, and a check of every state of the automaton against every
  token: which states can be below which on the stack, that a reduction finds its right-hand side
  there with the values its action reads, and that the state it goes to keeps all of this.
\<close>

section \<open>The stacks that occur\<close>

text \<open>The states that can be below a state: all that lead to it by a shift or a reduction.\<close>

definition preds :: "nat list list" where
  "preds =
    [[], [0, 8], [0, 8, 14, 27, 34, 35, 37, 98], [0, 8], [0, 8], [0, 8], [0, 8], [0], [0], [0],
     [0, 8], [0, 8], [0, 8], [0, 8], [0], [0, 8], [0, 8, 14, 27], [0, 8, 14, 27], [1], [3, 28],
     [3], [4, 19, 23, 29, 83, 85, 92, 94, 96, 117, 119, 133, 135], [4], [5, 30], [5], [7], [8], [8], [14, 27], [14, 27],
     [14, 27], [14, 27], [14, 27], [15, 32, 41, 62], [15, 32, 41, 62], [15, 32, 41, 62], [15, 32, 41, 62], [15, 32, 41, 62], [15, 32, 41, 62], [15, 32, 41, 62],
     [15, 32, 41, 62], [15], [15, 32], [15, 32, 41, 62], [15, 32, 41, 62], [15, 32, 41, 62], [15, 32, 41, 62], [15, 32, 41, 62], [15, 32, 41, 62], [15, 32, 41, 62],
     [15, 32, 41, 62], [16], [17, 64, 65, 69, 115], [19], [20], [22, 53, 57, 60, 100, 103, 109, 111, 113, 126, 128, 139, 141], [22], [23], [24], [28],
     [29], [30], [32], [33], [34], [35], [36, 93], [36], [36], [37],
     [38, 95], [38], [38], [39, 97], [39], [39], [40, 99], [40], [40], [41],
     [41, 62], [51], [51], [54, 87], [54], [58, 89], [58], [59], [60], [61],
     [62], [63], [66], [67], [70], [71], [73], [74], [76], [77],
     [83], [84], [84], [85], [86], [86], [87], [89], [91], [92],
     [93], [94], [95], [96], [97], [98], [99], [101, 121], [101], [104, 123],
     [104], [106], [106], [107], [107], [108], [117], [118], [119], [120],
     [121], [123], [125], [127, 137], [127], [129, 138], [129], [130], [131], [133],
     [134], [135], [136], [137], [138], [143], [144]]"

text \<open>The number of states below a state is at most this.\<close>

definition depth :: "nat list" where
  "depth =
    [0, 2, 10, 2, 2, 2, 2, 1, 1, 1, 2, 2, 2, 2, 1, 2, 3, 3, 3, 4, 3, 11, 3, 4,
     3, 2, 2, 2, 3, 3, 3, 3, 3, 5, 5, 5, 5, 5, 5, 5, 5, 3, 4, 5, 5, 5, 5, 5,
     5, 5, 5, 4, 11, 5, 4, 12, 4, 5, 4, 4, 4, 4, 4, 6, 6, 6, 8, 6, 6, 6, 8, 6,
     6, 8, 6, 6, 8, 6, 6, 4, 5, 5, 5, 6, 5, 6, 5, 5, 5, 5, 5, 7, 9, 7, 9, 7,
     9, 7, 9, 7, 7, 6, 6, 7, 6, 6, 6, 6, 8, 10, 8, 10, 8, 10, 8, 10, 8, 8, 7, 8,
     7, 7, 7, 7, 7, 9, 9, 8, 9, 8, 8, 8, 10, 10, 9, 10, 9, 9, 9, 11, 10, 11, 10, 10,
     10, 11, 11]"

text \<open>Weights of the symbols that every reduction but the first one decreases.\<close>

definition weights :: "nat list" where
  "weights =
    [1, 1, 1, 4, 2, 1, 1, 1, 1, 1, 1, 1, 1, 1, 1, 1, 1, 1, 1, 1, 1, 1, 1, 1,
     1, 1, 1, 1, 2, 1, 1, 1, 1, 2, 3, 1, 1, 1, 1, 3, 3, 1, 1, 1, 1, 3, 1, 1,
     1, 1, 1, 2, 3, 3, 3, 3, 3, 4, 3, 3, 3, 4, 3, 3, 4, 3, 3, 4, 3, 3]"

text \<open>What kind of value goes with a symbol, and with the elements of the right-hand side a rule reads.\<close>

datatype vkind = AnyVal | TextVal | DigitVal | KeyVal | StrVal

definition vkind :: "nat \<Rightarrow> vkind" where
  "vkind y = (if y = 3 then TextVal else if y = 5 then DigitVal else if y = 48 \<or> y = 68 then KeyVal
     else if y = 69 \<or> (35 \<le> y \<and> y \<le> 38) \<or> (41 \<le> y \<and> y \<le> 44) then StrVal else AnyVal)"

definition has_kind :: "vkind \<Rightarrow> yyval \<Rightarrow> bool" where
  "has_kind k v \<longleftrightarrow> (case k of AnyVal \<Rightarrow> True | TextVal \<Rightarrow> \<exists>s. v = YText s | DigitVal \<Rightarrow> \<exists>n. v = YDigit n
     | KeyVal \<Rightarrow> v = YHexkey | StrVal \<Rightarrow> \<exists>s. v = YStr (Some s))"

definition reads :: "nat \<Rightarrow> (nat \<times> vkind) list" where
  "reads r = (if r = 13 \<or> r = 15 then [(7, StrVal), (5, StrVal), (3, StrVal), (1, StrVal)]
     else if r = 14 \<or> r = 16 then [(3, StrVal), (1, StrVal)]
     else if r = 17 \<or> r = 18 \<or> r = 19 \<or> r = 20 \<or> r = 27 \<or> r = 28 \<or> r = 29 \<or> r = 30 then [(0, StrVal)]
     else if r = 21 \<or> r = 22 then [(1, StrVal)]
     else if r = 23 \<or> r = 24 then [(7, StrVal), (5, StrVal)]
     else if r = 25 \<or> r = 26 then [(3, StrVal), (1, StrVal)]
     else if r = 36 \<or> r = 49 \<or> r = 50 \<or> r = 55 then [(0, KeyVal)]
     else if r = 67 then [(2, DigitVal), (0, KeyVal)]
     else if r = 68 \<or> r = 69 \<or> r = 71 then [(0, TextVal)]
     else if r = 70 then [(1, StrVal), (0, TextVal)]
     else [])"

text \<open>All states \<open>n\<close> below the top, when \<open>s\<close> is on top.\<close>

fun below_all :: "(nat \<Rightarrow> bool) \<Rightarrow> nat \<Rightarrow> nat \<Rightarrow> bool" where
  "below_all P 0 s = P s"
| "below_all P (Suc n) s = (s \<noteq> 0 \<and> list_all (below_all P n) (preds ! s))"

definition goto_ok :: "nat \<Rightarrow> nat \<Rightarrow> bool" where
  "goto_ok r t = (case yygoto r t of None \<Rightarrow> False
     | Some g \<Rightarrow> g < 147 \<and> g \<noteq> 0 \<and> g \<noteq> 18 \<and> t \<in> set (preds ! g) \<and> yystos ! g = yyr1 ! r \<and> (yyr1 ! r = 31 \<longleftrightarrow> g = 7))"

definition reduce_ok :: "nat \<Rightarrow> nat \<Rightarrow> bool" where
  "reduce_ok s r = (2 \<le> r \<and> r < 72 \<and> s \<noteq> 7 \<and> (r = 12 \<longrightarrow> s = 18) \<and> (yyr2 ! r = 0 \<longrightarrow> s = 0 \<and> yyr1 ! r = 31) \<and>
     below_all (goto_ok r) (yyr2 ! r) s \<and>
     list_all (\<lambda>(k, v). k < yyr2 ! r \<and> below_all (\<lambda>t. vkind (yystos ! t) = v) k s) (reads r) \<and>
     (yyr1 ! r = 31 \<or> weights ! (yyr1 ! r) < weights ! (yystos ! s) + yyr2 ! r - 1))"

definition action_ok :: "nat \<Rightarrow> nat \<Rightarrow> bool" where
  "action_ok s tok = (case yydecide s (yypact ! s) tok of
     None \<Rightarrow> False
   | Some Error \<Rightarrow> True
   | Some (Reduce r) \<Rightarrow> r = yydefact ! s \<and> r \<noteq> 0 \<or> reduce_ok s r
   | Some (Shift g) \<Rightarrow> g < 147 \<and> s \<in> set (preds ! g) \<and> yystos ! g = tok \<and> (tok = 0 \<longrightarrow> g = 25) \<and> g \<noteq> 7 \<and> g \<noteq> 0)"

definition default_ok :: "nat \<Rightarrow> bool" where
  "default_ok s = (case yydefault s of Some (Reduce r) \<Rightarrow> reduce_ok s r | _ \<Rightarrow> False)"

definition state_ok :: "nat \<Rightarrow> bool" where
  "state_ok s = (if yypact ! s = YYPACT_NINF then s = 25 \<or> default_ok s
     else vkind (yystos ! s) \<noteq> TextVal \<and> (yydefact ! s = 0 \<or> reduce_ok s (yydefact ! s)) \<and> list_all (action_ok s) [0..<30])"

text \<open>Every element of a table as an equation of its own.\<close>

lemma length_yypact [simp]: "length yypact = 147"
  by (simp add: yypact_def)

lemma length_yydefact [simp]: "length yydefact = 147"
  by (simp add: yydefact_def)

lemma length_yypgoto [simp]: "length yypgoto = 40"
  by (simp add: yypgoto_def)

lemma length_yydefgoto [simp]: "length yydefgoto = 40"
  by (simp add: yydefgoto_def)

lemma length_yytable [simp]: "length yytable = 141"
  by (simp add: yytable_def)

lemma length_yycheck [simp]: "length yycheck = 141"
  by (simp add: yycheck_def)

lemma length_yyr1 [simp]: "length yyr1 = 72"
  by (simp add: yyr1_def)

lemma length_yyr2 [simp]: "length yyr2 = 72"
  by (simp add: yyr2_def)

lemma length_yystos [simp]: "length yystos = 147"
  by (simp add: yystos_def)

lemma length_preds [simp]: "length preds = 147"
  by (simp add: preds_def)

lemma length_weights [simp]: "length weights = 70"
  by (simp add: weights_def)

lemma length_yytranslate [simp]: "length yytranslate = 285"
  by (simp add: yytranslate_def)

lemma upt_numeral [simp]:
  "[0..<numeral n] = 0 # [Suc 0..<numeral n]"
  "[Suc 0..<numeral n] = (if 1 < (numeral n :: nat) then Suc 0 # [2..<numeral n] else [])"
  by (simp_all add: upt_rec numeral_2_eq_2)

lemmas yypact_at = trans [OF map_nth yypact_def, simplified]
lemmas yydefact_at = trans [OF map_nth yydefact_def, simplified]
lemmas yypgoto_at = trans [OF map_nth yypgoto_def, simplified]
lemmas yydefgoto_at = trans [OF map_nth yydefgoto_def, simplified]
lemmas yytable_at = trans [OF map_nth yytable_def, simplified]
lemmas yycheck_at = trans [OF map_nth yycheck_def, simplified]
lemmas yyr1_at = trans [OF map_nth yyr1_def, simplified]
lemmas yyr2_at = trans [OF map_nth yyr2_def, simplified]
lemmas yystos_at = trans [OF map_nth yystos_def, simplified]
lemmas preds_at = trans [OF map_nth preds_def, simplified]
lemmas weights_at = trans [OF map_nth weights_def, simplified]
lemmas yytranslate_at = trans [OF map_nth yytranslate_def, simplified]

lemmas tables_at = yypact_at yydefact_at yypgoto_at yydefgoto_at yytable_at yycheck_at yyr1_at yyr2_at yystos_at preds_at weights_at yytranslate_at

lemmas check_defs = state_ok_def action_ok_def default_ok_def reduce_ok_def goto_ok_def yydecide_def yydefault_def
  yygoto_def YYPACT_NINF_def YYLAST_def YYNTOKENS_def vkind_def reads_def yyget_def tables_at

lemma below_all_numeral [simp]:
  "below_all P (numeral k) s = (s \<noteq> 0 \<and> list_all (below_all P (pred_numeral k)) (preds ! s))"
  by (simp add: numeral_eq_Suc)

lemma states_ok_1: "list_all state_ok [0..<49]"
  by (simp add: check_defs)
lemma states_ok_2: "list_all state_ok [49..<98]"
  by (simp add: check_defs)
lemma states_ok_3: "list_all state_ok [98..<147]"
  by (simp add: check_defs)
end
