(* ===== verification/KeydbSafe.thy ===== *)
theory KeydbSafe
  imports KeydbTables
begin

text \<open>
  The parser of \<^verbatim>\<open>KEYDB.cfg\<close> returns for every list of tokens: an invariant of the automaton
  (stacks, the kinds of the values, the configuration under construction) under which every step
  is defined, and a measure that every step decreases.
\<close>

section \<open>The actions keep the invariant\<close>

lemma title_at_eq: "i < length (cf_list cf) \<Longrightarrow> title_at cf i = Some (rev (cf_list cf) ! i)"
  by (simp add: title_at_def)

lemma wf_ps_title:
  "wf_ps cf ps \<Longrightarrow> i < length (cf_list cf) \<Longrightarrow> wf_title (rev (cf_list cf) ! i)"
  using wf_psD(1) [of cf ps "rev (cf_list cf) ! i"] by (metis length_rev nth_mem set_rev)

lemma wf_ps_set_title:
  assumes "wf_ps cf ps" and "i < length (cf_list cf)" and "wf_title e"
    and "te_uk e \<noteq> [] \<or> te_uk e = te_uk (rev (cf_list cf) ! i)"
  shows "wf_ps (set_title cf i e) ps"
proof -
  have "wf_title x" if "x \<in> set ((rev (cf_list cf))[i := e])" for x
    using that assms(1,3) set_update_subset_insert [of "rev (cf_list cf)" i e] by (auto simp: wf_ps_def)
  moreover have "te_uk ((rev (cf_list cf))[i := e] ! j) \<noteq> []" if "ps_dkplist ps = Some j" for j
    using wf_psD(3,4) [OF assms(1) that] assms(2,4) by (auto simp: nth_list_update)
  ultimately show ?thesis using assms(1) by (simp add: wf_ps_def set_title_def)
qed

lemma wf_ps_cong: "cf_list cf' = cf_list cf \<Longrightarrow> wf_ps cf' ps = wf_ps cf ps"
  by (simp add: wf_ps_def)

lemma add_dk_entry_ok: "\<exists>cf'. add_dk_entry alloc cf k n u m = Some cf' \<and> cf_list cf' = cf_list cf"
proof (cases "k = None \<or> n = None \<or> length (the k) \<noteq> 32 \<or> \<not> alloc SIZEOF_DK_LIST")
  case True
  then show ?thesis by (auto simp: add_dk_entry_def split: option.splits)
next
  case False
  then obtain k' n' where kn: "k = Some k'" "n = Some n'" "length k' = 2 * 16" "alloc SIZEOF_DK_LIST" by auto
  obtain d ok where "hexstring_to_hex_array (zeros 16) 16 k' = Some (d, ok)"
    by (rule hex_array_exact [OF _ kn(3), of "zeros 16"]) auto
  with kn show ?thesis by (simp add: add_dk_entry_def Let_def)
qed

lemma add_pk_entry_ok: "\<exists>cf'. add_pk_entry alloc cf k = Some cf' \<and> cf_list cf' = cf_list cf"
proof (cases "k = None \<or> length (the k) \<noteq> 32 \<or> \<not> alloc SIZEOF_PK_LIST")
  case True
  then show ?thesis by (auto simp: add_pk_entry_def split: option.splits)
next
  case False
  then obtain k' where k: "k = Some k'" "length k' = 2 * 16" "alloc SIZEOF_PK_LIST" by auto
  obtain d ok where "hexstring_to_hex_array (zeros 16) 16 k' = Some (d, ok)"
    by (rule hex_array_exact [OF _ k(2), of "zeros 16"]) auto
  with k show ?thesis by (simp add: add_pk_entry_def)
qed

lemma add_cert_entry_ok: "\<exists>cf'. add_cert_entry alloc cf k c = Some cf' \<and> cf_list cf' = cf_list cf"
proof (cases "k = None \<or> length (the k) \<noteq> 40 \<or> c = None \<or> length (the c) \<noteq> 184 \<or> \<not> alloc SIZEOF_CERT_LIST")
  case True
  then show ?thesis by (auto simp: add_cert_entry_def split: option.splits)
next
  case False
  then obtain k' c' where k: "k = Some k'" "length k' = 2 * 20" "c = Some c'" "length c' = 2 * 92" "alloc SIZEOF_CERT_LIST"
    by auto
  obtain d ok where "hexstring_to_hex_array (zeros 20) 20 k' = Some (d, ok)"
    by (rule hex_array_exact [OF _ k(2), of "zeros 20"]) auto
  moreover obtain e ok' where "hexstring_to_hex_array (zeros 92) 92 c' = Some (e, ok')"
    by (rule hex_array_exact [OF _ k(4), of "zeros 92"]) auto
  ultimately show ?thesis using k by (simp add: add_cert_entry_def)
qed

lemma add_entry_ok:
  assumes "wf_ps cf ps"
  shows "\<exists>cf'. add_entry cf (ps_celist ps) ty s = Some cf' \<and> wf_ps cf' ps"
proof (cases "ps_celist ps")
  case None
  then show ?thesis using assms by (simp add: add_entry_def)
next
  case (Some i)
  let ?e = "rev (cf_list cf) ! i"
  have i: "i < length (cf_list cf)" using assms Some by (rule wf_psD)
  have t: "title_at cf i = Some ?e" using i by (rule title_at_eq)
  have wf: "wf_title ?e" using assms i by (rule wf_ps_title)
  note set = wf_ps_set_title [OF assms i]
  show ?thesis
  proof (cases s)
    case None
    then show ?thesis using assms Some t by (simp add: add_entry_def)
  next
    case s: (Some str)
    have A: "\<exists>d ok. hexstring_to_hex_array a n str = Some (d, ok) \<and> length d = n" if "length a = n" "length str = 2 * n" for a n
      using hex_array_exact [OF that] by blast
    show ?thesis
      using A [of "te_discid ?e" 20] A [of "te_mk ?e" 16] A [of "te_vid ?e" 16] A [of "te_vuk ?e" 16] wf assms
      by (cases ty; simp add: add_entry_def Some s t wf_title_def) (auto intro!: set simp: wf_title_def)
  qed
qed

lemma new_digit_key_pair_entry_ok: "\<exists>x. new_digit_key_pair_entry alloc d k = Some x"
proof (cases "k = None \<or> length (the k) \<noteq> 32 \<or> \<not> alloc SIZEOF_DIGIT_KEY_PAIR_LIST")
  case True
  then show ?thesis by (auto simp: new_digit_key_pair_entry_def split: option.splits)
next
  case False
  then obtain k' where k: "k = Some k'" "length k' = 2 * 16" "alloc SIZEOF_DIGIT_KEY_PAIR_LIST" by auto
  obtain d ok where "hexstring_to_hex_array (zeros 16) 16 k' = Some (d, ok)"
    by (rule hex_array_exact [OF _ k(2), of "zeros 16"]) auto
  with k show ?thesis by (simp add: new_digit_key_pair_entry_def)
qed

lemma uk_data_ok:
  assumes "wf_ps cf ps"
  shows "\<exists>cf' ps'. uk_data alloc cf ps d s = Some (cf', ps') \<and> wf_ps cf' ps'"
proof -
  obtain x where x: "new_digit_key_pair_entry alloc d s = Some x" using new_digit_key_pair_entry_ok by blast
  show ?thesis
  proof (cases "ps_celist ps")
    case None
    then show ?thesis using assms by (simp add: uk_data_def)
  next
    case c: (Some c)
    note ci = wf_psD(2) [OF assms c]
    show ?thesis
    proof (cases "ps_dkplist ps")
      case None
      have "wf_ps (set_title cf c ((rev (cf_list cf) ! c)\<lparr>te_uk := [y]\<rparr>)) ps" for y
        using wf_ps_title [OF assms ci] by (intro wf_ps_set_title [OF assms ci]) (simp_all add: wf_title_def)
      moreover have "wf_ps (set_title cf c ((rev (cf_list cf) ! c)\<lparr>te_uk := [y]\<rparr>)) (ps\<lparr>ps_dkplist := Some c\<rparr>)"
        if "wf_ps (set_title cf c ((rev (cf_list cf) ! c)\<lparr>te_uk := [y]\<rparr>)) ps" for y
        using that ci by (auto simp: wf_ps_def set_title_def)
      moreover have "wf_ps cf (ps\<lparr>ps_dkplist := None\<rparr>)" using assms by (simp add: wf_ps_def)
      ultimately show ?thesis
        using assms c None x title_at_eq [OF ci] by (cases x) (auto simp: uk_data_def)
    next
      case d: (Some i)
      note di = wf_psD(3) [OF assms d]
      have "wf_ps (set_title cf i ((rev (cf_list cf) ! i)\<lparr>te_uk := te_uk (rev (cf_list cf) ! i) @ [y]\<rparr>)) ps" for y
        using wf_ps_title [OF assms di] by (intro wf_ps_set_title [OF assms di]) (simp_all add: wf_title_def)
      then show ?thesis
        using assms c d x title_at_eq [OF di] by (cases x) (auto simp: uk_data_def)
    qed
  qed
qed

lemma disc_info_ok:
  assumes "wf_ps cf ps"
  shows "\<exists>cf' ps'. disc_info alloc cf ps = Some (cf', ps') \<and> wf_ps cf' ps'"
proof (cases "ps_hexkey_size ps = 40")
  case False
  then show ?thesis using assms by (auto simp: disc_info_def wf_ps_def)
next
  case True
  then have len: "length (ps_hexkey ps) = 2 * 20" using wf_psD(6) [OF assms] by simp
  obtain d ok where d: "hexstring_to_hex_array (te_discid new_title_entry) 20 (ps_hexkey ps) = Some (d, ok)" "length d = 20"
    by (rule hex_array_exact [OF _ len, of "te_discid new_title_entry"]) (simp_all add: new_title_entry_def)
  let ?ignore = "if ps_all_discs ps then Some False
      else (case ps_want_disc_id ps of None \<Rightarrow> Some True
        | Some want \<Rightarrow> map_option Not (discid_cmp want (ps_hexkey ps)))"
  have "?ignore \<noteq> None"
    using wf_psD(5) [OF assms] len by (auto simp: discid_cmp_def split: option.splits)
  then obtain b where b: "?ignore = Some b" by blast
  have "wf_ps (cf\<lparr>cf_list := new_title_entry\<lparr>te_discid := d\<rparr> # cf_list cf\<rparr>) (ps\<lparr>ps_celist := Some (length (cf_list cf))\<rparr>)"
    using assms d(2) by (auto simp: wf_ps_def wf_title_def new_title_entry_def nth_append less_Suc_eq)
  moreover have "wf_ps cf (ps\<lparr>ps_celist := None\<rparr>)" using assms by (simp add: wf_ps_def)
  ultimately show ?thesis using True d(1) assms unfolding disc_info_def b by (cases b) simp_all
qed

lemma hexkey_first_ok: "wf_ps cf ps \<Longrightarrow> wf_ps cf (hexkey_first ps s)"
  by (auto simp: wf_ps_def hexkey_first_def MAX_KEY_SIZE_def)

lemma hexkey_more_ok: "wf_ps cf ps \<Longrightarrow> \<exists>ps'. hexkey_more ps s = Some ps' \<and> wf_ps cf ps'"
  by (auto simp: wf_ps_def hexkey_more_def MAX_KEY_SIZE_def)

section \<open>A reduction finds what it reads\<close>

definition with_action :: "nat list" where
  "with_action = [13, 14, 15, 16, 17, 18, 19, 20, 21, 22, 23, 24, 25, 26, 27, 28, 29, 30, 35, 36, 49, 50, 51, 55, 56,
     60, 64, 67, 68, 69, 70, 71]"

lemma other_rules: "r < 72 \<Longrightarrow> 2 \<le> r \<Longrightarrow> r \<notin> set with_action \<Longrightarrow> vkind (yyr1 ! r) = AnyVal"
proof -
  have "list_all (\<lambda>r. r \<in> set with_action \<or> vkind (yyr1 ! r) = AnyVal) [2..<72]"
    by (simp add: with_action_def vkind_def yyr1_at)
  then have "\<forall>r \<in> {2..<72}. r \<in> set with_action \<or> vkind (yyr1 ! r) = AnyVal"
    unfolding list_all_iff set_upt .
  then show "r < 72 \<Longrightarrow> 2 \<le> r \<Longrightarrow> r \<notin> set with_action \<Longrightarrow> vkind (yyr1 ! r) = AnyVal"
    by (meson atLeastLessThan_iff)
qed

lemma has_kindD:
  "has_kind StrVal v \<Longrightarrow> \<exists>s. v = YStr (Some s)" "has_kind TextVal v \<Longrightarrow> \<exists>s. v = YText s"
  "has_kind DigitVal v \<Longrightarrow> \<exists>n. v = YDigit n" "has_kind KeyVal v \<Longrightarrow> v = YHexkey"
  by (simp_all add: has_kind_def)

lemma has_kind_simps [simp]:
  "has_kind AnyVal v" "has_kind StrVal (YStr (Some s))" "has_kind KeyVal YHexkey" "has_kind TextVal (YText s)"
  "has_kind DigitVal (YDigit n)"
  by (simp_all add: has_kind_def)

lemma yyaction_ok:
  assumes "\<And>n. alloc n" and "wf_ps cf ps" and "r < 72" and "2 \<le> r"
    and arg: "\<And>k kd. (k, kd) \<in> set (reads r) \<Longrightarrow> k < length vs \<and> has_kind kd (vs ! k)"
    and "r = 36 \<Longrightarrow> v0 = vs ! 0"
  shows "\<exists>v cf' ps'. yyaction alloc r vs v0 cf ps = Some (v, cf', ps') \<and> wf_ps cf' ps' \<and> has_kind (vkind (yyr1 ! r)) v"
proof -
  have str: "\<exists>s. yyarg ps vs k = Some (Some s) \<and> yyvsp vs k = Some (YStr (Some s))" if "(k, StrVal) \<in> set (reads r)" for k
    using arg [OF that] has_kindD(1) [of "vs ! k"] by (auto simp: yyarg_def yyvsp_def yystr_def)
  have txv: "\<exists>s. yyarg ps vs k = Some (Some s)" if "(k, TextVal) \<in> set (reads r)" for k
    using arg [OF that] has_kindD(2) [of "vs ! k"] by (auto simp: yyarg_def yyvsp_def yystr_def)
  have keyv: "yyarg ps vs k = Some (Some (ps_hexkey ps))" if "(k, KeyVal) \<in> set (reads r)" for k
    using arg [OF that] has_kindD(4) [of "vs ! k"] by (auto simp: yyarg_def yyvsp_def yystr_def)
  have dig: "\<exists>n. yyvsp vs k = Some (YDigit n)" if "(k, DigitVal) \<in> set (reads r)" for k
    using arg [OF that] has_kindD(3) [of "vs ! k"] by (auto simp: yyvsp_def)
  have cong: "wf_ps cf' ps" if "cf_list cf' = cf_list cf" for cf' using assms(2) wf_ps_cong [OF that] by simp
  have dk: "\<exists>cf'. add_dk_entry alloc cf k n u m = Some cf' \<and> wf_ps cf' ps" for k n u m
    using add_dk_entry_ok [of alloc cf k n u m] cong by auto
  have pk: "\<exists>cf'. add_pk_entry alloc cf k = Some cf' \<and> wf_ps cf' ps" for k
    using add_pk_entry_ok [of alloc cf k] cong by auto
  have ce: "\<exists>cf'. add_cert_entry alloc cf k c = Some cf' \<and> wf_ps cf' ps" for k c
    using add_cert_entry_ok [of alloc cf k c] cong by auto
  have dkp: "wf_ps cf (ps\<lparr>ps_dkplist := None\<rparr>)" using assms(2) by (simp add: wf_ps_def)
  note entry = add_entry_ok [OF assms(2)] and uk = uk_data_ok [OF assms(2)]
    and first = hexkey_first_ok [OF assms(2)] and more = hexkey_more_ok [OF assms(2)] and disc = disc_info_ok [OF assms(2)]
  show ?thesis
  proof (cases "r \<in> set with_action")
    case False
    then show ?thesis using assms(2) other_rules [OF assms(3,4)] by (simp add: with_action_def yyaction_def)
  next
    case True
    then consider "r \<in> {13, 15}" | "r \<in> {14, 16}" | "r \<in> {17, 18, 19, 20, 27, 28, 29, 30}" | "r \<in> {21, 22}"
      | "r \<in> {23, 24}" | "r \<in> {25, 26}" | "r = 35" | "r = 36" | "r \<in> {49, 50, 55}" | "r \<in> {51, 56, 60, 64}"
      | "r = 67" | "r = 68" | "r = 69" | "r = 70" | "r = 71"
      by (auto simp: with_action_def)
    then show ?thesis
    proof cases
      case 1
      then have "(7, StrVal) \<in> set (reads r)" "(5, StrVal) \<in> set (reads r)" "(3, StrVal) \<in> set (reads r)" "(1, StrVal) \<in> set (reads r)" by (auto simp: reads_def)
      note mem = this
      from mem obtain x7 x5 x3 x1 where "yyarg ps vs 7 = Some (Some x7)" "yyarg ps vs 5 = Some (Some x5)" "yyarg ps vs 3 = Some (Some x3)" "yyarg ps vs 1 = Some (Some x1)"
        using str [OF mem(1)] str [OF mem(2)] str [OF mem(3)] str [OF mem(4)] by blast
      moreover obtain cf' where "add_dk_entry alloc cf (Some x7) (Some x5) (Some x3) (Some x1) = Some cf'" "wf_ps cf' ps" using dk by blast
      ultimately show ?thesis using 1 by (elim insertE emptyE) (auto simp: yyaction_def vkind_def yyr1_at)
    next
      case 2
      then have "(3, StrVal) \<in> set (reads r)" "(1, StrVal) \<in> set (reads r)" by (auto simp: reads_def)
      note mem = this
      from mem obtain x3 x1 where "yyarg ps vs 3 = Some (Some x3)" "yyarg ps vs 1 = Some (Some x1)"
        using str [OF mem(1)] str [OF mem(2)] by blast
      moreover obtain cf' where "add_dk_entry alloc cf (Some x3) (Some x1) None None = Some cf'" "wf_ps cf' ps" using dk by blast
      ultimately show ?thesis using 2 by (elim insertE emptyE) (auto simp: yyaction_def vkind_def yyr1_at)
    next
      case 3
      then have "(0, StrVal) \<in> set (reads r)" by (auto simp: reads_def)
      then obtain x where "yyvsp vs 0 = Some (YStr (Some x))" using str by blast
      with 3 show ?thesis using assms(2) by (elim insertE emptyE) (auto simp: yyaction_def vkind_def yyr1_at)
    next
      case 4
      then have "(1, StrVal) \<in> set (reads r)" by (auto simp: reads_def)
      note mem = this
      from mem obtain x1 where "yyarg ps vs 1 = Some (Some x1)"
        using str [OF mem(1)] by blast
      moreover obtain cf' where "add_pk_entry alloc cf (Some x1) = Some cf'" "wf_ps cf' ps" using pk by blast
      ultimately show ?thesis using 4 by (elim insertE emptyE) (auto simp: yyaction_def vkind_def yyr1_at)
    next
      case 5
      then have "(7, StrVal) \<in> set (reads r)" "(5, StrVal) \<in> set (reads r)" by (auto simp: reads_def)
      note mem = this
      from mem obtain x7 x5 where "yyarg ps vs 7 = Some (Some x7)" "yyarg ps vs 5 = Some (Some x5)"
        using str [OF mem(1)] str [OF mem(2)] by blast
      moreover obtain cf' where "add_cert_entry alloc cf (Some x7) (Some x5) = Some cf'" "wf_ps cf' ps" using ce by blast
      ultimately show ?thesis using 5 by (elim insertE emptyE) (auto simp: yyaction_def vkind_def yyr1_at)
    next
      case 6
      then have "(3, StrVal) \<in> set (reads r)" "(1, StrVal) \<in> set (reads r)" by (auto simp: reads_def)
      note mem = this
      from mem obtain x3 x1 where "yyarg ps vs 3 = Some (Some x3)" "yyarg ps vs 1 = Some (Some x1)"
        using str [OF mem(1)] str [OF mem(2)] by blast
      moreover obtain cf' where "add_cert_entry alloc cf (Some x3) (Some x1) = Some cf'" "wf_ps cf' ps" using ce by blast
      ultimately show ?thesis using 6 by (elim insertE emptyE) (auto simp: yyaction_def vkind_def yyr1_at)
    next
      case 7
      then show ?thesis using disc [of alloc] by (auto simp: yyaction_def vkind_def yyr1_at)
    next
      case 8
      then have "v0 = YHexkey" using assms(6) arg [of 0 KeyVal] has_kindD(4) [of "vs ! 0"] by (simp add: reads_def)
      with 8 show ?thesis using assms(2) by (simp add: yyaction_def vkind_def yyr1_at)
    next
      case 9
      then have "(0, KeyVal) \<in> set (reads r)" by (auto simp: reads_def)
      then have "yyarg ps vs 0 = Some (Some (ps_hexkey ps))" by (rule keyv)
      with 9 show ?thesis
        using entry [of ENTRY_TYPE_MEK "Some (ps_hexkey ps)"] entry [of ENTRY_TYPE_VID "Some (ps_hexkey ps)"]
          entry [of ENTRY_TYPE_VUK "Some (ps_hexkey ps)"]
        by (elim insertE emptyE) (auto simp: yyaction_def vkind_def yyr1_at)
    next
      case 10
      then show ?thesis using dkp by (elim insertE emptyE) (auto simp: yyaction_def vkind_def yyr1_at)
    next
      case 11
      then have "yyarg ps vs 0 = Some (Some (ps_hexkey ps))" by (intro keyv) (simp add: reads_def)
      moreover obtain n where "yyvsp vs 2 = Some (YDigit n)" using dig [of 2] 11 by (auto simp: reads_def)
      ultimately show ?thesis using 11 uk [of alloc n "Some (ps_hexkey ps)"]
        by (auto simp: yyaction_def vkind_def yyr1_at)
    next
      case 12
      then obtain s where "yyarg ps vs 0 = Some (Some s)" using txv [of 0] by (auto simp: reads_def)
      with 12 show ?thesis using more [of s] by (auto simp: yyaction_def vkind_def yyr1_at)
    next
      case 13
      then obtain s where "yyarg ps vs 0 = Some (Some s)" using txv [of 0] by (auto simp: reads_def)
      with 13 show ?thesis using first [of s] by (simp add: yyaction_def vkind_def yyr1_at)
    next
      case 14
      then obtain s t where "yyarg ps vs 0 = Some (Some s)" "yyarg ps vs 1 = Some (Some t)"
        using txv [of 0] str [of 1] by (auto simp: reads_def)
      with 14 show ?thesis using assms(1,2) by (simp add: yyaction_def vkind_def yyr1_at hexstring_list_def)
    next
      case 15
      then obtain s where "yyarg ps vs 0 = Some (Some s)" using txv [of 0] by (auto simp: reads_def)
      with 15 show ?thesis using assms(1,2) by (simp add: yyaction_def vkind_def yyr1_at hexstring_list_def)
    qed
  qed
qed

section \<open>Paths through the automaton\<close>

lemma all_states_ok: "s < 147 \<Longrightarrow> state_ok s"
proof -
  have "list_all state_ok ([0..<49] @ [49..<98] @ [98..<147])"
    using states_ok_1 states_ok_2 states_ok_3 by (simp only: list_all_append simp_thms)
  then have "\<forall>s \<in> {0..<49} \<union> ({49..<98} \<union> {98..<147}). state_ok s"
    unfolding list_all_iff set_append set_upt .
  then show "s < 147 \<Longrightarrow> state_ok s" by (cases "s < 49"; cases "s < 98") auto
qed

definition pred_ok :: "nat \<Rightarrow> bool" where
  "pred_ok s \<longleftrightarrow> 1 \<le> weights ! (yystos ! s) \<and> depth ! s \<le> 12 \<and>
     list_all (\<lambda>t. t < 147 \<and> depth ! t < depth ! s \<and> vkind (yystos ! t) \<noteq> TextVal \<and> (t = 7 \<longrightarrow> s = 25) \<and> t \<noteq> 25) (preds ! s)"

lemma length_depth [simp]: "length depth = 147"
  by (simp add: depth_def)

lemmas depth_at = trans [OF map_nth depth_def, simplified]

lemma all_preds_ok_list: "list_all pred_ok [0..<147]"
  by (simp add: pred_ok_def depth_at vkind_def weights_at yystos_at preds_at)

lemma all_preds_ok: "s < 147 \<Longrightarrow> pred_ok s"
proof -
  have "\<forall>s \<in> {0..<147}. pred_ok s"
    using all_preds_ok_list unfolding list_all_iff set_upt .
  then show "s < 147 \<Longrightarrow> pred_ok s" by auto
qed

lemma preds_0: "preds ! 0 = []"
  by (simp add: preds_at)

text \<open>The states of a stack, top first.\<close>

fun path_ok :: "nat list \<Rightarrow> bool" where
  "path_ok [] = False"
| "path_ok [s] = (s = 0)"
| "path_ok (s # t # r) = (s < 147 \<and> s \<noteq> 0 \<and> t \<in> set (preds ! s) \<and> path_ok (t # r))"

lemma path_ok_hd: "path_ok (s # r) \<Longrightarrow> s < 147"
  by (cases r) auto

lemma path_ok_0: "path_ok (0 # r) \<Longrightarrow> r = []"
  by (cases r) auto

lemma path_ok_Cons: "path_ok (s # r) \<Longrightarrow> g < 147 \<Longrightarrow> g \<noteq> 0 \<Longrightarrow> s \<in> set (preds ! g) \<Longrightarrow> path_ok (g # s # r)"
  by simp

lemma pred_okD:
  assumes "t \<in> set (preds ! s)" and "s < 147"
  shows "t < 147" "depth ! t < depth ! s" "vkind (yystos ! t) \<noteq> TextVal" "t = 7 \<Longrightarrow> s = 25" "t \<noteq> 25"
  using all_preds_ok [OF assms(2)] assms(1) by (auto simp: pred_ok_def list_all_iff)

lemma path_below:
  "path_ok (s # r) \<Longrightarrow> below_all P n s \<Longrightarrow>
     n \<le> length r \<and> P ((s # r) ! n) \<and> path_ok (drop n (s # r))"
proof (induction n arbitrary: s r)
  case 0
  then show ?case by simp
next
  case (Suc n)
  then obtain t r' where r: "r = t # r'" "t \<in> set (preds ! s)" "path_ok (t # r')" by (cases r) auto
  with Suc.prems(2) have "below_all P n t" by (simp add: list_all_iff)
  from Suc.IH [OF r(3) this] r(1) show ?case by simp
qed

lemma path_depth: "path_ok (s # r) \<Longrightarrow> length r \<le> depth ! s"
proof (induction r arbitrary: s)
  case Nil
  then show ?case by simp
next
  case (Cons t r)
  then have t: "t \<in> set (preds ! s)" "s < 147" "path_ok (t # r)" by auto
  from Cons.IH [OF t(3)] pred_okD(2) [OF t(1,2)] show ?case by simp
qed

lemma path_length: "path_ok (s # r) \<Longrightarrow> length r \<le> 12"
  using path_depth [of s r] all_preds_ok [OF path_ok_hd, of s r] by (simp add: pred_ok_def)

lemma path_states: "path_ok p \<Longrightarrow> s \<in> set p \<Longrightarrow> s < 147"
proof (induction p rule: path_ok.induct)
  case (3 s t r)
  then show ?case by auto
qed auto

lemma path_tl_kind: "path_ok (s # r) \<Longrightarrow> t \<in> set r \<Longrightarrow> vkind (yystos ! t) \<noteq> TextVal"
proof (induction r arbitrary: s)
  case (Cons u r)
  then have u: "u \<in> set (preds ! s)" "s < 147" "path_ok (u # r)" by auto
  show ?case
  proof (cases "t = u")
    case True
    then show ?thesis using pred_okD(3) [OF u(1,2)] by simp
  next
    case False
    then show ?thesis using Cons.IH [OF u(3)] Cons.prems(2) by simp
  qed
qed simp

lemma path_tl_not_25: "path_ok (s # r) \<Longrightarrow> 25 \<notin> set r"
proof (induction r arbitrary: s)
  case (Cons u r)
  then have u: "u \<in> set (preds ! s)" "s < 147" "path_ok (u # r)" by auto
  from Cons.IH [OF u(3)] pred_okD(5) [OF u(1,2)] show ?case by auto
qed simp

text \<open>The state after the whole configuration is found at the end only.\<close>

lemma path_7: "path_ok (s # r) \<Longrightarrow> 7 \<in> set r \<Longrightarrow> s = 25"
proof (induction r arbitrary: s)
  case (Cons u r)
  then have u: "u \<in> set (preds ! s)" "s < 147" "path_ok (u # r)" by auto
  show ?case
  proof (cases "u = 7")
    case True
    then show ?thesis using pred_okD(4) [OF u(1,2)] by simp
  next
    case False
    then have "u = 25" using Cons.IH [OF u(3)] Cons.prems(2) by simp
    then show ?thesis using pred_okD(5) [OF u(1,2)] by simp
  qed
qed simp

section \<open>The invariant and the measure of the automaton\<close>

definition stack_ok :: "(nat \<times> yyval) list \<Rightarrow> bool" where
  "stack_ok st \<longleftrightarrow> path_ok (map fst st) \<and> (\<forall>(s, v) \<in> set st. has_kind (vkind (yystos ! s)) v)"

definition yy_inv :: "yymach \<Rightarrow> bool" where
  "yy_inv m \<longleftrightarrow> stack_ok (yy_stack m) \<and> yy_stacksize m = YYINITDEPTH \<and>
     yy_char m \<in> {YYEMPTY, YYEOF} \<union> {258..284} \<and>
     (yy_char m \<noteq> YYEMPTY \<longrightarrow> has_kind (vkind (yytranslate ! nat (yy_char m))) (yy_lval m)) \<and>
     wf_ps (yy_cf m) (yy_ps m) \<and> (fst (hd (yy_stack m)) = 18 \<longrightarrow> yy_errstatus m \<noteq> 3) \<and> yy_errstatus m \<le> 3"

definition yy_measure :: "yymach \<Rightarrow> nat \<times> nat \<times> nat \<times> nat \<times> nat" where
  "yy_measure m =
     (if fst (hd (yy_stack m)) = 25 then 0 else 1,
      length (yy_input m) + (if 0 < yy_char m then 1 else 0),
      if yy_errstatus m = 3 then 0 else 1,
      if 7 \<in> fst ` set (yy_stack m) then 0 else 1,
      sum_list (map (\<lambda>(s, v). weights ! (yystos ! s)) (yy_stack m)))"

definition yy_order :: "((nat \<times> nat \<times> nat \<times> nat \<times> nat) \<times> (nat \<times> nat \<times> nat \<times> nat \<times> nat)) set" where
  "yy_order = less_than <*lex*> less_than <*lex*> less_than <*lex*> less_than <*lex*> less_than"

lemma wf_yy_order: "wf yy_order"
  by (auto simp: yy_order_def)

lemma stack_ok_Cons:
  assumes "stack_ok st"
  obtains s v r where "st = (s, v) # r" "s < 147" "path_ok (s # map fst r)" "has_kind (vkind (yystos ! s)) v"
    "\<forall>(t, w) \<in> set r. has_kind (vkind (yystos ! t)) w"
  using assms path_ok_hd by (cases st) (force simp: stack_ok_def)+

lemma stack_ok_push:
  assumes "stack_ok st" and "st = (s, v) # r" and "g < 147" and "g \<noteq> 0" and "s \<in> set (preds ! g)"
    and "has_kind (vkind (yystos ! g)) w"
  shows "stack_ok ((g, w) # st)"
  using assms by (auto simp: stack_ok_def)

lemma stack_ok_drop:
  assumes "stack_ok st" and "path_ok (map fst (drop n st))"
  shows "stack_ok (drop n st)"
  using assms set_drop_subset [of n st] by (auto simp: stack_ok_def)

lemma token_code_range: "258 \<le> token_code t \<and> token_code t \<le> 284"
  by (cases t) simp_all

lemma token_code_pos: "0 < token_code t"
  by (cases t) simp_all

lemma yytranslate_at: "258 \<le> n \<Longrightarrow> n \<le> 284 \<Longrightarrow> yytranslate ! n = n - 255"
proof -
  have "\<forall>n \<in> set [258..<285]. yytranslate ! n = n - 255"
    by (simp add: yytranslate_def nth_Cons' nth_append)
  then have "\<forall>n \<in> {258..<285}. yytranslate ! n = n - 255" unfolding set_upt .
  then show "258 \<le> n \<Longrightarrow> n \<le> 284 \<Longrightarrow> yytranslate ! n = n - 255" by simp
qed

lemma token_lval_kind: "has_kind (vkind (yytranslate ! token_code t)) (token_lval t old)"
  using yytranslate_at [of "token_code t"] by (cases t) (simp_all add: token_lval_def vkind_def)

lemma has_kind_stale: "has_kind k v \<Longrightarrow> k \<noteq> TextVal \<Longrightarrow> has_kind k (stale v)"
  by (cases k; cases v) (simp_all add: has_kind_def stale_def)

lemma yyread_ok:
  assumes "yy_inv m" and "yy_char m = YYEMPTY" and "yy_stack m = (s, v) # r" and "vkind (yystos ! s) \<noteq> TextVal"
  shows "yy_inv (yyread m)" "yy_char (yyread m) \<noteq> YYEMPTY" "yy_measure (yyread m) = yy_measure m"
    "\<exists>v' r'. yy_stack (yyread m) = (s, v') # r'" "yy_errstatus (yyread m) = yy_errstatus m"
proof -
  have st: "stack_ok (yy_stack m)" using assms(1) by (simp add: yy_inv_def)
  have fsts: "map fst (yy_stack (yyread m)) = map fst (yy_stack m)"
    by (auto simp: yyread_def Let_def split: list.splits)
  have stk: "yy_stack (yyread m) = map (\<lambda>(s, v). (s, stale v)) (yy_stack m)"
    by (auto simp: yyread_def Let_def split: list.splits)
  have tl: "vkind (yystos ! t) \<noteq> TextVal" if "(t, w) \<in> set (yy_stack m)" for t w
    using that assms(3,4) st path_tl_kind [of s "map fst r" t] by (force simp: stack_ok_def)
  have "stack_ok (yy_stack (yyread m))"
    using st tl unfolding stack_ok_def fsts by (auto simp: stk intro!: has_kind_stale)
  moreover have ch: "yy_char (yyread m) = (case yy_input m of [] \<Rightarrow> YYEOF | t # ts \<Rightarrow> int (token_code t))"
    by (simp add: yyread_def Let_def split: list.splits)
  moreover have "has_kind (vkind (yytranslate ! nat (yy_char (yyread m)))) (yy_lval (yyread m))"
  proof (cases "yy_input m")
    case Nil
    then show ?thesis by (simp add: ch YYEOF_def yytranslate_def vkind_def)
  next
    case (Cons t ts)
    then show ?thesis using token_lval_kind [of t "yy_lval m"]
      by (simp add: ch yyread_def Let_def)
  qed
  moreover have rest: "yy_stacksize (yyread m) = yy_stacksize m" "yy_cf (yyread m) = yy_cf m" "yy_ps (yyread m) = yy_ps m"
    "yy_errstatus (yyread m) = yy_errstatus m"
    by (simp_all add: yyread_def Let_def split: list.splits)
  moreover have "yy_char (yyread m) \<in> {YYEMPTY, YYEOF} \<union> {258..284}"
    using token_code_range by (auto simp: ch split: list.splits)
  moreover have hd: "fst (hd (yy_stack (yyread m))) = fst (hd (yy_stack m))"
    using assms(3) by (simp add: stk)
  ultimately show "yy_inv (yyread m)" using assms(1) by (simp add: yy_inv_def)
  show "yy_char (yyread m) \<noteq> YYEMPTY"
    using token_code_range by (auto simp: ch YYEMPTY_def YYEOF_def split: list.splits)
  have "fst ` set (yy_stack (yyread m)) = fst ` set (yy_stack m)" using fsts by (metis set_map)
  moreover have "sum_list (map (\<lambda>(s, v). weights ! (yystos ! s)) (yy_stack (yyread m))) =
      sum_list (map (\<lambda>(s, v). weights ! (yystos ! s)) (yy_stack m))"
    by (simp add: stk comp_def split_def)
  moreover have "length (yy_input (yyread m)) + (if 0 < yy_char (yyread m) then 1 else 0) =
      length (yy_input m) + (if 0 < yy_char m then 1 else (0 :: nat))"
    using assms(2) token_code_pos
    by (auto simp: ch yyread_def Let_def YYEMPTY_def YYEOF_def split: list.splits)
  ultimately show "yy_measure (yyread m) = yy_measure m"
    using hd rest by (simp add: yy_measure_def)
  show "\<exists>v' r'. yy_stack (yyread m) = (s, v') # r'" using assms(3) by (simp add: stk)
  show "yy_errstatus (yyread m) = yy_errstatus m" by (fact rest)
qed

lemma yyshift_ok:
  assumes "yy_inv m" and "yy_char m \<noteq> YYEMPTY" and "yy_stack m = (s, v) # r" and "s \<noteq> 25"
    and "g < 147" and "s \<in> set (preds ! g)" and "yystos ! g = yytranslate ! nat (yy_char m)"
    and "yy_char m = YYEOF \<longrightarrow> g = 25" and "g \<noteq> 0"
  shows "yy_inv (yyshift g m) \<and> (yy_measure (yyshift g m), yy_measure m) \<in> yy_order"
proof
  have "stack_ok ((g, yy_lval m) # yy_stack m)"
    using assms(1-7,9) by (intro stack_ok_push [OF _ assms(3)]) (simp_all add: yy_inv_def)
  then show "yy_inv (yyshift g m)" using assms(1,3) by (auto simp: yy_inv_def yyshift_def)
  have "yy_char m = YYEOF \<or> 0 < yy_char m" using assms(1,2) by (auto simp: yy_inv_def YYEOF_def)
  then show "(yy_measure (yyshift g m), yy_measure m) \<in> yy_order"
    using assms(3,4,8) by (auto simp: yy_measure_def yy_order_def yyshift_def YYEMPTY_def)
qed


lemma sum_weights_take:
  assumes "path_ok (map fst st)" and "st = (s, v) # r" and "1 \<le> n" and "n \<le> length st"
  shows "weights ! (yystos ! s) + (n - 1) \<le> sum_list (map (\<lambda>(s, v). weights ! (yystos ! s)) (take n st))"
proof -
  have "1 \<le> weights ! (yystos ! t)" if "t \<in> set (map fst st)" for t
    using all_preds_ok [OF path_states [OF assms(1) that]] by (simp add: pred_ok_def)
  then have one: "1 \<le> weights ! (yystos ! fst x)" if "x \<in> set (take (n - 1) r)" for x
    using that assms(2) set_take_subset [of "n - 1" r] by auto
  have "length (take (n - 1) r) \<le> sum_list (map (\<lambda>(s, v). weights ! (yystos ! s)) (take (n - 1) r))"
    using sum_list_mono [of "take (n - 1) r" "\<lambda>_. 1" "\<lambda>(s, v). weights ! (yystos ! s)"] one
    by (simp add: split_def sum_list_triv)
  moreover have "take n st = (s, v) # take (n - 1) r" using assms(2,3) by (cases n) simp_all
  ultimately show ?thesis using assms(2,4) by simp
qed

lemma yyreduce_ok:
  assumes "\<And>n. alloc n" and "yy_inv m" and "yy_stack m = (s, v) # r" and "s \<noteq> 25" and "reduce_ok s rule"
  shows "\<exists>m'. yyreduce alloc rule m = Some m' \<and> yy_inv m' \<and> (yy_measure m', yy_measure m) \<in> yy_order"
proof -
  let ?n = "yyr2 ! rule" and ?vs = "map snd (yy_stack m)"
  have inv: "stack_ok (yy_stack m)" "wf_ps (yy_cf m) (yy_ps m)" using assms(2) by (simp_all add: yy_inv_def)
  have path: "path_ok (s # map fst r)" using inv(1) assms(3) by (simp add: stack_ok_def)
  have rule: "2 \<le> rule" "rule < 72" "s \<noteq> 7" "rule = 12 \<longrightarrow> s = 18" "?n = 0 \<longrightarrow> s = 0 \<and> yyr1 ! rule = 31"
    "below_all (goto_ok rule) ?n s"
    "yyr1 ! rule = 31 \<or> weights ! (yyr1 ! rule) < weights ! (yystos ! s) + ?n - 1"
    using assms(5) by (simp_all add: reduce_ok_def)
  have arg: "k < length ?vs \<and> k < ?n \<and> has_kind kd (?vs ! k)" if "(k, kd) \<in> set (reads rule)" for k kd
  proof -
    have "k < ?n" "below_all (\<lambda>t. vkind (yystos ! t) = kd) k s"
      using assms(5) that by (auto simp: reduce_ok_def list_all_iff)
    from path_below [OF path this(2)] have k: "k < length (yy_stack m)"
      "vkind (yystos ! fst (yy_stack m ! k)) = kd" using assms(3) by (auto simp: nth_Cons' )
    have "has_kind (vkind (yystos ! fst (yy_stack m ! k))) (snd (yy_stack m ! k))"
      using inv(1) nth_mem [OF k(1)] by (auto simp: stack_ok_def case_prod_beta)
    with k \<open>k < ?n\<close> show ?thesis by simp
  qed
  from path_below [OF path rule(6)] have n: "?n \<le> length r" "goto_ok rule ((s # map fst r) ! ?n)"
    "path_ok (drop ?n (s # map fst r))" by auto
  obtain t w q where q: "drop ?n (yy_stack m) = (t, w) # q"
    using n(1) assms(3) by (cases "drop ?n (yy_stack m)") auto
  have t: "(s # map fst r) ! ?n = t"
    using q n(1) assms(3) by (metis drop_map fst_conv hd_drop_conv_nth le_imp_less_Suc length_Cons length_map list.sel(1) list.simps(9))
  with n(2) obtain g where g: "yygoto rule t = Some g" "g < 147" "g \<noteq> 0" "g \<noteq> 18" "t \<in> set (preds ! g)"
    "yystos ! g = yyr1 ! rule" "yyr1 ! rule = 31 \<longleftrightarrow> g = 7"
    by (auto simp: goto_ok_def split: option.splits)
  have val: "\<exists>x. (if ?n = 0 then Some YUndef else yyvsp ?vs (?n - 1)) = Some x \<and> (rule = 36 \<longrightarrow> x = ?vs ! 0)"
    using n(1) assms(3) by (auto simp: yyvsp_def yyr2_at)
  then obtain x where x: "(if ?n = 0 then Some YUndef else yyvsp ?vs (?n - 1)) = Some x" "rule = 36 \<Longrightarrow> x = ?vs ! 0"
    by blast
  obtain u cf ps where act: "yyaction alloc rule ?vs x (yy_cf m) (yy_ps m) = Some (u, cf, ps)" "wf_ps cf ps"
    "has_kind (vkind (yyr1 ! rule)) u"
    using yyaction_ok [of alloc, OF assms(1) inv(2) rule(2,1) _ x(2)] arg by blast
  let ?m = "m\<lparr>yy_stack := (g, u) # drop ?n (yy_stack m), yy_cf := cf, yy_ps := ps,
    yy_errstatus := (if rule = 12 then 0 else yy_errstatus m)\<rparr>"
  have "yyreduce alloc rule m = Some ?m"
    using rule(2) x(1) act(1) q g(1) by (simp add: yyreduce_def yyget_def)
  moreover have "stack_ok ((g, u) # drop ?n (yy_stack m))"
  proof (rule stack_ok_push [OF _ q g(2,3,5)])
    show "stack_ok (drop ?n (yy_stack m))"
      using stack_ok_drop [OF inv(1), of ?n] n(3) assms(3) by (simp add: drop_map [symmetric])
    show "has_kind (vkind (yystos ! g)) u" using act(3) g(6) by simp
  qed
  then have "yy_inv ?m" using assms(2) act(2) g(4) by (auto simp: yy_inv_def)
  moreover have "(yy_measure ?m, yy_measure m) \<in> yy_order"
  proof -
    have not7: "7 \<notin> fst ` set (yy_stack m)"
      using path_7 [OF path] rule(3) assms(3,4) by auto
    then have rest7: "7 \<notin> fst ` set (drop ?n (yy_stack m))" using set_drop_subset [of ?n "yy_stack m"] by blast
    have err: "(if (if rule = 12 then 0 else yy_errstatus m) = 3 then 0 else 1) = (if yy_errstatus m = 3 then 0 else (1::nat))"
      using rule(4) assms(2,3) by (auto simp: yy_inv_def)
    show ?thesis
    proof (cases "g = 7")
      case True
      then show ?thesis using not7 err assms(3,4) by (auto simp: yy_measure_def yy_order_def)
    next
      case False
      then have "?n \<noteq> 0" "weights ! (yystos ! g) < weights ! (yystos ! s) + ?n - 1"
        using rule(5,7) g(6,7) by auto
      moreover have "weights ! (yystos ! s) + (?n - 1) \<le> sum_list (map (\<lambda>(s, v). weights ! (yystos ! s)) (take ?n (yy_stack m)))"
        using \<open>?n \<noteq> 0\<close> n(1) path assms(3) by (intro sum_weights_take [OF _ assms(3)]) auto
      moreover have "sum_list (map (\<lambda>(s, v). weights ! (yystos ! s)) (yy_stack m)) =
          sum_list (map (\<lambda>(s, v). weights ! (yystos ! s)) (take ?n (yy_stack m))) +
          sum_list (map (\<lambda>(s, v). weights ! (yystos ! s)) (drop ?n (yy_stack m)))"
        by (metis append_take_drop_id map_append sum_list_append)
      ultimately show ?thesis
        using False not7 rest7 err assms(3,4) by (auto simp: yy_measure_def yy_order_def)
    qed
  qed
  ultimately show ?thesis by blast
qed

section \<open>Every step is defined and decreases the measure\<close>

definition error_ok :: "nat \<Rightarrow> bool" where
  "error_ok s = (case error_shift s of None \<Rightarrow> False | Some None \<Rightarrow> s \<noteq> 0 | Some (Some g) \<Rightarrow> g = 1 \<and> s \<in> set (preds ! 1))"

lemma all_error_ok_list: "list_all error_ok [0..<147]"
  by (simp add: error_ok_def error_shift_def yyget_def YYPACT_NINF_def YYLAST_def tables_at)

lemma all_error_ok: "s < 147 \<Longrightarrow> error_ok s"
proof -
  have "\<forall>s \<in> {0..<147}. error_ok s"
    using all_error_ok_list unfolding list_all_iff set_upt .
  then show "s < 147 \<Longrightarrow> error_ok s" by auto
qed

text \<open>The bottom of the stack shifts the error token, so recovery always finds a state.\<close>

lemma yyerr_pop_ok:
  "stack_ok st \<Longrightarrow> \<exists>n s v q. yyerr_pop st = Some (Some (1, (s, v) # q)) \<and> (s, v) # q = drop n st \<and>
     stack_ok ((s, v) # q) \<and> s \<in> set (preds ! 1)"
proof (induction st)
  case Nil
  then show ?case by (simp add: stack_ok_def)
next
  case (Cons x st)
  obtain s v where x: "x = (s, v)" by (cases x)
  with Cons.prems have path: "path_ok (s # map fst st)" by (simp add: stack_ok_def)
  have ok: "error_ok s" by (rule all_error_ok [OF path_ok_hd [OF path]])
  show ?case
  proof (cases "error_shift s")
    case None
    then show ?thesis using ok by (simp add: error_ok_def)
  next
    case (Some e)
    show ?thesis
    proof (cases e)
      case e: (Some g)
      then show ?thesis using Some ok Cons.prems x
        by (intro exI [of _ 0] exI [of _ s] exI [of _ v] exI [of _ st]) (simp add: error_ok_def)
    next
      case e: None
      then have "s \<noteq> 0" using Some ok by (simp add: error_ok_def)
      then obtain t r where st: "map fst st = t # r" "path_ok (map fst st)" using path by (cases "map fst st") auto
      then have "stack_ok st" "st \<noteq> []" using Cons.prems by (auto simp: stack_ok_def)
      with Cons.IH obtain n s' v' q where IH: "yyerr_pop st = Some (Some (1, (s', v') # q))" "(s', v') # q = drop n st"
        "stack_ok ((s', v') # q)" "s' \<in> set (preds ! 1)" by blast
      have "yyerr_pop (x # st) = yyerr_pop st" using Some e x \<open>st \<noteq> []\<close> by simp
      with IH show ?thesis by (intro exI [of _ "Suc n"] exI [of _ s'] exI [of _ v'] exI [of _ q]) simp
    qed
  qed
qed

lemma yyerrlab1_ok:
  assumes "yy_inv m"
  shows "\<exists>m' st. yyerrlab1 m = Some (Next m') \<and> yy_inv m' \<and> m' = m\<lparr>yy_errstatus := 3, yy_stack := (1, yy_lval m) # st\<rparr>"
proof -
  have st: "stack_ok (yy_stack m)" using assms by (simp add: yy_inv_def)
  from yyerr_pop_ok [OF st] obtain s v q where q: "yyerr_pop (yy_stack m) = Some (Some (1, (s, v) # q))"
    "stack_ok ((s, v) # q)" "s \<in> set (preds ! 1)" by blast
  have "stack_ok ((1, yy_lval m) # (s, v) # q)"
    using q(2,3) by (intro stack_ok_push [OF q(2)]) (simp_all add: vkind_def yystos_at)
  with q(1) assms show ?thesis
    by (intro exI [of _ "m\<lparr>yy_errstatus := 3, yy_stack := (1, yy_lval m) # (s, v) # q\<rparr>"] exI [of _ "(s, v) # q"])
      (auto simp: yyerrlab1_def yy_inv_def Let_def)
qed

lemma yyerrlab_ok:
  assumes "yy_inv m" and "yy_char m \<noteq> YYEMPTY" and "fst (hd (yy_stack m)) \<noteq> 25"
  shows "yyerrlab m = Some (Done 1 m) \<or>
    (\<exists>m'. yyerrlab m = Some (Next m') \<and> yy_inv m' \<and> (yy_measure m', yy_measure m) \<in> yy_order)"
proof (cases "yy_errstatus m = 3")
  case False
  obtain m' st where m': "yyerrlab1 m = Some (Next m')" "yy_inv m'"
    "m' = m\<lparr>yy_errstatus := 3, yy_stack := (1, yy_lval m) # st\<rparr>" using yyerrlab1_ok [OF assms(1)] by blast
  have "(yy_measure m', yy_measure m) \<in> yy_order"
    using assms(3) False by (simp add: m'(3) yy_measure_def yy_order_def)
  with m'(1,2) False show ?thesis by (simp add: yyerrlab_def)
next
  case True
  show ?thesis
  proof (cases "yy_char m = YYEOF")
    case eof: True
    then show ?thesis using True by (simp add: yyerrlab_def)
  next
    case False
    then have pos: "0 < yy_char m" using assms(1,2) by (auto simp: yy_inv_def YYEOF_def)
    let ?m = "m\<lparr>yy_char := YYEMPTY\<rparr>"
    have "yy_inv ?m" using assms(1) by (simp add: yy_inv_def)
    then obtain m' st where m': "yyerrlab1 ?m = Some (Next m')" "yy_inv m'"
      "m' = ?m\<lparr>yy_errstatus := 3, yy_stack := (1, yy_lval ?m) # st\<rparr>" using yyerrlab1_ok [of ?m] by blast
    have "(yy_measure m', yy_measure m) \<in> yy_order"
      using assms(3) pos by (simp add: m'(3) yy_measure_def yy_order_def YYEMPTY_def)
    with m'(1,2) True pos show ?thesis by (simp add: yyerrlab_def YYEOF_def)
  qed
qed

lemma yydispatch_ok:
  assumes "\<And>n. alloc n" and "yy_inv m" and "yy_char m \<noteq> YYEMPTY" and "yy_stack m = (s, v) # r" and "s \<noteq> 25"
    and "yypact ! s \<noteq> YYPACT_NINF"
  shows "\<exists>a res. yydecide s (yypact ! s) (yytranslate ! nat (yy_char m)) = Some a \<and> yydispatch alloc m a = Some res \<and>
    (res = Done 1 m \<or> (\<exists>m'. res = Next m' \<and> yy_inv m' \<and> (yy_measure m', yy_measure m) \<in> yy_order))"
proof -
  let ?t = "yytranslate ! nat (yy_char m)"
  have s: "s < 147" using assms(2,4) path_ok_hd by (auto simp: yy_inv_def stack_ok_def)
  have "yy_char m = YYEOF \<or> (258 \<le> yy_char m \<and> yy_char m \<le> 284)" using assms(2,3) by (auto simp: yy_inv_def)
  then have tok: "?t < 30" "?t = 0 \<longleftrightarrow> yy_char m = YYEOF"
    using yytranslate_at [of "nat (yy_char m)"] by (auto simp: YYEOF_def yytranslate_def)
  have "\<forall>t \<in> {0..<30}. action_ok s t" and def: "yydefact ! s = 0 \<or> reduce_ok s (yydefact ! s)"
    using all_states_ok [OF s] assms(6) unfolding state_ok_def list_all_iff set_upt by auto
  then have ok: "action_ok s ?t" using tok(1) by simp
  show ?thesis
  proof (cases "yydecide s (yypact ! s) ?t")
    case None
    then show ?thesis using ok by (simp add: action_ok_def)
  next
    case (Some a)
    show ?thesis
    proof (cases a)
      case (Shift g)
      have "g < 147" "s \<in> set (preds ! g)" "yystos ! g = ?t" "yy_char m = YYEOF \<longrightarrow> g = 25" "g \<noteq> 0"
        using ok Some Shift tok(2) by (auto simp: action_ok_def)
      from yyshift_ok [OF assms(2-5) this] Some Shift show ?thesis by (simp add: yydispatch_def)
    next
      case (Reduce rule)
      have "reduce_ok s rule" using ok Some Reduce def by (auto simp: action_ok_def)
      from yyreduce_ok [of alloc, OF assms(1,2,4,5) this] Some Reduce show ?thesis by (auto simp: yydispatch_def)
    next
      case Error
      from yyerrlab_ok [OF assms(2,3)] assms(4,5) Some Error show ?thesis by (auto simp: yydispatch_def)
    qed
  qed
qed

lemma yystep_ok:
  assumes "\<And>n. alloc n" and "yy_inv m"
  shows "\<exists>res. yystep alloc m = Some res \<and>
    (\<forall>n m'. res = Done n m' \<longrightarrow> n \<le> 1 \<and> wf_ps (yy_cf m') (yy_ps m')) \<and>
    (\<forall>m'. res = Next m' \<longrightarrow> yy_inv m' \<and> (yy_measure m', yy_measure m) \<in> yy_order)"
proof -
  have st: "stack_ok (yy_stack m)" using assms(2) by (simp add: yy_inv_def)
  from stack_ok_Cons [OF st] obtain s v r where s: "yy_stack m = (s, v) # r" "s < 147" "path_ok (s # map fst r)" .
  have "length (yy_stack m) < yy_stacksize m"
    using path_length [OF s(3)] assms(2) s(1) by (simp add: yy_inv_def YYINITDEPTH_def)
  then have grow: "yygrow alloc m = Some m" by (simp add: yygrow_def)
  have wf: "wf_ps (yy_cf m) (yy_ps m)" using assms(2) by (simp add: yy_inv_def)
  have pact: "yyget yypact (int s) = Some (yypact ! s)" using s(2) by (simp add: yyget_def)
  show ?thesis
  proof (cases "s = 25")
    case True
    then show ?thesis using grow s(1) wf by (simp add: yystep_def YYFINAL_def)
  next
    case False
    show ?thesis
    proof (cases "yypact ! s = YYPACT_NINF")
      case True
      then have "default_ok s" using all_states_ok [OF s(2)] False by (simp add: state_ok_def)
      then obtain rule where d: "yydefault s = Some (Reduce rule)" "reduce_ok s rule"
        by (auto simp: default_ok_def split: option.splits yyact.splits)
      from yyreduce_ok [of alloc, OF assms s(1) False d(2)] grow s(1) False True pact d(1) show ?thesis
        by (auto simp: yystep_def YYFINAL_def yydispatch_def)
    next
      case ninf: False
      then have "vkind (yystos ! s) \<noteq> TextVal" using all_states_ok [OF s(2)] by (simp add: state_ok_def)
      note rd = yyread_ok [OF assms(2) _ s(1) this]
      let ?m = "if yy_char m = YYEMPTY then yyread m else m"
      have m: "yy_inv ?m" "yy_char ?m \<noteq> YYEMPTY" "yy_measure ?m = yy_measure m"
        using rd assms(2) by auto
      obtain v' r' where m': "yy_stack ?m = (s, v') # r'" using rd(4) s(1) by (cases "yy_char m = YYEMPTY") auto
      have "yy_char ?m = YYEOF \<or> (258 \<le> yy_char ?m \<and> yy_char ?m \<le> 284)" using m(1,2) by (auto simp: yy_inv_def)
      then have tr: "yyget yytranslate (yy_char ?m) = Some (yytranslate ! nat (yy_char ?m))"
        by (auto simp: yyget_def YYEOF_def)
      from yydispatch_ok [of alloc, OF assms(1) m(1,2) m' False ninf] obtain a res where
        a: "yydecide s (yypact ! s) (yytranslate ! nat (yy_char ?m)) = Some a" "yydispatch alloc ?m a = Some res"
        "res = Done 1 ?m \<or> (\<exists>m'. res = Next m' \<and> yy_inv m' \<and> (yy_measure m', yy_measure ?m) \<in> yy_order)" by blast
      have "yystep alloc m = Some res"
        using grow s(1) False ninf pact tr a(1,2) by (simp add: yystep_def YYFINAL_def Let_def)
      moreover have "wf_ps (yy_cf ?m) (yy_ps ?m)" using m(1) by (simp add: yy_inv_def)
      ultimately show ?thesis using a(3) m(3) by auto
    qed
  qed
qed

lemma yyloop_total:
  assumes "\<And>n. alloc n" and "yy_inv m"
  shows "\<exists>n cf ps. yyloop alloc m = Some (n, cf) \<and> n \<le> 1 \<and> wf_ps cf ps"
  using assms(2)
proof (induction "yy_measure m" arbitrary: m rule: wf_induct_rule [OF wf_yy_order])
  case 1
  from yystep_ok [of alloc, OF assms(1) 1(2)] obtain res where
    res: "yystep alloc m = Some res" "\<And>n m'. res = Done n m' \<Longrightarrow> n \<le> 1 \<and> wf_ps (yy_cf m') (yy_ps m')"
    "\<And>m'. res = Next m' \<Longrightarrow> yy_inv m' \<and> (yy_measure m', yy_measure m) \<in> yy_order" by blast
  show ?case
  proof (cases res)
    case (Done n m')
    then have "yyloop alloc m = Some (n, yy_cf m')" using res(1) by (simp add: yyloop.simps [of alloc m])
    with res(2) [OF Done] show ?thesis by blast
  next
    case (Next m')
    then have "yyloop alloc m = yyloop alloc m'" using res(1) by (simp add: yyloop.simps [of alloc m])
    with 1(1) [of m'] res(3) [OF Next] show ?thesis by auto
  qed
qed

lemma yyparse_total:
  assumes "\<And>n. alloc n" and "wf_ps cf ps"
  shows "\<exists>n cf' ps'. yyparse alloc toks cf ps = Some (n, cf') \<and> n \<le> 1 \<and> wf_ps cf' ps'"
  unfolding yyparse_def
  by (rule yyloop_total [OF assms(1)]) (simp add: yy_inv_def stack_ok_def assms(2) vkind_def yystos_at)

end
