(* ===== verification/KeydbRun.thy ===== *)
theory KeydbRun
  imports KeydbSafe
begin

text \<open>
  Running the parser of \<^verbatim>\<open>KEYDB.cfg\<close> on tokens: each step as an equation that the simplifier
  can apply, and what the entries of a configuration do to it, including lines that are not
  entries, which the error recovery skips.
\<close>

section \<open>Steps as equations\<close>

abbreviation mach :: "(nat \<times> yyval) list \<Rightarrow> nat \<Rightarrow> int \<Rightarrow> yyval \<Rightarrow> token list \<Rightarrow> config_file \<Rightarrow> parser_state \<Rightarrow> yymach" where
  "mach st e c lv inp cf ps \<equiv> \<lparr>yy_stack = st, yy_stacksize = YYINITDEPTH, yy_errstatus = e, yy_char = c,
     yy_lval = lv, yy_input = inp, yy_cf = cf, yy_ps = ps\<rparr>"

definition yycont :: "(nat \<Rightarrow> bool) \<Rightarrow> yyact \<Rightarrow> yymach \<Rightarrow> (nat \<times> config_file) option" where
  "yycont alloc a m = (case yydispatch alloc m a of None \<Rightarrow> None
     | Some r \<Rightarrow> (case r of Next m \<Rightarrow> yyloop alloc m | Done n m \<Rightarrow> Some (n, yy_cf m)))"

lemma yygrow_mach: "length st < 200 \<Longrightarrow> yygrow alloc (mach st e c lv inp cf ps) = Some (mach st e c lv inp cf ps)"
  by (simp add: yygrow_def YYINITDEPTH_def)

lemma yyloop_bind: "yyloop alloc m = (case yystep alloc m of None \<Rightarrow> None
     | Some r \<Rightarrow> (case r of Next m \<Rightarrow> yyloop alloc m | Done n m \<Rightarrow> Some (n, yy_cf m)))"
  by (subst yyloop.simps) (auto split: option.splits yyresult.splits)

lemma yyloop_default:
  assumes "length st < 199" and "s \<noteq> 25" and "s < 147" and "yypact ! s = - 39"
  shows "yyloop alloc (mach ((s, v) # st) e c lv inp cf ps) =
    (case yydefault s of None \<Rightarrow> None | Some a \<Rightarrow> yycont alloc a (mach ((s, v) # st) e c lv inp cf ps))"
proof -
  have g: "yygrow alloc (mach ((s, v) # st) e c lv inp cf ps) = Some (mach ((s, v) # st) e c lv inp cf ps)"
    using assms(1) by (intro yygrow_mach) simp
  show ?thesis
    using assms(2-4) by (subst yyloop_bind)
      (simp add: yystep_def g yycont_def yyget_def YYFINAL_def YYPACT_NINF_def split: option.split)
qed

lemma yyloop_token:
  assumes "length st < 199" and "s \<noteq> 25" and "s < 147" and "yypact ! s \<noteq> - 39" and "c \<noteq> YYEMPTY"
  shows "yyloop alloc (mach ((s, v) # st) e c lv inp cf ps) =
    (case yyget yytranslate c of None \<Rightarrow> None
     | Some t \<Rightarrow> (case yydecide s (yypact ! s) t of None \<Rightarrow> None
         | Some a \<Rightarrow> yycont alloc a (mach ((s, v) # st) e c lv inp cf ps)))"
proof -
  have g: "yygrow alloc (mach ((s, v) # st) e c lv inp cf ps) = Some (mach ((s, v) # st) e c lv inp cf ps)"
    using assms(1) by (intro yygrow_mach) simp
  show ?thesis
    using assms(2-5) by (subst yyloop_bind)
      (auto simp: yystep_def g yycont_def yyget_def YYFINAL_def YYPACT_NINF_def Let_def split: option.splits if_splits)
qed

lemma yyloop_read:
  assumes "length st < 199" and "s \<noteq> 25" and "s < 147" and "yypact ! s \<noteq> - 39"
  shows "yyloop alloc (mach ((s, v) # st) e YYEMPTY lv inp cf ps) = yyloop alloc (yyread (mach ((s, v) # st) e YYEMPTY lv inp cf ps))"
proof -
  have c: "yy_char (yyread (mach ((s, v) # st) e YYEMPTY lv inp cf ps)) \<noteq> YYEMPTY"
    using token_code_range by (auto simp: yyread_def Let_def YYEMPTY_def YYEOF_def split: list.splits)
  have g: "yygrow alloc (mach ((s, v) # st) e YYEMPTY lv inp cf ps) = Some (mach ((s, v) # st) e YYEMPTY lv inp cf ps)"
    using assms(1) by (intro yygrow_mach) simp
  have g': "yygrow alloc (yyread (mach ((s, v) # st) e YYEMPTY lv inp cf ps)) = Some (yyread (mach ((s, v) # st) e YYEMPTY lv inp cf ps))"
    using assms(1) by (simp add: yygrow_def yyread_def Let_def YYINITDEPTH_def split: list.split)
  have h: "\<exists>v' st'. yy_stack (yyread (mach ((s, v) # st) e YYEMPTY lv inp cf ps)) = (s, v') # st'"
    by (simp add: yyread_def Let_def split: list.split)
  have "yystep alloc (yyread (mach ((s, v) # st) e YYEMPTY lv inp cf ps)) = yystep alloc (mach ((s, v) # st) e YYEMPTY lv inp cf ps)"
    using assms(2-4) c h by (auto simp: yystep_def g g' yyget_def YYFINAL_def YYPACT_NINF_def)
  then show ?thesis by (simp add: yyloop_bind)
qed

lemma yyloop_final: "length st < 199 \<Longrightarrow> yyloop alloc (mach ((25, v) # st) e c lv inp cf ps) = Some (0, cf)"
  by (subst yyloop_bind) (simp add: yystep_def yygrow_def YYINITDEPTH_def YYFINAL_def)

lemma YYEMPTY_neq [simp]: "numeral k \<noteq> YYEMPTY" "YYEOF \<noteq> YYEMPTY" "(0::int) \<noteq> YYEMPTY"
  by (simp_all add: YYEMPTY_def YYEOF_def)

lemma stale_simps [simp]: "stale (YText s) = YUndef" "stale (YStr p) = YStr p" "stale YHexkey = YHexkey"
  "stale (YDigit n) = YDigit n" "stale YUndef = YUndef" "stale (stale v) = stale v"
  by (simp_all add: stale_def split: yyval.split)

lemma yyloop_read_token:
  assumes "length st < 199" and "s \<noteq> 25" and "s < 147" and "yypact ! s \<noteq> - 39"
  shows "yyloop alloc (mach ((s, v) # st) e YYEMPTY lv (t # ts) cf ps) =
    yyloop alloc (mach ((s, stale v) # map (\<lambda>(s, v). (s, stale v)) st) e (int (token_code t)) (token_lval t lv) ts cf ps)"
  by (subst yyloop_read [OF assms]) (simp add: yyread_def)

lemma yyloop_read_eof:
  assumes "length st < 199" and "s \<noteq> 25" and "s < 147" and "yypact ! s \<noteq> - 39"
  shows "yyloop alloc (mach ((s, v) # st) e YYEMPTY lv [] cf ps) =
    yyloop alloc (mach ((s, stale v) # map (\<lambda>(s, v). (s, stale v)) st) e 0 (stale lv) [] cf ps)"
  by (subst yyloop_read [OF assms]) (simp add: yyread_def YYEOF_def)

lemma yycont_simps:
  "yycont alloc (Shift g) m = yyloop alloc (yyshift g m)"
  "yycont alloc (Reduce r) m = (case yyreduce alloc r m of None \<Rightarrow> None | Some m \<Rightarrow> yyloop alloc m)"
  "yycont alloc Error m = (case yyerrlab m of None \<Rightarrow> None
     | Some r \<Rightarrow> (case r of Next m \<Rightarrow> yyloop alloc m | Done n m \<Rightarrow> Some (n, yy_cf m)))"
  by (simp_all add: yycont_def yydispatch_def split: option.split)

lemmas yyrun = yyloop_default yyloop_token yyloop_read_token yyloop_read_eof yyloop_final yycont_simps yyshift_def yyreduce_def
  yydefault_def yydecide_def yygoto_def YYLAST_def YYNTOKENS_def yyget_def tables_at token_lval_def
  yyaction_def yyvsp_def yyarg_def yystr_def hexstring_list_def

section \<open>Actions on printed keys\<close>

lemma add_pk_entry_hex:
  "length k = 16 \<Longrightarrow> alloc SIZEOF_PK_LIST \<Longrightarrow>
   add_pk_entry alloc cf (Some (print_hex_loop k)) = Some (cf\<lparr>cf_pkl := cf_pkl cf @ [k]\<rparr>)"
  by (simp add: add_pk_entry_def hexstring_to_hex_array_unhex)

lemma add_cert_entry_hex:
  "length (host_priv_key e) = 20 \<Longrightarrow> length (host_cert e) = 92 \<Longrightarrow> alloc SIZEOF_CERT_LIST \<Longrightarrow>
   add_cert_entry alloc cf (Some (print_hex_loop (host_priv_key e))) (Some (print_hex_loop (host_cert e))) =
     Some (cf\<lparr>cf_host_cert_list := cf_host_cert_list cf @ [e]\<rparr>)"
  by (cases e) (simp add: add_cert_entry_def hexstring_to_hex_array_unhex)

lemma hexdigit_nibble: "n < 16 \<Longrightarrow> unat (fst (hexstring_to_unsigned_char (nibble ! n))) = n"
  using nibble_roundtrip [of n] by (simp add: unat_of_nat)

lemma strtoul_fold:
  "foldl (\<lambda>n c. 16 * n + unat (fst (hexstring_to_unsigned_char c))) v (print_hex_loop bs) =
     256 ^ length bs * v + be_val bs"
proof (induction bs arbitrary: v)
  case Nil
  then show ?case by simp
next
  case (Cons b bs)
  have print: "print_hex_loop (b # bs) = nibble ! (unat b div 16) # nibble ! (unat b mod 16) # print_hex_loop bs"
    by (simp only: print_hex_loop.simps nibbles_of_byte)
  have "unat b div 16 < 16" "unat b mod 16 < 16" using byte_less [of b] by (simp_all only: less_mult_imp_div_less)
  then have "foldl (\<lambda>n c. 16 * n + unat (fst (hexstring_to_unsigned_char c))) v (print_hex_loop (b # bs)) =
      256 ^ length bs * (16 * (16 * v + unat b div 16) + unat b mod 16) + be_val bs"
    by (simp only: print foldl_Cons Cons.IH hexdigit_nibble)
  also have "16 * (16 * v + unat b div 16) + unat b mod 16 = 256 * v + unat b"
    using mult_div_mod_eq [of 16 "unat b"] by simp
  finally show ?case by (simp add: algebra_simps)
qed

lemma strtoul_print_hex: "length bs \<le> 8 \<Longrightarrow> strtoul_16 (print_hex_loop bs) = be_val bs"
proof -
  assume len: "length bs \<le> 8"
  have digits: "takeWhile isxdigit (print_hex_loop bs) = print_hex_loop bs"
    by (simp add: takeWhile_eq_all_conv print_hex_xdigits)
  have "be_val bs \<le> 2 ^ 64 - 1"
  proof -
    have "be_val bs < 256 ^ length bs" by (rule be_val_less)
    also have "\<dots> \<le> (256 :: nat) ^ 8" using len by (intro power_increasing) simp_all
    finally show ?thesis by simp
  qed
  then show ?thesis unfolding strtoul_16_def digits strtoul_fold by simp
qed

definition dk_ok :: "dk \<Rightarrow> bool" where
  "dk_ok e \<longleftrightarrow> length (dk_key e) = 16 \<and> dk_node e < 2 ^ 64"

text \<open>The numbers of a device key, as the file has them.\<close>

definition hex_node :: "dk \<Rightarrow> string" where "hex_node e = print_hex_loop (be_enc 8 (dk_node e))"
definition hex_uv :: "dk \<Rightarrow> string" where "hex_uv e = print_hex_loop (be_enc 4 (unat (dk_uv e)))"
definition hex_shift :: "dk \<Rightarrow> string" where "hex_shift e = print_hex_loop [dk_u_mask_shift e]"

lemma add_dk_entry_hex:
  assumes "dk_ok e" and "alloc SIZEOF_DK_LIST"
  shows "add_dk_entry alloc cf (Some (print_hex_loop (dk_key e))) (Some (hex_node e)) (Some (hex_uv e)) (Some (hex_shift e)) =
    Some (cf\<lparr>cf_dkl := cf_dkl cf @ [e]\<rparr>)"
proof -
  have "unat (dk_uv e) < 256 ^ 4" using unsigned_less [of "dk_uv e"] by simp
  then have "strtoul_16 (hex_node e) = dk_node e" "strtoul_16 (hex_uv e) = unat (dk_uv e)"
    "strtoul_16 (hex_shift e) = unat (dk_u_mask_shift e)"
    using assms(1)
    by (simp_all add: hex_node_def hex_uv_def hex_shift_def dk_ok_def strtoul_print_hex be_val_be_enc del: print_hex_loop.simps)
  then show ?thesis
    using assms by (simp add: add_dk_entry_def hexstring_to_hex_array_unhex dk_ok_def Let_def)
qed

section \<open>One entry\<close>

text \<open>
  Between two entries the stack is empty but for the list of the entries so far and the list of the
  empty lines since the last one.
\<close>

definition base0 :: "(nat \<times> yyval) list \<Rightarrow> bool" where
  "base0 st \<longleftrightarrow> (\<exists>v u. st = [(0, u)] \<or> st = [(8, v), (0, u)])"

definition base :: "(nat \<times> yyval) list \<Rightarrow> bool" where
  "base st \<longleftrightarrow> base0 st \<or> (\<exists>x v u. st = [(14, x), (0, u)] \<or> st = [(27, x), (8, v), (0, u)])"

lemma base0_cases:
  assumes "base0 st"
  obtains u where "st = [(0, u)]" | v u where "st = [(8, v), (0, u)]"
  using assms by (auto simp: base0_def)

lemma base_cases:
  assumes "base st"
  obtains u where "st = [(0, u)]" | v u where "st = [(8, v), (0, u)]"
    | x u where "st = [(14, x), (0, u)]" | x v u where "st = [(27, x), (8, v), (0, u)]"
  using assms by (auto simp: base_def base0_def)

lemma base_simps [simp]: "base0 [(0, u)]" "base0 [(8, v), (0, u)]" "base [(0, u)]" "base [(8, v), (0, u)]"
    "base [(14, x), (0, u)]" "base [(27, x), (8, v), (0, u)]"
  by (auto simp: base_def base0_def)

definition pk_tokens :: "byte list \<Rightarrow> token list" where
  "pk_tokens k = [ENTRY_ID_PK, HEXSTRING (print_hex_loop k), NEWLINE]"

definition dk_tokens :: "dk \<Rightarrow> token list" where
  "dk_tokens e = [ENTRY_ID_DK, KEYWORD_DEVICE_KEY, HEXSTRING (print_hex_loop (dk_key e)), PUNCT_VERTICAL_BAR,
     KEYWORD_DEVICE_NODE, HEXSTRING (hex_node e), PUNCT_VERTICAL_BAR, KEYWORD_KEY_UV, HEXSTRING (hex_uv e),
     PUNCT_VERTICAL_BAR, KEYWORD_KEY_U_MASK_SHIFT, HEXSTRING (hex_shift e), NEWLINE]"

definition cert_tokens :: "cert_entry \<Rightarrow> token list" where
  "cert_tokens e = [ENTRY_ID_HC, KEYWORD_HOST_PRIV_KEY, HEXSTRING (print_hex_loop (host_priv_key e)), PUNCT_VERTICAL_BAR,
     KEYWORD_HOST_CERT, HEXSTRING (print_hex_loop (host_cert e)), NEWLINE]"

lemma run_pk:
  assumes "\<And>n. alloc n" and "length k = 16" and "base st"
  shows "\<exists>v u lv'. yyloop alloc (mach st 0 YYEMPTY lv (pk_tokens k @ ts) cf ps) =
    yyloop alloc (mach [(8, v), (0, u)] 0 YYEMPTY lv' ts (cf\<lparr>cf_pkl := cf_pkl cf @ [k]\<rparr>) ps)"
  using assms(3) by (rule base_cases) (intro exI, use assms in \<open>simp add: pk_tokens_def yyrun add_pk_entry_hex\<close>)+

lemma run_dk:
  assumes "\<And>n. alloc n" and "dk_ok e" and "base st"
  shows "\<exists>v u lv'. yyloop alloc (mach st 0 YYEMPTY lv (dk_tokens e @ ts) cf ps) =
    yyloop alloc (mach [(8, v), (0, u)] 0 YYEMPTY lv' ts (cf\<lparr>cf_dkl := cf_dkl cf @ [e]\<rparr>) ps)"
  using assms(3) by (rule base_cases) (intro exI, use assms in \<open>simp add: dk_tokens_def yyrun add_dk_entry_hex\<close>)+

lemma run_cert:
  assumes "\<And>n. alloc n" and "length (host_priv_key e) = 20" and "length (host_cert e) = 92" and "base st"
  shows "\<exists>v u lv'. yyloop alloc (mach st 0 YYEMPTY lv (cert_tokens e @ ts) cf ps) =
    yyloop alloc (mach [(8, v), (0, u)] 0 YYEMPTY lv' ts (cf\<lparr>cf_host_cert_list := cf_host_cert_list cf @ [e]\<rparr>) ps)"
  using assms(4) by (rule base_cases) (intro exI, use assms in \<open>simp add: cert_tokens_def yyrun add_cert_entry_hex\<close>)+

section \<open>Lines that are not entries\<close>

text \<open>
  In front of a token that no entry starts with, the parser shifts the error token and drops what
  follows up to the end of the line.
\<close>

lemmas yyerror_run = yyerrlab_def yyerrlab1_def error_shift_def YYPACT_NINF_def YYEOF_def

lemma base0_stale: "base0 st \<Longrightarrow> base0 (map (\<lambda>(s, v). (s, stale v)) st)"
  by (auto simp: base0_def)

lemma skip_token:
  assumes "t \<noteq> NEWLINE" and "base0 st"
  shows "yyloop alloc (mach ((1, w) # st) 3 YYEMPTY lv (t # ts) cf ps) =
    yyloop alloc (mach ((1, token_lval t lv) # map (\<lambda>(s, v). (s, stale v)) st) 3 YYEMPTY (token_lval t lv) ts cf ps)"
  using assms(2) by (rule base0_cases) (use assms(1) in \<open>cases t; simp add: yyrun yyerror_run\<close>)+

lemma skip_tokens:
  "NEWLINE \<notin> set junk \<Longrightarrow> base0 st \<Longrightarrow>
   \<exists>w' lv' st'. base0 st' \<and> yyloop alloc (mach ((1, w) # st) 3 YYEMPTY lv (junk @ ts) cf ps) =
    yyloop alloc (mach ((1, w') # st') 3 YYEMPTY lv' ts cf ps)"
proof (induction junk arbitrary: w st lv)
  case Nil
  then show ?case by auto
next
  case (Cons t junk)
  have t: "t \<noteq> NEWLINE" "NEWLINE \<notin> set junk" using Cons.prems(1) by auto
  show ?case
    unfolding append_Cons skip_token [OF t(1) Cons.prems(2)] by (rule Cons.IH [OF t(2) base0_stale [OF Cons.prems(2)]])
qed

text \<open>What a line that is no entry starts with, where the scanner finds no token.\<close>

lemma run_bad:
  assumes "NEWLINE \<notin> set junk" and "base st"
  shows "\<exists>v u lv'. yyloop alloc (mach st 0 YYEMPTY lv (BAD_ENTRY # junk @ NEWLINE # ts) cf ps) =
    yyloop alloc (mach [(8, v), (0, u)] 0 YYEMPTY lv' ts cf ps)"
proof -
  have "\<exists>w lv' st'. base0 st' \<and> yyloop alloc (mach st 0 YYEMPTY lv (BAD_ENTRY # junk @ NEWLINE # ts) cf ps) =
      yyloop alloc (mach ((1, w) # st') 3 YYEMPTY lv' (junk @ NEWLINE # ts) cf ps)"
    using assms(2) by (rule base_cases) (rule exI, rule exI, rule exI, rule conjI [rotated], simp add: yyrun yyerror_run, simp add: base0_def)+
  then obtain w lv1 st1 where 1: "base0 st1" "yyloop alloc (mach st 0 YYEMPTY lv (BAD_ENTRY # junk @ NEWLINE # ts) cf ps) =
      yyloop alloc (mach ((1, w) # st1) 3 YYEMPTY lv1 (junk @ NEWLINE # ts) cf ps)" by blast
  obtain w' lv2 st2 where 2: "base0 st2" "yyloop alloc (mach ((1, w) # st1) 3 YYEMPTY lv1 (junk @ NEWLINE # ts) cf ps) =
      yyloop alloc (mach ((1, w') # st2) 3 YYEMPTY lv2 (NEWLINE # ts) cf ps)"
    using skip_tokens [OF assms(1) 1(1)] by blast
  have "\<exists>v u lv'. yyloop alloc (mach ((1, w') # st2) 3 YYEMPTY lv2 (NEWLINE # ts) cf ps) =
      yyloop alloc (mach [(8, v), (0, u)] 0 YYEMPTY lv' ts cf ps)"
    using 2(1) by (rule base0_cases) (intro exI, simp add: yyrun)+
  with 1(2) 2(2) show ?thesis by simp
qed

text \<open>An empty line, or one with a comment only.\<close>

lemma run_newline:
  assumes "base st"
  shows "\<exists>st' lv'. base st' \<and> yyloop alloc (mach st 0 YYEMPTY lv (NEWLINE # ts) cf ps) =
    yyloop alloc (mach st' 0 YYEMPTY lv' ts cf ps)"
  using assms by (rule base_cases) (rule exI, rule exI, rule conjI [rotated], simp add: yyrun, simp add: base_def)+

section \<open>Discs\<close>

text \<open>
  A disc that is wanted is put in front of the list and its fields are filled in; the fields of
  another disc are dropped.  \<open>put c cf e l\<close> is the configuration in both cases.
\<close>

definition put :: "bool \<Rightarrow> config_file \<Rightarrow> title_entry \<Rightarrow> title_entry list \<Rightarrow> config_file" where
  "put c cf e l = (if c then cf\<lparr>cf_list := e # l\<rparr> else cf)"

definition cel :: "bool \<Rightarrow> title_entry list \<Rightarrow> nat ptr" where
  "cel c l = (if c then Some (length l) else None)"

definition pst :: "nat ptr \<Rightarrow> nat ptr \<Rightarrow> string ptr \<Rightarrow> bool \<Rightarrow> string \<Rightarrow> parser_state" where
  "pst c d w a s = \<lparr>ps_celist = c, ps_dkplist = d, ps_want_disc_id = w, ps_all_discs = a,
     ps_hexkey_size = length s, ps_hexkey = s\<rparr>"

definition wanted :: "string ptr \<Rightarrow> bool \<Rightarrow> byte list \<Rightarrow> bool" where
  "wanted w a d \<longleftrightarrow> a \<or> w = Some (print_hex_loop d)"

lemma pst_simps [simp]:
  "ps_celist (pst c d w a s) = c" "ps_dkplist (pst c d w a s) = d" "ps_hexkey (pst c d w a s) = s"
  "(pst c d w a s)\<lparr>ps_dkplist := d'\<rparr> = pst c d' w a s"
  by (simp_all add: pst_def)

lemma hexkey_first_pst [simp]: "length s < 128 \<Longrightarrow> hexkey_first (pst c d w a s') s = pst c d w a s"
  by (simp add: hexkey_first_def MAX_KEY_SIZE_def pst_def)

lemma print_hex_inj: "print_hex_loop xs = print_hex_loop ys \<longleftrightarrow> xs = ys"
  by (metis unhex_print_hex_all prod.inject)

lemma nibbles_lower: "list_all (\<lambda>c. word_of_nat (of_char c) OR 0x20 = (word_of_nat (of_char c) :: byte)) nibble"
  unfolding nibble_def by code_simp

lemma nibble_lower: "n < 16 \<Longrightarrow> word_of_nat (of_char (nibble ! n)) OR 0x20 = (word_of_nat (of_char (nibble ! n)) :: byte)"
  using nibbles_lower by (simp add: list_all_length nibble_def)

lemma print_hex_lower: "map (\<lambda>b. b OR 0x20) (bytes (print_hex_loop bs)) = bytes (print_hex_loop bs)"
proof (induction bs)
  case Nil
  then show ?case by (simp add: bytes_def)
next
  case (Cons b bs)
  have "unat b div 16 < 16" "unat b mod 16 < 16" using byte_less [of b] by (simp_all only: less_mult_imp_div_less)
  then show ?case
    using Cons.IH by (simp only: print_hex_loop.simps nibbles_of_byte nibble_lower bytes_def list.map)
qed

lemma bytes_eq_iff: "bytes s = bytes t \<longleftrightarrow> s = t"
  by (metis chars_bytes)

lemma discid_cmp_print_hex:
  assumes "length w = 40" and "length d = 20"
  shows "discid_cmp w (print_hex_loop d) = Some (w = print_hex_loop d)"
proof -
  have "length (bytes w) = 40" "length (bytes (print_hex_loop d)) = 40" using assms by (simp_all add: bytes_def)
  then show ?thesis using assms print_hex_lower [of d] by (simp add: discid_cmp_def bytes_eq_iff)
qed

lemma disc_info_hex:
  assumes "\<And>n. alloc n" and "length d = 20" and "\<forall>s. w = Some s \<longrightarrow> length s = 40"
  shows "disc_info alloc cf (pst c dk w a (print_hex_loop d)) =
    Some (put (wanted w a d) cf (new_title_entry\<lparr>te_discid := d\<rparr>) (cf_list cf),
      pst (cel (wanted w a d) (cf_list cf)) dk w a (print_hex_loop d))"
  using assms(2,3) by (cases w)
    (auto simp: disc_info_def pst_def put_def cel_def wanted_def discid_cmp_print_hex assms(1) new_title_entry_def
      hexstring_to_hex_array_unhex)

lemma title_at_put: "title_at (cf\<lparr>cf_list := e # l\<rparr>) (length l) = Some e"
  by (simp add: title_at_def nth_append)

lemma set_title_put: "set_title (cf\<lparr>cf_list := e # l\<rparr>) (length l) e' = cf\<lparr>cf_list := e' # l\<rparr>"
  by (simp add: set_title_def list_update_append)

lemma add_entry_put:
  assumes "wf_title e" and "length k = 16"
  shows "add_entry (put c cf e l) (cel c l) ENTRY_TYPE_MEK (Some (print_hex_loop k)) = Some (put c cf (e\<lparr>te_mk := k\<rparr>) l)"
    "add_entry (put c cf e l) (cel c l) ENTRY_TYPE_VID (Some (print_hex_loop k)) = Some (put c cf (e\<lparr>te_vid := k\<rparr>) l)"
    "add_entry (put c cf e l) (cel c l) ENTRY_TYPE_VUK (Some (print_hex_loop k)) = Some (put c cf (e\<lparr>te_vuk := k\<rparr>) l)"
  using assms by (simp_all add: add_entry_def put_def cel_def title_at_put set_title_put hexstring_to_hex_array_unhex wf_title_def)

lemma uk_data_put:
  assumes "\<And>n. alloc n" and "length k = 16"
  shows "uk_data alloc (put c cf e l) (pst (cel c l) (cel (c \<and> te_uk e \<noteq> []) l) w a s) digit (Some (print_hex_loop k)) =
    Some (put c cf (e\<lparr>te_uk := te_uk e @ [(digit, k)]\<rparr>) l, pst (cel c l) (cel c l) w a s)"
  using assms by (auto simp: uk_data_def put_def cel_def title_at_put set_title_put hexstring_to_hex_array_unhex
      new_digit_key_pair_entry_def)

text \<open>Behind the title.\<close>

definition in_title :: "(nat \<times> yyval) list \<Rightarrow> bool" where
  "in_title st \<longleftrightarrow> (\<exists>y x v u. st = [(15, y), (0, u)] \<or> st = [(15, y), (8, v), (0, u)] \<or>
     st = [(32, y), (14, x), (0, u)] \<or> st = [(32, y), (27, x), (8, v), (0, u)])"

lemma in_title_cases:
  assumes "in_title st"
  obtains y u where "st = [(15, y), (0, u)]" | y v u where "st = [(15, y), (8, v), (0, u)]"
    | y x u where "st = [(32, y), (14, x), (0, u)]" | y x v u where "st = [(32, y), (27, x), (8, v), (0, u)]"
  using assms by (auto simp: in_title_def)

lemma title_head:
  assumes "\<And>n. alloc n" and "length d = 20" and "\<forall>s. w = Some s \<longrightarrow> length s = 40" and "base st"
  shows "\<exists>st' lv' s'. in_title st' \<and>
    yyloop alloc (mach st 0 YYEMPTY lv (HEXSTRING (print_hex_loop d) # PUNCT_EQUALS_SIGN # DISC_TITLE t # ts) cf (pst c dk w a s)) =
    yyloop alloc (mach st' 0 YYEMPTY lv' ts
      (put (wanted w a d) cf (new_title_entry\<lparr>te_discid := d\<rparr>) (cf_list cf))
      (pst (cel (wanted w a d) (cf_list cf)) dk w a s'))"
  using assms(4) by (rule base_cases)
    (rule exI, rule exI, rule exI, rule conjI [rotated], use assms(1-3) in \<open>simp add: yyrun disc_info_hex\<close>, simp add: in_title_def)+

lemma title_fields:
  assumes "wf_title e" and "length mk = 16" and "length vid = 16" and "length vuk = 16" and "in_title st"
  shows "\<exists>v u lv' s'.
    yyloop alloc (mach st 0 YYEMPTY lv (ENTRY_ID_MEK # HEXSTRING (print_hex_loop mk) #
      ENTRY_ID_VID # HEXSTRING (print_hex_loop vid) # ENTRY_ID_VUK # HEXSTRING (print_hex_loop vuk) # NEWLINE # ts)
      (put c cf e l) (pst (cel c l) dk w a s)) =
    yyloop alloc (mach [(8, v), (0, u)] 0 YYEMPTY lv' ts
      (put c cf (e\<lparr>te_mk := mk, te_vid := vid, te_vuk := vuk\<rparr>) l) (pst (cel c l) dk w a s'))"
  using assms(5) by (rule in_title_cases) (intro exI, use assms(1-4) in \<open>simp add: yyrun add_entry_put wf_title_def\<close>)+

text \<open>In the list of unit keys, before the first one and before a further one.\<close>

definition in_uk :: "(nat \<times> yyval) list \<Rightarrow> bool" where
  "in_uk st \<longleftrightarrow> (\<exists>z v1 v2 v4 v5 r. in_title r \<and> z = (if fst (hd r) = 15 then 41 else 62) \<and>
     (st = (40, v1) # (z, v2) # r \<or> st = (99, v5) # (77, v4) # (40, v1) # (z, v2) # r))"

lemma in_uk_cases:
  assumes "in_uk st"
  obtains v1 v2 v3 u where "st = [(40, v1), (41, v2), (15, v3), (0, u)]"
  | v1 v2 v3 v u where "st = [(40, v1), (41, v2), (15, v3), (8, v), (0, u)]"
  | v1 v2 v3 x u where "st = [(40, v1), (62, v2), (32, v3), (14, x), (0, u)]"
  | v1 v2 v3 x v u where "st = [(40, v1), (62, v2), (32, v3), (27, x), (8, v), (0, u)]"
  | v1 v2 v3 v4 v5 u where "st = [(99, v5), (77, v4), (40, v1), (41, v2), (15, v3), (0, u)]"
  | v1 v2 v3 v4 v5 v u where "st = [(99, v5), (77, v4), (40, v1), (41, v2), (15, v3), (8, v), (0, u)]"
  | v1 v2 v3 v4 v5 x u where "st = [(99, v5), (77, v4), (40, v1), (62, v2), (32, v3), (14, x), (0, u)]"
  | v1 v2 v3 v4 v5 x v u where "st = [(99, v5), (77, v4), (40, v1), (62, v2), (32, v3), (27, x), (8, v), (0, u)]"
  using assms unfolding in_uk_def by (elim exE conjE disjE in_title_cases) auto

lemma title_fields_uk:
  assumes "wf_title e" and "length mk = 16" and "length vid = 16" and "length vuk = 16" and "in_title st"
  shows "\<exists>st' lv' s'. in_uk st' \<and>
    yyloop alloc (mach st 0 YYEMPTY lv (ENTRY_ID_MEK # HEXSTRING (print_hex_loop mk) #
      ENTRY_ID_VID # HEXSTRING (print_hex_loop vid) # ENTRY_ID_VUK # HEXSTRING (print_hex_loop vuk) # ENTRY_ID_UK # ts)
      (put c cf e l) (pst (cel c l) dk w a s)) =
    yyloop alloc (mach st' 0 YYEMPTY lv' ts
      (put c cf (e\<lparr>te_mk := mk, te_vid := vid, te_vuk := vuk\<rparr>) l) (pst (cel c l) dk w a s'))"
  using assms(5) by (rule in_title_cases)
    (rule exI, rule exI, rule exI, rule conjI [rotated], use assms(1-4) in \<open>simp add: yyrun add_entry_put wf_title_def\<close>,
      simp add: in_uk_def in_title_def)+

lemma uk_more:
  assumes "\<And>n. alloc n" and "length k = 16" and "in_uk st"
  shows "\<exists>st' lv' s'. in_uk st' \<and>
    yyloop alloc (mach st 0 YYEMPTY lv (DIGIT n # PUNCT_HYPHEN # HEXSTRING (print_hex_loop k) # PUNCT_VERTICAL_BAR # ts)
      (put c cf e l) (pst (cel c l) (cel (c \<and> te_uk e \<noteq> []) l) w a s)) =
    yyloop alloc (mach st' 0 YYEMPTY lv' ts
      (put c cf (e\<lparr>te_uk := te_uk e @ [(n, k)]\<rparr>) l) (pst (cel c l) (cel c l) w a s'))"
  using assms(3) by (rule in_uk_cases)
    (rule exI, rule exI, rule exI, rule conjI [rotated], use assms(1-2) in \<open>simp add: yyrun uk_data_put\<close>,
      simp add: in_uk_def in_title_def)+

lemma uk_last:
  assumes "\<And>n. alloc n" and "length k = 16" and "in_uk st"
  shows "\<exists>v u lv' s'.
    yyloop alloc (mach st 0 YYEMPTY lv (DIGIT n # PUNCT_HYPHEN # HEXSTRING (print_hex_loop k) # NEWLINE # ts)
      (put c cf e l) (pst (cel c l) (cel (c \<and> te_uk e \<noteq> []) l) w a s)) =
    yyloop alloc (mach [(8, v), (0, u)] 0 YYEMPTY lv' ts
      (put c cf (e\<lparr>te_uk := te_uk e @ [(n, k)]\<rparr>) l) (pst (cel c l) None w a s'))"
  using assms(3) by (rule in_uk_cases)
    (intro exI, use assms(1-2) in \<open>simp add: yyrun uk_data_put\<close>)+

fun uk_tokens :: "(nat \<times> byte list) list \<Rightarrow> token list" where
  "uk_tokens [] = [NEWLINE]"
| "uk_tokens [(n, k)] = [DIGIT n, PUNCT_HYPHEN, HEXSTRING (print_hex_loop k), NEWLINE]"
| "uk_tokens ((n, k) # ks) = [DIGIT n, PUNCT_HYPHEN, HEXSTRING (print_hex_loop k), PUNCT_VERTICAL_BAR] @ uk_tokens ks"

definition title_tokens :: "string \<Rightarrow> title_entry \<Rightarrow> token list" where
  "title_tokens t e = [HEXSTRING (print_hex_loop (te_discid e)), PUNCT_EQUALS_SIGN, DISC_TITLE t,
     ENTRY_ID_MEK, HEXSTRING (print_hex_loop (te_mk e)), ENTRY_ID_VID, HEXSTRING (print_hex_loop (te_vid e)),
     ENTRY_ID_VUK, HEXSTRING (print_hex_loop (te_vuk e))] @
     (if te_uk e = [] then [NEWLINE] else ENTRY_ID_UK # uk_tokens (te_uk e))"

definition title_ok :: "title_entry \<Rightarrow> bool" where
  "title_ok e \<longleftrightarrow> wf_title e \<and> (\<forall>(n, k) \<in> set (te_uk e). length k = 16)"

lemma run_uks:
  assumes "\<And>n. alloc n"
  shows "uks \<noteq> [] \<Longrightarrow> (\<forall>(n, k) \<in> set uks. length k = 16) \<Longrightarrow> in_uk st \<Longrightarrow>
    \<exists>v u lv' s'. yyloop alloc (mach st 0 YYEMPTY lv (uk_tokens uks @ ts)
      (put c cf e l) (pst (cel c l) (cel (c \<and> te_uk e \<noteq> []) l) w a s)) =
    yyloop alloc (mach [(8, v), (0, u)] 0 YYEMPTY lv' ts
      (put c cf (e\<lparr>te_uk := te_uk e @ uks\<rparr>) l) (pst (cel c l) None w a s'))"
proof (induction uks arbitrary: st lv e s rule: uk_tokens.induct)
  case 1
  then show ?case by simp
next
  case (2 n k)
  then have "length k = 16" by simp
  from uk_last [of alloc, OF assms this 2(3)] show ?case by simp
next
  case (3 n k x ks)
  let ?e = "e\<lparr>te_uk := te_uk e @ [(n, k)]\<rparr>"
  have k: "length k = 16" "\<forall>(n, k) \<in> set (x # ks). length k = 16" using 3(3) by auto
  obtain st1 lv1 s1 where 1: "in_uk st1" "yyloop alloc (mach st 0 YYEMPTY lv (uk_tokens ((n, k) # x # ks) @ ts)
      (put c cf e l) (pst (cel c l) (cel (c \<and> te_uk e \<noteq> []) l) w a s)) =
    yyloop alloc (mach st1 0 YYEMPTY lv1 (uk_tokens (x # ks) @ ts) (put c cf ?e l) (pst (cel c l) (cel c l) w a s1))"
    using uk_more [of alloc, OF assms k(1) 3(4)] by fastforce
  have c: "cel (c \<and> te_uk ?e \<noteq> []) l = cel c l" by simp
  show ?case
    unfolding 1(2) using 3(1) [OF _ k(2) 1(1), of lv1 ?e s1] unfolding c by simp
qed

lemma run_title:
  assumes "\<And>n. alloc n" and "title_ok e" and "\<forall>s. w = Some s \<longrightarrow> length s = 40" and "base st"
  shows "\<exists>v u lv' c s'. yyloop alloc (mach st 0 YYEMPTY lv (title_tokens t e @ ts) cf (pst c0 None w a s)) =
    yyloop alloc (mach [(8, v), (0, u)] 0 YYEMPTY lv' ts (put (wanted w a (te_discid e)) cf e (cf_list cf)) (pst c None w a s'))"
proof -
  have e: "length (te_discid e) = 20" "length (te_mk e) = 16" "length (te_vid e) = 16" "length (te_vuk e) = 16"
    "\<forall>(n, k) \<in> set (te_uk e). length k = 16"
    using assms(2) by (auto simp: title_ok_def wf_title_def)
  let ?c = "wanted w a (te_discid e)" and ?l = "cf_list cf"
  let ?d = "new_title_entry\<lparr>te_discid := te_discid e\<rparr>"
  let ?f = "?d\<lparr>te_mk := te_mk e, te_vid := te_vid e, te_vuk := te_vuk e\<rparr>"
  have d: "wf_title ?d" using e(1) by (simp add: wf_title_def new_title_entry_def)
  have f: "?f\<lparr>te_uk := te_uk e\<rparr> = e" "te_uk ?f = []" by (simp_all add: new_title_entry_def)
  have tokens: "title_tokens t e @ ts = HEXSTRING (print_hex_loop (te_discid e)) # PUNCT_EQUALS_SIGN # DISC_TITLE t #
      (drop 3 (title_tokens t e) @ ts)" by (simp add: title_tokens_def)
  obtain st1 lv1 s1 where 1: "in_title st1"
    "yyloop alloc (mach st 0 YYEMPTY lv (title_tokens t e @ ts) cf (pst c0 None w a s)) =
     yyloop alloc (mach st1 0 YYEMPTY lv1 (drop 3 (title_tokens t e) @ ts) (put ?c cf ?d ?l) (pst (cel ?c ?l) None w a s1))"
    unfolding tokens using title_head [of alloc, OF assms(1) e(1) assms(3,4)] by blast
  show ?thesis
  proof (cases "te_uk e = []")
    case True
    then have "?f = e" using f by simp
    then show ?thesis
      unfolding 1(2) using True title_fields [OF d e(2-4) 1(1), of alloc lv1 ts ?c cf ?l None w a s1]
      by (simp add: title_tokens_def) blast
  next
    case False
    then obtain st2 lv2 s2 where 2: "in_uk st2"
      "yyloop alloc (mach st1 0 YYEMPTY lv1 (drop 3 (title_tokens t e) @ ts) (put ?c cf ?d ?l) (pst (cel ?c ?l) None w a s1)) =
       yyloop alloc (mach st2 0 YYEMPTY lv2 (uk_tokens (te_uk e) @ ts) (put ?c cf ?f ?l) (pst (cel ?c ?l) None w a s2))"
      using title_fields_uk [OF d e(2-4) 1(1), of alloc lv1 "uk_tokens (te_uk e) @ ts" ?c cf ?l None w a s1]
      by (auto simp: title_tokens_def)
    have "cel (?c \<and> te_uk ?f \<noteq> []) ?l = None" using f(2) by (simp add: cel_def)
    then show ?thesis
      unfolding 1(2) 2(2) using run_uks [of alloc, OF assms(1) False e(5) 2(1), of lv2 ts ?c cf ?f ?l w a s2] f by simp blast
  qed
qed

lemma run_end: "base st \<Longrightarrow> yyloop alloc (mach st 0 YYEMPTY lv [] cf ps) = Some (0, cf)"
  by (erule base_cases) (simp_all add: yyrun)

section \<open>Whole files\<close>

datatype cfg_line = DkLine dk | PkLine "byte list" | CertLine cert_entry | TitleLine string title_entry
  | BadLine "token list" | BlankLine | CommentLine string

primrec line_tokens :: "cfg_line \<Rightarrow> token list" where
  "line_tokens (DkLine e) = dk_tokens e"
| "line_tokens (PkLine k) = pk_tokens k"
| "line_tokens (CertLine e) = cert_tokens e"
| "line_tokens (TitleLine t e) = title_tokens t e"
| "line_tokens (BadLine junk) = BAD_ENTRY # junk @ [NEWLINE]"
| "line_tokens BlankLine = [NEWLINE]"
| "line_tokens (CommentLine c) = [NEWLINE]"

primrec line_ok :: "cfg_line \<Rightarrow> bool" where
  "line_ok (DkLine e) = dk_ok e"
| "line_ok (PkLine k) = (length k = 16)"
| "line_ok (CertLine e) = (length (host_priv_key e) = 20 \<and> length (host_cert e) = 92)"
| "line_ok (TitleLine t e) = title_ok e"
| "line_ok (BadLine junk) = (NEWLINE \<notin> set junk)"
| "line_ok BlankLine = True"
| "line_ok (CommentLine c) = True"

text \<open>What a line adds to the configuration, when the disc \<open>w\<close>, or all discs, are wanted.\<close>

primrec apply_line :: "string ptr \<Rightarrow> bool \<Rightarrow> cfg_line \<Rightarrow> config_file \<Rightarrow> config_file" where
  "apply_line w a (DkLine e) cf = cf\<lparr>cf_dkl := cf_dkl cf @ [e]\<rparr>"
| "apply_line w a (PkLine k) cf = cf\<lparr>cf_pkl := cf_pkl cf @ [k]\<rparr>"
| "apply_line w a (CertLine e) cf = cf\<lparr>cf_host_cert_list := cf_host_cert_list cf @ [e]\<rparr>"
| "apply_line w a (TitleLine t e) cf = (if wanted w a (te_discid e) then cf\<lparr>cf_list := e # cf_list cf\<rparr> else cf)"
| "apply_line w a (BadLine junk) cf = cf"
| "apply_line w a BlankLine cf = cf"
| "apply_line w a (CommentLine c) cf = cf"

lemma line_done:
  "Y = yyloop alloc (mach [(8, v), (0, u)] 0 YYEMPTY lv' ts cf (pst c None w a s)) \<Longrightarrow>
   \<exists>st' lv' c' s'. base st' \<and> Y = yyloop alloc (mach st' 0 YYEMPTY lv' ts cf (pst c' None w a s'))"
  using base_simps(4) by blast

lemma run_line:
  assumes "\<And>n. alloc n" and "line_ok x" and "\<forall>s. w = Some s \<longrightarrow> length s = 40" and "base st"
  shows "\<exists>st' lv' c' s'. base st' \<and>
    yyloop alloc (mach st 0 YYEMPTY lv (line_tokens x @ ts) cf (pst c None w a s)) =
    yyloop alloc (mach st' 0 YYEMPTY lv' ts (apply_line w a x cf) (pst c' None w a s'))"
proof (cases x)
  case (DkLine e)
  then have "dk_ok e" using assms(2) by simp
  from run_dk [of alloc, OF assms(1) this assms(4), of lv ts cf "pst c None w a s"] obtain v u lv' where
    "yyloop alloc (mach st 0 YYEMPTY lv (dk_tokens e @ ts) cf (pst c None w a s)) =
     yyloop alloc (mach [(8, v), (0, u)] 0 YYEMPTY lv' ts (cf\<lparr>cf_dkl := cf_dkl cf @ [e]\<rparr>) (pst c None w a s))" by blast
  then show ?thesis unfolding DkLine line_tokens.simps apply_line.simps by (rule line_done)
next
  case (PkLine k)
  then have "length k = 16" using assms(2) by simp
  from run_pk [of alloc, OF assms(1) this assms(4), of lv ts cf "pst c None w a s"] obtain v u lv' where
    "yyloop alloc (mach st 0 YYEMPTY lv (pk_tokens k @ ts) cf (pst c None w a s)) =
     yyloop alloc (mach [(8, v), (0, u)] 0 YYEMPTY lv' ts (cf\<lparr>cf_pkl := cf_pkl cf @ [k]\<rparr>) (pst c None w a s))" by blast
  then show ?thesis unfolding PkLine line_tokens.simps apply_line.simps by (rule line_done)
next
  case (CertLine e)
  then have "length (host_priv_key e) = 20" "length (host_cert e) = 92" using assms(2) by simp_all
  from run_cert [of alloc, OF assms(1) this assms(4), of lv ts cf "pst c None w a s"] obtain v u lv' where
    "yyloop alloc (mach st 0 YYEMPTY lv (cert_tokens e @ ts) cf (pst c None w a s)) =
     yyloop alloc (mach [(8, v), (0, u)] 0 YYEMPTY lv' ts (cf\<lparr>cf_host_cert_list := cf_host_cert_list cf @ [e]\<rparr>)
       (pst c None w a s))" by blast
  then show ?thesis unfolding CertLine line_tokens.simps apply_line.simps by (rule line_done)
next
  case (TitleLine t e)
  then have "title_ok e" using assms(2) by simp
  from run_title [of alloc, OF assms(1) this assms(3,4), of lv t ts cf c a s] obtain v u lv' c' s' where
    "yyloop alloc (mach st 0 YYEMPTY lv (title_tokens t e @ ts) cf (pst c None w a s)) =
     yyloop alloc (mach [(8, v), (0, u)] 0 YYEMPTY lv' ts (put (wanted w a (te_discid e)) cf e (cf_list cf)) (pst c' None w a s'))"
    by blast
  then show ?thesis unfolding TitleLine line_tokens.simps apply_line.simps put_def by (rule line_done)
next
  case (BadLine junk)
  then have "NEWLINE \<notin> set junk" using assms(2) by simp
  from run_bad [of junk, OF this assms(4), of alloc lv ts cf "pst c None w a s"] obtain v u lv' where
    "yyloop alloc (mach st 0 YYEMPTY lv (BAD_ENTRY # junk @ NEWLINE # ts) cf (pst c None w a s)) =
     yyloop alloc (mach [(8, v), (0, u)] 0 YYEMPTY lv' ts cf (pst c None w a s))" by blast
  then show ?thesis unfolding BadLine line_tokens.simps apply_line.simps append_Cons append_assoc append_Nil by (rule line_done)
next
  case BlankLine
  from run_newline [OF assms(4), of alloc lv ts cf "pst c None w a s"] show ?thesis unfolding BlankLine by simp blast
next
  case (CommentLine c')
  from run_newline [OF assms(4), of alloc lv ts cf "pst c None w a s"] show ?thesis unfolding CommentLine by simp blast
qed

lemma run_lines:
  assumes "\<And>n. alloc n" and "\<forall>s. w = Some s \<longrightarrow> length s = 40"
  shows "list_all line_ok xs \<Longrightarrow> base st \<Longrightarrow>
    yyloop alloc (mach st 0 YYEMPTY lv (concat (map line_tokens xs)) cf (pst c None w a s)) =
    Some (0, fold (apply_line w a) xs cf)"
proof (induction xs arbitrary: st lv cf c s)
  case Nil
  then show ?case by (simp add: run_end)
next
  case (Cons x xs)
  from Cons.prems have x: "line_ok x" "list_all line_ok xs" by simp_all
  from run_line [of alloc, OF assms(1) x(1) assms(2) Cons.prems(2), of lv "concat (map line_tokens xs)" cf c a s]
  obtain st' lv' c' s' where 1: "base st'"
    "yyloop alloc (mach st 0 YYEMPTY lv (line_tokens x @ concat (map line_tokens xs)) cf (pst c None w a s)) =
     yyloop alloc (mach st' 0 YYEMPTY lv' (concat (map line_tokens xs)) (apply_line w a x cf) (pst c' None w a s'))" by blast
  show ?case using 1(2) Cons.IH [OF x(2) 1(1), of lv' "apply_line w a x cf" c' s'] by simp
qed

lemma yyparse_lines:
  assumes "\<And>n. alloc n" and "\<forall>s. w = Some s \<longrightarrow> length s = 40" and "list_all line_ok xs"
  shows "yyparse alloc (concat (map line_tokens xs)) cf (pst c None w a s) = Some (0, fold (apply_line w a) xs cf)"
  unfolding yyparse_def by (rule run_lines [of alloc, OF assms(1,2) assms(3)]) simp

section \<open>Properties\<close>


definition example_ps :: parser_state where
  "example_ps = \<lparr>ps_celist = None, ps_dkplist = None, ps_want_disc_id = None, ps_all_discs = True, ps_hexkey_size = 0,
     ps_hexkey = []\<rparr>"

definition no_config :: config_file where
  "no_config = \<lparr>cf_dkl = [], cf_pkl = [], cf_host_cert_list = [], cf_list = []\<rparr>"


text \<open>
  The parser reads back what the lines of a configuration say: the entries for device keys,
  processing keys and host certificates come behind those that are there, the wanted discs in front
  with all their keys, and lines that are empty or no entries change nothing.
\<close>

theorem parser_reads_lines:
  assumes "\<And>n. alloc n" and "\<forall>s. w = Some s \<longrightarrow> length s = 40" and "list_all line_ok xs"
  shows "yyparse alloc (concat (map line_tokens xs)) cf
     \<lparr>ps_celist = None, ps_dkplist = None, ps_want_disc_id = w, ps_all_discs = a, ps_hexkey_size = 0, ps_hexkey = []\<rparr> =
     Some (0, fold (apply_line w a) xs cf)"
  using yyparse_lines [of alloc, OF assms, of cf None a "[]"] by (simp add: pst_def)

definition example_lines :: "cfg_line list" where
  "example_lines = [BlankLine, DkLine \<lparr>dk_key = zeros 16, dk_node = 0x800, dk_uv = 0x400, dk_u_mask_shift = 23\<rparr>,
     BadLine [DIGIT 7], PkLine (replicate 16 1),
     TitleLine ''A disc'' \<lparr>te_discid = replicate 20 2, te_mk = zeros 16, te_vid = replicate 16 3, te_vuk = replicate 16 4,
       te_uk = [(1, replicate 16 5), (2, replicate 16 6)]\<rparr>]"

theorem parser_reads_lines_witness:
  "yyparse (\<lambda>_. True) (concat (map line_tokens example_lines)) no_config
     \<lparr>ps_celist = None, ps_dkplist = None, ps_want_disc_id = Some (print_hex_loop (replicate 20 2)), ps_all_discs = False,
      ps_hexkey_size = 0, ps_hexkey = []\<rparr> =
   Some (0, fold (apply_line (Some (print_hex_loop (replicate 20 2))) False) example_lines no_config)"
  by (rule parser_reads_lines) (simp_all add: example_lines_def dk_ok_def title_ok_def wf_title_def del: print_hex_loop.simps)

section \<open>Defects\<close>

text \<open>
  When the line of a disc breaks off inside its unit keys, the parser still points to that disc's
  last unit key, and the keys of the next disc go there.
\<close>

definition broken_disc :: "byte list \<Rightarrow> byte list \<Rightarrow> token list" where
  "broken_disc d k = [HEXSTRING (print_hex_loop d), PUNCT_EQUALS_SIGN, DISC_TITLE ''A'', ENTRY_ID_UK, DIGIT 1, PUNCT_HYPHEN,
     HEXSTRING (print_hex_loop k), PUNCT_VERTICAL_BAR, BAD_ENTRY, NEWLINE]"

definition short_disc :: "byte list \<Rightarrow> byte list \<Rightarrow> token list" where
  "short_disc d k = [HEXSTRING (print_hex_loop d), PUNCT_EQUALS_SIGN, DISC_TITLE ''B'', ENTRY_ID_UK, DIGIT 1, PUNCT_HYPHEN,
     HEXSTRING (print_hex_loop k), NEWLINE]"

lemma uk_data_stale:
  assumes "\<And>n. alloc n" and "length k = 16"
  shows "uk_data alloc (cf\<lparr>cf_list := [e', e]\<rparr>) (pst c (Some 0) w a s) digit (Some (print_hex_loop k)) =
    (case c of None \<Rightarrow> Some (cf\<lparr>cf_list := [e', e]\<rparr>, pst c (Some 0) w a s)
     | Some _ \<Rightarrow> Some (cf\<lparr>cf_list := [e', e\<lparr>te_uk := te_uk e @ [(digit, k)]\<rparr>]\<rparr>, pst c (Some 0) w a s))"
  using assms by (auto simp: uk_data_def title_at_def set_title_def new_digit_key_pair_entry_def
      hexstring_to_hex_array_unhex split: option.split)

lemma stale_unit_key:
  assumes "\<And>n. alloc n" and "length d = 20" and "length d' = 20" and "length k = 16" and "length k' = 16"
  shows "yyparse alloc (broken_disc d k @ short_disc d' k') no_config (pst None None None True []) =
    Some (0, no_config\<lparr>cf_list := [new_title_entry\<lparr>te_discid := d'\<rparr>, new_title_entry\<lparr>te_discid := d, te_uk := [(1, k), (1, k')]\<rparr>]\<rparr>)"
proof -
  have new: "te_uk new_title_entry = []" "cf_list no_config = []" by (simp_all add: new_title_entry_def no_config_def)
  have first: "uk_data alloc (cf\<lparr>cf_list := [e]\<rparr>) (pst (Some 0) None w a s) n (Some (print_hex_loop k)) =
    Some (cf\<lparr>cf_list := [e\<lparr>te_uk := [(n, k)]\<rparr>]\<rparr>, pst (Some 0) (Some 0) w a s)"
    if "te_uk e = []" for cf e w a s n
    using that assms uk_data_put [of alloc, OF assms(1,4), where c = True and l = "[]" and e = e and cf = cf]
    by (simp add: put_def cel_def)
  show ?thesis
    using assms by (simp add: yyparse_def broken_disc_def short_disc_def yyrun yyerror_run disc_info_hex put_def cel_def
      wanted_def first uk_data_stale new)
qed

text \<open>Two parts of a key with no memory for the first: \<open>strlen\<close> of a null pointer.\<close>

lemma split_key_null: "yyparse (\<lambda>_. False) [ENTRY_ID_PK, HEXSTRING s, HEXSTRING t, NEWLINE] cf ps = None"
  by (simp add: yyparse_def yyrun)

end
