(* ===== verification/KeydbLexer.thy ===== *)
theory KeydbLexer
  imports KeydbRun
begin

text \<open>
  The scanner of \<^verbatim>\<open>KEYDB.cfg\<close>: the tables and the automaton of
  \<^verbatim>\<open>SMP/src/file/keydbcfg-lexer.c\<close>, which flex generated from
  \<^verbatim>\<open>src/file/keydbcfg-lexer.l\<close>, with its treatment of the two NUL characters that end the
  buffer, of NUL characters in the file and of tokens it has to back up from.

  The buffer holds what is left of the file: filling it in portions of some thousand characters, and
  moving the token under way to its front, is not modelled.
\<close>

section \<open>Tables\<close>

definition YY_END_OF_BUFFER :: nat where "YY_END_OF_BUFFER = 33"
definition YY_JAMBASE :: nat where "YY_JAMBASE = 296"
definition YY_JAMSTATE :: nat where "YY_JAMSTATE = 205"

definition yy_accept :: "nat list" where
  "yy_accept =
    [0, 0, 0, 2, 2, 33, 31, 1, 29, 29, 27, 5, 5, 30, 25, 31, 31, 31, 31, 26, 2, 1, 3, 2, 2,
     2, 2, 2, 2, 2, 2, 2, 5, 0, 30, 0, 0, 0, 28, 28, 0, 0, 0, 0, 0, 0, 0, 0, 0, 0, 2, 2, 2,
     2, 2, 2, 2, 4, 0, 0, 0, 28, 0, 20, 0, 0, 17, 0, 0, 19, 0, 18, 0, 0, 22, 0, 23, 0, 24,
     0, 21, 2, 2, 2, 2, 0, 0, 0, 0, 14, 0, 16, 0, 15, 2, 2, 2, 0, 0, 0, 2, 2, 2, 0, 0, 0,
     0, 0, 8, 0, 2, 2, 2, 2, 2, 2, 2, 0, 0, 0, 0, 0, 0, 2, 2, 2, 2, 2, 2, 0, 0, 0, 0, 0, 0,
     0, 2, 2, 2, 2, 2, 2, 2, 0, 0, 0, 0, 0, 0, 0, 2, 2, 2, 2, 2, 2, 2, 6, 0, 11, 0, 0, 0,
     0, 2, 2, 2, 2, 2, 2, 2, 7, 0, 12, 0, 0, 2, 2, 2, 2, 2, 0, 0, 0, 2, 2, 2, 0, 0, 0, 2,
     2, 2, 0, 10, 0, 2, 2, 2, 13, 0, 2, 2, 9, 2, 0]"

definition yy_ec :: "nat list" where
  "yy_ec =
    [0, 1, 1, 1, 1, 1, 1, 1, 1, 2, 3, 1, 1, 4, 1, 1, 1, 1, 1, 1, 1, 1, 1, 1, 1, 1, 1, 1, 1,
     1, 1, 1, 2, 1, 1, 1, 1, 1, 1, 1, 1, 1, 1, 1, 1, 5, 1, 1, 6, 7, 7, 7, 7, 7, 7, 7, 7, 7,
     1, 8, 1, 9, 1, 1, 1, 10, 11, 12, 13, 14, 15, 1, 16, 17, 1, 18, 1, 19, 20, 21, 22, 1,
     23, 24, 25, 26, 27, 1, 28, 29, 1, 1, 30, 1, 1, 31, 1, 10, 11, 12, 13, 14, 15, 1, 16,
     17, 1, 18, 1, 19, 20, 21, 22, 1, 23, 24, 25, 26, 27, 1, 28, 29, 1, 1, 32, 1, 1, 1, 1,
     1, 1, 1, 1, 1, 1, 1, 1, 1, 1, 1, 1, 1, 1, 1, 1, 1, 1, 1, 1, 1, 1, 1, 1, 1, 1, 1, 1, 1,
     1, 1, 1, 1, 1, 1, 1, 1, 1, 1, 1, 1, 1, 1, 1, 1, 1, 1, 1, 1, 1, 1, 1, 1, 1, 1, 1, 1, 1,
     1, 1, 1, 1, 1, 1, 1, 1, 1, 1, 1, 1, 1, 1, 1, 1, 1, 1, 1, 1, 1, 1, 1, 1, 1, 1, 1, 1, 1,
     1, 1, 1, 1, 1, 1, 1, 1, 1, 1, 1, 1, 1, 1, 1, 1, 1, 1, 1, 1, 1, 1, 1, 1, 1, 1, 1, 1, 1,
     1, 1, 1, 1, 1, 1, 1, 1, 1, 1, 1]"

definition yy_meta :: "nat list" where
  "yy_meta =
    [0, 1, 1, 2, 1, 1, 3, 3, 1, 1, 3, 3, 3, 3, 3, 3, 1, 1, 1, 1, 1, 1, 1, 1, 1, 1, 1, 1, 1,
     1, 4, 1, 4]"

definition yy_base :: "nat list" where
  "yy_base =
    [0, 0, 0, 32, 0, 295, 296, 296, 296, 296, 296, 59, 61, 0, 296, 280, 272, 278, 66, 86,
     0, 0, 296, 0, 0, 65, 67, 45, 0, 277, 269, 275, 72, 0, 0, 261, 263, 257, 281, 281, 0,
     74, 78, 271, 82, 83, 89, 84, 87, 88, 0, 75, 116, 62, 255, 257, 251, 0, 262, 253, 246,
     296, 93, 296, 102, 107, 296, 115, 116, 296, 122, 296, 130, 131, 296, 133, 296, 134,
     296, 135, 296, 0, 259, 250, 243, 261, 241, 245, 136, 296, 138, 296, 139, 296, 258,
     238, 242, 253, 131, 115, 252, 138, 128, 234, 250, 249, 241, 238, 296, 241, 228, 244,
     243, 235, 232, 0, 235, 80, 230, 223, 231, 233, 239, 154, 225, 218, 226, 228, 234, 229,
     221, 216, 209, 227, 211, 213, 222, 214, 209, 202, 220, 204, 206, 200, 215, 225, 204,
     211, 193, 205, 193, 208, 218, 197, 204, 186, 198, 296, 201, 212, 192, 210, 193, 179,
     0, 195, 206, 186, 204, 187, 173, 296, 186, 200, 187, 176, 0, 182, 196, 183, 172, 175,
     165, 177, 172, 162, 174, 164, 186, 170, 161, 181, 163, 174, 171, 154, 162, 159, 142,
     150, 120, 142, 76, 296, 0, 296, 174, 178, 181, 80]"

definition yy_def :: "nat list" where
  "yy_def =
    [0, 205, 1, 205, 3, 205, 205, 205, 205, 205, 205, 205, 205, 206, 205, 205, 205, 205,
     205, 205, 207, 207, 205, 207, 207, 207, 207, 208, 207, 207, 207, 207, 205, 209, 206,
     205, 205, 205, 205, 205, 19, 205, 205, 205, 205, 205, 205, 205, 205, 205, 207, 207,
     207, 208, 207, 207, 207, 209, 205, 205, 205, 205, 205, 205, 205, 205, 205, 205, 205,
     205, 205, 205, 205, 205, 205, 205, 205, 205, 205, 205, 205, 52, 207, 207, 207, 205,
     205, 205, 205, 205, 205, 205, 205, 205, 207, 207, 207, 205, 205, 205, 207, 207, 207,
     205, 205, 205, 205, 205, 205, 205, 207, 207, 207, 207, 207, 207, 207, 205, 205, 205,
     205, 205, 205, 207, 207, 207, 207, 207, 207, 205, 205, 205, 205, 205, 205, 205, 207,
     207, 207, 207, 207, 207, 207, 205, 205, 205, 205, 205, 205, 205, 207, 207, 207, 207,
     207, 207, 207, 205, 205, 205, 205, 205, 205, 205, 207, 207, 207, 207, 207, 207, 207,
     205, 205, 205, 205, 205, 207, 207, 207, 207, 207, 205, 205, 205, 207, 207, 207, 205,
     205, 205, 207, 207, 207, 205, 205, 205, 207, 207, 207, 205, 205, 207, 207, 205, 207,
     0, 205, 205, 205, 205]"

definition yy_nxt :: "nat list" where
  "yy_nxt =
    [0, 6, 7, 8, 9, 10, 11, 12, 13, 14, 6, 6, 6, 15, 6, 6, 16, 6, 17, 6, 6, 6, 6, 6, 6, 6,
     6, 6, 6, 6, 18, 6, 19, 20, 21, 22, 23, 24, 25, 26, 27, 28, 20, 20, 20, 29, 20, 20, 30,
     20, 31, 20, 20, 20, 20, 20, 20, 20, 20, 20, 20, 20, 18, 20, 19, 32, 32, 32, 32, 38,
     39, 51, 51, 51, 51, 34, 62, 34, 32, 32, 64, 51, 51, 57, 68, 70, 75, 33, 40, 77, 79,
     72, 34, 52, 34, 62, 65, 41, 129, 42, 130, 204, 43, 44, 64, 45, 63, 73, 46, 88, 66, 47,
     48, 49, 69, 71, 76, 90, 68, 78, 80, 74, 81, 81, 70, 63, 81, 81, 81, 81, 81, 81, 72,
     92, 66, 75, 77, 79, 88, 89, 90, 92, 108, 104, 201, 203, 109, 91, 69, 105, 111, 106,
     199, 107, 71, 115, 112, 202, 113, 116, 114, 197, 74, 93, 201, 76, 78, 80, 89, 200, 91,
     93, 136, 194, 137, 34, 199, 34, 34, 50, 198, 50, 53, 197, 53, 53, 196, 195, 194, 193,
     192, 191, 190, 189, 188, 187, 186, 185, 178, 184, 183, 182, 173, 181, 180, 179, 178,
     177, 166, 176, 175, 174, 173, 172, 159, 171, 170, 169, 168, 167, 166, 165, 164, 163,
     162, 161, 160, 159, 158, 157, 156, 155, 154, 153, 152, 151, 150, 149, 148, 147, 146,
     145, 144, 143, 142, 141, 140, 139, 138, 135, 134, 133, 132, 131, 128, 127, 126, 125,
     124, 123, 122, 121, 120, 119, 118, 117, 110, 103, 102, 101, 100, 99, 98, 97, 96, 95,
     94, 87, 86, 85, 84, 83, 82, 67, 61, 61, 60, 59, 58, 56, 55, 54, 37, 36, 35, 205, 5,
     205, 205, 205, 205, 205, 205, 205, 205, 205, 205, 205, 205, 205, 205, 205, 205, 205,
     205, 205, 205, 205, 205, 205, 205, 205, 205, 205, 205, 205, 205, 205, 205]"

definition yy_chk :: "nat list" where
  "yy_chk =
    [0, 1, 1, 1, 1, 1, 1, 1, 1, 1, 1, 1, 1, 1, 1, 1, 1, 1, 1, 1, 1, 1, 1, 1, 1, 1, 1, 1, 1,
     1, 1, 1, 1, 3, 3, 3, 3, 3, 3, 3, 3, 3, 3, 3, 3, 3, 3, 3, 3, 3, 3, 3, 3, 3, 3, 3, 3, 3,
     3, 3, 3, 3, 3, 3, 3, 11, 11, 12, 12, 18, 18, 25, 25, 26, 26, 27, 41, 27, 32, 32, 42,
     51, 51, 209, 44, 45, 47, 11, 19, 48, 49, 46, 53, 25, 53, 62, 42, 19, 117, 19, 117,
     202, 19, 19, 64, 19, 41, 46, 19, 65, 42, 19, 19, 19, 44, 45, 47, 67, 68, 48, 49, 46,
     52, 52, 70, 62, 52, 52, 52, 52, 52, 52, 72, 73, 64, 75, 77, 79, 88, 65, 90, 92, 99,
     98, 201, 200, 99, 67, 68, 98, 101, 98, 199, 98, 70, 102, 101, 198, 101, 102, 101, 197,
     72, 73, 196, 75, 77, 79, 88, 195, 90, 92, 123, 194, 123, 206, 193, 206, 206, 207, 192,
     207, 208, 191, 208, 208, 190, 189, 188, 187, 186, 185, 184, 183, 182, 181, 180, 179,
     178, 177, 175, 174, 173, 172, 170, 169, 168, 167, 166, 165, 163, 162, 161, 160, 159,
     158, 156, 155, 154, 153, 152, 151, 150, 149, 148, 147, 146, 145, 144, 143, 142, 141,
     140, 139, 138, 137, 136, 135, 134, 133, 132, 131, 130, 129, 128, 127, 126, 125, 124,
     122, 121, 120, 119, 118, 116, 114, 113, 112, 111, 110, 109, 107, 106, 105, 104, 103,
     100, 97, 96, 95, 94, 87, 86, 85, 84, 83, 82, 60, 59, 58, 56, 55, 54, 43, 39, 38, 37,
     36, 35, 31, 30, 29, 17, 16, 15, 5, 205, 205, 205, 205, 205, 205, 205, 205, 205, 205,
     205, 205, 205, 205, 205, 205, 205, 205, 205, 205, 205, 205, 205, 205, 205, 205, 205,
     205, 205, 205, 205, 205, 205]"

definition yy_at :: "nat list \<Rightarrow> nat \<Rightarrow> nat ub" where
  "yy_at xs i = (if i < length xs then Some (xs ! i) else None)"

section \<open>The automaton\<close>

text \<open>One transition: the states of the compressed table are searched along their defaults.\<close>

partial_function (option) yy_find :: "nat \<Rightarrow> nat \<Rightarrow> nat ub" where
  "yy_find yy_current_state yy_c = do {
     b \<leftarrow> yy_at yy_base yy_current_state;
     k \<leftarrow> yy_at yy_chk (b + yy_c);
     if k = yy_current_state then yy_at yy_nxt (b + yy_c)
     else do {
       d \<leftarrow> yy_at yy_def yy_current_state;
       c \<leftarrow> (if 206 \<le> d then yy_at yy_meta yy_c else Some yy_c);
       yy_find d c
     }
   }"

text \<open>The last accepting state and the position there; \<open>None\<close> at the beginning of a token.\<close>

type_synonym yy_last = "(nat \<times> nat) ptr"

definition yy_note :: "nat \<Rightarrow> nat \<Rightarrow> yy_last \<Rightarrow> yy_last ub" where
  "yy_note yy_current_state yy_cp la = do {
     a \<leftarrow> yy_at yy_accept yy_current_state;
     Some (if a \<noteq> 0 then Some (yy_current_state, yy_cp) else la)
   }"

text \<open>The buffer from the beginning of the token on; two NUL characters follow the text.\<close>

definition yy_ch :: "string \<Rightarrow> nat \<Rightarrow> char ub" where
  "yy_ch text i = (if i < length text then Some (text ! i) else if i < length text + 2 then Some (CHR 0x00) else None)"

partial_function (option) yy_match :: "string \<Rightarrow> nat \<Rightarrow> nat \<Rightarrow> yy_last \<Rightarrow> (nat \<times> nat \<times> yy_last) ub" where
  "yy_match text yy_current_state yy_cp la = do {
     ch \<leftarrow> yy_ch text yy_cp;
     c \<leftarrow> yy_at yy_ec (of_char ch);
     la \<leftarrow> yy_note yy_current_state yy_cp la;
     s \<leftarrow> yy_find yy_current_state c;
     b \<leftarrow> yy_at yy_base s;
     if b \<noteq> YY_JAMBASE then yy_match text s (yy_cp + 1) la else Some (s, yy_cp + 1, la)
   }"

text \<open>\<open>yy_find_action\<close>: the rule and the end of its match.\<close>

definition yy_find_action :: "nat \<Rightarrow> nat \<Rightarrow> yy_last \<Rightarrow> (nat \<times> nat) ub" where
  "yy_find_action yy_current_state yy_cp la = do {
     a \<leftarrow> yy_at yy_accept yy_current_state;
     if a = 0 then do {
       (s, cp) \<leftarrow> la;
       a \<leftarrow> yy_at yy_accept s;
       Some (a, cp)
     } else Some (a, yy_cp)
   }"

text \<open>Here a NUL character is a character of the text.\<close>

definition yy_class :: "char \<Rightarrow> nat ub" where
  "yy_class ch = (if ch = CHR 0x00 then Some 1 else yy_at yy_ec (of_char ch))"

fun yy_get_previous_state :: "nat \<Rightarrow> nat \<Rightarrow> string \<Rightarrow> yy_last \<Rightarrow> (nat \<times> yy_last) ub" where
  "yy_get_previous_state s cp [] la = Some (s, la)"
| "yy_get_previous_state s cp (ch # text) la = do {
     c \<leftarrow> yy_class ch;
     la \<leftarrow> yy_note s cp la;
     s \<leftarrow> yy_find s c;
     yy_get_previous_state s (cp + 1) text la
   }"

definition yy_try_NUL_trans :: "nat \<Rightarrow> nat \<Rightarrow> yy_last \<Rightarrow> (nat ptr \<times> yy_last) ub" where
  "yy_try_NUL_trans s cp la = do {
     la \<leftarrow> yy_note s cp la;
     s \<leftarrow> yy_find s 1;
     Some (if s = YY_JAMSTATE then None else Some s, la)
   }"

text \<open>
  One round of the main loop up to an action: the rule and the length of its match, or the end of
  the file.  \<open>m\<close> tells whether to go on at \<open>yy_match\<close> or at \<open>yy_find_action\<close>.  At the end of the
  buffer nothing more is read.
\<close>

partial_function (option) yy_scan :: "nat \<Rightarrow> string \<Rightarrow> bool \<Rightarrow> nat \<Rightarrow> nat \<Rightarrow> yy_last \<Rightarrow> (nat \<times> nat) ptr option" where
  "yy_scan yy_start text m s cp la = do {
     (s, cp, la) \<leftarrow> (if m then yy_match text s cp la else Some (s, cp, la));
     (yy_act, cp) \<leftarrow> yy_find_action s cp la;
     if yy_act \<noteq> YY_END_OF_BUFFER then Some (Some (yy_act, cp))
     else
       let yy_amount_of_matched_text = cp - 1 in
       if cp \<le> length text then do {
         (s, la) \<leftarrow> yy_get_previous_state yy_start 0 (take yy_amount_of_matched_text text) la;
         (r, la) \<leftarrow> yy_try_NUL_trans s yy_amount_of_matched_text la;
         case r of Some s' \<Rightarrow> yy_scan yy_start text True s' (yy_amount_of_matched_text + 1) la
         | None \<Rightarrow> yy_scan yy_start text False s yy_amount_of_matched_text la
       }
       else if yy_amount_of_matched_text = 0 then Some None
       else do {
         (s, la) \<leftarrow> yy_get_previous_state yy_start 0 text la;
         yy_scan yy_start text False s (length text) la
       }
   }"

section \<open>Actions\<close>

text \<open>\<open>BEGIN INITIAL\<close> and \<open>BEGIN TITLE_STATE\<close>.\<close>

definition INITIAL :: nat where "INITIAL = 1"
definition TITLE_STATE :: nat where "TITLE_STATE = 3"

text \<open>
  \<open>(unsigned int) atoi (s)\<close> of a string of digits, as glibc computes it: \<open>strtol\<close> saturates, and the
  result is cut to 32 bits.
\<close>

definition atoi_u32 :: "string \<Rightarrow> nat" where
  "atoi_u32 s = min (foldl (\<lambda>n c. 10 * n + (of_char c - 48)) 0 s) (2 ^ 63 - 1) mod 2 ^ 32"

text \<open>The token that is returned, if any, and the start state; \<open>None\<close> where the scanner exits.\<close>

definition yy_action :: "nat \<Rightarrow> string \<Rightarrow> nat \<Rightarrow> (token option \<times> nat) option" where
  "yy_action yy_act yytext yy_start =
     (if yy_act = 1 \<or> yy_act = 28 \<or> yy_act = 30 \<or> yy_act = 32 then Some (None, yy_start)
      else if yy_act = 2 then Some (Some (DISC_TITLE (c_string yytext)), INITIAL)
      else if yy_act = 3 then Some (Some BAD_ENTRY, INITIAL)
      else if yy_act = 4 then Some (Some (HEXSTRING (c_string (drop 2 yytext))), yy_start)
      else if yy_act = 5 then Some (Some (DIGIT (atoi_u32 yytext)), yy_start)
      else if yy_act = 25 then Some (Some PUNCT_EQUALS_SIGN, TITLE_STATE)
      else if 6 \<le> yy_act \<and> yy_act \<le> 31 then
        Some (Some ([KEYWORD_DEVICE_KEY, KEYWORD_DEVICE_NODE, KEYWORD_KEY_UV, KEYWORD_KEY_U_MASK_SHIFT,
          KEYWORD_HOST_PRIV_KEY, KEYWORD_HOST_CERT, KEYWORD_HOST_NONCE, KEYWORD_HOST_KEY_POINT, ENTRY_ID_DK, ENTRY_ID_PK,
          ENTRY_ID_HC, ENTRY_ID_DATE, ENTRY_ID_MEK, ENTRY_ID_VID, ENTRY_ID_BN, ENTRY_ID_VUK, ENTRY_ID_PAK, ENTRY_ID_TK,
          ENTRY_ID_UK, PUNCT_EQUALS_SIGN, PUNCT_VERTICAL_BAR, PUNCT_HYPHEN, BAD_ENTRY, NEWLINE, BAD_ENTRY,
          BAD_ENTRY] ! (yy_act - 6)), yy_start)
      else None)"

text \<open>The next token, the start state and the rest of the text.\<close>

partial_function (option) yylex :: "nat \<Rightarrow> string \<Rightarrow> (token option \<times> nat \<times> string) option" where
  "yylex yy_start text = do {
     r \<leftarrow> yy_scan yy_start text True yy_start 0 None;
     case r of None \<Rightarrow> Some (None, yy_start, text)
     | Some (yy_act, yyleng) \<Rightarrow> do {
         (t, yy_start) \<leftarrow> yy_action yy_act (take yyleng text) yy_start;
         case t of None \<Rightarrow> yylex yy_start (drop yyleng text)
         | Some t \<Rightarrow> Some (Some t, yy_start, drop yyleng text)
       }
   }"

text \<open>All tokens up to the end of the file.\<close>

partial_function (option) yy_tokens :: "nat \<Rightarrow> string \<Rightarrow> token list option" where
  "yy_tokens yy_start text = do {
     (t, yy_start, text) \<leftarrow> yylex yy_start text;
     case t of None \<Rightarrow> Some []
     | Some t \<Rightarrow> do { ts \<leftarrow> yy_tokens yy_start text; Some (t # ts) }
   }"

end
