(* ===== verification/KeydbScan.thy ===== *)
theory KeydbScan
  imports KeydbLexer
begin

text \<open>
  The scanner of \<^verbatim>\<open>KEYDB.cfg\<close> ends on every text without leaving its tables or its buffer and
  finds the longest match: what its loop over the end-of-buffer characters computes is the function
  \<open>munch\<close>.
\<close>

section \<open>Tables\<close>

lemma length_tables [simp]: "length yy_accept = 206" "length yy_ec = 256" "length yy_meta = 33" "length yy_base = 210"
  "length yy_def = 210" "length yy_nxt = 329" "length yy_chk = 329"
  by (simp_all add: yy_accept_def yy_ec_def yy_meta_def yy_base_def yy_def_def yy_nxt_def yy_chk_def)

lemmas yy_accept_at = trans [OF map_nth yy_accept_def, simplified]
lemmas yy_ec_at = trans [OF map_nth yy_ec_def, simplified]
lemmas yy_meta_at = trans [OF map_nth yy_meta_def, simplified]
lemmas yy_base_at = trans [OF map_nth yy_base_def, simplified]
lemmas yy_def_at = trans [OF map_nth yy_def_def, simplified]
lemmas yy_nxt_at = trans [OF map_nth yy_nxt_def, simplified]
lemmas yy_chk_at = trans [OF map_nth yy_chk_def, simplified]

lemmas yy_tables_at = yy_accept_at yy_ec_at yy_meta_at yy_base_at yy_def_at yy_nxt_at yy_chk_at

lemma yy_at_Some [simp]: "i < length xs \<Longrightarrow> yy_at xs i = Some (xs ! i)"
  by (simp add: yy_at_def)

text \<open>What the states of the table have in common.\<close>

definition yy_state_ok :: "nat \<Rightarrow> bool" where
  "yy_state_ok s \<longleftrightarrow> yy_base ! s \<le> 296 \<and> yy_def ! s < 210 \<and>
     (s \<noteq> 205 \<longrightarrow> yy_def ! s \<noteq> 0 \<and> yy_def ! s \<noteq> 5 \<and>
        (yy_def ! s = 205 \<or> yy_def ! (yy_def ! s) = 205 \<or> yy_def ! (yy_def ! (yy_def ! s)) = 205)) \<and>
     (s \<noteq> 5 \<and> s \<noteq> 205 \<longrightarrow> yy_chk ! (yy_base ! s) \<noteq> s) \<and>
     (yy_base ! s = 296 \<longrightarrow> s = 205 \<or> yy_def ! s = 205 \<and> (s < 205 \<longrightarrow> yy_accept ! s \<noteq> 0)) \<and>
     (s < 206 \<and> s \<noteq> 5 \<longrightarrow> yy_accept ! s < 33)"

lemma yy_states_ok: "list_all yy_state_ok [Suc 0..<210]"
  by (simp add: yy_state_ok_def yy_tables_at)

lemma yy_nxt_ok: "list_all (\<lambda>i. yy_nxt ! i < 206 \<and> (i \<noteq> 0 \<longrightarrow> yy_nxt ! i \<noteq> 0) \<and> (i \<noteq> 296 \<longrightarrow> yy_nxt ! i \<noteq> 5)) [0..<329]"
  by (simp add: yy_tables_at)

lemma yy_chk_ok: "list_all (\<lambda>i. yy_chk ! i = 205 \<and> (i \<noteq> 296 \<longrightarrow> yy_nxt ! i = 205)) [296..<329]"
  by (simp add: yy_tables_at)

lemma yy_meta_ok: "list_all (\<lambda>c. yy_meta ! c < 33 \<and> (yy_meta ! c = 0 \<longleftrightarrow> c = 0)) [0..<33]"
  by (simp add: yy_tables_at)

lemma yy_ec_ok: "list_all (\<lambda>c. yy_ec ! c < 33 \<and> (yy_ec ! c = 0 \<longleftrightarrow> c = 0)) [0..<256]"
  by (simp add: yy_tables_at)

section \<open>Transitions\<close>

lemma yy_stateD:
  assumes "0 < s" and "s < 210"
  shows "yy_state_ok s"
  using yy_states_ok assms unfolding list_all_iff set_upt by auto

lemma yy_nxtD:
  assumes "i < 329"
  shows "yy_nxt ! i < 206" "i \<noteq> 0 \<Longrightarrow> yy_nxt ! i \<noteq> 0" "i \<noteq> 296 \<Longrightarrow> yy_nxt ! i \<noteq> 5"
  using yy_nxt_ok assms unfolding list_all_iff set_upt by auto

lemma yy_chkD:
  assumes "296 \<le> i" and "i < 329"
  shows "yy_chk ! i = 205" "i \<noteq> 296 \<Longrightarrow> yy_nxt ! i = 205"
  using yy_chk_ok assms unfolding list_all_iff set_upt by auto

lemma yy_metaD:
  assumes "c < 33"
  shows "yy_meta ! c < 33" "yy_meta ! c = 0 \<longleftrightarrow> c = 0"
  using yy_meta_ok assms unfolding list_all_iff set_upt by auto

lemma yy_find_rec:
  assumes "0 < s" and "s < 210" and "c < 33"
  shows "yy_find s c = (if yy_chk ! (yy_base ! s + c) = s then Some (yy_nxt ! (yy_base ! s + c))
    else yy_find (yy_def ! s) (if 206 \<le> yy_def ! s then yy_meta ! c else c))"
proof -
  have "yy_base ! s \<le> 296" using yy_stateD [OF assms(1,2)] by (simp add: yy_state_ok_def)
  then show ?thesis using assms by (subst yy_find.simps) (simp del: yy_find.simps)
qed

definition yy_ok :: "nat \<Rightarrow> bool" where
  "yy_ok s \<longleftrightarrow> (\<forall>c < 33. \<exists>r. yy_find s c = Some r \<and> (c \<noteq> 0 \<longrightarrow> 0 < r \<and> r < 206 \<and> r \<noteq> 5) \<and> (c = 0 \<and> s \<noteq> 5 \<longrightarrow> r = 5) \<and> r < 206)"

lemma yy_find_205: "c < 33 \<Longrightarrow> yy_find 205 c = Some (if c = 0 then 5 else 205)"
proof -
  assume c: "c < 33"
  then have "yy_chk ! (296 + c) = 205" "c \<noteq> 0 \<Longrightarrow> yy_nxt ! (296 + c) = 205" using yy_chkD [of "296 + c"] by simp_all
  then show ?thesis using yy_find_rec [OF _ _ c, of 205] by (simp add: yy_base_at yy_nxt_at)
qed

lemma yy_ok_205: "yy_ok 205"
  by (simp add: yy_ok_def yy_find_205)

lemma yy_ok_def_state:
  assumes "0 < s" and "s < 210" and "s \<noteq> 205" and "yy_ok (yy_def ! s)"
  shows "yy_ok s"
  unfolding yy_ok_def
proof (intro allI impI)
  fix c :: nat assume c: "c < 33"
  let ?i = "yy_base ! s + c"
  let ?c = "if 206 \<le> yy_def ! s then yy_meta ! c else c"
  from yy_stateD [OF assms(1,2)] assms(3) have b: "yy_base ! s \<le> 296" "yy_def ! s \<noteq> 5" "s \<noteq> 5 \<Longrightarrow> yy_chk ! (yy_base ! s) \<noteq> s"
    by (simp_all add: yy_state_ok_def)
  have i: "?i < 329" using b(1) c by simp
  have c': "?c < 33" "?c = 0 \<longleftrightarrow> c = 0" using yy_metaD [OF c] c by simp_all
  show "\<exists>r. yy_find s c = Some r \<and> (c \<noteq> 0 \<longrightarrow> 0 < r \<and> r < 206 \<and> r \<noteq> 5) \<and> (c = 0 \<and> s \<noteq> 5 \<longrightarrow> r = 5) \<and> r < 206"
  proof (cases "yy_chk ! ?i = s")
    case True
    have "?i < 296"
    proof (rule ccontr)
      assume "\<not> ?i < 296"
      then have "yy_chk ! ?i = 205" using i by (intro yy_chkD(1)) simp_all
      then show False using True assms(3) by simp
    qed
    then show ?thesis
      using True b(3) yy_nxtD [OF i] unfolding yy_find_rec [OF assms(1,2) c] by auto
  next
    case False
    then have "yy_find s c = yy_find (yy_def ! s) ?c" by (simp add: yy_find_rec [OF assms(1,2) c])
    moreover obtain r where "yy_find (yy_def ! s) ?c = Some r" "?c \<noteq> 0 \<longrightarrow> 0 < r \<and> r < 206 \<and> r \<noteq> 5"
        "?c = 0 \<and> yy_def ! s \<noteq> 5 \<longrightarrow> r = 5" "r < 206"
      using assms(4) c'(1) unfolding yy_ok_def by blast
    ultimately show ?thesis using c'(2) b(2) by (intro exI [of _ r]) auto
  qed
qed

lemma yy_ok_state:
  assumes "0 < s" and "s < 210"
  shows "yy_ok s"
proof (cases "s = 205")
  case True
  then show ?thesis using yy_ok_205 by simp
next
  case False
  let ?d = "yy_def ! s" and ?e = "yy_def ! (yy_def ! s)"
  from yy_stateD [OF assms] False have d: "?d < 210" "?d \<noteq> 0" "?d = 205 \<or> ?e = 205 \<or> yy_def ! ?e = 205"
    by (simp_all add: yy_state_ok_def)
  from yy_stateD [of ?d] d have e: "?d \<noteq> 205 \<Longrightarrow> ?e < 210 \<and> ?e \<noteq> 0" by (simp add: yy_state_ok_def)
  have ok_e: "yy_ok ?e" if "?d \<noteq> 205"
    using e [OF that] d(3) that yy_ok_205 yy_ok_def_state [of ?e] by (cases "?e = 205") auto
  have "yy_ok ?d"
    using d(1,2) ok_e yy_ok_205 yy_ok_def_state [of ?d] by (cases "?d = 205") auto
  then show ?thesis using yy_ok_def_state [OF assms False] by blast
qed

definition yy_next :: "nat \<Rightarrow> nat \<Rightarrow> nat" where
  "yy_next s c = the (yy_find s c)"

lemma yy_find_next:
  assumes "0 < s" and "s < 210" and "c < 33"
  shows "yy_find s c = Some (yy_next s c)"
  using yy_ok_state [OF assms(1,2)] assms(3) by (auto simp: yy_ok_def yy_next_def)

lemma yy_next_char:
  assumes "0 < s" and "s < 210" and "0 < c" and "c < 33"
  shows "0 < yy_next s c" "yy_next s c < 206" "yy_next s c \<noteq> 5"
  using yy_ok_state [OF assms(1,2)] assms(3,4) by (auto simp: yy_ok_def yy_next_def)

lemma yy_next_end:
  assumes "0 < s" and "s < 210" and "s \<noteq> 5"
  shows "yy_next s 0 = 5"
  using yy_ok_state [OF assms(1,2)] assms(3) by (auto simp: yy_ok_def yy_next_def dest!: spec [of _ 0])

lemma yy_next_5: "c < 33 \<Longrightarrow> yy_next 5 c = 205"
proof (cases "c = 0")
  case True
  then show ?thesis using yy_find_rec [of 5 c] by (simp add: yy_next_def yy_tables_at)
next
  case False
  assume "c < 33"
  with False have "yy_chk ! (295 + c) = 205" by (intro yy_chkD(1)) simp_all
  then show ?thesis using False \<open>c < 33\<close> yy_find_rec [of 5 c] by (simp add: yy_next_def yy_find_205 yy_base_at yy_def_at)
qed

lemma yy_next_jam:
  assumes "0 < s" and "s < 206" and "yy_base ! s = 296" and "0 < c" and "c < 33"
  shows "yy_next s c = 205"
proof (cases "s = 205")
  case True
  then show ?thesis using assms by (simp add: yy_next_def yy_find_205)
next
  case False
  have "yy_chk ! (296 + c) = 205" using assms by (intro yy_chkD(1)) simp_all
  moreover have "yy_def ! s = 205" using yy_stateD [of s] assms False by (simp add: yy_state_ok_def)
  ultimately show ?thesis using assms False yy_find_rec [of s c] by (simp add: yy_next_def yy_find_205)
qed

lemma yy_accept_state:
  assumes "0 < s" and "s < 206" and "s \<noteq> 5"
  shows "yy_accept ! s < 33"
  using yy_stateD [of s] assms by (simp add: yy_state_ok_def)

lemma yy_accept_jam:
  assumes "0 < s" and "s < 205" and "yy_base ! s = 296"
  shows "yy_accept ! s \<noteq> 0"
  using yy_stateD [of s] assms by (simp add: yy_state_ok_def)

section \<open>The longest match\<close>

definition yy_cls :: "char \<Rightarrow> nat" where
  "yy_cls ch = (if ch = CHR 0x00 then 1 else yy_ec ! of_char ch)"

lemma yy_cls_range: "0 < yy_cls ch" "yy_cls ch < 33"
  and yy_class_cls: "yy_class ch = Some (yy_cls ch)"
  and yy_ec_cls: "yy_at yy_ec (of_char ch) = Some (if ch = CHR 0x00 then 0 else yy_cls ch)"
proof -
  have n: "of_char ch < (256 :: nat)" by simp
  have z: "of_char ch = (0 :: nat) \<longleftrightarrow> ch = CHR 0x00"
    using of_char_eq_iff [where ?'a = nat, of ch "CHR 0x00"] by simp
  have e: "yy_ec ! of_char ch < 33" "yy_ec ! of_char ch = 0 \<longleftrightarrow> of_char ch = (0 :: nat)"
    using yy_ec_ok n unfolding list_all_iff set_upt by auto
  show "0 < yy_cls ch" "yy_cls ch < 33" using e z by (auto simp: yy_cls_def)
  show "yy_class ch = Some (yy_cls ch)" using n by (simp add: yy_class_def yy_cls_def)
  show "yy_at yy_ec (of_char ch) = Some (if ch = CHR 0x00 then 0 else yy_cls ch)"
    using n e z by (auto simp: yy_cls_def)
qed

definition yy_succ :: "nat \<Rightarrow> char \<Rightarrow> nat" where
  "yy_succ s ch = yy_next s (yy_cls ch)"

definition noted :: "nat \<Rightarrow> nat \<Rightarrow> yy_last \<Rightarrow> yy_last" where
  "noted s k la = (if yy_accept ! s \<noteq> 0 then Some (s, k) else la)"

text \<open>From state \<open>s\<close> at position \<open>k\<close>: the last position where a rule matches, with its state.\<close>

fun munch :: "nat \<Rightarrow> nat \<Rightarrow> string \<Rightarrow> yy_last \<Rightarrow> yy_last" where
  "munch s k [] la = noted s k la"
| "munch s k (ch # text) la =
     (if yy_succ s ch = YY_JAMSTATE then noted s k la else munch (yy_succ s ch) (k + 1) text (noted s k la))"

fun yy_run :: "nat \<Rightarrow> string \<Rightarrow> nat" where
  "yy_run s [] = s"
| "yy_run s (ch # text) = yy_run (yy_succ s ch) text"

fun marks :: "nat \<Rightarrow> nat \<Rightarrow> string \<Rightarrow> yy_last \<Rightarrow> yy_last" where
  "marks s k [] la = la"
| "marks s k (ch # text) la = marks (yy_succ s ch) (k + 1) text (noted s k la)"

text \<open>The states between characters.\<close>

definition live :: "nat \<Rightarrow> bool" where
  "live s \<longleftrightarrow> 0 < s \<and> s < 206 \<and> s \<noteq> 5"

lemma live_succ: "live s \<Longrightarrow> live (yy_succ s ch)"
  using yy_next_char [of s "yy_cls ch"] yy_cls_range [of ch] by (simp add: live_def yy_succ_def)

lemma live_run: "live s \<Longrightarrow> live (yy_run s xs)"
  by (induction xs arbitrary: s) (simp_all add: live_succ)

lemma yy_note_noted: "live s \<Longrightarrow> yy_note s k la = Some (noted s k la)"
  by (simp add: yy_note_def noted_def live_def)

lemma yy_find_succ: "live s \<Longrightarrow> yy_find s (yy_cls ch) = Some (yy_succ s ch)"
  using yy_find_next [of s "yy_cls ch"] yy_cls_range [of ch] by (simp add: live_def yy_succ_def)

lemma yy_get_previous_state_run: "live s \<Longrightarrow> yy_get_previous_state s k xs la = Some (yy_run s xs, marks s k xs la)"
  by (induction xs arbitrary: s k la) (simp_all add: yy_class_cls yy_note_noted yy_find_succ live_succ)

lemma munch_noted: "noted s k la = noted s k la' \<Longrightarrow> munch s k xs la = munch s k xs la'"
  by (cases xs) simp_all

text \<open>Every single character matches a rule.\<close>

definition yy_start_ok :: "nat \<Rightarrow> bool" where
  "yy_start_ok s \<longleftrightarrow> s = INITIAL \<or> s = TITLE_STATE"

lemma first_classes: "list_all (\<lambda>c. yy_accept ! yy_next 1 c \<noteq> 0 \<and> yy_accept ! yy_next 3 c \<noteq> 0) [Suc 0..<33]"
proof -
  have two: "Suc (Suc 0) = 2" by simp
  show ?thesis by (simp add: yy_next_def yy_find_rec yy_tables_at two)
qed

lemma first_char: "yy_start_ok s \<Longrightarrow> yy_accept ! yy_succ s ch \<noteq> 0"
  using first_classes yy_cls_range [of ch] unfolding list_all_iff set_upt
  by (auto simp: yy_start_ok_def INITIAL_def TITLE_STATE_def yy_succ_def)

lemma start_live: "yy_start_ok s \<Longrightarrow> live s"
  by (auto simp: yy_start_ok_def live_def INITIAL_def TITLE_STATE_def)

section \<open>Paths\<close>

lemma yy_run_append [simp]: "yy_run s (xs @ ys) = yy_run (yy_run s xs) ys"
  by (induction xs arbitrary: s) simp_all

lemma marks_append: "marks s k (xs @ ys) la = marks (yy_run s xs) (k + length xs) ys (marks s k xs la)"
  by (induction xs arbitrary: s k la) simp_all

lemma succ_jam: "yy_succ 205 ch = 205"
  using yy_cls_range [of ch] by (simp add: yy_succ_def yy_next_def yy_find_205)

lemma yy_run_jam: "yy_run 205 xs = 205"
  by (induction xs) (simp_all add: succ_jam)

lemma munch_append:
  "yy_run s xs \<noteq> 205 \<Longrightarrow> munch s k (xs @ ys) la = munch (yy_run s xs) (k + length xs) ys (marks s k xs la)"
  by (induction xs arbitrary: s k la) (auto simp: YY_JAMSTATE_def yy_run_jam)

lemma marks_last:
  assumes "yy_accept ! s \<noteq> 0"
  shows "noted (yy_run s xs) k' (marks s k xs la) = noted (yy_run s xs) k' (marks s k xs la')"
  using assms by (cases xs) (simp_all add: noted_def)

text \<open>Behind the first character there is a match to go back to.\<close>

lemma marks_start:
  assumes "yy_start_ok s0" and "xs \<noteq> []"
  shows "noted (yy_run s0 xs) k (marks s0 0 xs la) = noted (yy_run s0 xs) k (marks s0 0 xs la')"
proof -
  obtain ch ys where "xs = ch # ys" using assms(2) by (cases xs) auto
  then show ?thesis using marks_last [OF first_char [OF assms(1), of ch], of ys k "0 + 1"] by simp
qed

lemma noted_start:
  assumes "yy_start_ok s0"
  shows "xs \<noteq> [] \<Longrightarrow> \<exists>t k. noted (yy_run s0 xs) (length xs) (marks s0 0 xs None) = Some (t, k) \<and>
    live t \<and> yy_accept ! t \<noteq> 0 \<and> 0 < k \<and> k \<le> length xs"
proof (induction xs rule: rev_induct)
  case Nil
  then show ?case by simp
next
  case (snoc x xs)
  have l: "live (yy_run s0 (xs @ [x]))" by (rule live_run [OF start_live [OF assms]])
  show ?case
  proof (cases "xs = []")
    case True
    then show ?thesis using first_char [OF assms, of x] l by (simp add: noted_def)
  next
    case False
    from snoc.IH [OF this] obtain t k where t: "noted (yy_run s0 xs) (length xs) (marks s0 0 xs None) = Some (t, k)"
      "live t" "yy_accept ! t \<noteq> 0" "0 < k" "k \<le> length xs" by blast
    then have m: "marks s0 0 (xs @ [x]) None = Some (t, k)" by (simp add: marks_append)
    show ?thesis
    proof (cases "yy_accept ! yy_run s0 (xs @ [x]) = 0")
      case True
      then show ?thesis using m t by (simp add: noted_def)
    next
      case False
      then show ?thesis using l by (simp add: noted_def)
    qed
  qed
qed

lemma munch_prefix:
  "\<exists>ys zs. xs = ys @ zs \<and> munch s k xs la = noted (yy_run s ys) (k + length ys) (marks s k ys la) \<and>
     (ys = [] \<longrightarrow> xs = [] \<or> yy_succ s (hd xs) = 205)"
proof (induction xs arbitrary: s k la)
  case Nil
  then show ?case by simp
next
  case (Cons x xs)
  show ?case
  proof (cases "yy_succ s x = 205")
    case True
    then show ?thesis by (intro exI [of _ "[]"] exI [of _ "x # xs"]) (simp add: YY_JAMSTATE_def)
  next
    case False
    obtain ys zs where "xs = ys @ zs" "munch (yy_succ s x) (k + 1) xs (noted s k la) =
        noted (yy_run (yy_succ s x) ys) (k + 1 + length ys) (marks (yy_succ s x) (k + 1) ys (noted s k la))"
      using Cons.IH [of "yy_succ s x" "k + 1" "noted s k la"] by blast
    then show ?thesis using False by (intro exI [of _ "x # ys"] exI [of _ zs]) (simp add: YY_JAMSTATE_def)
  qed
qed

lemma first_not_jam: "yy_start_ok s \<Longrightarrow> yy_succ s ch \<noteq> 205"
  using first_char [of s ch] by (auto simp: yy_accept_at)

lemma munch_start:
  assumes "yy_start_ok s0" and "xs \<noteq> []"
  obtains t k where "munch s0 0 xs None = Some (t, k)" "live t" "yy_accept ! t \<noteq> 0" "0 < k" "k \<le> length xs"
proof -
  obtain ys zs where ys: "xs = ys @ zs" "munch s0 0 xs None = noted (yy_run s0 ys) (0 + length ys) (marks s0 0 ys None)"
    "ys = [] \<longrightarrow> xs = [] \<or> yy_succ s0 (hd xs) = 205"
    using munch_prefix [of xs s0 0 None] by blast
  then have "ys \<noteq> []" using assms first_not_jam [OF assms(1)] by auto
  from noted_start [OF assms(1) this] show ?thesis using that ys(1,2) by auto
qed

section \<open>The scanner computes the longest match\<close>

definition scan_result :: "nat \<Rightarrow> string \<Rightarrow> (nat \<times> nat) ptr option" where
  "scan_result s0 text = map_option (\<lambda>(t, k). Some (yy_accept ! t, k)) (munch s0 0 text None)"

lemma find_action_noted:
  assumes "live s" and "noted s k la = Some (t, j)" and "live t"
  shows "yy_find_action s k la = Some (yy_accept ! t, j)"
  using assms by (auto simp: yy_find_action_def noted_def live_def split: if_splits)

lemma find_action_jam: "live t \<Longrightarrow> yy_find_action 205 k (Some (t, j)) = Some (yy_accept ! t, j)"
  by (simp add: yy_find_action_def live_def yy_accept_at)

lemma scan_here:
  assumes "live s" and "noted s k la = Some (t, j)" and "live t"
  shows "yy_scan s0 text False s k la = Some (Some (yy_accept ! t, j))"
  using assms yy_accept_state [of t]
  by (subst yy_scan.simps) (auto simp: find_action_noted live_def YY_END_OF_BUFFER_def)

lemma yy_match_char:
  assumes "live s" and "k < length text" and "text ! k \<noteq> CHR 0x00"
  shows "yy_match text s k la = (let s' = yy_succ s (text ! k) in
    if yy_base ! s' \<noteq> 296 then yy_match text s' (k + 1) (noted s k la) else Some (s', k + 1, noted s k la))"
  using assms live_succ [OF assms(1), of "text ! k"]
  by (subst yy_match.simps) (simp add: yy_ch_def yy_ec_cls yy_note_noted yy_find_succ YY_JAMBASE_def Let_def live_def)

lemma yy_match_end:
  assumes "live s" and "k \<le> length text" and "k = length text \<or> text ! k = CHR 0x00"
  shows "yy_match text s k la = Some (205, k + 2, Some (5, k + 1))"
proof -
  have ec0: "yy_ec ! 0 = 0" by (simp add: yy_ec_at)
  have s: "yy_find s 0 = Some 5" "yy_note s k la = Some (noted s k la)"
    using yy_find_next [of s 0] yy_next_end [of s] assms(1) yy_note_noted by (auto simp: live_def)
  obtain ch where ch: "yy_ch text (k + 1) = Some ch"
    using that assms(2) by (cases "k + 1 < length text") (simp_all add: yy_ch_def)
  have "yy_ec ! of_char ch = (if ch = CHR 0x00 then 0 else yy_cls ch)" using yy_ec_cls [of ch] by simp
  then have f: "yy_find 5 (yy_ec ! of_char ch) = Some 205"
    using yy_find_next [of 5] yy_next_5 yy_cls_range [of ch] by auto
  have "yy_match text s k la = yy_match text 5 (k + 1) (noted s k la)"
    using assms s ec0 by (subst yy_match.simps) (auto simp: yy_ch_def YY_JAMBASE_def yy_base_at)
  also have "\<dots> = Some (205, k + 2, Some (5, k + 1))"
    using f by (subst yy_match.simps) (simp add: ch [simplified] yy_note_def yy_accept_at yy_base_at YY_JAMBASE_def)
  finally show ?thesis .
qed

lemma yy_scan_char:
  assumes "live s" and "k < length text" and "text ! k \<noteq> CHR 0x00" and "yy_base ! yy_succ s (text ! k) \<noteq> 296"
  shows "yy_scan s0 text True s k la = yy_scan s0 text True (yy_succ s (text ! k)) (k + 1) (noted s k la)"
  by (subst (1 2) yy_scan.simps) (simp add: yy_match_char [OF assms(1-3)] assms(4) Let_def)

lemma yy_try_NUL: "live s \<Longrightarrow> yy_try_NUL_trans s k la =
    Some (if yy_succ s CHR 0x00 = 205 then None else Some (yy_succ s CHR 0x00), noted s k la)"
  using yy_find_succ [of s "CHR 0x00"] by (simp add: yy_try_NUL_trans_def yy_note_noted yy_cls_def YY_JAMSTATE_def)

lemma yy_scan_nul:
  assumes "yy_start_ok s0" and "k < length text" and "text ! k = CHR 0x00" and "s = yy_run s0 (take k text)"
  shows "yy_scan s0 text True s k la = (let la' = noted s k (marks s0 0 (take k text) (Some (5, k + 1))) in
    if yy_succ s CHR 0x00 = 205 then yy_scan s0 text False s k la'
    else yy_scan s0 text True (yy_succ s CHR 0x00) (k + 1) la')"
proof -
  have l: "live s" "live s0" using assms(4) live_run start_live [OF assms(1)] by auto
  have m: "yy_match text s k la = Some (205, k + 2, Some (5, k + 1))" using assms(2,3) l by (intro yy_match_end) auto
  have a: "yy_find_action 205 (k + 2) (Some (5, k + 1)) = Some (33, k + 1)" by (simp add: yy_find_action_def yy_accept_at)
  show ?thesis
    using assms(2) by (subst yy_scan.simps)
      (simp add: m [simplified] a [simplified] YY_END_OF_BUFFER_def Let_def yy_get_previous_state_run [OF l(2)] assms(4) [symmetric] yy_try_NUL [OF l(1)])
qed

lemma yy_scan_end:
  assumes "yy_start_ok s0" and "s = yy_run s0 text"
  shows "yy_scan s0 text True s (length text) la = (if text = [] then Some None
    else yy_scan s0 text False s (length text) (marks s0 0 text (Some (5, length text + 1))))"
proof -
  have l: "live s" "live s0" using assms(2) live_run start_live [OF assms(1)] by auto
  have m: "yy_match text s (length text) la = Some (205, length text + 2, Some (5, length text + 1))"
    using l by (intro yy_match_end) auto
  have a: "yy_find_action 205 (length text + 2) (Some (5, length text + 1)) = Some (33, length text + 1)"
    by (simp add: yy_find_action_def yy_accept_at)
  show ?thesis
    by (subst yy_scan.simps)
      (simp add: m [simplified] a [simplified] YY_END_OF_BUFFER_def Let_def yy_get_previous_state_run [OF l(2)] assms(2) [symmetric])
qed

text \<open>Where the match ends in front of the character at \<open>k\<close>.\<close>

lemma scan_stop:
  assumes "yy_start_ok s0" and "xs \<noteq> []" and "yy_run s0 xs \<noteq> 205"
    and "noted (yy_run s0 xs) (length xs) la = noted (yy_run s0 xs) (length xs) (marks s0 0 xs None)"
    and "ys = [] \<or> yy_succ (yy_run s0 xs) (hd ys) = 205"
  shows "yy_scan s0 text False (yy_run s0 xs) (length xs) la = scan_result s0 (xs @ ys)"
    and "\<exists>t j. noted (yy_run s0 xs) (length xs) la = Some (t, j) \<and> live t \<and> scan_result s0 (xs @ ys) = Some (Some (yy_accept ! t, j))"
proof -
  obtain t j where t: "noted (yy_run s0 xs) (length xs) (marks s0 0 xs None) = Some (t, j)" "live t"
    using noted_start [OF assms(1,2)] by blast
  have "munch s0 0 (xs @ ys) None = noted (yy_run s0 xs) (length xs) (marks s0 0 xs None)"
    using assms(5) munch_append [OF assms(3), of 0 ys None] by (cases ys) (auto simp: YY_JAMSTATE_def)
  then have r: "scan_result s0 (xs @ ys) = Some (Some (yy_accept ! t, j))" using t by (simp add: scan_result_def)
  show "yy_scan s0 text False (yy_run s0 xs) (length xs) la = scan_result s0 (xs @ ys)"
    unfolding r using scan_here [OF live_run [OF start_live [OF assms(1)]] _ t(2)] assms(4) t(1) by simp
  show "\<exists>t j. noted (yy_run s0 xs) (length xs) la = Some (t, j) \<and> live t \<and> scan_result s0 (xs @ ys) = Some (Some (yy_accept ! t, j))"
    using r t assms(4) by auto
qed

lemma marks_snoc: "marks s0 0 (xs @ [x]) None = noted (yy_run s0 xs) (length xs) (marks s0 0 xs None)"
  by (simp add: marks_append)

lemma mark_step:
  assumes "yy_start_ok s0"
    and "xs \<noteq> [] \<Longrightarrow> noted (yy_run s0 xs) (length xs) la = noted (yy_run s0 xs) (length xs) (marks s0 0 xs None)"
  shows "noted (yy_run s0 (xs @ [x])) (length (xs @ [x])) (noted (yy_run s0 xs) (length xs) la) =
    noted (yy_run s0 (xs @ [x])) (length (xs @ [x])) (marks s0 0 (xs @ [x]) None)"
proof (cases "xs = []")
  case True
  then show ?thesis using first_char [OF assms(1), of x] by (simp add: noted_def)
next
  case False
  then show ?thesis using assms(2) by (simp add: marks_snoc)
qed

lemma accept_live: "live t \<Longrightarrow> yy_accept ! t \<noteq> 33"
  using yy_accept_state [of t] by (simp add: live_def)

lemma yy_scan_munch:
  assumes "yy_start_ok s0" and "xs @ ys \<noteq> []" and "yy_run s0 xs \<noteq> 205"
    and "xs \<noteq> [] \<Longrightarrow> noted (yy_run s0 xs) (length xs) la = noted (yy_run s0 xs) (length xs) (marks s0 0 xs None)"
  shows "yy_scan s0 (xs @ ys) True (yy_run s0 xs) (length xs) la = scan_result s0 (xs @ ys)"
  using assms(2-4)
proof (induction ys arbitrary: xs la)
  case Nil
  let ?s = "yy_run s0 xs"
  from Nil have x: "xs \<noteq> []" by simp
  have "noted ?s (length xs) (marks s0 0 xs (Some (5, length xs + 1))) = noted ?s (length xs) (marks s0 0 xs None)"
    by (rule marks_start [OF assms(1) x])
  from scan_stop(1) [OF assms(1) x Nil.prems(2) this, of "[]" xs]
  show ?case using x yy_scan_end [OF assms(1) refl, of xs la] by simp
next
  case (Cons y ys)
  let ?s = "yy_run s0 xs"
  let ?t = "xs @ y # ys"
  have l: "live ?s" by (rule live_run [OF start_live [OF assms(1)]])
  have l': "live (yy_succ ?s y)" by (rule live_succ [OF l])
  have k: "length xs < length ?t" "?t ! length xs = y" "take (length xs) ?t = xs" by simp_all
  have split: "?t = (xs @ [y]) @ ys" "yy_succ ?s y = yy_run s0 (xs @ [y])" by simp_all
  show ?case
  proof (cases "y = CHR 0x00")
    case True
    let ?la = "noted ?s (length xs) (marks s0 0 xs (Some (5, length xs + 1)))"
    have scan: "yy_scan s0 ?t True ?s (length xs) la =
        (if yy_succ ?s y = 205 then yy_scan s0 ?t False ?s (length xs) ?la
         else yy_scan s0 ?t True (yy_succ ?s y) (length xs + 1) ?la)"
      using yy_scan_nul [OF assms(1) k(1), of ?s la] True k by (simp add: Let_def)
    have la: "noted ?s (length xs) (marks s0 0 xs (Some (5, length xs + 1))) = noted ?s (length xs) (marks s0 0 xs None)" if "xs \<noteq> []"
      by (rule marks_start [OF assms(1) that])
    show ?thesis
    proof (cases "yy_succ ?s y = 205")
      case True
      then have x: "xs \<noteq> []" using first_not_jam [OF assms(1), of y] by auto
      have "noted ?s (length xs) ?la = noted ?s (length xs) (marks s0 0 xs None)" using la [OF x] by (simp add: noted_def)
      from scan_stop(1) [OF assms(1) x Cons.prems(2) this, of "y # ys"] True show ?thesis by (simp add: scan)
    next
      case False
      have "noted (yy_run s0 (xs @ [y])) (length (xs @ [y])) ?la = noted (yy_run s0 (xs @ [y])) (length (xs @ [y])) (marks s0 0 (xs @ [y]) None)"
        by (rule mark_step [OF assms(1) la])
      from Cons.IH [of "xs @ [y]", OF _ _ this] False show ?thesis by (simp add: scan)
    qed
  next
    case False
    have step: "noted (yy_run s0 (xs @ [y])) (length (xs @ [y])) (noted ?s (length xs) la) =
        noted (yy_run s0 (xs @ [y])) (length (xs @ [y])) (marks s0 0 (xs @ [y]) None)"
      by (rule mark_step [OF assms(1) Cons.prems(3)])
    show ?thesis
    proof (cases "yy_base ! yy_succ ?s y = 296")
      case base: False
      then have "yy_succ ?s y \<noteq> 205" by (auto simp: yy_base_at)
      from Cons.IH [of "xs @ [y]", OF _ _ step] this
      show ?thesis using yy_scan_char [OF l k(1), of s0 la] k(2) False base by simp
    next
      case base: True
      have m: "yy_match ?t ?s (length xs) la = Some (yy_succ ?s y, length xs + 1, noted ?s (length xs) la)"
        using yy_match_char [OF l k(1)] k(2) False base by simp
      have "\<exists>t j. yy_find_action (yy_succ ?s y) (length xs + 1) (noted ?s (length xs) la) = Some (yy_accept ! t, j) \<and>
          live t \<and> scan_result s0 ?t = Some (Some (yy_accept ! t, j))"
      proof (cases "yy_succ ?s y = 205")
        case True
        then have x: "xs \<noteq> []" using first_not_jam [OF assms(1), of y] by auto
        from scan_stop(2) [OF assms(1) x Cons.prems(2) Cons.prems(3) [OF x], of "y # ys"] True
        show ?thesis using find_action_jam by auto
      next
        case jam: False
        have "ys = [] \<or> yy_succ (yy_succ ?s y) (hd ys) = 205"
          using yy_next_jam [of "yy_succ ?s y" "yy_cls (hd ys)"] yy_cls_range [of "hd ys"] l' base
          by (simp add: live_def yy_succ_def)
        then obtain t j where "noted (yy_run s0 (xs @ [y])) (length (xs @ [y])) (noted ?s (length xs) la) = Some (t, j)" "live t"
          "scan_result s0 ((xs @ [y]) @ ys) = Some (Some (yy_accept ! t, j))"
          using scan_stop(2) [OF assms(1) _ _ step, of ys] jam by auto
        then show ?thesis using find_action_noted [OF l', of "length xs + 1" "noted ?s (length xs) la" t j] by auto
      qed
      then obtain t j where t: "yy_find_action (yy_succ ?s y) (length xs + 1) (noted ?s (length xs) la) = Some (yy_accept ! t, j)"
        "yy_accept ! t \<noteq> 33" "scan_result s0 ?t = Some (Some (yy_accept ! t, j))"
        using accept_live by blast
      then show ?thesis by (subst yy_scan.simps) (simp add: m [simplified] YY_END_OF_BUFFER_def)
    qed
  qed
qed

section \<open>Tokens\<close>

lemma yy_scan_start:
  assumes "yy_start_ok s0" and "text \<noteq> []"
  shows "yy_scan s0 text True s0 0 None = scan_result s0 text"
proof -
  have "s0 \<noteq> 205" using assms(1) by (auto simp: yy_start_ok_def INITIAL_def TITLE_STATE_def)
  then show ?thesis using yy_scan_munch [OF assms(1), of "[]" "text" None] assms(2) by simp
qed

lemma yy_scan_empty: "yy_start_ok s0 \<Longrightarrow> yy_scan s0 [] True s0 0 None = Some None"
  using yy_scan_end [of s0 s0 "[]" None] by simp

text \<open>A rule matches the first \<open>k\<close> characters.\<close>

definition yy_matches :: "nat \<Rightarrow> string \<Rightarrow> nat \<Rightarrow> bool" where
  "yy_matches s0 text k \<longleftrightarrow> k \<le> length text \<and> yy_accept ! yy_run s0 (take k text) \<noteq> 0"

lemma matches_Cons: "yy_matches s (x # xs) k \<longleftrightarrow> (if k = 0 then yy_accept ! s \<noteq> 0 else yy_matches (yy_succ s x) xs (k - 1))"
  by (cases k) (simp_all add: yy_matches_def)

lemma matches_jam: "\<not> yy_matches 205 xs k"
  by (simp add: yy_matches_def yy_run_jam yy_accept_at)

lemma munch_matches:
  "munch s k xs la = Some (t, j) \<Longrightarrow> la = Some (t, j) \<and> (\<forall>i. \<not> yy_matches s xs i) \<or>
     (\<exists>i. j = k + i \<and> t = yy_run s (take i xs) \<and> yy_matches s xs i \<and> (\<forall>i' > i. \<not> yy_matches s xs i'))"
proof (induction xs arbitrary: s k la)
  case Nil
  then show ?case by (auto simp: noted_def yy_matches_def split: if_splits)
next
  case (Cons x xs)
  show ?case
  proof (cases "yy_succ s x = 205")
    case True
    then have no: "\<not> yy_matches s (x # xs) i" if "0 < i" for i using matches_jam that by (simp add: matches_Cons)
    show ?thesis
    proof (cases "yy_accept ! s = 0")
      case True
      then have "\<not> yy_matches s (x # xs) i" for i using no [of i] by (cases "i = 0") (simp_all add: matches_Cons)
      then show ?thesis using Cons.prems True \<open>yy_succ s x = 205\<close> by (simp add: noted_def YY_JAMSTATE_def)
    next
      case False
      then show ?thesis using Cons.prems no \<open>yy_succ s x = 205\<close> by (simp add: noted_def YY_JAMSTATE_def matches_Cons)
    qed
  next
    case False
    then have m: "munch (yy_succ s x) (k + 1) xs (noted s k la) = Some (t, j)" using Cons.prems by (simp add: YY_JAMSTATE_def)
    from Cons.IH [OF m] show ?thesis
    proof (elim disjE exE conjE)
      assume la: "noted s k la = Some (t, j)" and no: "\<forall>i. \<not> yy_matches (yy_succ s x) xs i"
      then show ?thesis by (cases "yy_accept ! s = 0") (auto simp: noted_def matches_Cons)
    next
      fix i
      assume i: "j = k + 1 + i" "t = yy_run (yy_succ s x) (take i xs)" "yy_matches (yy_succ s x) xs i"
        "\<forall>i' > i. \<not> yy_matches (yy_succ s x) xs i'"
      have "\<not> yy_matches s (x # xs) i'" if "Suc i < i'" for i'
        using that i(4) [rule_format, of "i' - 1"] by (simp add: matches_Cons)
      then show ?thesis using i(1-3) by (intro disjI2 exI [of _ "Suc i"]) (simp add: matches_Cons)
    qed
  qed
qed

text \<open>
  C11: The scanner of \<^verbatim>\<open>KEYDB.cfg\<close> finds the longest prefix of the text that a rule
  matches, with the rule of the state its tables lead to: reading the two NUL characters behind the
  buffer as the end of the text, NUL characters of the file as characters, and backing up over what
  led nowhere.  It stays inside its tables and its buffer, and the prefix is not empty.
\<close>

theorem scanner_longest_match:
  assumes "yy_start_ok s0" and "text \<noteq> []"
  shows "\<exists>k > 0. yy_scan s0 text True s0 0 None = Some (Some (yy_accept ! yy_run s0 (take k text), k)) \<and>
    yy_matches s0 text k \<and> (\<forall>k' > k. \<not> yy_matches s0 text k')"
proof -
  obtain t k where m: "munch s0 0 text None = Some (t, k)" "0 < k" using munch_start [OF assms] by blast
  with munch_matches [OF m(1)] have "t = yy_run s0 (take k text)" "yy_matches s0 text k" "\<forall>k' > k. \<not> yy_matches s0 text k'" by auto
  with m show ?thesis by (auto simp: yy_scan_start [OF assms] scan_result_def)
qed

theorem scanner_longest_match_witness:
  "\<exists>k > 0. yy_scan INITIAL ''| DEVICE'' True INITIAL 0 None = Some (Some (yy_accept ! yy_run INITIAL (take k ''| DEVICE''), k)) \<and>
    yy_matches INITIAL ''| DEVICE'' k \<and> (\<forall>k' > k. \<not> yy_matches INITIAL ''| DEVICE'' k')"
  by (rule scanner_longest_match) (simp_all add: yy_start_ok_def)

lemma yy_action_ok:
  assumes "live t" and "yy_accept ! t \<noteq> 0" and "yy_start_ok s0"
  shows "\<exists>tok s1. yy_action (yy_accept ! t) text s0 = Some (tok, s1) \<and> yy_start_ok s1"
proof -
  have "yy_accept ! t < 33" using assms(1) yy_accept_state by (simp add: live_def)
  then show ?thesis using assms(2,3) by (auto simp: yy_action_def yy_start_ok_def)
qed

lemma yylex_step:
  assumes "yy_start_ok s0" and "text \<noteq> []" and "munch s0 0 text None = Some (t, k)"
  shows "yylex s0 text = (case yy_action (yy_accept ! t) (take k text) s0 of None \<Rightarrow> None
     | Some (tok, s1) \<Rightarrow> (case tok of None \<Rightarrow> yylex s1 (drop k text) | Some t \<Rightarrow> Some (Some t, s1, drop k text)))"
  by (subst yylex.simps) (simp add: yy_scan_start [OF assms(1,2)] scan_result_def assms(3) split: option.split prod.split)

lemma yylex_empty: "yy_start_ok s0 \<Longrightarrow> yylex s0 [] = Some (None, s0, [])"
  by (subst yylex.simps) (simp add: yy_scan_empty)

lemma yylex_total:
  "yy_start_ok s0 \<Longrightarrow> \<exists>tok s1 rest. yylex s0 xs = Some (tok, s1, rest) \<and> yy_start_ok s1 \<and>
     (tok \<noteq> None \<longrightarrow> length rest < length xs)"
proof (induction xs arbitrary: s0 rule: measure_induct_rule [of length])
  case (less xs)
  show ?case
  proof (cases "xs = []")
    case True
    then show ?thesis using yylex_empty [OF less.prems] less.prems by simp
  next
    case False
    obtain t k where m: "munch s0 0 xs None = Some (t, k)" "live t" "yy_accept ! t \<noteq> 0" "0 < k" "k \<le> length xs"
      using munch_start [OF less.prems False] by blast
    obtain tok s1 where a: "yy_action (yy_accept ! t) (take k xs) s0 = Some (tok, s1)" "yy_start_ok s1"
      using yy_action_ok [OF m(2,3) less.prems] by blast
    have l: "length (drop k xs) < length xs" using m(4) False by simp
    show ?thesis
    proof (cases tok)
      case None
      then show ?thesis using less.IH [OF l a(2)] l yylex_step [OF less.prems False m(1)] a(1) by fastforce
    next
      case (Some x)
      then show ?thesis using l yylex_step [OF less.prems False m(1)] a by simp
    qed
  qed
qed

lemma yy_tokens_total: "yy_start_ok s0 \<Longrightarrow> \<exists>ts. yy_tokens s0 xs = Some ts"
proof (induction xs arbitrary: s0 rule: measure_induct_rule [of length])
  case (less xs)
  obtain tok s1 rest where l: "yylex s0 xs = Some (tok, s1, rest)" "yy_start_ok s1" "tok \<noteq> None \<longrightarrow> length rest < length xs"
    using yylex_total [OF less.prems] by blast
  show ?case
  proof (cases tok)
    case None
    then show ?thesis using l(1) by (subst yy_tokens.simps) simp
  next
    case (Some x)
    then obtain ts where "yy_tokens s1 rest = Some ts" using less.IH [OF _ l(2)] l(3) by blast
    then show ?thesis using l(1) Some by (subst yy_tokens.simps) simp
  qed
qed

lemma yy_tokens_step:
  assumes "yy_start_ok s0" and "text \<noteq> []" and "munch s0 0 text None = Some (t, k)"
    and "yy_action (yy_accept ! t) (take k text) s0 = Some (tok, s1)"
  shows "yy_tokens s0 text = (case tok of None \<Rightarrow> yy_tokens s1 (drop k text)
     | Some x \<Rightarrow> map_option (Cons x) (yy_tokens s1 (drop k text)))"
proof (cases tok)
  case None
  then have "yylex s0 text = yylex s1 (drop k text)" using yylex_step [OF assms(1-3)] assms(4) by simp
  then have "yy_tokens s0 text = yy_tokens s1 (drop k text)" by (simp add: yy_tokens.simps [of s0 "text"] yy_tokens.simps [of s1 "drop k text"])
  then show ?thesis using None by simp
next
  case (Some x)
  then have "yylex s0 text = Some (Some x, s1, drop k text)" using yylex_step [OF assms(1-3)] assms(4) by simp
  then show ?thesis using Some by (subst yy_tokens.simps) (simp add: map_conv_bind_option comp_def)
qed

lemma yy_tokens_empty: "yy_start_ok s0 \<Longrightarrow> yy_tokens s0 [] = Some []"
  by (subst yy_tokens.simps) (simp add: yylex_empty)

end
