(* ===== verification/KeydbText.thy ===== *)
theory KeydbText
  imports KeydbScan
begin

text \<open>
  The text of a \<^verbatim>\<open>KEYDB.cfg\<close> and what reading it gives: lines in the form of the files
  in use are printed, the scanner finds their tokens, the parser what they say, and
  \<open>keydbcfg_parse_config\<close> puts both together.
\<close>

section \<open>Running the scanner\<close>

lemma start_ok [simp]: "yy_start_ok 1" "yy_start_ok (Suc 0)" "yy_start_ok 3"
  by (simp_all add: yy_start_ok_def INITIAL_def TITLE_STATE_def)

lemma munch_terminal: "live s \<Longrightarrow> yy_base ! s = 296 \<Longrightarrow> munch s k xs la = noted s k la"
  using yy_next_jam [of s] yy_cls_range by (cases xs) (simp_all add: live_def yy_succ_def YY_JAMSTATE_def)

lemma lex_token:
  assumes "munch s0 0 xs None = Some (t, k)" and "yy_start_ok s0" and "xs \<noteq> []"
    and "yy_action (yy_accept ! t) (take k xs) s0 = Some (Some tok, s1)" and "drop k xs = r"
  shows "yy_tokens s0 xs = map_option (Cons tok) (yy_tokens s1 r)"
  using yy_tokens_step [OF assms(2,3,1,4)] assms(5) by simp

lemma lex_skip:
  assumes "munch s0 0 xs None = Some (t, k)" and "yy_start_ok s0" and "xs \<noteq> []"
    and "yy_action (yy_accept ! t) (take k xs) s0 = Some (None, s1)" and "drop k xs = r"
  shows "yy_tokens s0 xs = yy_tokens s1 r"
  using yy_tokens_step [OF assms(2,3,1,4)] assms(5) by simp

lemma live_numeral [simp]: "live (numeral n) \<longleftrightarrow> numeral n < (206 :: nat) \<and> numeral n \<noteq> (5 :: nat)"
  by (simp add: live_def)

lemma yy_cls_chars [simp]:
  "yy_cls (CHR 0x0A) = 3"
  "yy_cls (CHR '' '') = 2"
  "yy_cls (CHR ''-'') = 5"
  "yy_cls (CHR ''0'') = 6"
  "yy_cls (CHR '';'') = 8"
  "yy_cls (CHR ''='') = 9"
  "yy_cls (CHR ''?'') = Suc 0"
  "yy_cls (CHR ''A'') = 10"
  "yy_cls (CHR ''C'') = 12"
  "yy_cls (CHR ''D'') = 13"
  "yy_cls (CHR ''E'') = 14"
  "yy_cls (CHR ''F'') = 15"
  "yy_cls (CHR ''H'') = 16"
  "yy_cls (CHR ''I'') = 17"
  "yy_cls (CHR ''K'') = 18"
  "yy_cls (CHR ''M'') = 19"
  "yy_cls (CHR ''N'') = 20"
  "yy_cls (CHR ''O'') = 21"
  "yy_cls (CHR ''P'') = 22"
  "yy_cls (CHR ''R'') = 23"
  "yy_cls (CHR ''S'') = 24"
  "yy_cls (CHR ''T'') = 25"
  "yy_cls (CHR ''U'') = 26"
  "yy_cls (CHR ''V'') = 27"
  "yy_cls (CHR ''Y'') = 29"
  "yy_cls (CHR ''_'') = 31"
  "yy_cls (CHR ''x'') = 28"
  "yy_cls (CHR ''|'') = 32"
  by (simp_all add: yy_cls_def yy_ec_at)

lemma Suc_Suc_0: "Suc (Suc 0) = 2"
  by simp

lemmas yy_eval = Suc_Suc_0 munch_terminal noted_def yy_succ_def yy_next_def yy_find_rec yy_tables_at YY_JAMSTATE_def yy_action_def
  INITIAL_def TITLE_STATE_def c_string_def

section \<open>Fixed texts\<close>

lemma lex_entry_dk: "yy_tokens 1 (CHR ''|'' # CHR '' '' # CHR ''D'' # CHR ''K'' # CHR '' '' # CHR ''|'' # r) =
    map_option (Cons ENTRY_ID_DK) (yy_tokens 1 (r))"
  by (rule lex_token [where t = 89 and k = 6]) (simp_all add: yy_eval)

lemma lex_entry_pk: "yy_tokens 1 (CHR ''|'' # CHR '' '' # CHR ''P'' # CHR ''K'' # CHR '' '' # CHR ''|'' # r) =
    map_option (Cons ENTRY_ID_PK) (yy_tokens 1 (r))"
  by (rule lex_token [where t = 93 and k = 6]) (simp_all add: yy_eval)

lemma lex_entry_hc: "yy_tokens 1 (CHR ''|'' # CHR '' '' # CHR ''H'' # CHR ''C'' # CHR '' '' # CHR ''|'' # r) =
    map_option (Cons ENTRY_ID_HC) (yy_tokens 1 (r))"
  by (rule lex_token [where t = 91 and k = 6]) (simp_all add: yy_eval)

lemma lex_entry_mek: "yy_tokens 1 (CHR ''|'' # CHR '' '' # CHR ''M'' # CHR '' '' # CHR ''|'' # r) =
    map_option (Cons ENTRY_ID_MEK) (yy_tokens 1 (r))"
  by (rule lex_token [where t = 71 and k = 5]) (simp_all add: yy_eval)

lemma lex_entry_vid: "yy_tokens 1 (CHR ''|'' # CHR '' '' # CHR ''I'' # CHR '' '' # CHR ''|'' # r) =
    map_option (Cons ENTRY_ID_VID) (yy_tokens 1 (r))"
  by (rule lex_token [where t = 69 and k = 5]) (simp_all add: yy_eval)

lemma lex_entry_vuk: "yy_tokens 1 (CHR ''|'' # CHR '' '' # CHR ''V'' # CHR '' '' # CHR ''|'' # r) =
    map_option (Cons ENTRY_ID_VUK) (yy_tokens 1 (r))"
  by (rule lex_token [where t = 80 and k = 5]) (simp_all add: yy_eval)

lemma lex_entry_uk: "yy_tokens 1 (CHR ''|'' # CHR '' '' # CHR ''U'' # CHR '' '' # CHR ''|'' # r) =
    map_option (Cons ENTRY_ID_UK) (yy_tokens 1 (r))"
  by (rule lex_token [where t = 78 and k = 5]) (simp_all add: yy_eval)

lemma lex_blank: "yy_tokens 1 (CHR '' '' # r) =
    yy_tokens 1 (r)"
  by (rule lex_skip [where t = 7 and k = 1]) (simp_all add: yy_eval)

lemma lex_newline: "yy_tokens 1 (CHR 0x0A # r) =
    map_option (Cons NEWLINE) (yy_tokens 1 (r))"
  by (rule lex_token [where t = 8 and k = 1]) (simp_all add: yy_eval)

lemma lex_equals: "yy_tokens 1 (CHR ''='' # r) =
    map_option (Cons PUNCT_EQUALS_SIGN) (yy_tokens 3 (r))"
  by (rule lex_token [where t = 14 and k = 1]) (simp_all add: yy_eval)

lemma lex_hyphen: "yy_tokens 1 (CHR ''-'' # r) =
    map_option (Cons PUNCT_HYPHEN) (yy_tokens 1 (r))"
  by (rule lex_token [where t = 10 and k = 1]) (simp_all add: yy_eval)

lemma lex_device_key: "yy_tokens 1 (CHR ''D'' # CHR ''E'' # CHR ''V'' # CHR ''I'' # CHR ''C'' # CHR ''E'' # CHR ''_'' # CHR ''K'' # CHR ''E'' # CHR ''Y'' # r) =
    map_option (Cons KEYWORD_DEVICE_KEY) (yy_tokens 1 (r))"
  by (rule lex_token [where t = 157 and k = 10]) (simp_all add: yy_eval)

lemma lex_device_node: "yy_tokens 1 (CHR ''D'' # CHR ''E'' # CHR ''V'' # CHR ''I'' # CHR ''C'' # CHR ''E'' # CHR ''_'' # CHR ''N'' # CHR ''O'' # CHR ''D'' # CHR ''E'' # r) =
    map_option (Cons KEYWORD_DEVICE_NODE) (yy_tokens 1 (r))"
  by (rule lex_token [where t = 171 and k = 11]) (simp_all add: yy_eval)

lemma lex_key_uv: "yy_tokens 1 (CHR ''K'' # CHR ''E'' # CHR ''Y'' # CHR ''_'' # CHR ''U'' # CHR ''V'' # r) =
    map_option (Cons KEYWORD_KEY_UV) (yy_tokens 1 (r))"
  by (rule lex_token [where t = 108 and k = 6]) (simp_all add: yy_eval)

lemma lex_key_u_mask_shift: "yy_tokens 1 (CHR ''K'' # CHR ''E'' # CHR ''Y'' # CHR ''_'' # CHR ''U'' # CHR ''_'' # CHR ''M'' # CHR ''A'' # CHR ''S'' # CHR ''K'' # CHR ''_'' # CHR ''S'' # CHR ''H'' # CHR ''I'' # CHR ''F'' # CHR ''T'' # r) =
    map_option (Cons KEYWORD_KEY_U_MASK_SHIFT) (yy_tokens 1 (r))"
  by (rule lex_token [where t = 203 and k = 16]) (simp_all add: yy_eval)

lemma lex_host_priv_key: "yy_tokens 1 (CHR ''H'' # CHR ''O'' # CHR ''S'' # CHR ''T'' # CHR ''_'' # CHR ''P'' # CHR ''R'' # CHR ''I'' # CHR ''V'' # CHR ''_'' # CHR ''K'' # CHR ''E'' # CHR ''Y'' # CHR '' '' # CHR ''0'' # r) =
    map_option (Cons KEYWORD_HOST_PRIV_KEY) (yy_tokens 1 (CHR ''0'' # r))"
  by (rule lex_token [where t = 194 and k = 14]) (simp_all add: yy_eval)

lemma lex_host_cert: "yy_tokens 1 (CHR ''H'' # CHR ''O'' # CHR ''S'' # CHR ''T'' # CHR ''_'' # CHR ''C'' # CHR ''E'' # CHR ''R'' # CHR ''T'' # CHR '' '' # CHR ''0'' # r) =
    map_option (Cons KEYWORD_HOST_CERT) (yy_tokens 1 (CHR ''0'' # r))"
  by (rule lex_token [where t = 159 and k = 10]) (simp_all add: yy_eval)

lemma lex_bar_device: "yy_tokens 1 (CHR ''|'' # CHR '' '' # CHR ''D'' # CHR ''E'' # r) =
    map_option (Cons PUNCT_VERTICAL_BAR) (yy_tokens 1 (CHR '' '' # CHR ''D'' # CHR ''E'' # r))"
  by (rule lex_token [where t = 19 and k = 1]) (simp_all add: yy_eval)

lemma lex_bar_key: "yy_tokens 1 (CHR ''|'' # CHR '' '' # CHR ''K'' # CHR ''E'' # r) =
    map_option (Cons PUNCT_VERTICAL_BAR) (yy_tokens 1 (CHR '' '' # CHR ''K'' # CHR ''E'' # r))"
  by (rule lex_token [where t = 19 and k = 1]) (simp_all add: yy_eval)

lemma lex_bar_host: "yy_tokens 1 (CHR ''|'' # CHR '' '' # CHR ''H'' # CHR ''O'' # r) =
    map_option (Cons PUNCT_VERTICAL_BAR) (yy_tokens 1 (CHR '' '' # CHR ''H'' # CHR ''O'' # r))"
  by (rule lex_token [where t = 19 and k = 1]) (simp_all add: yy_eval)

lemma lex_bad: "yy_tokens 1 (CHR ''?'' # r) =
    map_option (Cons BAD_ENTRY) (yy_tokens 1 (r))"
  by (rule lex_token [where t = 6 and k = 1]) (simp_all add: yy_eval)

section \<open>Keys, numbers, comments and titles\<close>

lemma munch_loop:
  assumes "\<And>s ch. s \<in> S \<Longrightarrow> ch \<in> set h \<Longrightarrow> yy_succ s ch \<in> S" and "\<And>s. s \<in> S \<Longrightarrow> s \<noteq> 205"
  shows "s \<in> S \<Longrightarrow> \<exists>s' \<in> S. \<exists>la'. munch s k (h @ r) la = munch s' (k + length h) r la'"
  using assms(1)
proof (induction h arbitrary: s k la)
  case Nil
  then show ?case by auto
next
  case (Cons x h)
  have x: "yy_succ s x \<in> S" "yy_succ s x \<noteq> YY_JAMSTATE" using Cons.prems assms(2) by (auto simp: YY_JAMSTATE_def)
  then obtain s' la' where "s' \<in> S" "munch (yy_succ s x) (k + 1) (h @ r) (noted s k la) = munch s' (k + 1 + length h) r la'"
    using Cons.IH [of "yy_succ s x" "k + 1" "noted s k la"] Cons.prems(2) by auto
  then show ?case using x(2) by auto
qed

lemma munch_jam: "yy_accept ! s \<noteq> 0 \<Longrightarrow> yy_succ s ch = 205 \<Longrightarrow> munch s k (ch # r) la = Some (s, k)"
  by (simp add: YY_JAMSTATE_def noted_def)

lemma hexdigit_states: "list_all (\<lambda>ch. yy_succ 33 ch = 57 \<and> yy_succ 57 ch = 57 \<and> ch \<noteq> CHR 0x00) nibble"
  by (simp add: nibble_def yy_succ_def yy_cls_def yy_next_def yy_find_rec yy_tables_at Suc_Suc_0)

lemma print_hex_nibble: "set (print_hex_loop bs) \<subseteq> set nibble"
proof (induction bs)
  case Nil
  then show ?case by simp
next
  case (Cons b bs)
  have "unat b div 16 < length nibble" "unat b mod 16 < length nibble"
    using byte_less [of b] by (simp_all add: less_mult_imp_div_less nibble_def)
  then show ?case using Cons.IH by (simp add: nibbles_of_byte)
qed

lemma hexdigit:
  assumes "ch \<in> set (print_hex_loop bs)"
  shows "yy_succ 33 ch = 57" "yy_succ 57 ch = 57" "ch \<noteq> CHR 0x00"
  using hexdigit_states print_hex_nibble [of bs] assms by (auto simp: list_all_iff)

lemma hex_prefix: "yy_succ (Suc 0) CHR ''0'' = 11" "yy_succ 11 CHR ''x'' = 33"
  by (simp_all add: yy_eval)

lemma lex_hex:
  assumes "bs \<noteq> []" and "yy_succ 57 c = 205"
  shows "yy_tokens 1 (CHR ''0'' # CHR ''x'' # print_hex_loop bs @ c # r) =
    map_option (Cons (HEXSTRING (print_hex_loop bs))) (yy_tokens 1 (c # r))"
proof (rule lex_token)
  obtain x h where h: "print_hex_loop bs = x # h" using assms(1) by (cases bs) auto
  have x: "yy_succ 33 x = 57" using hexdigit(1) [of x bs] h by simp
  have "\<exists>s' \<in> {57}. \<exists>la'. munch 57 3 (h @ c # r) (Some (11, 1)) = munch s' (3 + length h) (c # r) la'"
    by (rule munch_loop) (use hexdigit(2) [of _ bs] h in auto)
  then have "munch 57 3 (h @ c # r) (Some (11, 1)) = Some (57, 3 + length h)"
    using munch_jam [OF _ assms(2)] by (auto simp: yy_accept_at)
  then show "munch 1 0 (CHR ''0'' # CHR ''x'' # print_hex_loop bs @ c # r) None = Some (57, 2 + length (print_hex_loop bs))"
    using x by (simp add: h hex_prefix noted_def yy_accept_at YY_JAMSTATE_def numeral_3_eq_3)
  have "c_string (print_hex_loop bs) = print_hex_loop bs"
    unfolding c_string_def takeWhile_eq_all_conv using hexdigit(3) by blast
  then show "yy_action (yy_accept ! 57) (take (2 + length (print_hex_loop bs)) (CHR ''0'' # CHR ''x'' # print_hex_loop bs @ c # r)) 1 =
      Some (Some (HEXSTRING (print_hex_loop bs)), 1)"
    by (simp add: yy_accept_at yy_action_def)
qed simp_all

text \<open>Decimal numbers.\<close>

fun dec :: "nat \<Rightarrow> string" where
  "dec n = (if n < 10 then [nibble ! n] else dec (n div 10) @ [nibble ! (n mod 10)])"

declare dec.simps [simp del]

definition digit :: "char \<Rightarrow> bool" where
  "digit ch \<longleftrightarrow> ch \<in> set (take 10 nibble)"

lemma digit_nibble: "n < 10 \<Longrightarrow> digit (nibble ! n)"
proof -
  have "length nibble = 16" by (simp add: nibble_def)
  then show "n < 10 \<Longrightarrow> digit (nibble ! n)" unfolding digit_def in_set_conv_nth by (intro exI [of _ n]) simp
qed

lemma dec_digits: "ch \<in> set (dec n) \<Longrightarrow> digit ch"
proof (induction n arbitrary: ch rule: dec.induct)
  case (1 n)
  then show ?case using digit_nibble [of n] digit_nibble [of "n mod 10"] by (auto simp: dec.simps [of n] split: if_splits)
qed

lemma digit_states: "list_all (\<lambda>ch. yy_succ 1 ch \<in> {11, 12, 32} \<and> yy_succ 11 ch = 32 \<and> yy_succ 12 ch = 32 \<and> yy_succ 32 ch = 32)
    (take 10 nibble)"
  by (simp add: nibble_def yy_succ_def yy_cls_def yy_next_def yy_find_rec yy_tables_at Suc_Suc_0)

lemma digit_succ:
  assumes "digit ch"
  shows "yy_succ 1 ch \<in> {11, 12, 32}" "s \<in> {11, 12, 32} \<Longrightarrow> yy_succ s ch \<in> {11, 12, 32}"
  using digit_states assms by (auto simp: list_all_iff digit_def)

lemma hyphen_jam: "s \<in> {11, 12, 32} \<Longrightarrow> yy_succ s CHR ''-'' = 205"
  by (elim insertE emptyE; simp add: yy_eval)

lemma digit_value: "n < 10 \<Longrightarrow> of_char (nibble ! n) = 48 + n"
proof -
  have "list_all (\<lambda>n. of_char (nibble ! n) = 48 + n) [0..<10]" by (simp add: nibble_def)
  then show "n < 10 \<Longrightarrow> of_char (nibble ! n) = 48 + n" unfolding list_all_iff set_upt by simp
qed

lemma dec_value: "foldl (\<lambda>n c. 10 * n + (of_char c - 48)) 0 (dec n) = n"
proof (induction n rule: dec.induct)
  case (1 n)
  show ?case
  proof (cases "n < 10")
    case True
    then show ?thesis by (simp add: dec.simps [of n] digit_value)
  next
    case False
    then show ?thesis using 1 by (simp add: dec.simps [of n] digit_value)
  qed
qed

lemma lex_dec:
  assumes "n < 2 ^ 32"
  shows "yy_tokens 1 (dec n @ CHR ''-'' # r) = map_option (Cons (DIGIT n)) (yy_tokens 1 (CHR ''-'' # r))"
proof -
  obtain x h where h: "dec n = x # h" by (cases "dec n") (auto simp: dec.simps [of n] split: if_splits)
  have x: "yy_succ 1 x \<in> {11, 12, 32}" using dec_digits [of x n] h digit_succ(1) by simp
  have "\<exists>s' \<in> {11, 12, 32}. \<exists>la'. munch (yy_succ 1 x) 1 (h @ CHR ''-'' # r) None = munch s' (1 + length h) (CHR ''-'' # r) la'"
    by (rule munch_loop) (use dec_digits [of _ n] h digit_succ(2) x in auto)
  then obtain s' where s': "s' \<in> {11, 12, 32}" "munch (yy_succ 1 x) 1 (h @ CHR ''-'' # r) None = Some (s', 1 + length h)"
    using munch_jam [OF _ hyphen_jam] by (auto simp: yy_accept_at)
  have acc: "yy_accept ! s' = 5" using s'(1) by (auto simp: yy_accept_at)
  have m: "munch 1 0 (dec n @ CHR ''-'' # r) None = Some (s', length (dec n))"
    using s'(2) x by (auto simp: h noted_def yy_accept_at YY_JAMSTATE_def)
  have "atoi_u32 (dec n) = n" using assms by (simp add: atoi_u32_def dec_value)
  then have "yy_action (yy_accept ! s') (take (length (dec n)) (dec n @ CHR ''-'' # r)) 1 = Some (Some (DIGIT n), 1)"
    by (simp add: acc yy_action_def)
  from lex_token [OF m _ _ this, of "CHR ''-'' # r"] h show ?thesis by simp
qed

text \<open>A vertical bar in front of a number.\<close>

lemma bar_digit: "digit ch \<Longrightarrow> yy_succ 40 ch = 205"
proof -
  have "list_all (\<lambda>ch. yy_succ 40 ch = 205) (take 10 nibble)"
    by (simp add: nibble_def yy_succ_def yy_cls_def yy_next_def yy_find_rec yy_tables_at Suc_Suc_0)
  then show "digit ch \<Longrightarrow> yy_succ 40 ch = 205" by (simp add: list_all_iff digit_def)
qed

lemma bar_states: "yy_succ (Suc 0) CHR ''|'' = 19" "yy_succ 19 CHR '' '' = 40"
  by (simp_all add: yy_eval)

lemma lex_bar_dec:
  "yy_tokens 1 (CHR ''|'' # CHR '' '' # dec n @ r) = map_option (Cons PUNCT_VERTICAL_BAR) (yy_tokens 1 (CHR '' '' # dec n @ r))"
proof (rule lex_token)
  obtain x h where h: "dec n = x # h" by (cases "dec n") (auto simp: dec.simps [of n] split: if_splits)
  then have "yy_succ 40 x = 205" using dec_digits [of x n] bar_digit by simp
  then show "munch 1 0 (CHR ''|'' # CHR '' '' # dec n @ r) None = Some (19, 1)"
    by (simp add: h bar_states noted_def yy_accept_at YY_JAMSTATE_def)
qed (simp_all add: yy_accept_at yy_action_def)

text \<open>Comments.\<close>

lemma comment_classes: "list_all (\<lambda>c. c = 3 \<or> yy_next 13 c = 34 \<and> yy_next 34 c = 34) [Suc 0..<33]"
  by (simp add: yy_next_def yy_find_rec yy_tables_at Suc_Suc_0)

lemma newline_class: "yy_cls ch = 3 \<longleftrightarrow> ch = CHR 0x0A"
proof -
  have "list_all (\<lambda>c. yy_ec ! c = 3 \<longleftrightarrow> c = 10) [0..<256]" by (simp add: yy_ec_at)
  then have "yy_ec ! of_char ch = 3 \<longleftrightarrow> of_char ch = (10 :: nat)" unfolding list_all_iff set_upt by simp
  moreover have "of_char ch = (10 :: nat) \<longleftrightarrow> ch = CHR 0x0A" using of_char_eq_iff [where ?'a = nat, of ch "CHR 0x0A"] by simp
  ultimately show ?thesis by (auto simp: yy_cls_def)
qed

lemma comment_succ: "ch \<noteq> CHR 0x0A \<Longrightarrow> s \<in> {13, 34} \<Longrightarrow> yy_succ s ch \<in> {13, 34}"
  using comment_classes yy_cls_range [of ch] newline_class [of ch] unfolding list_all_iff set_upt
  by (auto simp: yy_succ_def)

lemma comment_end: "s \<in> {13, 34} \<Longrightarrow> yy_succ s CHR 0x0A = 205" "yy_succ (Suc 0) CHR '';'' = 13"
  by (elim insertE emptyE; simp add: yy_eval) (simp add: yy_eval)

lemma lex_comment:
  assumes "CHR 0x0A \<notin> set c"
  shows "yy_tokens 1 (CHR '';'' # c @ CHR 0x0A # r) = yy_tokens 1 (CHR 0x0A # r)"
proof -
  have "\<exists>s' \<in> {13, 34}. \<exists>la'. munch 13 1 (c @ CHR 0x0A # r) None = munch s' (1 + length c) (CHR 0x0A # r) la'"
  proof (rule munch_loop)
    show "yy_succ s ch \<in> {13, 34}" if "s \<in> {13, 34}" and "ch \<in> set c" for s ch
      using comment_succ [of ch s] that assms by blast
  qed auto
  then obtain s' where s': "s' \<in> {13, 34}" "munch 13 1 (c @ CHR 0x0A # r) None = Some (s', 1 + length c)"
    using munch_jam [OF _ comment_end(1)] by (auto simp: yy_accept_at)
  have acc: "yy_accept ! s' = 30" using s'(1) by (auto simp: yy_accept_at)
  have m: "munch 1 0 (CHR '';'' # c @ CHR 0x0A # r) None = Some (s', 1 + length c)"
    using s'(2) by (simp add: comment_end(2) noted_def yy_accept_at YY_JAMSTATE_def)
  have "yy_action (yy_accept ! s') (take (1 + length c) (CHR '';'' # c @ CHR 0x0A # r)) 1 = Some (None, 1)"
    by (simp add: acc yy_action_def)
  from lex_skip [OF m _ _ this] show ?thesis by simp
qed

text \<open>
  Titles: in the start state \<open>TITLE_STATE\<close>, the states behind two or more characters of a title that
  does not begin with a semicolon are those where its rule matches.
\<close>

definition title_char :: "nat \<Rightarrow> bool" where
  "title_char c \<longleftrightarrow> c \<noteq> 3 \<and> c \<noteq> 30 \<and> c \<noteq> 32"

definition title_state :: "nat \<Rightarrow> bool" where
  "title_state s \<longleftrightarrow> yy_accept ! s = 2 \<and> 4 < s \<and> s \<noteq> 27 \<and> s \<noteq> 53"

definition title_state_ok :: "nat \<Rightarrow> bool" where
  "title_state_ok s \<longleftrightarrow> yy_next s 32 = 205 \<and> (\<forall>c. 0 < c \<and> c < 33 \<and> title_char c \<longrightarrow> title_state (yy_next s c))"

lemmas title_check = title_char_def title_state_def yy_next_def yy_find_rec yy_tables_at Suc_Suc_0

text \<open>Their entries in the table, and what they take from the default state 207.\<close>

lemma title_defaults: "list_all (\<lambda>s. title_state s \<longrightarrow> yy_def ! s = 207 \<or> yy_def ! s = 52) [0..<206]"
  by (simp add: title_state_def yy_tables_at)

lemma title_entries: "list_all (\<lambda>i. yy_chk ! i < 206 \<longrightarrow> title_state (yy_chk ! i) \<longrightarrow>
    (if i = yy_base ! (yy_chk ! i) + 32 then yy_nxt ! i = 205
     else title_char (i - yy_base ! (yy_chk ! i)) \<longrightarrow> title_state (yy_nxt ! i))) [0..<329]"
  by (simp add: title_state_def title_char_def yy_tables_at)

lemma title_default: "list_all (\<lambda>c. (c = 32 \<longrightarrow> yy_next 207 (yy_meta ! c) = 205) \<and>
    (title_char c \<longrightarrow> title_state (yy_next 207 (yy_meta ! c)))) [Suc 0..<33]"
  by (simp add: title_check)

lemma title_first: "list_all (\<lambda>c. title_char c \<longrightarrow> c \<noteq> 8 \<longrightarrow> yy_next 3 c = 21 \<or> title_state (yy_next 3 c)) [Suc 0..<33]"
  by (simp add: title_check)

lemma title_blank: "list_all (\<lambda>c. title_char c \<longrightarrow> title_state (yy_next 21 c)) [Suc 0..<33]"
  by (simp add: title_check)

definition title_text :: "string \<Rightarrow> bool" where
  "title_text t \<longleftrightarrow> 2 \<le> length t \<and> hd t \<noteq> CHR '';'' \<and>
     (\<forall>ch \<in> set t. ch \<noteq> CHR 0x00 \<and> ch \<noteq> CHR 0x0A \<and> ch \<noteq> CHR 0x5C \<and> ch \<noteq> CHR ''|'')"

lemma special_classes: "list_all (\<lambda>c. (yy_ec ! c = 8 \<longleftrightarrow> c = 59) \<and> (yy_ec ! c = 30 \<longleftrightarrow> c = 92) \<and> (yy_ec ! c = 32 \<longleftrightarrow> c = 124)) [0..<256]"
  by (simp add: yy_ec_at)

lemma special_class:
  "yy_cls ch = 8 \<longleftrightarrow> ch = CHR '';''" "yy_cls ch = 30 \<longleftrightarrow> ch = CHR 0x5C" "yy_cls ch = 32 \<longleftrightarrow> ch = CHR ''|''"
proof -
  have "(yy_ec ! of_char ch = 8 \<longleftrightarrow> of_char ch = (59 :: nat)) \<and> (yy_ec ! of_char ch = 30 \<longleftrightarrow> of_char ch = (92 :: nat)) \<and>
      (yy_ec ! of_char ch = 32 \<longleftrightarrow> of_char ch = (124 :: nat))"
    using special_classes unfolding list_all_iff set_upt by simp
  moreover have "of_char ch = (59 :: nat) \<longleftrightarrow> ch = CHR '';''" "of_char ch = (92 :: nat) \<longleftrightarrow> ch = CHR 0x5C"
    "of_char ch = (124 :: nat) \<longleftrightarrow> ch = CHR ''|''"
    using of_char_eq_iff [where ?'a = nat, of ch "CHR '';''"] of_char_eq_iff [where ?'a = nat, of ch "CHR 0x5C"]
      of_char_eq_iff [where ?'a = nat, of ch "CHR ''|''"] by simp_all
  ultimately show "yy_cls ch = 8 \<longleftrightarrow> ch = CHR '';''" "yy_cls ch = 30 \<longleftrightarrow> ch = CHR 0x5C" "yy_cls ch = 32 \<longleftrightarrow> ch = CHR ''|''"
    by (auto simp: yy_cls_def)
qed

lemma title_char_cls: "ch \<noteq> CHR 0x0A \<Longrightarrow> ch \<noteq> CHR 0x5C \<Longrightarrow> ch \<noteq> CHR ''|'' \<Longrightarrow> title_char (yy_cls ch)"
  by (simp add: title_char_def newline_class special_class)

lemma title_next:
  assumes "title_state s" and "s < 206" and "0 < c" and "c < 33"
    and "yy_def ! s = 52 \<Longrightarrow> (c = 32 \<longrightarrow> yy_next 52 c = 205) \<and> (title_char c \<longrightarrow> title_state (yy_next 52 c))"
  shows "(c = 32 \<longrightarrow> yy_next s c = 205) \<and> (title_char c \<longrightarrow> title_state (yy_next s c))"
proof (cases "yy_chk ! (yy_base ! s + c) = s")
  case True
  have s: "0 < s" "s < 210" "s \<noteq> 205"
    using assms(1,2) by (auto simp: title_state_def yy_accept_at)
  then have "yy_base ! s + c < 329"
    using yy_stateD [of s] assms(4) by (simp add: yy_state_ok_def)
  then show ?thesis
    using title_entries True yy_find_rec [OF s(1,2) assms(4)] assms(1,2)
    unfolding list_all_iff set_upt by (fastforce simp: yy_next_def title_char_def)
next
  case False
  have s: "0 < s" "s < 210" "s \<noteq> 205"
    using assms(1,2) by (auto simp: title_state_def yy_accept_at)
  have "yy_def ! s = 207 \<or> yy_def ! s = 52"
    using title_defaults assms(1,2) unfolding list_all_iff set_upt by auto
  moreover have "yy_next s c = yy_next (yy_def ! s) (if 206 \<le> yy_def ! s then yy_meta ! c else c)"
    using False yy_find_rec [OF s(1,2) assms(4)] by (simp add: yy_next_def)
  moreover have "(c = 32 \<longrightarrow> yy_next 207 (yy_meta ! c) = 205) \<and> (title_char c \<longrightarrow> title_state (yy_next 207 (yy_meta ! c)))"
    using title_default assms(3,4) unfolding list_all_iff set_upt by auto
  ultimately show ?thesis
    using assms(5) by auto
qed

lemma title_stateD:
  assumes "title_state s" and "s < 206"
  shows "title_state_ok s"
proof -
  have d: "yy_def ! 52 = 207" and t: "title_state 52"
    by (simp_all add: title_state_def yy_accept_at yy_def_at)
  have n: "(c = 32 \<longrightarrow> yy_next 52 c = 205) \<and> (title_char c \<longrightarrow> title_state (yy_next 52 c))" if "0 < c" "c < 33" for c
    using title_next [OF t _ that] d by simp
  show ?thesis
    using title_next [OF assms _ _ n] n [of 32] title_next [OF assms, of 32] by (simp add: title_state_ok_def title_char_def)
qed

lemma title_state_succ:
  assumes "title_state s" and "live s" and "title_char (yy_cls ch)"
  shows "title_state (yy_succ s ch)"
  using title_stateD [OF assms(1)] assms yy_cls_range [of ch] unfolding title_state_ok_def list_all_iff set_upt
  by (simp add: live_def yy_succ_def)

lemma title_succ_first:
  assumes "ch \<noteq> CHR '';''" and "title_char (yy_cls ch)"
  shows "yy_succ 3 ch = 21 \<or> title_state (yy_succ 3 ch)"
  using title_first assms yy_cls_range [of ch] unfolding list_all_iff set_upt
  by (simp add: yy_succ_def special_class [symmetric])

lemma title_succ_blank: "title_char (yy_cls ch) \<Longrightarrow> title_state (yy_succ 21 ch)"
  using title_blank yy_cls_range [of ch] unfolding list_all_iff set_upt by (simp add: yy_succ_def)

lemma lex_title:
  assumes "title_text t"
  shows "yy_tokens 3 (t @ CHR ''|'' # r) = map_option (Cons (DISC_TITLE t)) (yy_tokens 1 (CHR ''|'' # r))"
proof -
  obtain x y zs where t: "t = x # y # zs" using assms by (cases t rule: remdups_adj.cases) (auto simp: title_text_def)
  have ch: "title_char (yy_cls c)" "c \<noteq> CHR 0x00" if "c \<in> set t" for c
    using assms that by (auto simp: title_text_def title_char_cls)
  let ?s1 = "yy_succ 3 x" and ?s2 = "yy_succ (yy_succ 3 x) y"
  have live: "live ?s1" "live ?s2" by (simp_all add: live_succ)
  have s1: "?s1 = 21 \<or> title_state ?s1" using title_succ_first [of x] ch assms by (simp add: t title_text_def)
  then have s2: "title_state ?s2"
  proof
    assume "?s1 = 21"
    then show ?thesis using title_succ_blank [of y] ch(1) [of y] t by simp
  next
    assume "title_state ?s1"
    then show ?thesis using title_state_succ [OF _ live(1)] ch(1) [of y] t by simp
  qed
  let ?S = "{s. title_state s \<and> live s}"
  have "\<exists>s' \<in> ?S. \<exists>la'. munch ?s2 2 (zs @ CHR ''|'' # r) (noted ?s1 1 (Some (3, 0))) = munch s' (2 + length zs) (CHR ''|'' # r) la'"
  proof (rule munch_loop)
    show "yy_succ s c \<in> ?S" if "s \<in> ?S" and "c \<in> set zs" for s c
      using that title_state_succ [of s c] live_succ [of s c] ch(1) [of c] t by simp
    show "s \<noteq> 205" if "s \<in> ?S" for s using that by (auto simp: title_state_def yy_accept_at)
    show "?s2 \<in> ?S" using s2 live by simp
  qed
  then obtain s' la' where s': "title_state s'" "live s'"
    "munch ?s2 2 (zs @ CHR ''|'' # r) (noted ?s1 1 (Some (3, 0))) = munch s' (2 + length zs) (CHR ''|'' # r) la'" by blast
  have "yy_succ s' CHR ''|'' = 205" "yy_accept ! s' = 2"
    using title_stateD [OF s'(1)] s'(1,2) by (simp_all add: title_state_ok_def title_state_def live_def yy_succ_def)
  then have m: "munch ?s2 2 (zs @ CHR ''|'' # r) (noted ?s1 1 (Some (3, 0))) = Some (s', 2 + length zs)"
    using s'(3) munch_jam by simp
  have jam: "?s1 \<noteq> 205" "?s2 \<noteq> 205" using s1 s2 by (auto simp: title_state_def yy_accept_at)
  have m': "munch 3 0 (t @ CHR ''|'' # r) None = Some (s', length t)"
    using m jam by (simp add: t YY_JAMSTATE_def noted_def [of 3] yy_accept_at numeral_2_eq_2)
  have "c_string t = t" unfolding c_string_def takeWhile_eq_all_conv using ch(2) by blast
  then have act: "yy_action (yy_accept ! s') (take (length t) (t @ CHR ''|'' # r)) 3 = Some (Some (DISC_TITLE t), 1)"
    using s'(1) by (simp add: title_state_def yy_action_def INITIAL_def)
  show ?thesis by (rule lex_token [OF m' start_ok(3) _ act]) simp_all
qed

section \<open>Lines\<close>

abbreviation NL :: char where "NL \<equiv> CHR 0x0A"

fun uk_text :: "(nat \<times> byte list) list \<Rightarrow> string" where
  "uk_text [] = [NL]"
| "uk_text [(n, k)] = dec n @ ''-0x'' @ print_hex_loop k @ [NL]"
| "uk_text ((n, k) # ks) = dec n @ ''-0x'' @ print_hex_loop k @ '' | '' @ uk_text ks"

primrec line_text :: "cfg_line \<Rightarrow> string" where
  "line_text (DkLine e) = ''| DK | DEVICE_KEY 0x'' @ print_hex_loop (dk_key e) @ '' | DEVICE_NODE 0x'' @ hex_node e @
     '' | KEY_UV 0x'' @ hex_uv e @ '' | KEY_U_MASK_SHIFT 0x'' @ hex_shift e @ [NL]"
| "line_text (PkLine k) = ''| PK | 0x'' @ print_hex_loop k @ [NL]"
| "line_text (CertLine e) = ''| HC | HOST_PRIV_KEY 0x'' @ print_hex_loop (host_priv_key e) @ '' | HOST_CERT 0x'' @
     print_hex_loop (host_cert e) @ [NL]"
| "line_text (TitleLine t e) = ''0x'' @ print_hex_loop (te_discid e) @ '' ='' @ t @ ''| M | 0x'' @ print_hex_loop (te_mk e) @
     '' | I | 0x'' @ print_hex_loop (te_vid e) @ '' | V | 0x'' @ print_hex_loop (te_vuk e) @
     (if te_uk e = [] then [NL] else '' | U | '' @ uk_text (te_uk e))"
| "line_text (BadLine junk) = ''?'' @ replicate (length junk) (CHR ''?'') @ [NL]"
| "line_text BlankLine = [NL]"
| "line_text (CommentLine c) = '';'' @ c @ [NL]"

primrec text_ok :: "cfg_line \<Rightarrow> bool" where
  "text_ok (DkLine e) = dk_ok e"
| "text_ok (PkLine k) = (length k = 16)"
| "text_ok (CertLine e) = (length (host_priv_key e) = 20 \<and> length (host_cert e) = 92)"
| "text_ok (TitleLine t e) = (title_text t \<and> title_ok e \<and> (\<forall>(n, k) \<in> set (te_uk e). n < 2 ^ 32))"
| "text_ok (BadLine junk) = (set junk \<subseteq> {BAD_ENTRY})"
| "text_ok BlankLine = True"
| "text_ok (CommentLine c) = (NL \<notin> set c)"

lemma hex_end [simp]: "yy_succ 57 CHR '' '' = 205" "yy_succ 57 NL = 205"
  by (simp_all add: yy_eval)

lemmas lex_fixed = lex_entry_dk lex_entry_pk lex_entry_hc lex_entry_mek lex_entry_vid lex_entry_vuk lex_entry_uk lex_blank lex_newline lex_equals lex_hyphen lex_device_key lex_device_node lex_key_uv lex_key_u_mask_shift lex_host_priv_key lex_host_cert
  lex_bar_device lex_bar_key lex_bar_host lex_bad

lemmas lex_all = lex_fixed lex_hex lex_dec lex_bar_dec lex_comment lex_title

lemma nonempty: "length xs = n \<Longrightarrow> 0 < n \<Longrightarrow> xs \<noteq> []"
  by auto

lemma lex_uk:
  "uks \<noteq> [] \<Longrightarrow> \<forall>(n, k) \<in> set uks. n < 2 ^ 32 \<and> length k = 16 \<Longrightarrow>
   yy_tokens 1 (uk_text uks @ r) = map_option ((@) (uk_tokens uks)) (yy_tokens 1 r)"
proof (induction uks rule: uk_text.induct)
  case 1
  then show ?case by simp
next
  case (2 n k)
  then have "k \<noteq> []" by auto
  with 2 show ?case by (simp add: lex_all [simplified] option.map_comp comp_def del: print_hex_loop.simps)
next
  case (3 n k x ks)
  then have k: "k \<noteq> []" by auto
  obtain m where m: "uk_text (x # ks) = dec (fst x) @ m" by (cases x; cases ks) auto
  have "yy_tokens 1 (uk_text (x # ks) @ r) = map_option ((@) (uk_tokens (x # ks))) (yy_tokens 1 r)" using 3 by auto
  then show ?case using 3(3) k m by (simp add: lex_all [simplified] option.map_comp comp_def del: print_hex_loop.simps)
qed

lemma lex_line:
  assumes "text_ok x" and r: "yy_tokens 1 r = Some ts"
  shows "yy_tokens 1 (line_text x @ r) = Some (line_tokens x @ ts)"
proof (cases x)
  case (DkLine e)
  then have "dk_key e \<noteq> []" using assms by (auto simp: dk_ok_def)
  moreover have "be_enc 8 v \<noteq> []" "be_enc 4 v \<noteq> []" for v by (rule nonempty [OF length_be_enc]; simp)+
  ultimately show ?thesis unfolding DkLine using r
    by (simp add: dk_tokens_def hex_node_def hex_uv_def hex_shift_def lex_all [simplified] option.map_comp comp_def
        del: print_hex_loop.simps)
next
  case (PkLine k)
  then have "k \<noteq> []" using assms by auto
  then show ?thesis unfolding PkLine using r
    by (simp add: pk_tokens_def lex_all [simplified] option.map_comp comp_def del: print_hex_loop.simps)
next
  case (CertLine e)
  then have "host_priv_key e \<noteq> []" "host_cert e \<noteq> []" using assms by auto
  then show ?thesis unfolding CertLine using r
    by (simp add: cert_tokens_def lex_all [simplified] option.map_comp comp_def del: print_hex_loop.simps)
next
  case (TitleLine t e)
  then have e: "te_discid e \<noteq> []" "te_mk e \<noteq> []" "te_vid e \<noteq> []" "te_vuk e \<noteq> []" "title_text t"
    "\<forall>(n, k) \<in> set (te_uk e). n < 2 ^ 32 \<and> length k = 16"
    using assms by (auto simp: title_ok_def wf_title_def)
  show ?thesis
  proof (cases "te_uk e = []")
    case True
    then show ?thesis unfolding TitleLine using r e
      by (simp add: title_tokens_def lex_all [simplified] option.map_comp comp_def del: print_hex_loop.simps)
  next
    case False
    then show ?thesis unfolding TitleLine using r e lex_uk [OF False e(6), of r]
      by (simp add: title_tokens_def lex_all [simplified] option.map_comp comp_def del: print_hex_loop.simps)
  qed
next
  case (BadLine junk)
  then have "junk = replicate (length junk) BAD_ENTRY" using assms by (simp add: subset_iff replicate_eqI)
  moreover have "yy_tokens 1 (replicate n (CHR ''?'') @ s) = map_option ((@) (replicate n BAD_ENTRY)) (yy_tokens 1 s)" for n s
    by (induction n) (simp_all add: lex_fixed [simplified] option.map_comp comp_def option.map_ident)
  ultimately show ?thesis unfolding BadLine using r
    by (simp add: lex_fixed [simplified] comp_def)
next
  case BlankLine
  then show ?thesis using r by (simp add: lex_fixed [simplified] comp_def)
next
  case (CommentLine c)
  then show ?thesis using assms by (simp add: lex_all [simplified] comp_def)
qed

lemma lex_lines:
  "list_all text_ok xs \<Longrightarrow> yy_tokens 1 (concat (map line_text xs)) = Some (concat (map line_tokens xs))"
proof (induction xs)
  case Nil
  then show ?case using yy_tokens_empty [of 1] by simp
next
  case (Cons x xs)
  then show ?case using lex_line [of x "concat (map line_text xs)"] by simp
qed

end
