(* ===== verification/KeydbConfig.thy ===== *)
theory KeydbConfig
  imports KeydbText
begin

text \<open>
  \<open>keydbcfg_parse_config\<close> of \<^verbatim>\<open>SMP/src/file/keydbcfg-parser.c\<close>: opening the file, the
  scanner and the parser together, and what a \<^verbatim>\<open>KEYDB.cfg\<close> in the usual form gives.
\<close>

definition SIZEOF_YYGUTS :: nat where "SIZEOF_YYGUTS = 152"

text \<open>
  The result of \<open>libaacs_yylex_init\<close> is not looked at: without memory the scanner is a null pointer,
  which \<open>libaacs_yyset_in\<close> writes to.  The configuration is never null.
\<close>

definition keydbcfg_parse_config ::
    "fs_env \<Rightarrow> fs \<Rightarrow> config_file \<Rightarrow> string ptr \<Rightarrow> byte list ptr \<Rightarrow> bool \<Rightarrow> (int \<times> config_file) ub" where
  "keydbcfg_parse_config E s cf path disc_id all_discs =
     (case path of None \<Rightarrow> Some (0, cf)
      | Some path \<Rightarrow>
          (case file_open_r E s path of None \<Rightarrow> Some (0, cf)
           | Some fp \<Rightarrow> do {
               want_disc_id \<leftarrow> (case disc_id of None \<Rightarrow> Some None | Some d \<Rightarrow> map_option Some (str_print_hex 41 d 20));
               if \<not> fe_alloc E SIZEOF_YYGUTS then None
               else do {
                 toks \<leftarrow> yy_tokens INITIAL (chars (fh_data fp));
                 (retval, cf) \<leftarrow> yyparse (fe_alloc E) toks cf
                   \<lparr>ps_celist = None, ps_dkplist = None, ps_want_disc_id = want_disc_id, ps_all_discs = all_discs,
                    ps_hexkey_size = 0, ps_hexkey = []\<rparr>;
                 Some (if retval \<noteq> 0 then 0 else 1, cf)
               }
             }))"

text \<open>As the loading functions call it: the entries of one disc at most.\<close>

definition keydb_parser :: "fs_env \<Rightarrow> cfg_parser" where
  "keydb_parser E s cf path disc_id = the (keydbcfg_parse_config E s cf (Some path) disc_id False)"

section \<open>Safety\<close>

lemma str_print_hex_disc: "length d = 20 \<Longrightarrow> str_print_hex 41 d 20 = Some (print_hex_loop d)"
  by (simp add: str_print_hex_Some del: print_hex_loop.simps)



section \<open>Reading what was printed\<close>

lemma text_ok_line_ok: "text_ok x \<Longrightarrow> line_ok x"
  by (cases x) auto

lemma parse_config_lines:
  assumes "\<And>n. fe_alloc E n" and "file_open_r E s p = Some fp" and "fh_data fp = bytes (concat (map line_text xs))"
    and "list_all text_ok xs" and "\<forall>d. disc_id = Some d \<longrightarrow> length d = 20"
  shows "keydbcfg_parse_config E s cf (Some p) disc_id all_discs =
    Some (1, fold (apply_line (map_option print_hex_loop disc_id) all_discs) xs cf)"
proof -
  let ?w = "map_option print_hex_loop disc_id"
  have w: "(case disc_id of None \<Rightarrow> Some None | Some d \<Rightarrow> map_option Some (str_print_hex 41 d 20)) = Some ?w"
    using assms(5) by (auto simp: str_print_hex_disc split: option.split)
  have toks: "yy_tokens INITIAL (chars (fh_data fp)) = Some (concat (map line_tokens xs))"
    unfolding assms(3) chars_bytes INITIAL_def by (rule lex_lines [OF assms(4)])
  have "\<forall>v. ?w = Some v \<longrightarrow> length v = 40" using assms(5) by auto
  moreover have "list_all line_ok xs" using assms(4) text_ok_line_ok by (auto simp: list_all_iff)
  ultimately show ?thesis
    using yyparse_lines [of "fe_alloc E" ?w xs cf None all_discs "[]", OF assms(1)] assms(1,2) w toks
    by (simp add: keydbcfg_parse_config_def pst_def)
qed

text \<open>
  C9: Reading a \<^verbatim>\<open>KEYDB.cfg\<close> is the inverse of printing it: scanner and parser together
  give the device keys, processing keys and host certificates of its lines, and of its discs the one
  with the id that is asked for, with media key, volume id, volume unique key and all unit keys;
  comments, empty lines and lines that begin with garbage do not disturb this.
\<close>

theorem parse_config_print:
  assumes "\<And>n. fe_alloc E n" and "file_open_r E s p = Some fp" and "fh_data fp = bytes (concat (map line_text xs))"
    and "list_all text_ok xs" and "length d = 20"
  shows "keydbcfg_parse_config E s cf (Some p) (Some d) False =
    Some (1, fold (apply_line (Some (print_hex_loop d)) False) xs cf)"
  using parse_config_lines [OF assms(1-4), of "Some d" cf False] assms(5) by simp

lemma example_text_ok: "list_all text_ok
   [CommentLine '' keys'', BlankLine, PkLine (replicate 16 1),
    TitleLine '' A disc '' \<lparr>te_discid = replicate 20 2, te_mk = zeros 16, te_vid = replicate 16 3, te_vuk = replicate 16 4,
       te_uk = [(1, replicate 16 5), (2, replicate 16 6)]\<rparr>]"
  by (simp add: title_text_def title_ok_def wf_title_def)

definition example_text :: string where
  "example_text = concat (map line_text
   [CommentLine '' keys'', BlankLine, PkLine (replicate 16 1),
    TitleLine '' A disc '' \<lparr>te_discid = replicate 20 2, te_mk = zeros 16, te_vid = replicate 16 3, te_vuk = replicate 16 4,
       te_uk = [(1, replicate 16 5), (2, replicate 16 6)]\<rparr>])"

theorem parse_config_print_witness:
  "keydbcfg_parse_config open_env \<lparr>fs_files = [''/k'' \<mapsto> bytes example_text], fs_exists = (\<lambda>_. True)\<rparr> no_config
      (Some ''/k'') (Some (replicate 20 2)) False =
    Some (1, no_config\<lparr>cf_pkl := [replicate 16 1], cf_list := [\<lparr>te_discid = replicate 20 2, te_mk = zeros 16,
      te_vid = replicate 16 3, te_vuk = replicate 16 4, te_uk = [(1, replicate 16 5), (2, replicate 16 6)]\<rparr>]\<rparr>)"
proof -
  have E: "\<And>n. fe_alloc open_env n" by simp
  have o: "file_open_r open_env \<lparr>fs_files = [''/k'' \<mapsto> bytes example_text], fs_exists = (\<lambda>_. True)\<rparr> ''/k'' =
      Some \<lparr>fh_data = bytes example_text, fh_pos = 0\<rparr>"
    by (simp add: file_open_r_def)
  show ?thesis
    using parse_config_print [OF E o _ example_text_ok, of "replicate 20 2" no_config]
    by (simp add: example_text_def wanted_def no_config_def del: print_hex_loop.simps line_text.simps)
qed

section \<open>Defects\<close>

text \<open>
  A disc with an empty title: behind \<open>=\<close> the end of the line is a bad entry instead of the end of
  the line, and skipping to the next end of a line swallows the line that follows.
\<close>

lemma lex_title_newline: "yy_tokens 3 (NL # r) = map_option (Cons BAD_ENTRY) (yy_tokens 1 r)"
  by (rule lex_token [where t = 22 and k = 1]) (simp_all add: yy_eval)

definition untitled :: "byte list \<Rightarrow> string" where
  "untitled d = ''0x'' @ print_hex_loop d @ '' ='' @ [NL]"

lemma untitled_tokens:
  assumes "length d = 20" and "length k = 16"
  shows "yy_tokens INITIAL (untitled d @ line_text (PkLine k)) =
    Some ([HEXSTRING (print_hex_loop d), PUNCT_EQUALS_SIGN, BAD_ENTRY] @ pk_tokens k)"
proof -
  have "d \<noteq> []" "k \<noteq> []" using assms by auto
  then show ?thesis
    using yy_tokens_empty [of 1]
    by (simp add: untitled_def pk_tokens_def INITIAL_def lex_title_newline [simplified] lex_all [simplified]
        del: print_hex_loop.simps)
qed

lemma untitled_parse:
  "length d = 20 \<Longrightarrow> yyparse alloc ([HEXSTRING (print_hex_loop d), PUNCT_EQUALS_SIGN, BAD_ENTRY] @ pk_tokens k) cf (pst c dk w a s) =
    Some (0, cf)"
  by (simp add: yyparse_def pk_tokens_def yyrun yyerror_run)

text \<open>
  A disc without a title makes the parser drop the line behind it: the processing key that
  follows is not read, and nothing is reported.
\<close>

theorem untitled_swallows_next:
  assumes "\<And>n. fe_alloc E n" and "file_open_r E s p = Some fp" and "length d = 20" and "length k = 16"
    and "fh_data fp = bytes (untitled d @ line_text (PkLine k))"
  shows "keydbcfg_parse_config E s cf (Some p) None all_discs = Some (1, cf)"
proof -
  have "yyparse (fe_alloc E) ([HEXSTRING (print_hex_loop d), PUNCT_EQUALS_SIGN, BAD_ENTRY] @ pk_tokens k) cf
      (pst None None None all_discs []) = Some (0, cf)"
    by (rule untitled_parse [OF assms(3)])
  then show ?thesis
    using assms(1,2) untitled_tokens [OF assms(3,4)] by (simp add: keydbcfg_parse_config_def assms(5) pst_def)
qed

theorem untitled_swallows_next_witness:
  "keydbcfg_parse_config open_env \<lparr>fs_files = [''/k'' \<mapsto> bytes (untitled (zeros 20) @ line_text (PkLine (replicate 16 1)))],
      fs_exists = (\<lambda>_. True)\<rparr> no_config (Some ''/k'') None False = Some (1, no_config)"
proof -
  have "file_open_r open_env \<lparr>fs_files = [''/k'' \<mapsto> bytes (untitled (zeros 20) @ line_text (PkLine (replicate 16 1)))],
      fs_exists = (\<lambda>_. True)\<rparr> ''/k'' = Some \<lparr>fh_data = bytes (untitled (zeros 20) @ line_text (PkLine (replicate 16 1))), fh_pos = 0\<rparr>"
    by (simp add: file_open_r_def)
  from untitled_swallows_next [OF _ this, of "zeros 20" "replicate 16 1" no_config False] show ?thesis by simp
qed

end
