(* ===== verification/Path.thy ===== *)
theory Path
  imports File
begin

text \<open>
  \<^verbatim>\<open>file/path.c\<close>: the name of a device without links and relative parts.  The working
  directory and \<open>readlink\<close> are parameters.
\<close>

section \<open>Resolving a path\<close>

definition MAX_LINKS :: nat where "MAX_LINKS = 32"
definition AACS_PATH_MAX :: nat where "AACS_PATH_MAX = 1024"

text \<open>What \<open>readlink\<close> says: the target, \<open>EINVAL\<close> for what is no link, another error.\<close>

datatype link = Link string | NoLink | LinkError

record path_env =
  pe_alloc :: "nat \<Rightarrow> bool"
  pe_getcwd :: "string option"
  pe_readlink :: "string \<Rightarrow> link"

text \<open>\<open>new_path\<close>: the part of \<open>resolved_path\<close> in front of the position to write to.\<close>

definition put_char :: "string \<Rightarrow> char \<Rightarrow> string ub" where
  "put_char new_path c = (if length new_path < AACS_PATH_MAX then Some (new_path @ [c]) else None)"

text \<open>
  Copying a component from position \<open>off\<close> of \<open>tmp_path\<close>: the rest of the path, its position, what is
  written; \<open>None\<close> inside \<open>ub\<close> where the function gives up.
\<close>

fun copy_component :: "nat \<Rightarrow> string \<Rightarrow> string \<Rightarrow> (nat \<times> string \<times> string) option ub" where
  "copy_component off [] new_path = Some (Some (off, [], new_path))"
| "copy_component off (c # path) new_path =
     (if c = CHR ''/'' then Some (Some (off, c # path, new_path))
      else if AACS_PATH_MAX - 1 \<le> off then Some None
      else do { new_path \<leftarrow> put_char new_path c; copy_component (off + 1) path new_path })"

text \<open>Back to behind the slash in front of the last component; the position is behind a slash.\<close>

fun up_rev :: "string \<Rightarrow> string ub" where
  "up_rev [] = None"
| "up_rev (c # cs) = (case cs of [] \<Rightarrow> None | d # _ \<Rightarrow> if d = CHR ''/'' then Some cs else up_rev cs)"

definition back_up :: "string \<Rightarrow> string ub" where
  "back_up new_path = (if length new_path = 1 then Some new_path else map_option rev (up_rev (rev new_path)))"

text \<open>Back to in front of the last slash.\<close>

fun strip_rev :: "string \<Rightarrow> string ub" where
  "strip_rev [] = None"
| "strip_rev (c # cs) = (if c = CHR ''/'' then Some cs else strip_rev cs)"

definition is_dot :: "string \<Rightarrow> bool" where
  "is_dot path \<longleftrightarrow> path = ''.'' \<or> take 2 path = ''./''"

definition is_dotdot :: "string \<Rightarrow> bool" where
  "is_dotdot path \<longleftrightarrow> path = ''..'' \<or> take 3 path = ''../''"

text \<open>
  A link: \<open>strcat (link, path)\<close> needs room for both in \<open>link\<close>; the rest to resolve and the position
  to write to.
\<close>

definition follow_link :: "nat \<Rightarrow> string \<Rightarrow> string \<Rightarrow> string \<Rightarrow> (string \<times> string) option ub" where
  "follow_link off path new_path link =
     (if AACS_PATH_MAX - 1 \<le> length link then Some None
      else do {
        new_path \<leftarrow> (if take 1 link = ''/'' then Some [] else map_option rev (strip_rev (rev new_path)));
        if AACS_PATH_MAX - 1 \<le> off + length link then Some None
        else if AACS_PATH_MAX < length link + length path + 1 then None
        else Some (Some (link @ path, new_path))
      })"

definition add_slash :: "string \<Rightarrow> string \<Rightarrow> string ub" where
  "add_slash path new_path = (if path \<noteq> [] then put_char new_path (CHR ''/'') else Some new_path)"

lemma copy_component_length:
  "copy_component off path new_path = Some (Some (off', path', new')) \<Longrightarrow>
   length path' \<le> length path \<and> off' + length path' = off + length path \<and> new' = new_path @ take (length path - length path') path \<and>
   (path' = [] \<or> hd path' = CHR ''/'')"
proof (induction off path new_path rule: copy_component.induct)
  case (2 off c path new_path)
  then show ?case
    by (cases "c = CHR ''/''") (auto simp: put_char_def Suc_diff_le split: if_splits)
qed simp

lemma copy_component_less:
  assumes "copy_component off (c # path) new_path = Some (Some (off', path', new'))" and "c \<noteq> CHR ''/''"
  shows "length path' \<le> length path"
  using assms copy_component_length [of "off + 1" path "new_path @ [c]" off' path' new']
  by (auto simp: put_char_def split: if_splits)

function resolve_loop :: "path_env \<Rightarrow> nat \<Rightarrow> nat \<Rightarrow> string \<Rightarrow> string \<Rightarrow> string option ub" where
  "resolve_loop E readlinks off path new_path =
     (case path of
        [] \<Rightarrow> Some (Some new_path)
      | c # rest \<Rightarrow>
          if c = CHR ''/'' then resolve_loop E readlinks (off + 1) rest new_path
          else if is_dot path then resolve_loop E readlinks (off + 1) rest new_path
          else if is_dotdot path then do {
            new_path \<leftarrow> back_up new_path;
            resolve_loop E readlinks (off + 2) (drop 2 path) new_path
          }
          else do {
            r \<leftarrow> copy_component off path new_path;
            case r of None \<Rightarrow> Some None
            | Some (off, path', new_path) \<Rightarrow>
                if MAX_LINKS < readlinks then Some None
                else if AACS_PATH_MAX \<le> length new_path then None
                else
                  (case pe_readlink E new_path of
                     LinkError \<Rightarrow> Some None
                   | NoLink \<Rightarrow> do {
                       new_path \<leftarrow> add_slash path' new_path;
                       resolve_loop E (readlinks + 1) off path' new_path
                     }
                   | Link link \<Rightarrow> do {
                       r \<leftarrow> follow_link off path' new_path link;
                       case r of None \<Rightarrow> Some None
                       | Some (path, new_path) \<Rightarrow> do {
                           new_path \<leftarrow> add_slash path new_path;
                           resolve_loop E (readlinks + 1) 0 path new_path
                         }
                     })
          })"
  by pat_completeness auto
termination
  by (relation "measures [\<lambda>(E, readlinks, off, path, new_path). MAX_LINKS + 1 - readlinks, \<lambda>(E, readlinks, off, path, new_path). length path]")
    auto

text \<open>The result is a copy in allocated memory, which must end inside \<open>resolved_path\<close>.\<close>

definition aacs_resolve_path :: "path_env \<Rightarrow> string ptr \<Rightarrow> string ptr ub" where
  "aacs_resolve_path E path =
     (case path of None \<Rightarrow> Some None
      | Some path \<Rightarrow>
          if path = [] \<or> AACS_PATH_MAX - 2 \<le> length path then Some None
          else do {
            start \<leftarrow> (if hd path \<noteq> CHR ''/'' then
                (case pe_getcwd E of None \<Rightarrow> Some None
                 | Some cwd \<Rightarrow>
                     if AACS_PATH_MAX - 1 \<le> length cwd then Some None
                     else if cwd = [] then None
                     else if last cwd \<noteq> CHR ''/'' then map_option (\<lambda>p. Some (0, path, p)) (put_char cwd (CHR ''/''))
                     else Some (Some (0, path, cwd)))
              else Some (Some (1, tl path, ''/'')));
            case start of None \<Rightarrow> Some None
            | Some (off, path, new_path) \<Rightarrow> do {
                r \<leftarrow> resolve_loop E 0 off path new_path;
                case r of None \<Rightarrow> Some None
                | Some new_path \<Rightarrow>
                    if AACS_PATH_MAX \<le> length new_path then None
                    else Some (str_dup (pe_alloc E) (Some new_path))
              }
          })"

section \<open>A reference: the normal form of a path\<close>

declare resolve_loop.simps [simp del]

text \<open>An ordinary component names something; the others are empty or relative.\<close>

definition ordinary :: "string \<Rightarrow> bool" where
  "ordinary c \<longleftrightarrow> c \<noteq> [] \<and> c \<noteq> ''.'' \<and> c \<noteq> ''..''"

text \<open>Walking the components from a directory, given by its components with the last one first.\<close>

primrec walk_parts :: "string list \<Rightarrow> string list \<Rightarrow> string list" where
  "walk_parts st [] = st"
| "walk_parts st (c # cs) =
     walk_parts (if ordinary c then c # st else if c = ''..'' then tl st else st) cs"

definition dir_path :: "string list \<Rightarrow> string" where
  "dir_path st = ''/'' @ concat (map (\<lambda>c. c @ ''/'') (rev st))"

definition normal_from :: "string list \<Rightarrow> string \<Rightarrow> string" where
  "normal_from st path =
     (let cs = split_sep path; d = dir_path (walk_parts st cs)
      in if ordinary (last cs) then butlast d else d)"

definition ordinary_count :: "string \<Rightarrow> nat" where
  "ordinary_count path = length [c \<leftarrow> split_sep path. ordinary c]"

abbreviation part_ok :: "string \<Rightarrow> bool" where
  "part_ok c \<equiv> c \<noteq> [] \<and> CHR ''/'' \<notin> set c"

lemma ordinary_special [simp]: "\<not> ordinary []" "\<not> ordinary ''.''" "\<not> ordinary ''..''"
  by (simp_all add: ordinary_def)

lemma split_sep_slash: "split_sep (CHR ''/'' # path) = [] # split_sep path"
  by simp

lemma split_sep_part:
  assumes "CHR ''/'' \<notin> set c"
  shows "split_sep c = [c]" and "split_sep (c @ CHR ''/'' # path) = c # split_sep path"
  using assms by (induction c) auto

lemma normal_from_slash: "normal_from st (CHR ''/'' # path) = normal_from st path"
  by (simp add: normal_from_def Let_def)

lemma ordinary_count_slash: "ordinary_count (CHR ''/'' # path) = ordinary_count path"
  by (simp add: ordinary_count_def)

lemma dir_path_Cons: "dir_path (c # st) = dir_path st @ c @ ''/''"
  by (simp add: dir_path_def)

lemma dir_path_ends: "\<exists>d. dir_path st = d @ ''/''"
  by (cases st) (auto simp: dir_path_def)

lemma up_rev_part:
  assumes "CHR ''/'' \<notin> set c" and "c \<noteq> []"
  shows "up_rev (x # c @ CHR ''/'' # d) = Some (CHR ''/'' # d)"
  using assms
proof (induction c arbitrary: x)
  case (Cons y c)
  then show ?case
    by (cases c) auto
qed simp

lemma back_up_dir_path:
  assumes "\<forall>c \<in> set st. part_ok c"
  shows "back_up (dir_path st) = Some (dir_path (tl st))"
proof (cases st)
  case Nil
  then show ?thesis
    by (simp add: dir_path_def back_up_def)
next
  case (Cons c cs)
  obtain d where d: "dir_path cs = d @ ''/''"
    using dir_path_ends by blast
  have "up_rev (rev (dir_path st)) = Some (rev (dir_path cs))"
    using assms up_rev_part [of "rev c" "CHR ''/''" "rev d"]
    by (simp add: Cons dir_path_Cons d)
  then show ?thesis
    using assms by (simp add: back_up_def Cons dir_path_Cons d)
qed

lemma copy_component_part:
  assumes "CHR ''/'' \<notin> set c" and "rest = [] \<or> hd rest = CHR ''/''"
    and "off + length c < AACS_PATH_MAX" and "length new_path + length c \<le> AACS_PATH_MAX"
  shows "copy_component off (c @ rest) new_path = Some (Some (off + length c, rest, new_path @ c))"
  using assms
proof (induction c arbitrary: off new_path)
  case Nil
  then show ?case
    by (cases rest) auto
next
  case (Cons x c)
  then show ?case
    by (auto simp: put_char_def)
qed

lemma is_dot_part:
  assumes "CHR ''/'' \<notin> set c" and "rest = [] \<or> hd rest = CHR ''/''"
  shows "is_dot (c @ rest) \<longleftrightarrow> c = ''.''"
proof (cases c)
  case Nil
  then show ?thesis
    using assms by (cases rest) (auto simp: is_dot_def)
next
  case (Cons a d)
  then show ?thesis
    using assms by (cases d; cases rest) (auto simp: is_dot_def)
qed

lemma is_dotdot_part:
  assumes "CHR ''/'' \<notin> set c" and "rest = [] \<or> hd rest = CHR ''/''"
  shows "is_dotdot (c @ rest) \<longleftrightarrow> c = ''..''"
proof (cases c)
  case Nil
  then show ?thesis
    using assms by (cases rest) (auto simp: is_dotdot_def)
next
  case (Cons a d)
  show ?thesis
  proof (cases d)
    case Nil
    then show ?thesis
      using assms Cons by (cases rest) (auto simp: is_dotdot_def numeral_3_eq_3)
  next
    case (Cons b e)
    then show ?thesis
      using assms \<open>c = a # d\<close> by (cases e; cases rest) (auto simp: is_dotdot_def numeral_3_eq_3)
  qed
qed

lemma resolve_loop_steps:
  "resolve_loop E n off [] p = Some (Some p)"
  "resolve_loop E n off (CHR ''/'' # path) p = resolve_loop E n (off + 1) path p"
  "is_dot path \<Longrightarrow> resolve_loop E n off path p = resolve_loop E n (off + 1) (tl path) p"
  "is_dotdot path \<Longrightarrow> resolve_loop E n off path p =
     Option.bind (back_up p) (resolve_loop E n (off + 2) (drop 2 path))"
  by (subst resolve_loop.simps; auto simp: is_dot_def is_dotdot_def split: list.splits)+

lemma resolve_loop_part:
  assumes "ordinary c" and "CHR ''/'' \<notin> set c" and "rest = [] \<or> hd rest = CHR ''/''"
    and "off + length c < AACS_PATH_MAX" and "length p + length c < AACS_PATH_MAX"
    and "pe_readlink E (p @ c) = NoLink"
  shows "resolve_loop E n off (c @ rest) p =
    (if MAX_LINKS < n then Some None
     else resolve_loop E (n + 1) (off + length c) rest (if rest = [] then p @ c else p @ c @ ''/''))"
proof -
  obtain x d where c: "c = x # d" "x \<noteq> CHR ''/''"
    using assms(1,2) by (cases c) auto
  have dots: "\<not> is_dot (x # d @ rest)" "\<not> is_dotdot (x # d @ rest)"
    using assms is_dot_part [OF assms(2,3)] is_dotdot_part [OF assms(2,3)] by (auto simp: c)
  have copy: "copy_component off (x # d @ rest) p = Some (Some (off + length c, rest, p @ c))"
    using copy_component_part [OF assms(2,3,4)] assms(5) by (simp add: c)
  show ?thesis
    using assms(5,6)
    by (subst resolve_loop.simps) (simp add: c dots copy add_slash_def put_char_def del: copy_component.simps)
qed

lemma normal_from_part:
  assumes "CHR ''/'' \<notin> set c"
  shows "normal_from st (c @ CHR ''/'' # path) = normal_from (walk_parts st [c]) path"
  by (simp add: normal_from_def Let_def split_sep_part [OF assms])

lemma normal_from_last:
  assumes "CHR ''/'' \<notin> set c"
  shows "normal_from st c = (if ordinary c then dir_path st @ c else dir_path (walk_parts st [c]))"
  by (simp add: normal_from_def Let_def split_sep_part [OF assms] dir_path_Cons butlast_append)

lemma ordinary_count_part:
  assumes "CHR ''/'' \<notin> set c"
  shows "ordinary_count c = (if ordinary c then 1 else 0)"
    and "ordinary_count (c @ CHR ''/'' # path) = (if ordinary c then 1 else 0) + ordinary_count path"
  by (simp_all add: ordinary_count_def split_sep_part [OF assms])

lemma path_cases:
  obtains (Nil) "path = []" | (Slash) path' where "path = CHR ''/'' # path'"
  | (Part) c rest where "path = c @ rest" "c \<noteq> []" "CHR ''/'' \<notin> set c" "rest = [] \<or> hd rest = CHR ''/''"
proof (cases path)
  case (Cons x xs)
  have s: "path = takeWhile (\<lambda>x. x \<noteq> CHR ''/'') path @ dropWhile (\<lambda>x. x \<noteq> CHR ''/'') path"
    by simp
  have n: "CHR ''/'' \<notin> set (takeWhile (\<lambda>x. x \<noteq> CHR ''/'') path)"
    using set_takeWhileD by fastforce
  have h: "dropWhile (\<lambda>x. x \<noteq> CHR ''/'') path = [] \<or> hd (dropWhile (\<lambda>x. x \<noteq> CHR ''/'') path) = CHR ''/''"
    using hd_dropWhile [of "\<lambda>x. x \<noteq> CHR ''/''" path] by auto
  show ?thesis
  proof (cases "x = CHR ''/''")
    case True
    then show ?thesis using Slash Cons by blast
  next
    case False
    then have "takeWhile (\<lambda>x. x \<noteq> CHR ''/'') path \<noteq> []"
      by (simp add: Cons)
    then show ?thesis using Part [OF s _ n h] by blast
  qed
qed (rule Nil)

lemma relative_part:
  assumes "\<not> ordinary c" and "CHR ''/'' \<notin> set c" and "rest = [] \<or> hd rest = CHR ''/''"
  shows "normal_from st (c @ rest) = normal_from (walk_parts st [c]) rest"
    and "ordinary_count (c @ rest) = ordinary_count rest"
proof -
  consider "rest = []" | r where "rest = CHR ''/'' # r"
    using assms(3) by (cases rest) auto
  note rest = this
  show "normal_from st (c @ rest) = normal_from (walk_parts st [c]) rest"
    using rest assms normal_from_last [of "[]"]
    by cases (simp_all add: normal_from_part normal_from_slash normal_from_last)
  show "ordinary_count (c @ rest) = ordinary_count rest"
    using rest assms ordinary_count_part(1) [of "[]"]
    by cases (simp_all add: ordinary_count_part ordinary_count_slash)
qed

lemma dir_path_tl: "length (dir_path (tl st)) \<le> length (dir_path st)"
  by (cases st) (simp_all add: dir_path_Cons)

lemma resolve_loop_normal:
  assumes links: "\<forall>p. pe_readlink E p = NoLink"
    and "n \<le> MAX_LINKS + 1" and "off + length path < AACS_PATH_MAX"
    and "length (dir_path st) + length path < AACS_PATH_MAX" and "\<forall>c \<in> set st. part_ok c"
  shows "resolve_loop E n off path (dir_path st) =
    Some (if ordinary_count path + n \<le> MAX_LINKS + 1 then Some (normal_from st path) else None)"
  using assms(2-)
proof (induction path arbitrary: n off st rule: length_induct)
  case (1 path)
  note IH = "1.IH" [rule_format]
  show ?case
  proof (cases path rule: path_cases)
    case Nil
    then show ?thesis
      using "1.prems" by (simp add: resolve_loop_steps ordinary_count_def normal_from_def Let_def)
  next
    case (Slash path')
    then show ?thesis
      using "1.prems" IH [of path' n "off + 1" st]
      by (simp add: resolve_loop_steps ordinary_count_slash normal_from_slash)
  next
    case (Part c rest)
    note rest = Part(4)
    consider (dot) "c = ''.''" | (dotdot) "c = ''..''" | (ord) "ordinary c"
      using Part(2) by (auto simp: ordinary_def)
    then show ?thesis
    proof cases
      case dot
      have "resolve_loop E n off path (dir_path st) = resolve_loop E n (off + 1) rest (dir_path st)"
        using is_dot_part [OF Part(3) rest] by (simp add: dot Part(1) resolve_loop_steps)
      then show ?thesis
        using "1.prems" IH [of rest n "off + 1" st] relative_part [OF _ Part(3) rest]
        by (simp add: dot Part(1))
    next
      case dotdot
      have "resolve_loop E n off path (dir_path st) = resolve_loop E n (off + 2) rest (dir_path (tl st))"
        using is_dotdot_part [OF Part(3) rest] back_up_dir_path [OF "1.prems"(4)]
        by (simp add: dotdot Part(1) resolve_loop_steps)
      moreover have "\<forall>c \<in> set (tl st). part_ok c"
        using "1.prems"(4) by (cases st) auto
      ultimately show ?thesis
        using "1.prems" IH [of rest n "off + 2" "tl st"] relative_part [OF _ Part(3) rest] dir_path_tl [of st]
        by (simp add: dotdot Part(1))
    next
      case ord
      have step: "resolve_loop E n off path (dir_path st) =
          (if MAX_LINKS < n then Some None
           else resolve_loop E (n + 1) (off + length c) rest
             (if rest = [] then dir_path st @ c else dir_path (c # st)))"
        using resolve_loop_part [OF ord Part(3) rest, of off "dir_path st" E n] "1.prems"(2,3) links
        by (simp add: Part(1) dir_path_Cons)
      show ?thesis
      proof (cases rest)
        case Nil
        then show ?thesis
          using "1.prems"(1) ord unfolding step
          by (simp add: Part(1) normal_from_last [OF Part(3)] ordinary_count_part [OF Part(3)] resolve_loop_steps)
      next
        case (Cons x r)
        then have r: "rest = CHR ''/'' # r"
          using rest by simp
        have "\<And>d. d \<in> set (c # st) \<Longrightarrow> part_ok d"
          using "1.prems"(4) Part(2,3) by auto
        then show ?thesis
          using "1.prems" IH [of r "n + 1" "off + length c + 1" "c # st"] ord Part(2,3)
          unfolding step
          by (cases "n \<le> MAX_LINKS") (auto simp add: r resolve_loop_steps Part(1) normal_from_part [OF Part(3)]
              ordinary_count_part [OF Part(3)] dir_path_Cons)
      qed
    qed
  qed
qed

section \<open>Results are canonical\<close>

text \<open>Only ordinary components, and no directory on the way is a link.\<close>

definition canonical :: "path_env \<Rightarrow> string list \<Rightarrow> bool" where
  "canonical E st \<longleftrightarrow> list_all (\<lambda>c. ordinary c \<and> CHR ''/'' \<notin> set c) st \<and>
     list_all (\<lambda>k. pe_readlink E (butlast (dir_path (drop k st))) = NoLink) [0..<length st]"

definition path_parts :: "string \<Rightarrow> string list" where
  "path_parts p = [c \<leftarrow> split_sep p. c \<noteq> []]"

definition canonical_path :: "path_env \<Rightarrow> string \<Rightarrow> bool" where
  "canonical_path E p \<longleftrightarrow>
     (let st = rev (path_parts p) in canonical E st \<and> (p = dir_path st \<or> p = butlast (dir_path st)))"

lemma canonical_Nil [simp]: "canonical E []"
  by (simp add: canonical_def)

lemma canonical_Cons:
  "canonical E (c # st) \<longleftrightarrow>
     ordinary c \<and> CHR ''/'' \<notin> set c \<and> pe_readlink E (dir_path st @ c) = NoLink \<and> canonical E st"
proof -
  have "[0..<length (c # st)] = 0 # map Suc [0..<length st]"
    by (simp add: upt_conv_Cons map_Suc_upt del: upt_Suc)
  then show ?thesis
    by (auto simp: canonical_def list.pred_map comp_def dir_path_Cons butlast_append simp del: upt_Suc)
qed

lemma canonical_tl: "canonical E st \<Longrightarrow> canonical E (tl st)"
  by (cases st) (auto simp: canonical_Cons)

lemma canonical_parts: "canonical E st \<Longrightarrow> \<forall>c \<in> set st. part_ok c"
  by (auto simp: canonical_def list_all_iff)

lemma split_sep_append: "split_sep (a @ CHR ''/'' # b) = split_sep a @ split_sep b"
  by (induction a) (auto split: list.splits)

lemma path_parts_append: "path_parts (a @ CHR ''/'' # b) = path_parts a @ path_parts b"
  by (simp add: path_parts_def split_sep_append)

lemma path_parts_dir_path:
  assumes "\<forall>c \<in> set st. part_ok c"
  shows "path_parts (dir_path st) = rev st" and "path_parts (butlast (dir_path st)) = rev st"
proof -
  have one: "path_parts (d @ ''/'') = path_parts d" for d
    using path_parts_append [of d "[]"] by (simp add: path_parts_def)
  have two: "path_parts (dir_path st) = path_parts (butlast (dir_path st))" for st
    using one dir_path_ends [of st] by (metis butlast_snoc)
  show "path_parts (dir_path st) = rev st"
    using assms
  proof (induction st)
    case (Cons c st)
    obtain d where d: "dir_path st = d @ ''/''"
      using dir_path_ends by blast
    have "path_parts c = [c]"
      using Cons.prems by (simp add: path_parts_def split_sep_part)
    then show ?case
      using Cons one [of "d @ CHR ''/'' # c"] one [of d]
      by (simp add: dir_path_Cons d path_parts_append)
  qed (simp add: dir_path_def path_parts_def)
  then show "path_parts (butlast (dir_path st)) = rev st"
    by (simp add: two)
qed

lemma canonical_pathI:
  "canonical E st \<Longrightarrow> p = dir_path st \<or> p = butlast (dir_path st) \<Longrightarrow> canonical_path E p"
  using path_parts_dir_path [OF canonical_parts] by (auto simp: canonical_path_def)

lemma canonical_pathE:
  assumes "canonical_path E p"
  obtains st where "canonical E st" and "p = dir_path st \<or> p = butlast (dir_path st)"
  using assms by (auto simp: canonical_path_def Let_def)

lemma strip_rev_part:
  assumes "CHR ''/'' \<notin> set c"
  shows "strip_rev (c @ CHR ''/'' # d) = Some d"
  using assms by (induction c) auto

lemma strip_dir_path:
  assumes "CHR ''/'' \<notin> set c"
  shows "map_option rev (strip_rev (rev (dir_path st @ c))) = Some (butlast (dir_path st))"
proof -
  obtain d where d: "dir_path st = d @ ''/''"
    using dir_path_ends by blast
  show ?thesis
    using strip_rev_part [of "rev c" "rev d"] assms by (simp add: d)
qed

lemma butlast_dir_path: "butlast (dir_path st) @ ''/'' = dir_path st"
  using dir_path_ends [of st] by (metis butlast_snoc)

lemma copy_component_result:
  assumes "copy_component off (c @ rest) p = Some (Some (off', rest', p'))"
    and "CHR ''/'' \<notin> set c" and "rest = [] \<or> hd rest = CHR ''/''"
  shows "rest' = rest \<and> p' = p @ c"
  using assms
proof (induction c arbitrary: off p)
  case Nil
  then show ?case by (cases rest) auto
next
  case (Cons x c)
  then show ?case by (fastforce simp: put_char_def split: if_splits)
qed

text \<open>What the loop holds: a canonical directory, or, at the end, also one without its slash.\<close>

definition at_dir :: "path_env \<Rightarrow> string \<Rightarrow> string \<Rightarrow> string list \<Rightarrow> bool" where
  "at_dir E path p st \<longleftrightarrow> canonical E st \<and> (p = dir_path st \<or> path = [] \<and> p = butlast (dir_path st))"

lemma at_dir_dir: "canonical E st \<Longrightarrow> at_dir E path (dir_path st) st"
  by (simp add: at_dir_def)

lemma add_slash_at_dir:
  assumes "add_slash path p = Some p'" and "canonical E st" and "p = butlast (dir_path st)"
  shows "at_dir E path p' st"
  using assms butlast_dir_path [of st]
  by (auto simp: add_slash_def put_char_def at_dir_def split: if_splits)

lemma follow_link_at_dir:
  assumes "follow_link off rest (dir_path st @ c) link = Some (Some (path, p))"
    and "add_slash path p = Some p'" and "canonical E st" and "CHR ''/'' \<notin> set c"
  shows "\<exists>st'. at_dir E path p' st'"
proof (cases "take 1 link = ''/''")
  case True
  then have "p = butlast (dir_path [])"
    using assms(1) by (auto simp: follow_link_def dir_path_def split: if_splits)
  then show ?thesis
    using add_slash_at_dir [OF assms(2)] canonical_Nil by blast
next
  case False
  then have "p = butlast (dir_path st)"
    using assms(1,4) strip_dir_path [of c st]
    by (auto simp: follow_link_def split: if_splits Option.bind_splits)
  then show ?thesis
    using add_slash_at_dir [OF assms(2,3)] by blast
qed

lemma resolve_loop_ordinary:
  assumes "resolve_loop E n off (c @ rest) p = Some (Some r)"
    and "ordinary c" and "CHR ''/'' \<notin> set c" and "rest = [] \<or> hd rest = CHR ''/''"
  obtains (No) off' p' where "pe_readlink E (p @ c) = NoLink" and "\<not> MAX_LINKS < n"
      and "add_slash rest (p @ c) = Some p'" and "resolve_loop E (Suc n) off' rest p' = Some (Some r)"
  | (Li) off' link path' p1 p' where "pe_readlink E (p @ c) = Link link" and "\<not> MAX_LINKS < n"
      and "follow_link off' rest (p @ c) link = Some (Some (path', p1))"
      and "add_slash path' p1 = Some p'" and "resolve_loop E (Suc n) 0 path' p' = Some (Some r)"
proof -
  obtain x d where c: "c = x # d" "x \<noteq> CHR ''/''"
    using assms(2,3) by (cases c) auto
  have dots: "\<not> is_dot (x # d @ rest)" "\<not> is_dotdot (x # d @ rest)"
    using assms(2) is_dot_part [OF assms(3,4)] is_dotdot_part [OF assms(3,4)] by (auto simp: c)
  obtain off' where copy: "copy_component off (x # d @ rest) p = Some (Some (off', rest, p @ c))"
    using assms(1) copy_component_result [of off c rest p, OF _ assms(3,4)]
    by (subst (asm) resolve_loop.simps)
      (auto simp: c dots simp del: copy_component.simps split: Option.bind_splits option.splits)
  show thesis
  proof (cases "pe_readlink E (p @ c)")
    case (Link link)
    then show thesis
      using assms(1)
      by (subst (asm) resolve_loop.simps)
        (auto simp: c dots copy simp del: copy_component.simps intro: Li [unfolded c, of link off']
          split: Option.bind_splits option.splits if_splits)
  next
    case NoLink
    then show thesis
      using assms(1)
      by (subst (asm) resolve_loop.simps)
        (auto simp: c dots copy simp del: copy_component.simps intro: No [unfolded c, of _ off']
          split: Option.bind_splits if_splits)
  next
    case LinkError
    then show thesis
      using assms(1)
      by (subst (asm) resolve_loop.simps)
        (auto simp: c dots copy simp del: copy_component.simps split: if_splits)
  qed
qed

lemma resolve_loop_canonical:
  assumes "resolve_loop E n off path p = Some (Some r)" and "at_dir E path p st"
  shows "canonical_path E r"
  using assms
proof (induction "MAX_LINKS + 1 - n" arbitrary: n off path p st rule: less_induct)
  case (less n)
  note outer = less.hyps
  show ?case
    using less.prems
  proof (induction path arbitrary: off p st rule: length_induct)
    case (1 path)
    note IH = "1.IH" [rule_format]
    note res = "1.prems"(1)
    show ?case
    proof (cases path rule: path_cases)
      case Nil
      then show ?thesis
        using "1.prems" by (auto simp: resolve_loop_steps at_dir_def intro: canonical_pathI)
    next
      case (Slash path')
      then show ?thesis
        using "1.prems" IH [of path' "off + 1" p st] by (auto simp: resolve_loop_steps at_dir_def)
    next
      case (Part c rest)
      note rest = Part(4)
      have p: "p = dir_path st" "canonical E st"
        using "1.prems"(2) Part(1,2) by (auto simp: at_dir_def)
      consider (dot) "c = ''.''" | (dotdot) "c = ''..''" | (ord) "ordinary c"
        using Part(2) by (auto simp: ordinary_def)
      then show ?thesis
      proof cases
        case dot
        then show ?thesis
          using res p IH [of rest "off + 1" p st] is_dot_part [OF Part(3) rest] at_dir_dir
          by (auto simp: resolve_loop_steps Part(1))
      next
        case dotdot
        then show ?thesis
          using res p IH [of rest "off + 2" "dir_path (tl st)" "tl st"] is_dotdot_part [OF Part(3) rest]
            at_dir_dir [OF canonical_tl [OF p(2)]] back_up_dir_path [OF canonical_parts [OF p(2)]]
          by (auto simp: resolve_loop_steps Part(1))
      next
        case ord
        have "resolve_loop E n off (c @ rest) p = Some (Some r)"
          using res by (simp add: Part(1))
        from this ord Part(3) rest show ?thesis
        proof (cases rule: resolve_loop_ordinary)
          case (No off' p')
          then have "canonical E (c # st)" and "p @ c = butlast (dir_path (c # st))"
            using p ord Part(3) by (simp_all add: canonical_Cons dir_path_Cons butlast_append)
          then have "at_dir E rest p' (c # st)"
            using add_slash_at_dir [OF No(3)] by simp
          then show ?thesis
            using outer [OF _ No(4)] No(2) by simp
        next
          case (Li off' link path' p1 p')
          then show ?thesis
            using follow_link_at_dir [of off' rest st c link path' p1 p' E] p Part(3) outer [of "Suc n"]
            by auto
        qed
      qed
    qed
  qed
qed

section \<open>Properties\<close>

lemma last_butlast_dir_path:
  assumes "\<forall>c \<in> set st. part_ok c" and "butlast (dir_path st) \<noteq> []"
  shows "last (butlast (dir_path st)) \<noteq> CHR ''/''"
proof (cases st)
  case Nil
  then show ?thesis
    using assms(2) by (simp add: dir_path_def)
next
  case (Cons c cs)
  then have "last (butlast (dir_path st)) = last c" and "last c \<in> set c" and "CHR ''/'' \<notin> set c"
    using assms(1) by (simp_all add: dir_path_Cons butlast_append)
  then show ?thesis
    by metis
qed

lemma walk_parts_length:
  "length (dir_path (walk_parts st cs)) \<le> length (dir_path st) + length (concat (map (\<lambda>c. c @ ''/'') cs))"
proof (induction cs arbitrary: st)
  case (Cons c cs)
  show ?case
    using Cons.IH [of "c # st"] Cons.IH [of "tl st"] Cons.IH [of st] dir_path_tl [of st]
    by (auto simp: dir_path_Cons)
qed simp

lemma split_sep_length: "length (concat (map (\<lambda>c. c @ ''/'') (split_sep s))) = length s + 1"
  by (induction s) (auto split: list.splits)

lemma normal_from_length: "length (normal_from st s) \<le> length (dir_path st) + length s + 1"
  using walk_parts_length [of st "split_sep s"] by (auto simp: normal_from_def Let_def split_sep_length)


text \<open>
  C15: whatever links there are, a path that is returned is canonical: it has neither empty nor
  relative components and neither it nor a directory on the way to it is a link, if the working
  directory is that.
\<close>

theorem resolve_path_canonical:
  assumes "aacs_resolve_path E (Some path) = Some (Some p)"
    and "\<forall>cwd. pe_getcwd E = Some cwd \<longrightarrow> canonical_path E cwd"
  shows "canonical_path E p"
proof -
  obtain off path' p0 where loop: "resolve_loop E 0 off path' p0 = Some (Some p)"
    and start: "off = 1 \<and> path' = tl path \<and> p0 = ''/'' \<or>
      (\<exists>cwd. pe_getcwd E = Some cwd \<and> path' = path \<and> cwd \<noteq> [] \<and>
         p0 = (if last cwd = CHR ''/'' then cwd else cwd @ ''/''))"
    using assms(1)
    by (auto simp: aacs_resolve_path_def put_char_def str_dup_def
        split: if_splits option.splits Option.bind_splits)
  have "\<exists>st. at_dir E path' p0 st"
    using start
  proof (elim disjE exE conjE)
    assume "p0 = ''/''"
    then show ?thesis
      using at_dir_dir [OF canonical_Nil, of E path'] by (auto simp: dir_path_def)
  next
    fix cwd
    assume cwd: "pe_getcwd E = Some cwd" "cwd \<noteq> []" "p0 = (if last cwd = CHR ''/'' then cwd else cwd @ ''/'')"
    obtain st where st: "canonical E st" "cwd = dir_path st \<or> cwd = butlast (dir_path st)"
      using assms(2) cwd(1) by (blast elim: canonical_pathE)
    have "p0 = dir_path st"
      using st cwd(2,3) last_butlast_dir_path [OF canonical_parts [OF st(1)]] dir_path_ends [of st]
        butlast_dir_path [of st]
      by auto
    then show ?thesis
      using at_dir_dir [OF st(1)] by blast
  qed
  then show ?thesis
    using resolve_loop_canonical [OF loop] by blast
qed

definition toy_path_env :: path_env where
  "toy_path_env = \<lparr>pe_alloc = \<lambda>_. True, pe_getcwd = Some ''/home'',
     pe_readlink = \<lambda>p. if p = ''/dev/cdrom'' then Link ''sr0'' else NoLink\<rparr>"


theorem resolve_path_canonical_witness:
  "aacs_resolve_path toy_path_env (Some ''../dev/cdrom'') = Some (Some ''/dev/sr0'') \<and>
   canonical_path toy_path_env ''/dev/sr0''"
proof -
  have run: "aacs_resolve_path toy_path_env (Some ''../dev/cdrom'') = Some (Some ''/dev/sr0'')"
    by code_simp
  have "canonical_path toy_path_env ''/home''"
    by code_simp
  then show ?thesis
    using run resolve_path_canonical [OF run] by (simp add: toy_path_env_def)
qed

text \<open>
  C37: the target of a link is put in front of the rest of the path in a buffer of 1024 bytes, but the
  check in front of that adds the length of the target to the position in the path and not to the
  length of the rest: a long target and a long rest overflow the buffer.
\<close>

theorem resolve_path_overflow:
  assumes "ordinary c" and "CHR ''/'' \<notin> set c" and "pe_readlink E (CHR ''/'' # c) = Link target"
    and "length c + length target < AACS_PATH_MAX - 2" and "length c + length rest < AACS_PATH_MAX - 4"
    and "AACS_PATH_MAX - 2 < length target + length rest"
  shows "aacs_resolve_path E (Some (CHR ''/'' # c @ CHR ''/'' # rest)) = None"
proof -
  obtain x d where c: "c = x # d" "x \<noteq> CHR ''/''"
    using assms(1,2) by (cases c) (auto simp: ordinary_def)
  have dots: "\<not> is_dot (x # d @ CHR ''/'' # rest)" "\<not> is_dotdot (x # d @ CHR ''/'' # rest)"
    using assms(1) is_dot_part [OF assms(2), of "CHR ''/'' # rest"]
      is_dotdot_part [OF assms(2), of "CHR ''/'' # rest"] by (auto simp: c)
  have copy: "copy_component (Suc 0) (x # d @ CHR ''/'' # rest) ''/'' =
      Some (Some (Suc (Suc (length d)), CHR ''/'' # rest, CHR ''/'' # x # d))"
    using copy_component_part [OF assms(2), of "CHR ''/'' # rest" 1 "''/''"] assms(5) by (simp add: c AACS_PATH_MAX_def)
  have "follow_link (1 + length c) (CHR ''/'' # rest) (CHR ''/'' # c) target = None"
    using assms(4,6) strip_rev_part [of "rev c" "[]"] assms(2)
    by (simp add: follow_link_def AACS_PATH_MAX_def)
  then have "resolve_loop E 0 1 (c @ CHR ''/'' # rest) ''/'' = None"
    using assms(3,5)
    by (subst resolve_loop.simps)
      (simp add: c dots copy AACS_PATH_MAX_def MAX_LINKS_def del: copy_component.simps)
  then show ?thesis
    using assms(5) by (simp add: aacs_resolve_path_def AACS_PATH_MAX_def)
qed

theorem resolve_path_overflow_witness:
  "aacs_resolve_path (toy_path_env\<lparr>pe_readlink := \<lambda>_. Link (replicate 600 CHR ''b'')\<rparr>)
     (Some (''/a/'' @ replicate 600 CHR ''c'')) = None"
  using resolve_path_overflow [of "''a''" "toy_path_env\<lparr>pe_readlink := \<lambda>_. Link (replicate 600 CHR ''b'')\<rparr>"
      "replicate 600 CHR ''b''" "replicate 600 CHR ''c''"]
  by (simp add: ordinary_def AACS_PATH_MAX_def)

lemma copy_component_overflow:
  assumes "CHR ''/'' \<notin> set c" and "off + length c < AACS_PATH_MAX" and "length p \<le> AACS_PATH_MAX"
    and "AACS_PATH_MAX < length p + length c"
  shows "copy_component off c p = None"
  using assms
proof (induction c arbitrary: off p)
  case (Cons x c)
  then show ?case
    by (auto simp: put_char_def)
qed simp

text \<open>The length of a relative path is checked, that of the working directory in front of it too, not their sum.\<close>

lemma resolve_relative_overflow:
  assumes "ordinary c" and "CHR ''/'' \<notin> set c" and "pe_getcwd E = Some cwd" and "cwd \<noteq> []" and "last cwd \<noteq> CHR ''/''"
    and "length cwd < AACS_PATH_MAX - 1" and "length c < AACS_PATH_MAX - 2"
    and "AACS_PATH_MAX \<le> length cwd + length c"
  shows "aacs_resolve_path E (Some c) = None"
proof -
  obtain x d where c: "c = x # d" "x \<noteq> CHR ''/''"
    using assms(1,2) by (cases c) (auto simp: ordinary_def)
  have dots: "\<not> is_dot (x # d)" "\<not> is_dotdot (x # d)"
    using assms(1) is_dot_part [OF assms(2), of "[]"] is_dotdot_part [OF assms(2), of "[]"] by (auto simp: c)
  have "copy_component 0 (x # d) (cwd @ ''/'') = None"
    using copy_component_overflow [OF assms(2), of 0 "cwd @ ''/''"] assms(6-8) by (simp add: c AACS_PATH_MAX_def)
  then have "resolve_loop E 0 0 (x # d) (cwd @ ''/'') = None"
    by (subst resolve_loop.simps) (simp add: c dots del: copy_component.simps)
  then show ?thesis
    using assms(3-7) c by (simp add: aacs_resolve_path_def AACS_PATH_MAX_def put_char_def)
qed

end
