(* ===== verification/DriveSim.thy ===== *)
theory DriveSim
  imports Mmc
begin

text \<open>
  Two devices that behave alike: what \<open>mmc.c\<close> does with a drive depends on the platform's device only
  through \<open>device_send_cmd\<close>, so the operations commute with a map between devices that the commands
  commute with.
\<close>

section \<open>Maps between devices\<close>

definition on_dev :: "('d \<Rightarrow> 'e) \<Rightarrow> 'd mmc \<Rightarrow> 'e mmc" where
  "on_dev f m = \<lparr>mmc_dev = f (mmc_dev m), mmc_host_nonce = mmc_host_nonce m, mmc_host_key = mmc_host_key m,
     mmc_host_key_point = mmc_host_key_point m, mmc_drive_cert = mmc_drive_cert m,
     mmc_read_drive_cert_flag = mmc_read_drive_cert_flag m, mmc_aacs_version = mmc_aacs_version m\<rparr>"

text \<open>
  The commands of \<open>mmc.c\<close> have 16 bytes and transfer the whole of a buffer that is not empty and
  smaller than 64 KB.
\<close>

definition same_drive :: "('d \<Rightarrow> 'e) \<Rightarrow> 'd send_cmd \<Rightarrow> 'e send_cmd \<Rightarrow> bool" where
  "same_drive f send1 send2 \<longleftrightarrow> (\<forall>d cmd buf tx rx.
     length cmd = 16 \<and> buf \<noteq> [] \<and> length buf < 2 ^ 16 \<and>
     (tx = length buf \<and> rx = 0 \<or> tx = 0 \<and> rx = length buf) \<longrightarrow>
       send2 (f d) cmd buf tx rx = (let (r, b, d') = send1 d cmd buf tx rx in (r, b, f d')))"

lemma on_dev_fields [simp]:
  "mmc_dev (on_dev f m) = f (mmc_dev m)" "mmc_host_nonce (on_dev f m) = mmc_host_nonce m"
  "mmc_host_key (on_dev f m) = mmc_host_key m" "mmc_host_key_point (on_dev f m) = mmc_host_key_point m"
  "mmc_drive_cert (on_dev f m) = mmc_drive_cert m"
  "mmc_read_drive_cert_flag (on_dev f m) = mmc_read_drive_cert_flag m" "mmc_aacs_version (on_dev f m) = mmc_aacs_version m"
  by (simp_all add: on_dev_def)

lemma on_dev_update [simp]:
  "on_dev f (m\<lparr>mmc_dev := d\<rparr>) = on_dev f m\<lparr>mmc_dev := f d\<rparr>"
  "on_dev f (m\<lparr>mmc_drive_cert := c\<rparr>) = on_dev f m\<lparr>mmc_drive_cert := c\<rparr>"
  "on_dev f (m\<lparr>mmc_read_drive_cert_flag := b\<rparr>) = on_dev f m\<lparr>mmc_read_drive_cert_flag := b\<rparr>"
  "on_dev f (m\<lparr>mmc_aacs_version := v\<rparr>) = on_dev f m\<lparr>mmc_aacs_version := v\<rparr>"
  by (simp_all add: on_dev_def)

lemma command_lengths:
  "length (cmd_report_key agid addr blocks format len) = 16"
  "length (cmd_disc_structure agid format layer addr len) = 16"
  "length (cmd_get_configuration feature len) = 16"
  "length (cmd_send_key agid format len) = 16"
  by (simp_all add: cmd_report_key_def cmd_disc_structure_def cmd_get_configuration_def cmd_send_key_def
      be32_bytes_def be16_bytes_def)

section \<open>Commands\<close>

lemma same_drive_read:
  assumes "same_drive f send1 send2" and "length cmd = 16" and "0 < len" and "len < 2 ^ 16"
  shows "send2 (f d) cmd (zeros len) 0 len = (let (r, b, d') = send1 d cmd (zeros len) 0 len in (r, b, f d'))"
  using assms by (simp add: same_drive_def zeros_def)

lemma same_drive_write:
  assumes "same_drive f send1 send2" and "length cmd = 16" and "buf \<noteq> []" and "length buf < 2 ^ 16"
  shows "send2 (f d) cmd buf (length buf) 0 = (let (r, b, d') = send1 d cmd buf (length buf) 0 in (r, b, f d'))"
  using assms by (simp add: same_drive_def)

named_theorems drive_sim "operations commute with maps between devices"

abbreviation on_dev3 :: "('d \<Rightarrow> 'e) \<Rightarrow> 'a \<times> 'b \<times> 'd mmc \<Rightarrow> 'a \<times> 'b \<times> 'e mmc" where
  "on_dev3 f \<equiv> map_prod id (map_prod id (on_dev f))"

lemma report_key_sim [drive_sim]:
  "same_drive f send1 send2 \<Longrightarrow> 0 < len \<Longrightarrow> len < 2 ^ 16 \<Longrightarrow> mmc_report_key send2 (on_dev f m) agid addr blocks format len =
     on_dev3 f (mmc_report_key send1 m agid addr blocks format len)"
  by (simp add: mmc_report_key_def same_drive_read command_lengths Let_def split: prod.splits)

lemma report_disc_structure_sim [drive_sim]:
  "same_drive f send1 send2 \<Longrightarrow> 0 < len \<Longrightarrow> len < 2 ^ 16 \<Longrightarrow> mmc_report_disc_structure send2 (on_dev f m) agid format layer addr len =
     on_dev3 f (mmc_report_disc_structure send1 m agid format layer addr len)"
  by (simp add: mmc_report_disc_structure_def same_drive_read command_lengths Let_def split: prod.splits)

lemma get_configuration_sim [drive_sim]:
  "same_drive f send1 send2 \<Longrightarrow> 0 < len \<Longrightarrow> len < 2 ^ 16 \<Longrightarrow> mmc_get_configuration send2 (on_dev f m) feature len =
     on_dev3 f (mmc_get_configuration send1 m feature len)"
  by (simp add: mmc_get_configuration_def same_drive_read command_lengths Let_def split: prod.splits)

lemma send_key_sim [drive_sim]:
  "same_drive f send1 send2 \<Longrightarrow> buf \<noteq> [] \<Longrightarrow> length buf < 2 ^ 16 \<Longrightarrow> mmc_send_key send2 (on_dev f m) agid format buf =
     map_prod id (on_dev f) (mmc_send_key send1 m agid format buf)"
  by (simp add: mmc_send_key_def same_drive_write command_lengths Let_def split: prod.splits)

section \<open>Exchanges\<close>

abbreviation on_dev2 :: "('d \<Rightarrow> 'e) \<Rightarrow> 'a \<times> 'd mmc \<Rightarrow> 'a \<times> 'e mmc" where
  "on_dev2 f \<equiv> map_prod id (on_dev f)"

lemma bind_sim:
  "x2 = map_option g x1 \<Longrightarrow> (\<And>r. h2 (g r) = map_option k (h1 r)) \<Longrightarrow> Option.bind x2 h2 = map_option k (Option.bind x1 h1)"
  by (cases x1) simp_all

lemma invalidate_agid_sim [drive_sim]:
  "same_drive f send1 send2 \<Longrightarrow> mmc_invalidate_agid send2 (on_dev f m) agid = on_dev f (mmc_invalidate_agid send1 m agid)"
  by (simp add: mmc_invalidate_agid_def drive_sim)

lemma invalidate_agids_sim [drive_sim]:
  assumes "same_drive f send1 send2"
  shows "mmc_invalidate_agids send2 (on_dev f m) = on_dev f (mmc_invalidate_agids send1 m)"
proof -
  have "fold (\<lambda>agid m. mmc_invalidate_agid send2 m (word_of_nat agid)) ns (on_dev f m) =
      on_dev f (fold (\<lambda>agid m. mmc_invalidate_agid send1 m (word_of_nat agid)) ns m)" for ns
    using assms by (induction ns arbitrary: m) (simp_all add: drive_sim)
  then show ?thesis by (simp add: mmc_invalidate_agids_def)
qed

lemma report_agid_sim [drive_sim]:
  "same_drive f send1 send2 \<Longrightarrow> mmc_report_agid send2 (on_dev f m) agid = map_option (on_dev3 f) (mmc_report_agid send1 m agid)"
  by (simp add: mmc_report_agid_def drive_sim map_option_bind comp_def split: prod.splits)

lemma send_host_cert_sim [drive_sim]:
  "same_drive f send1 send2 \<Longrightarrow> mmc_send_host_cert send2 (on_dev f m) agid n c =
     map_option (on_dev2 f) (mmc_send_host_cert send1 m agid n c)"
  by (auto simp: mmc_send_host_cert_def drive_sim memcpy_at_def Let_def split: Option.bind_splits if_splits)

lemma send_host_key_sim [drive_sim]:
  "same_drive f send1 send2 \<Longrightarrow> mmc_send_host_key send2 (on_dev f m) agid p s =
     map_option (on_dev2 f) (mmc_send_host_key send1 m agid p s)"
  by (auto simp: mmc_send_host_key_def drive_sim memcpy_at_def Let_def split: Option.bind_splits if_splits)

lemma read_exchange_sim [drive_sim]:
  assumes "same_drive f send1 send2"
  shows "mmc_read_drive_cert_challenge send2 (on_dev f m) agid =
      map_option (on_dev2 f) (mmc_read_drive_cert_challenge send1 m agid)"
    and "mmc_read_drive_key send2 (on_dev f m) agid = map_option (on_dev2 f) (mmc_read_drive_key send1 m agid)"
    and "mmc_read_vid_mac send2 (on_dev f m) agid = map_option (on_dev2 f) (mmc_read_vid_mac send1 m agid)"
    and "mmc_read_pmsn_mac send2 (on_dev f m) agid = map_option (on_dev2 f) (mmc_read_pmsn_mac send1 m agid)"
    and "mmc_read_data_keys send2 (on_dev f m) agid = map_option (on_dev2 f) (mmc_read_data_keys send1 m agid)"
  using assms
  by (simp_all add: mmc_read_drive_cert_challenge_def mmc_read_drive_key_def mmc_read_vid_mac_def
      mmc_read_pmsn_mac_def mmc_read_data_keys_def drive_sim map_option_bind comp_def split: prod.splits)

lemma check_aacs_sim [drive_sim]:
  "same_drive f send1 send2 \<Longrightarrow> mmc_check_aacs send2 (on_dev f m) = map_option (on_dev2 f) (mmc_check_aacs send1 m)"
  by (auto simp: mmc_check_aacs_def drive_sim split: prod.splits Option.bind_splits)

section \<open>Authentication and reading\<close>

text \<open>The control flow of \<open>mmc_aacs_auth\<close>, one rule for each construct.\<close>

lemma if_sim:
  "x2 = map_option k x1 \<Longrightarrow> y2 = map_option k y1 \<Longrightarrow> (if c then x2 else y2) = map_option k (if c then x1 else y1)"
  by simp

lemma case_prod_sim:
  "(\<And>a m. h2 a (on_dev f m) = map_option k (h1 a m)) \<Longrightarrow> case_prod h2 (on_dev2 f r) = map_option k (case_prod h1 r)"
  by (cases r) simp

lemma case_option_sim:
  "x2 = map_option k x1 \<Longrightarrow> (\<And>a b. h2 a b = map_option k (h1 a b)) \<Longrightarrow>
     (case x of None \<Rightarrow> x2 | Some (a, b) \<Rightarrow> h2 a b) = map_option k (case x of None \<Rightarrow> x1 | Some (a, b) \<Rightarrow> h1 a b)"
  by (simp split: option.split prod.split)

lemma bind_same:
  "(\<And>r. h2 r = map_option k (h1 r)) \<Longrightarrow> Option.bind x h2 = map_option k (Option.bind x h1)"
  by (cases x) simp_all

lemma case_prod_same:
  "(\<And>a b. h2 a b = map_option k (h1 a b)) \<Longrightarrow> case_prod h2 r = map_option k (case_prod h1 r)"
  by (cases r) simp

lemmas control_sim = case_prod_sim if_sim case_option_sim bind_same case_prod_same

lemma aacs_auth_sim [drive_sim]:
  assumes "same_drive f send1 send2"
  shows "mmc_aacs_auth E send2 (on_dev f m) agid priv cert = map_option (on_dev3 f) (mmc_aacs_auth E send1 m agid priv cert)"
proof -
  have key: "mmc_read_drive_key send2 (on_dev f m\<lparr>mmc_drive_cert := c\<rparr>) agid =
      map_option (on_dev2 f) (mmc_read_drive_key send1 (m\<lparr>mmc_drive_cert := c\<rparr>) agid)" for m c
    using read_exchange_sim(2) [OF assms, of "m\<lparr>mmc_drive_cert := c\<rparr>"] by simp
  have cert: "mmc_drive_cert (m\<lparr>mmc_drive_cert := c\<rparr>) = c" for m :: "'x mmc" and c by simp
  note exchange = send_host_cert_sim [OF assms] read_exchange_sim(1) [OF assms] key send_host_key_sim [OF assms]
  show ?thesis
    unfolding mmc_aacs_auth_def Let_def on_dev_fields
    by (intro control_sim exchange [THEN bind_sim] | simp; fail | simp only: on_dev_fields cert)+
qed

lemma request_sim [drive_sim]:
  assumes "same_drive f send1 send2"
  shows "mmc_request E send2 (on_dev f m) agid bk request p1 p2 =
    map_option (map_prod id (map_prod id (on_dev2 f))) (mmc_request E send1 m agid bk request p1 p2)"
  using assms
  by (auto simp: mmc_request_def read_vid_def read_pmsn_def read_data_keys_def drive_sim
      split: Option.bind_splits option.splits prod.splits)

lemma read_auth_sim:
  assumes "same_drive f send1 send2"
  shows "mmc_read_auth E send2 (on_dev f m) priv cert request p1 p2 =
    map_option (map_prod id (map_prod id (on_dev2 f))) (mmc_read_auth E send1 m priv cert request p1 p2)"
  using assms
  by (auto simp: mmc_read_auth_def drive_sim Let_def split: Option.bind_splits option.splits prod.splits)

lemma read_drive_cert_sim:
  assumes "same_drive f send1 send2"
  shows "mmc_read_drive_cert E send2 (on_dev f m) c = map_option (on_dev3 f) (mmc_read_drive_cert E send1 m c)"
  using assms
  by (auto simp: mmc_read_drive_cert_def drive_sim Let_def split: Option.bind_splits option.splits prod.splits)

lemma mkb_packs_sim [drive_sim]:
  assumes "same_drive f send1 send2"
  shows "mkb_packs_loop send2 (on_dev f m) agid cap pack n mkb = map_option (on_dev2 f) (mkb_packs_loop send1 m agid cap pack n mkb)"
proof (induction "n - pack" arbitrary: pack m mkb)
  case 0
  then show ?case by (simp add: mkb_packs_loop.simps [of _ _ agid cap pack])
next
  case (Suc x)
  then have "x = n - (pack + 1)" and "pack < n" by simp_all
  note IH = Suc.hyps(1) [OF this(1)] and this
  show ?case
    using assms IH
    by (subst (1 2) mkb_packs_loop.simps)
      (auto simp: drive_sim Let_def split: Option.bind_splits prod.splits)
qed

lemma read_mkb_sim:
  assumes "same_drive f send1 send2"
  shows "mmc_read_mkb alloc send2 (on_dev f m) address = map_option (on_dev2 f) (mmc_read_mkb alloc send1 m address)"
  using assms
  by (auto simp: mmc_read_mkb_def mmc_read_mkb_agid_def drive_sim Let_def split: Option.bind_splits prod.splits)

lemma mmc_open_sim:
  assumes "same_drive f send1 send2" and "\<And>p. open2 p = map_option f (open1 p)"
  shows "mmc_open E send2 open2 path = map_option (map_option (on_dev f)) (mmc_open E send1 open1 path)"
proof -
  have new: "mmc_check_aacs send2 \<lparr>mmc_dev = f d, mmc_host_nonce = n, mmc_host_key = k, mmc_host_key_point = p,
      mmc_drive_cert = c, mmc_read_drive_cert_flag = b, mmc_aacs_version = v\<rparr> =
    map_option (on_dev2 f) (mmc_check_aacs send1 \<lparr>mmc_dev = d, mmc_host_nonce = n, mmc_host_key = k,
      mmc_host_key_point = p, mmc_drive_cert = c, mmc_read_drive_cert_flag = b, mmc_aacs_version = v\<rparr>)"
    for d n k p c b v
    using check_aacs_sim [OF assms(1), of "\<lparr>mmc_dev = d, mmc_host_nonce = n, mmc_host_key = k,
      mmc_host_key_point = p, mmc_drive_cert = c, mmc_read_drive_cert_flag = b, mmc_aacs_version = v\<rparr>"]
    by (simp add: on_dev_def)
  show ?thesis
    by (auto simp: mmc_open_def assms(2) Let_def read_drive_cert_sim [OF assms(1)] new
        split: Option.bind_splits option.splits prod.splits)
qed

end
