(* ===== verification/DeviceLinux.thy ===== *)
theory DeviceLinux
  imports DriveSim Path
begin

text \<open>
  \<^verbatim>\<open>file/mmc_device_linux.c\<close>: the drive on Linux, with its two configuration macros set.  The kernel
  is a state of any type; the system calls on it, and the entries \<open>getmntent\<close> reads, are the record
  \<open>os\<close>.
\<close>

section \<open>The system\<close>

text \<open>The fields of \<open>struct cdrom_generic_command\<close> the code sets; the sense data is never read.\<close>

record cgc =
  cgc_cmd :: "byte list"
  cgc_buffer :: "byte list ptr"
  cgc_buflen :: nat
  cgc_data_direction :: nat
  cgc_timeout :: nat

definition CDROM_PACKET_SIZE :: nat where "CDROM_PACKET_SIZE = 12"
definition CGC_DATA_WRITE :: nat where "CGC_DATA_WRITE = 1"
definition CGC_DATA_READ :: nat where "CGC_DATA_READ = 2"
definition CGC_DATA_NONE :: nat where "CGC_DATA_NONE = 3"

text \<open>
  \<open>os_ioctl\<close> is \<open>CDROM_SEND_PACKET\<close>: the result and the contents of the buffer afterwards.
  \<open>os_blk\<close>: \<open>fstat\<close> succeeds and tells a block device.  \<open>os_fds\<close> are the open descriptors.
\<close>

record 'k os =
  os_open :: "string \<Rightarrow> 'k \<Rightarrow> int \<times> 'k"
  os_close :: "int \<Rightarrow> 'k \<Rightarrow> 'k"
  os_blk :: "int \<Rightarrow> 'k \<Rightarrow> bool"
  os_mounts :: "'k \<Rightarrow> (string \<times> string) list option"
  os_ioctl :: "int \<Rightarrow> cgc \<Rightarrow> 'k \<Rightarrow> int \<times> byte list \<times> 'k"
  os_fds :: "'k \<Rightarrow> int set"

text \<open>One more descriptor, or none when opening failed.\<close>

definition opened :: "'k os \<Rightarrow> 'k \<Rightarrow> int \<times> 'k \<Rightarrow> bool" where
  "opened os k r \<longleftrightarrow>
     (if fst r < 0 then os_fds os (snd r) = os_fds os k
      else fst r \<notin> os_fds os k \<and> os_fds os (snd r) = insert (fst r) (os_fds os k))"

text \<open>
  What POSIX says: opening gives a new descriptor or a negative number, closing removes it; a
  command does neither and keeps the size of the buffer.
\<close>

definition os_ok :: "'k os \<Rightarrow> bool" where
  "os_ok os \<longleftrightarrow> (\<forall>p k. opened os k (os_open os p k)) \<and>
     (\<forall>fd k. os_fds os (os_close os fd k) = os_fds os k - {fd}) \<and>
     (\<forall>fd c k. os_fds os (snd (snd (os_ioctl os fd c k))) = os_fds os k \<and>
        (\<forall>b. cgc_buffer c = Some b \<longrightarrow> length (fst (snd (os_ioctl os fd c k))) = length b))"

record mmcdev =
  dev_fd :: int

section \<open>Commands\<close>

definition device_cgc :: "byte list \<Rightarrow> byte list ptr \<Rightarrow> nat \<Rightarrow> nat \<Rightarrow> cgc" where
  "device_cgc cmd buf tx rx =
     (let cgc = \<lparr>cgc_cmd = cmd, cgc_buffer = None, cgc_buflen = 0, cgc_data_direction = 0, cgc_timeout = 5000\<rparr> in
      if buf \<noteq> None then
        (if tx \<noteq> 0 then cgc\<lparr>cgc_data_direction := CGC_DATA_WRITE, cgc_buflen := tx, cgc_buffer := buf\<rparr>
         else if rx \<noteq> 0 then cgc\<lparr>cgc_data_direction := CGC_DATA_READ, cgc_buflen := rx, cgc_buffer := buf\<rparr>
         else cgc)
      else cgc\<lparr>cgc_data_direction := CGC_DATA_NONE\<rparr>)"

text \<open>The result, the buffer and the kernel; a command without a buffer leaves \<open>buf\<close> alone.\<close>

definition device_send_cmd ::
    "'k os \<Rightarrow> mmcdev \<Rightarrow> 'k \<Rightarrow> byte list \<Rightarrow> byte list ptr \<Rightarrow> nat \<Rightarrow> nat \<Rightarrow> (int \<times> byte list ptr \<times> 'k) ub" where
  "device_send_cmd os dev k cmd buf tx rx = do {
     cdb \<leftarrow> rdn cmd 0 CDROM_PACKET_SIZE;
     let cgc = device_cgc cdb buf tx rx;
     let (result, buffer, k) = os_ioctl os (dev_fd dev) cgc k;
     Some (if result \<ge> 0 then 1 else 0, if cgc_buffer cgc = None then buf else Some buffer, k)
   }"

section \<open>Opening and closing\<close>

definition open_block_device :: "'k os \<Rightarrow> string \<Rightarrow> 'k \<Rightarrow> int \<times> 'k" where
  "open_block_device os path k =
     (let (fd, k) = os_open os path k in
      if fd < 0 then (- 1, k)
      else if os_blk os fd k then (fd, k)
      else (- 1, os_close os fd k))"

definition strip_slashes :: "string \<Rightarrow> string" where
  "strip_slashes path = rev (dropWhile (\<lambda>c. c = CHR ''/'') (rev path))"

text \<open>The entries are pairs of \<open>mnt_fsname\<close> and \<open>mnt_dir\<close>.\<close>

fun find_mount :: "'k os \<Rightarrow> string \<Rightarrow> int \<Rightarrow> (string \<times> string) list \<Rightarrow> 'k \<Rightarrow> int \<times> 'k" where
  "find_mount os path fd [] k = (fd, k)"
| "find_mount os path fd ((fsname, dir) # entries) k =
     (if dir = path then
        let (fd, k) = os_open os fsname k in
        if fd \<ge> 0 then (fd, k) else find_mount os path fd entries k
      else find_mount os path fd entries k)"

definition open_resolved :: "'k os \<Rightarrow> string \<Rightarrow> 'k \<Rightarrow> int \<times> 'k" where
  "open_resolved os path k =
     (let (fd, k) = open_block_device os path k in
      if fd < 0 then
        (case os_mounts os k of None \<Rightarrow> (fd, k) | Some entries \<Rightarrow> find_mount os path fd entries k)
      else (fd, k))"

definition device_open :: "path_env \<Rightarrow> 'k os \<Rightarrow> string ptr \<Rightarrow> 'k \<Rightarrow> (mmcdev ptr \<times> 'k) ub" where
  "device_open E os path k = do {
     resolved_path \<leftarrow> aacs_resolve_path E path;
     case resolved_path of None \<Rightarrow> Some (None, k)
     | Some resolved_path \<Rightarrow>
         (let (fd, k) = open_resolved os (strip_slashes resolved_path) k in
          if fd \<ge> 0 then
            (if pe_alloc E 4 then Some (Some \<lparr>dev_fd = fd\<rparr>, k) else Some (None, os_close os fd k))
          else Some (None, k))
   }"

definition device_close :: "'k os \<Rightarrow> mmcdev ptr ptr \<Rightarrow> 'k \<Rightarrow> mmcdev ptr ptr \<times> 'k" where
  "device_close os pp k =
     (case pp of
        Some (Some dev) \<Rightarrow> (Some None, if dev_fd dev \<noteq> - 1 then os_close os (dev_fd dev) k else k)
      | _ \<Rightarrow> (pp, k))"

text \<open>The device as \<open>mmc.c\<close> uses it: always with a buffer, and commands of 16 bytes.\<close>

definition linux_drive :: "'k os \<Rightarrow> (mmcdev \<times> 'k) send_cmd" where
  "linux_drive os = (\<lambda>(dev, k) cmd buf tx rx.
     case device_send_cmd os dev k cmd (Some buf) tx rx of
       Some (r, Some buf, k) \<Rightarrow> (r, buf, (dev, k))
     | _ \<Rightarrow> (0, buf, (dev, k)))"

section \<open>Descriptors\<close>

lemma opened_failed:
  assumes "opened os k (fd, k')" and "fd < 0" and "opened os k' r"
  shows "opened os k r"
  using assms by (auto simp: opened_def)

lemma open_block_device_opened:
  assumes "os_ok os"
  shows "opened os k (open_block_device os p k)"
proof -
  have "opened os k (os_open os p k)" and "os_fds os (os_close os fd k') = os_fds os k' - {fd}" for fd k'
    using assms by (simp_all add: os_ok_def)
  then show ?thesis
    by (auto simp: open_block_device_def opened_def split: prod.splits if_splits)
qed

lemma find_mount_opened:
  assumes "os_ok os" and "fd < 0"
  shows "opened os k (find_mount os p fd entries k)"
  using assms(2)
proof (induction entries arbitrary: fd k)
  case (Cons entry entries)
  obtain fsname dir where entry: "entry = (fsname, dir)"
    by fastforce
  obtain fd' k' where o: "os_open os fsname k = (fd', k')"
    by fastforce
  have "opened os k (fd', k')"
    using assms(1) o by (metis os_ok_def)
  then show ?case
    using Cons opened_failed [of os k fd' k'] by (simp add: entry o)
qed (simp add: opened_def)

lemma open_resolved_opened:
  assumes "os_ok os"
  shows "opened os k (open_resolved os p k)"
proof -
  obtain fd k' where o: "open_block_device os p k = (fd, k')"
    by fastforce
  then have "opened os k (fd, k')"
    using open_block_device_opened [OF assms, of k p] by simp
  then show ?thesis
    using find_mount_opened [OF assms] opened_failed [of os k fd k']
    by (auto simp: open_resolved_def o split: option.splits)
qed

text \<open>
  Opening a device leaks no file descriptor: a failing \<open>device_open\<close> has closed whatever it opened,
  a successful one leaves exactly the new descriptor of the device open, and \<open>device_close\<close> closes it.
\<close>

theorem device_no_leak:
  assumes "os_ok os" and "device_open E os path k = Some (dev, k')"
  shows "case dev of
      None \<Rightarrow> os_fds os k' = os_fds os k
    | Some d \<Rightarrow> 0 \<le> dev_fd d \<and> dev_fd d \<notin> os_fds os k \<and> os_fds os k' = insert (dev_fd d) (os_fds os k) \<and>
        os_fds os (snd (device_close os (Some dev) k')) = os_fds os k"
proof -
  obtain r where r: "aacs_resolve_path E path = Some r"
    using assms(2) by (auto simp: device_open_def split: Option.bind_splits)
  show ?thesis
  proof (cases r)
    case None
    then show ?thesis
      using assms(2) by (auto simp: device_open_def r)
  next
    case (Some p)
    obtain fd k1 where o: "open_resolved os (strip_slashes p) k = (fd, k1)"
      by fastforce
    have fds: "opened os k (fd, k1)"
      using open_resolved_opened [OF assms(1), of k "strip_slashes p"] by (simp add: o)
    have close: "os_fds os (os_close os fd k') = os_fds os k' - {fd}" for k'
      using assms(1) by (simp add: os_ok_def)
    have res: "(dev, k') = (if fd \<ge> 0 then if pe_alloc E 4 then (Some \<lparr>dev_fd = fd\<rparr>, k1) else (None, os_close os fd k1)
        else (None, k1))"
      using assms(2) by (simp add: device_open_def r Some o split: if_splits)
    show ?thesis
      using res fds close [of k1] by (auto simp: device_close_def opened_def split: if_splits)
  qed
qed

section \<open>Names\<close>

text \<open>The name of a directory without the slash at the end; the root has none left.\<close>

definition dir_name :: "string list \<Rightarrow> string" where
  "dir_name st = concat (map (\<lambda>c. ''/'' @ c) (rev st))"

lemma dir_path_name: "dir_path st = dir_name st @ ''/''"
proof -
  have "''/'' @ concat (map (\<lambda>c. c @ ''/'') cs) = concat (map (\<lambda>c. ''/'' @ c) cs) @ ''/''" for cs
    by (induction cs) auto
  then show ?thesis
    by (simp add: dir_path_def dir_name_def)
qed

lemma strip_dir_name:
  assumes "\<forall>c \<in> set st. part_ok c"
  shows "strip_slashes (dir_name st) = dir_name st" and "strip_slashes (dir_path st) = dir_name st"
proof -
  show "strip_slashes (dir_name st) = dir_name st"
  proof (cases st)
    case (Cons c cs)
    then obtain d x where "c = d @ [x]" and "x \<noteq> CHR ''/''"
      using assms by (cases c rule: rev_cases) auto
    then show ?thesis
      by (simp add: strip_slashes_def dir_name_def Cons)
  qed (simp add: strip_slashes_def dir_name_def)
  then show "strip_slashes (dir_path st) = dir_name st"
    by (simp add: strip_slashes_def dir_path_name)
qed

lemma split_sep_parts: "c \<in> set (split_sep s) \<Longrightarrow> CHR ''/'' \<notin> set c"
  by (induction s arbitrary: c) (auto split: list.splits if_splits)

abbreviation parts_ok :: "string list \<Rightarrow> bool" where
  "parts_ok st \<equiv> \<forall>c \<in> set st. part_ok c"

lemma parts_ok_tl: "parts_ok st \<Longrightarrow> parts_ok (tl st)"
  by (cases st) auto

lemma ordinary_nonempty: "ordinary c \<Longrightarrow> c \<noteq> []"
  unfolding ordinary_def by blast

lemma walk_parts_ok:
  "parts_ok st \<Longrightarrow> \<forall>c \<in> set cs. CHR ''/'' \<notin> set c \<Longrightarrow> parts_ok (walk_parts st cs)"
proof (induction cs arbitrary: st)
  case (Cons c cs)
  let ?st = "if ordinary c then c # st else if c = ''..'' then tl st else st"
  have cs: "CHR ''/'' \<notin> set c" "\<forall>c \<in> set cs. CHR ''/'' \<notin> set c"
    using Cons.prems(2) by simp_all
  have "parts_ok ?st"
  proof (cases "ordinary c")
    case True
    then show ?thesis
      using Cons.prems(1) cs(1) ordinary_nonempty by simp
  next
    case False
    then show ?thesis
      using Cons.prems(1) parts_ok_tl [OF Cons.prems(1)] by presburger
  qed
  then show ?case
    unfolding walk_parts.simps by (rule Cons.IH) (rule cs(2))
qed simp

lemma strip_normal_from:
  "strip_slashes (normal_from [] s) = dir_name (walk_parts [] (split_sep s))"
proof -
  have "\<forall>c \<in> set (walk_parts [] (split_sep s)). part_ok c"
    using split_sep_parts by (intro walk_parts_ok) auto
  then show ?thesis
    using strip_dir_name [of "walk_parts [] (split_sep s)"]
    unfolding normal_from_def Let_def dir_path_name butlast_snoc by metis
qed

text \<open>
  On a path without links, the drive is looked for under the names of the components that remain after
  resolving, each behind a slash: as a block device, else as the device of the first entry mounted
  there that opens; how the path was written makes no difference.
\<close>

theorem device_open_name:
  assumes "\<forall>p. pe_readlink E p = NoLink" and "\<forall>n. pe_alloc E n"
    and "length s < AACS_PATH_MAX - 3" and "ordinary_count s \<le> MAX_LINKS + 1"
  shows "device_open E os (Some (CHR ''/'' # s)) k =
    (let (fd, k') = open_resolved os (dir_name (walk_parts [] (split_sep s))) k
     in Some (if 0 \<le> fd then Some \<lparr>dev_fd = fd\<rparr> else None, k'))"
proof -
  have "length (normal_from [] s) < AACS_PATH_MAX"
    using assms(3) normal_from_length [of "[]" s] by (simp add: dir_path_def AACS_PATH_MAX_def)
  then have "aacs_resolve_path E (Some (CHR ''/'' # s)) = Some (Some (normal_from [] s))"
    using resolve_loop_normal [OF assms(1), of 0 1 s "[]"] assms(2-)
    by (simp add: aacs_resolve_path_def AACS_PATH_MAX_def dir_path_def str_dup_def)
  then show ?thesis
    using assms(2) by (simp add: device_open_def strip_normal_from split: prod.splits)
qed

text \<open>The root is left without a name, so what is mounted there is never found.\<close>

lemma device_open_root:
  assumes "os_open os [] k = (fd, k)" and "fd < 0"
    and "os_mounts os k = Some entries" and "\<forall>(fsname, dir) \<in> set entries. dir \<noteq> []"
    and "pe_alloc E 2"
  shows "device_open E os (Some ''/'') k = Some (None, k)"
proof -
  have find: "find_mount os [] fd entries k = (fd, k)" for fd
    using assms(4) by (induction entries) auto
  have "aacs_resolve_path E (Some ''/'') = Some (Some ''/'')"
    using assms(5) by (simp add: aacs_resolve_path_def resolve_loop_steps AACS_PATH_MAX_def str_dup_def numeral_2_eq_2)
  then show ?thesis
    using assms(1-3) find
    by (simp add: device_open_def strip_slashes_def open_resolved_def open_block_device_def split: prod.splits)
qed

section \<open>The commands on Linux\<close>

lemma linux_drive_eq:
  assumes "12 \<le> length cmd"
  shows "linux_drive os (dev, k) cmd buf tx rx =
    (let (r, b, k') = os_ioctl os (dev_fd dev) (device_cgc (take 12 cmd) (Some buf) tx rx) k
     in (if 0 \<le> r then 1 else 0, if tx = 0 \<and> rx = 0 then buf else b, (dev, k')))"
  using assms
  by (auto simp: linux_drive_def device_send_cmd_def rdn_def CDROM_PACKET_SIZE_def device_cgc_def Let_def
      split: prod.splits)

lemma linux_send_ok:
  assumes "os_ok os"
  shows "send_ok (linux_drive os)"
proof -
  have io: "length b' = length b" if "os_ioctl os fd c k = (r, b', k')" "cgc_buffer c = Some b" for fd c k r b' k' b
  proof -
    have "\<forall>fd c k b. cgc_buffer c = Some b \<longrightarrow> length (fst (snd (os_ioctl os fd c k))) = length b"
      using assms unfolding os_ok_def by blast
    then show ?thesis
      using that by (metis fst_conv snd_conv)
  qed
  have short: "linux_drive os (dev, k) cmd buf tx rx = (0, buf, (dev, k))" if "length cmd < 12" for dev k cmd buf tx rx
    using that by (simp add: linux_drive_def device_send_cmd_def rdn_def CDROM_PACKET_SIZE_def)
  have "length (fst (snd (linux_drive os (dev, k) cmd buf tx rx))) = length buf" for dev k cmd buf tx rx
  proof (cases "12 \<le> length cmd \<and> (tx \<noteq> 0 \<or> rx \<noteq> 0)")
    case True
    then have "cgc_buffer (device_cgc (take 12 cmd) (Some buf) tx rx) = Some buf"
      by (auto simp: device_cgc_def Let_def)
    then show ?thesis
      using io True by (auto simp: linux_drive_eq split: prod.splits)
  next
    case False
    then show ?thesis
      by (cases "length cmd < 12") (auto simp: short linux_drive_eq split: prod.splits)
  qed
  then show ?thesis
    by (auto simp: send_ok_def)
qed

text \<open>One exchange with the drive: a packet of 12 bytes, its buffer and its direction.\<close>

definition linux_exchange ::
    "'k os \<Rightarrow> (mmcdev \<times> 'k) mmc \<Rightarrow> byte list \<Rightarrow> byte list \<Rightarrow> nat \<Rightarrow> int \<times> byte list \<times> (mmcdev \<times> 'k) mmc" where
  "linux_exchange os m packet buf direction =
     (let (dev, k) = mmc_dev m;
          (r, buf, k) = os_ioctl os (dev_fd dev) \<lparr>cgc_cmd = packet, cgc_buffer = Some buf, cgc_buflen = length buf,
            cgc_data_direction = direction, cgc_timeout = 5000\<rparr> k
      in (if 0 \<le> r then 1 else 0, buf, m\<lparr>mmc_dev := (dev, k)\<rparr>))"

text \<open>
  C28: on Linux each command of \<open>mmc.c\<close> becomes one packet of the 12 bytes that matter of its 16, with
  its own buffer, to be filled by the drive or to be sent to it.
\<close>

theorem linux_commands:
  assumes "0 < len" and "buf \<noteq> []"
  shows "mmc_report_key (linux_drive os) m agid addr blocks format len =
      linux_exchange os m ([0xa4, 0] @ be32_bytes addr @ [blocks, 0x02] @ be16_bytes len @
        [push_bit 6 agid OR (format AND 0x3f), 0]) (zeros len) CGC_DATA_READ \<and>
    mmc_report_disc_structure (linux_drive os) m agid format layer addr len =
      linux_exchange os m ([0xad, 1] @ be32_bytes addr @ [layer, format] @ be16_bytes len @
        [push_bit 6 agid, 0]) (zeros len) CGC_DATA_READ \<and>
    mmc_get_configuration (linux_drive os) m feature len =
      linux_exchange os m ([0x46, 1] @ be16_bytes feature @ zeros 3 @ be16_bytes len @ zeros 3)
        (zeros len) CGC_DATA_READ \<and>
    mmc_send_key (linux_drive os) m agid format buf =
      (let (r, _, m) = linux_exchange os m ([0xa3, 0, 0, 0, 0, 0, 0, 2] @ be16_bytes (length buf) @
         [push_bit 6 agid OR (format AND 0x3f), 0]) buf CGC_DATA_WRITE in (r, m))"
proof -
  obtain dev k where d: "mmc_dev m = (dev, k)"
    by fastforce
  have drive: "linux_drive os (dev, k) cmd buf tx rx =
      (let (r, b, k') = os_ioctl os (dev_fd dev) (device_cgc (take 12 cmd) (Some buf) tx rx) k
       in (if 0 \<le> r then 1 else 0, b, (dev, k')))" if "length cmd = 16" "tx \<noteq> 0 \<or> rx \<noteq> 0" for cmd buf tx rx
    using that by (auto simp: linux_drive_eq split: prod.splits)
  have "take 12 (cmd_report_key agid addr blocks format len) =
      [0xa4, 0] @ be32_bytes addr @ [blocks, 0x02] @ be16_bytes len @ [push_bit 6 agid OR (format AND 0x3f), 0]"
    and "take 12 (cmd_disc_structure agid format layer addr len) =
      [0xad, 1] @ be32_bytes addr @ [layer, format] @ be16_bytes len @ [push_bit 6 agid, 0]"
    and "take 12 (cmd_get_configuration feature len) =
      [0x46, 1] @ be16_bytes feature @ zeros 3 @ be16_bytes len @ zeros 3"
    and "take 12 (cmd_send_key agid format n) = [0xa3, 0, 0, 0, 0, 0, 0, 2] @ be16_bytes n @
         [push_bit 6 agid OR (format AND 0x3f), 0]" for n
    by (simp_all add: cmd_report_key_def cmd_disc_structure_def cmd_get_configuration_def cmd_send_key_def
        be32_bytes_def be16_bytes_def zeros_def numeral_eq_Suc)
  note packet = this
  show ?thesis
    using assms
    by (simp add: mmc_report_key_def mmc_report_disc_structure_def mmc_get_configuration_def mmc_send_key_def
        linux_exchange_def d drive command_lengths packet device_cgc_def Let_def split: prod.splits)
qed

text \<open>A system for concrete runs: a disc in \<^verbatim>\<open>/dev/sr0\<close>, mounted to \<^verbatim>\<open>/media/disc\<close>; its state are the descriptors.\<close>

definition toy_os :: "int list os" where
  "toy_os = \<lparr>os_open = \<lambda>p k. if p = ''/dev/sr0'' \<or> p = ''/media/disc'' then (let fd = foldr max k 2 + 1 in (fd, fd # k)) else (- 1, k),
     os_close = \<lambda>fd k. [x \<leftarrow> k. x \<noteq> fd], os_blk = \<lambda>fd k. fd = 4,
     os_mounts = \<lambda>_. Some [(''tmpfs'', ''/media''), (''/dev/sr0'', ''/media/disc'')],
     os_ioctl = \<lambda>fd c k. (0, case cgc_buffer c of None \<Rightarrow> [] | Some b \<Rightarrow> b, k), os_fds = set\<rparr>"

lemma foldr_max_ge: "x \<in> set k \<Longrightarrow> x \<le> foldr max k (y::int)"
  by (induction k) (auto simp: le_max_iff_disj)

lemma foldr_max_base: "y \<le> foldr max k (y::int)"
  by (induction k) (auto simp: le_max_iff_disj)

lemma toy_os_ok: "os_ok toy_os"
proof -
  have "foldr max k 2 + 1 \<notin> set k" and "\<not> foldr max k 2 + 1 < 0" for k :: "int list"
    using foldr_max_ge [of "foldr max k 2 + 1" k 2] foldr_max_base [of 2 k] by auto
  then show ?thesis
    by (auto simp: os_ok_def opened_def toy_os_def Let_def)
qed

theorem device_no_leak_witness:
  "device_open toy_path_env toy_os (Some ''/media/disc/.'') [0] = Some (Some \<lparr>dev_fd = 3\<rparr>, [3, 0]) \<and>
   os_fds toy_os (snd (device_close toy_os (Some (Some \<lparr>dev_fd = 3\<rparr>)) [3, 0])) = {0}"
proof -
  have run: "device_open toy_path_env toy_os (Some ''/media/disc/.'') [0] = Some (Some \<lparr>dev_fd = 3\<rparr>, [3, 0])"
    by code_simp
  have "os_fds toy_os [0] = {0}"
    by (simp add: toy_os_def)
  then show ?thesis
    using run device_no_leak [OF toy_os_ok run] by simp
qed

theorem device_open_name_witness:
  "device_open (toy_path_env\<lparr>pe_readlink := \<lambda>_. NoLink\<rparr>) toy_os (Some ''/dev/../media//disc/./'') [0] =
   Some (Some \<lparr>dev_fd = 3\<rparr>, [3, 0])"
proof -
  have "ordinary_count ''dev/../media//disc/./'' = 3"
    and "dir_name (walk_parts [] (split_sep ''dev/../media//disc/./'')) = ''/media/disc''"
    and "open_resolved toy_os ''/media/disc'' [0] = (3, [3, 0])"
    by code_simp+
  then show ?thesis
    using device_open_name [of "toy_path_env\<lparr>pe_readlink := \<lambda>_. NoLink\<rparr>" "''dev/../media//disc/./''" toy_os "[0]"]
    by (simp add: toy_path_env_def AACS_PATH_MAX_def MAX_LINKS_def)
qed

definition toy_linux_mmc :: "(mmcdev \<times> int list) mmc" where
  "toy_linux_mmc = \<lparr>mmc_dev = (\<lparr>dev_fd = 3\<rparr>, [3]), mmc_host_nonce = zeros 20, mmc_host_key = zeros 20,
     mmc_host_key_point = zeros 40, mmc_drive_cert = zeros 92, mmc_read_drive_cert_flag = False,
     mmc_aacs_version = 0\<rparr>"

theorem linux_commands_witness:
  "mmc_report_key (linux_drive toy_os) toy_linux_mmc 0 0 0 0 8 = (1, zeros 8, toy_linux_mmc) \<and>
   mmc_send_key (linux_drive toy_os) toy_linux_mmc 0 1 [5] = (1, toy_linux_mmc)"
  using linux_commands [of 8 "[5]" toy_os toy_linux_mmc 0 0 0 0] linux_commands [of 8 "[5]" toy_os toy_linux_mmc 0 0 0 1]
  by (simp add: linux_exchange_def toy_os_def toy_linux_mmc_def)

end
