(* ===== verification/DeviceWin32.thy ===== *)
theory DeviceWin32
  imports DeviceLinux
begin

text \<open>
  \<^verbatim>\<open>file/mmc_device_win32.c\<close>: the drive on the Windows desktop, over the calls of the Windows SDK,
  which are the record \<open>w32\<close>, and the comparison with the drive on Linux.
\<close>

section \<open>The system\<close>

definition SCSI_IOCTL_DATA_OUT :: nat where "SCSI_IOCTL_DATA_OUT = 0"
definition SCSI_IOCTL_DATA_IN :: nat where "SCSI_IOCTL_DATA_IN = 1"
definition SCSI_IOCTL_DATA_UNSPECIFIED :: nat where "SCSI_IOCTL_DATA_UNSPECIFIED = 2"
definition IOCTL_SCSI_PASS_THROUGH_DIRECT :: nat where "IOCTL_SCSI_PASS_THROUGH_DIRECT = 0x4D014"
definition MAX_SENSE_LEN :: nat where "MAX_SENSE_LEN = 18"

text \<open>
  The structure of the request; a field that is not written yet is \<open>None\<close>.  \<open>ScsiStatus\<close> is an
  output.
\<close>

record sptd =
  sp_Length :: nat
  sp_PathId :: nat
  sp_TargetId :: nat
  sp_Lun :: nat
  sp_CdbLength :: nat
  sp_SenseInfoLength :: nat
  sp_DataIn :: "nat ub"
  sp_DataTransferLength :: "nat ub"
  sp_TimeOutValue :: nat
  sp_DataBuffer :: "byte list ptr ub"
  sp_SenseInfoOffset :: nat
  sp_Cdb :: "byte list"

definition SIZEOF_SPTD :: nat where "SIZEOF_SPTD = 56"

definition INVALID_HANDLE_VALUE :: int where "INVALID_HANDLE_VALUE = - 1"
definition DRIVE_CDROM :: nat where "DRIVE_CDROM = 5"
definition GENERIC_READ :: nat where "GENERIC_READ = 0x80000000"
definition GENERIC_WRITE :: nat where "GENERIC_WRITE = 0x40000000"

text \<open>
  \<open>w_CreateFileA\<close> takes the name and the access that is wanted.  \<open>w_DeviceIoControl\<close> takes a handle,
  the control code and the request, and gives its success, the SCSI status and the contents of the
  buffer.  \<open>w_handles\<close> are the open handles.
\<close>

record 'k w32 =
  w_GetDriveTypeA :: "string \<Rightarrow> 'k \<Rightarrow> nat"
  w_CreateFileA :: "string \<Rightarrow> nat \<Rightarrow> 'k \<Rightarrow> int \<times> 'k"
  w_CloseHandle :: "int \<Rightarrow> 'k \<Rightarrow> 'k"
  w_DeviceIoControl :: "int \<Rightarrow> nat \<Rightarrow> sptd \<Rightarrow> 'k \<Rightarrow> bool \<times> nat \<times> byte list \<times> 'k"
  w_handles :: "'k \<Rightarrow> int set"

text \<open>Opening gives a new handle or the invalid one, which is never open; closing removes a handle.\<close>

definition created :: "'k w32 \<Rightarrow> 'k \<Rightarrow> int \<times> 'k \<Rightarrow> bool" where
  "created w k r \<longleftrightarrow>
     (if fst r = INVALID_HANDLE_VALUE then w_handles w (snd r) = w_handles w k
      else fst r \<notin> w_handles w k \<and> w_handles w (snd r) = insert (fst r) (w_handles w k))"

definition w32_ok :: "'k w32 \<Rightarrow> bool" where
  "w32_ok w \<longleftrightarrow> (\<forall>p a k. created w k (w_CreateFileA w p a k)) \<and>
     (\<forall>h k. w_handles w (w_CloseHandle w h k) = w_handles w k - {h})"

record winmmcdev =
  wdev_fd :: int

section \<open>Commands\<close>

definition win_sptd :: "byte list \<Rightarrow> byte list ptr \<Rightarrow> nat \<Rightarrow> nat \<Rightarrow> sptd" where
  "win_sptd cdb buf tx rx =
     (let sptd = \<lparr>sp_Length = SIZEOF_SPTD, sp_PathId = 0, sp_TargetId = 0, sp_Lun = 0, sp_CdbLength = 12,
        sp_SenseInfoLength = MAX_SENSE_LEN, sp_DataIn = None, sp_DataTransferLength = None,
        sp_TimeOutValue = 5, sp_DataBuffer = None, sp_SenseInfoOffset = SIZEOF_SPTD, sp_Cdb = cdb\<rparr> in
      if buf \<noteq> None then
        (if tx \<noteq> 0 then sptd\<lparr>sp_DataIn := Some SCSI_IOCTL_DATA_OUT,
           sp_DataTransferLength := Some (tx mod 2 ^ 32), sp_DataBuffer := Some buf\<rparr>
         else if rx \<noteq> 0 then sptd\<lparr>sp_DataIn := Some SCSI_IOCTL_DATA_IN,
           sp_DataTransferLength := Some (rx mod 2 ^ 32), sp_DataBuffer := Some buf\<rparr>
         else sptd)
      else sptd\<lparr>sp_DataIn := Some SCSI_IOCTL_DATA_UNSPECIFIED, sp_DataTransferLength := Some 0,
        sp_DataBuffer := Some None\<rparr>)"

text \<open>
  A buffer that is not transferred in either direction leaves fields of the request indeterminate:
  undefined.  16 bytes of the command are copied.
\<close>

definition win_device_send_cmd ::
    "'k w32 \<Rightarrow> winmmcdev \<Rightarrow> 'k \<Rightarrow> byte list \<Rightarrow> byte list ptr \<Rightarrow> nat \<Rightarrow> nat \<Rightarrow> (int \<times> byte list ptr \<times> 'k) ub" where
  "win_device_send_cmd w dev k cmd buf tx rx =
     (if wdev_fd dev = INVALID_HANDLE_VALUE then Some (0, buf, k)
      else do {
        cdb \<leftarrow> rdn cmd 0 16;
        let sptd = win_sptd cdb buf tx rx;
        _ \<leftarrow> sp_DataIn sptd;
        _ \<leftarrow> sp_DataTransferLength sptd;
        buffer \<leftarrow> sp_DataBuffer sptd;
        let (ok, ScsiStatus, b, k) = w_DeviceIoControl w (wdev_fd dev) IOCTL_SCSI_PASS_THROUGH_DIRECT sptd k;
        Some (if ok \<and> ScsiStatus = 0 then 1 else 0, if buffer = None then buf else Some b, k)
      })"

section \<open>Opening and closing\<close>

definition c_str :: "string \<Rightarrow> string" where
  "c_str s = takeWhile (\<lambda>c. c \<noteq> CHR 0x00) s"

definition win_device_open :: "(nat \<Rightarrow> bool) \<Rightarrow> 'k w32 \<Rightarrow> string ptr \<Rightarrow> 'k \<Rightarrow> (winmmcdev ptr \<times> 'k) ub" where
  "win_device_open alloc w path k = do {
     path \<leftarrow> path;
     let c = (case path of [] \<Rightarrow> CHR 0x00 | c # _ \<Rightarrow> c);
     let drive = c_str [c, CHR '':'', CHR 0x5C];
     let volume = c_str [CHR 0x5C, CHR 0x5C, CHR ''.'', CHR 0x5C, c, CHR '':''];
     if w_GetDriveTypeA w drive k \<noteq> DRIVE_CDROM then Some (None, k)
     else
       let (fd, k) = w_CreateFileA w volume (GENERIC_READ OR GENERIC_WRITE) k;
           (fd, k) = (if fd = INVALID_HANDLE_VALUE then w_CreateFileA w volume GENERIC_READ k else (fd, k)) in
       if fd = INVALID_HANDLE_VALUE then Some (None, k)
       else if \<not> alloc 8 then Some (None, w_CloseHandle w fd k)
       else Some (Some \<lparr>wdev_fd = fd\<rparr>, k)
   }"

definition win_device_close :: "'k w32 \<Rightarrow> winmmcdev ptr ptr \<Rightarrow> 'k \<Rightarrow> winmmcdev ptr ptr \<times> 'k" where
  "win_device_close w pp k =
     (case pp of
        Some (Some dev) \<Rightarrow>
          (Some None, if wdev_fd dev \<noteq> INVALID_HANDLE_VALUE then w_CloseHandle w (wdev_fd dev) k else k)
      | _ \<Rightarrow> (pp, k))"

definition win_drive :: "'k w32 \<Rightarrow> (winmmcdev \<times> 'k) send_cmd" where
  "win_drive w = (\<lambda>(dev, k) cmd buf tx rx.
     case win_device_send_cmd w dev k cmd (Some buf) tx rx of
       Some (r, Some buf, k) \<Rightarrow> (r, buf, (dev, k))
     | _ \<Rightarrow> (0, buf, (dev, k)))"

section \<open>Handles\<close>

lemma win_open_created:
  assumes "w32_ok w"
  shows "created w k (let (fd, k') = w_CreateFileA w v a k
     in if fd = INVALID_HANDLE_VALUE then w_CreateFileA w v a' k' else (fd, k'))"
proof -
  have "created w k' (w_CreateFileA w v a k')" for a k'
    using assms by (simp add: w32_ok_def)
  from this [of k a] this [of "snd (w_CreateFileA w v a k)" a'] show ?thesis
    by (auto simp: created_def Let_def split: prod.splits)
qed

text \<open>
  Opening a drive leaks no handle on Windows either: a failing \<open>device_open\<close> leaves the handles alone,
  a successful one leaves exactly the one of the device open, and \<open>device_close\<close> closes it.
\<close>

lemma win_device_no_leak:
  assumes "w32_ok w" and "win_device_open alloc w path k = Some (dev, k')"
  shows "case dev of
      None \<Rightarrow> w_handles w k' = w_handles w k
    | Some d \<Rightarrow> wdev_fd d \<noteq> INVALID_HANDLE_VALUE \<and> wdev_fd d \<notin> w_handles w k \<and>
        w_handles w k' = insert (wdev_fd d) (w_handles w k) \<and>
        w_handles w (snd (win_device_close w (Some dev) k')) = w_handles w k"
proof -
  obtain p where p: "path = Some p" using assms(2) by (cases path) (simp_all add: win_device_open_def)
  define c where "c = (case p of [] \<Rightarrow> CHR 0x00 | c # _ \<Rightarrow> c)"
  define v where "v = c_str [CHR 0x5C, CHR 0x5C, CHR ''.'', CHR 0x5C, c, CHR '':'']"
  define r where "r = (let (fd, k') = w_CreateFileA w v (GENERIC_READ OR GENERIC_WRITE) k
     in if fd = INVALID_HANDLE_VALUE then w_CreateFileA w v GENERIC_READ k' else (fd, k'))"
  obtain fd k1 where r1: "r = (fd, k1)" by fastforce
  have new: "created w k (fd, k1)"
    using win_open_created [OF assms(1), of k v "GENERIC_READ OR GENERIC_WRITE" GENERIC_READ] unfolding r_def [symmetric] r1 .
  have close: "w_handles w (w_CloseHandle w h k2) = w_handles w k2 - {h}" for h k2
    using assms(1) by (simp add: w32_ok_def)
  have "(dev, k') = (if w_GetDriveTypeA w (c_str [c, CHR '':'', CHR 0x5C]) k \<noteq> DRIVE_CDROM then (None, k)
      else if fd = INVALID_HANDLE_VALUE then (None, k1)
      else if \<not> alloc 8 then (None, w_CloseHandle w fd k1) else (Some \<lparr>wdev_fd = fd\<rparr>, k1))"
    using assms(2) r1 unfolding win_device_open_def p bind.bind_lunit c_def [symmetric] Let_def v_def [symmetric] r_def
    by (auto split: prod.splits if_splits)
  then show ?thesis
    using new by (auto simp: created_def win_device_close_def close split: if_splits)
qed

section \<open>Linux and Windows\<close>

text \<open>
  One kernel state seen through both systems: the descriptor \<open>fd\<close> and the handle \<open>hf fd\<close> are the same
  drive, which gets the first 12 bytes of a packet and a buffer to fill or to read.
\<close>

definition same_os :: "(int \<Rightarrow> int) \<Rightarrow> 'k os \<Rightarrow> 'k w32 \<Rightarrow> bool" where
  "same_os hf os w \<longleftrightarrow> (\<forall>fd cdb buf out k. length cdb = 16 \<and> 0 < length buf \<and> length buf < 2 ^ 32 \<longrightarrow>
     (let (r, b, k1) = os_ioctl os fd \<lparr>cgc_cmd = take 12 cdb, cgc_buffer = Some buf, cgc_buflen = length buf,
            cgc_data_direction = (if out then CGC_DATA_WRITE else CGC_DATA_READ), cgc_timeout = 5000\<rparr> k;
          (ok, status, b', k2) = w_DeviceIoControl w (hf fd) IOCTL_SCSI_PASS_THROUGH_DIRECT
            \<lparr>sp_Length = SIZEOF_SPTD, sp_PathId = 0, sp_TargetId = 0, sp_Lun = 0, sp_CdbLength = 12,
             sp_SenseInfoLength = MAX_SENSE_LEN,
             sp_DataIn = Some (if out then SCSI_IOCTL_DATA_OUT else SCSI_IOCTL_DATA_IN),
             sp_DataTransferLength = Some (length buf), sp_TimeOutValue = 5, sp_DataBuffer = Some (Some buf),
             sp_SenseInfoOffset = SIZEOF_SPTD, sp_Cdb = cdb\<rparr> k
      in (0 \<le> r \<longleftrightarrow> ok \<and> status = 0) \<and> b' = b \<and> k2 = k1))"

definition win_of :: "(int \<Rightarrow> int) \<Rightarrow> mmcdev \<times> 'k \<Rightarrow> winmmcdev \<times> 'k" where
  "win_of hf = (\<lambda>(dev, k). (\<lparr>wdev_fd = hf (dev_fd dev)\<rparr>, k))"

lemma win_same_drive:
  assumes "same_os hf os w" and "\<And>fd. hf fd \<noteq> INVALID_HANDLE_VALUE"
  shows "same_drive (win_of hf) (linux_drive os) (win_drive w)"
  unfolding same_drive_def
proof (intro allI impI, elim conjE)
  fix d :: "mmcdev \<times> 'a" and cmd buf :: "byte list" and tx rx :: nat
  assume len: "length cmd = 16" "buf \<noteq> []" "length buf < 2 ^ 16"
    and dir: "tx = length buf \<and> rx = 0 \<or> tx = 0 \<and> rx = length buf"
  obtain dev k where d: "d = (dev, k)" by fastforce
  have cdb: "rdn cmd 0 16 = Some cmd" using len by (simp add: rdn_def)
  have "0 < length buf" "length buf < 2 ^ 32" using len by simp_all
  note same = assms(1) [unfolded same_os_def, rule_format, of cmd buf "dev_fd dev" "tx \<noteq> 0" k, OF conjI, OF len(1) conjI, OF this]
  show "win_drive w (win_of hf d) cmd buf tx rx =
      (let (r, b, d') = linux_drive os d cmd buf tx rx in (r, b, win_of hf d'))"
    using same dir len assms(2)
    by (auto simp: d win_of_def win_drive_def win_device_send_cmd_def cdb win_sptd_def linux_drive_eq device_cgc_def
        Let_def split: prod.splits if_splits)
qed


text \<open>A system for concrete runs: Windows beside \<open>toy_os\<close>, with a drive that echoes.\<close>

definition toy_w32 :: "int list w32" where
  "toy_w32 = \<lparr>w_GetDriveTypeA = \<lambda>p k. if p = [CHR ''D'', CHR '':'', CHR 0x5C] then DRIVE_CDROM else 3,
     w_CreateFileA = \<lambda>p a k. (let h = foldr max k 2 + 1 in (h, h # k)), w_CloseHandle = \<lambda>h k. [x \<leftarrow> k. x \<noteq> h],
     w_DeviceIoControl = \<lambda>h c s k. (True, 0, case sp_DataBuffer s of Some (Some b) \<Rightarrow> b | _ \<Rightarrow> [], k),
     w_handles = set\<rparr>"

lemma toy_same_os: "same_os (\<lambda>fd. 2 * fd) toy_os toy_w32"
  by (simp add: same_os_def toy_os_def toy_w32_def Let_def)

lemma even_valid: "2 * fd \<noteq> INVALID_HANDLE_VALUE"
  by (simp add: INVALID_HANDLE_VALUE_def) presburger


end
