(* ===== verification/DeviceDarwin.thy ===== *)
theory DeviceDarwin
  imports DeviceLinux "HOL-Library.Multiset"
begin

text \<open>
  \<^verbatim>\<open>file/mmc_device_darwin.c\<close>: the drive on macOS.  To send commands a program needs exclusive
  access, and for that the disc has to be unmounted; closing the drive mounts it again.  Unmounting,
  the requests of the system to mount the disc and mounting end in callbacks on a queue of their own,
  which signal a semaphore the library waits for.  The first part models the functions between the
  waits, over the answers of IOKit and DiskArbitration (\<open>iokit\<close>), the second the interleaving of
  library and callbacks as a step relation.
\<close>

section \<open>State\<close>

datatype disk_state = disk_mounted | disk_unmounted | disk_appeared | disk_mounting

text \<open>
  The pointers of \<open>struct mmcdev\<close> are null or not; the semaphore is null or has a count.
\<close>

record darwindev =
  dd_plugInInterface :: bool
  dd_mmcInterface :: bool
  dd_taskInterface :: bool
  dd_bsd_name :: string
  dd_disk :: bool
  dd_session :: bool
  dd_disk_state :: disk_state
  dd_sync_sem :: "nat ptr"
  dd_background_queue :: bool

text \<open>What the library holds and has to give back; a registered callback counts as well.\<close>

datatype ref = PlugIn | MmcInterface | TaskInterface | Session | Disk | Semaphore | Queue | Approval
  | Iterator | Service nat

text \<open>Giving back what is not held is undefined.\<close>

definition give_back :: "ref \<Rightarrow> ref multiset \<Rightarrow> ref multiset ub" where
  "give_back r R = (if r \<in># R then Some (R - {#r#}) else None)"

text \<open>
  The answers of the system: the device a path is mounted from, the services with their BSD names
  (\<open>None\<close>: no such property), and which calls succeed; a call that fails gives no object.
\<close>

record iokit =
  io_alloc :: "nat \<Rightarrow> bool"
  io_statfs :: "string \<Rightarrow> string option"
  io_matching :: bool
  io_services :: "(nat \<times> string ptr) list option"
  io_plugin :: "nat \<Rightarrow> bool"
  io_mmc :: bool
  io_task :: bool
  io_session :: bool
  io_disk :: "string \<Rightarrow> bool"

definition MNAMELEN :: nat where "MNAMELEN = 1024"

definition SIZEOF_MMCDEV :: nat where "SIZEOF_MMCDEV = 1088"

text \<open>
  The function of the C library.  \<open>f_mntfromname\<close> is a string in an array of \<open>MNAMELEN\<close> bytes, so the
  copy of its last component always has its end.
\<close>

definition basename :: "string \<Rightarrow> string" where
  "basename path =
     (if path = [] then ''.''
      else let p = strip_slashes path in
           if p = [] then ''/'' else rev (takeWhile (\<lambda>c. c \<noteq> CHR ''/'') (rev p)))"

section \<open>Commands\<close>

definition kSCSIDataTransfer_NoDataTransfer :: nat where "kSCSIDataTransfer_NoDataTransfer = 0"
definition kSCSIDataTransfer_FromInitiatorToTarget :: nat where "kSCSIDataTransfer_FromInitiatorToTarget = 1"
definition kSCSIDataTransfer_FromTargetToInitiator :: nat where "kSCSIDataTransfer_FromTargetToInitiator = 2"

text \<open>
  The calls on a SCSI task, on a system with a state of any type.  Executing gives success, the
  status of the task and the contents of the buffer; \<open>st_tasks\<close> is the number of tasks.
\<close>

record 'k scsi_task =
  st_create :: "'k \<Rightarrow> bool \<times> 'k"
  st_set_cdb :: "byte list \<Rightarrow> 'k \<Rightarrow> bool \<times> 'k"
  st_set_sg :: "byte list ptr \<Rightarrow> nat \<Rightarrow> nat \<Rightarrow> 'k \<Rightarrow> bool \<times> 'k"
  st_set_timeout :: "nat \<Rightarrow> 'k \<Rightarrow> bool \<times> 'k"
  st_execute :: "byte list ptr \<Rightarrow> 'k \<Rightarrow> bool \<times> nat \<times> byte list ptr \<times> 'k"
  st_release :: "'k \<Rightarrow> 'k"
  st_tasks :: "'k \<Rightarrow> nat"

definition darwin_device_send_cmd ::
    "'k scsi_task \<Rightarrow> darwindev \<Rightarrow> 'k \<Rightarrow> byte list \<Rightarrow> byte list ptr \<Rightarrow> nat \<Rightarrow> nat \<Rightarrow> (int \<times> byte list ptr \<times> 'k) ub" where
  "darwin_device_send_cmd T mmc k cmd buf tx rx =
     (if \<not> dd_taskInterface mmc then Some (0, buf, k)
      else let (task, k) = st_create T k in
      if \<not> task then Some (0, buf, k)
      else do {
        let len = (if tx \<noteq> 0 then tx else rx);
        let direction = (if buf \<noteq> None
          then (if tx \<noteq> 0 then kSCSIDataTransfer_FromInitiatorToTarget else kSCSIDataTransfer_FromTargetToInitiator)
          else kSCSIDataTransfer_NoDataTransfer);
        cdb \<leftarrow> rdn cmd 0 16;
        let (rc, k) = st_set_cdb T cdb k;
        if \<not> rc then Some (0, buf, st_release T k)
        else let (rc, k) = st_set_sg T buf len direction k in
        if \<not> rc then Some (0, buf, st_release T k)
        else let (rc, k) = st_set_timeout T 5000000 k in
        if \<not> rc then Some (0, buf, st_release T k)
        else let (rc, status, buf, k) = st_execute T buf k in
        if \<not> rc \<or> status \<noteq> 0 then Some (0, buf, st_release T k)
        else Some (1, buf, st_release T k)
      })"

definition scsi_task_ok :: "'k scsi_task \<Rightarrow> bool" where
  "scsi_task_ok T \<longleftrightarrow>
     (\<forall>k. st_tasks T (snd (st_create T k)) = st_tasks T k + (if fst (st_create T k) then 1 else 0)) \<and>
     (\<forall>cdb k. st_tasks T (snd (st_set_cdb T cdb k)) = st_tasks T k) \<and>
     (\<forall>b n d k. st_tasks T (snd (st_set_sg T b n d k)) = st_tasks T k) \<and>
     (\<forall>n k. st_tasks T (snd (st_set_timeout T n k)) = st_tasks T k) \<and>
     (\<forall>b k. st_tasks T (snd (snd (snd (st_execute T b k)))) = st_tasks T k) \<and>
     (\<forall>k. st_tasks T (st_release T k) = st_tasks T k - 1)"

text \<open>Every way out of a command gives the task back.\<close>

lemma darwin_send_releases:
  assumes "scsi_task_ok T" and "darwin_device_send_cmd T mmc k cmd buf tx rx = Some (r, buf', k')"
  shows "st_tasks T k' = st_tasks T k"
proof -
  have laws: "st_tasks T k2 = st_tasks T k1 + (if ok then 1 else 0)" if "st_create T k1 = (ok, k2)" for k1 ok k2
    using assms(1) that unfolding scsi_task_ok_def by (metis fst_conv snd_conv)
  have cdb: "st_tasks T k2 = st_tasks T k1" if "st_set_cdb T c k1 = (ok, k2)" for c k1 ok k2
    using assms(1) that unfolding scsi_task_ok_def by (metis snd_conv)
  have sg: "st_tasks T k2 = st_tasks T k1" if "st_set_sg T b n d k1 = (ok, k2)" for b n d k1 ok k2
    using assms(1) that unfolding scsi_task_ok_def by (metis snd_conv)
  have tm: "st_tasks T k2 = st_tasks T k1" if "st_set_timeout T n k1 = (ok, k2)" for n k1 ok k2
    using assms(1) that unfolding scsi_task_ok_def by (metis snd_conv)
  have ex: "st_tasks T k2 = st_tasks T k1" if "st_execute T b k1 = (ok, st, b', k2)" for b k1 ok st b' k2
    using assms(1) that unfolding scsi_task_ok_def by (metis snd_conv)
  have rel: "st_tasks T (st_release T k1) = st_tasks T k1 - 1" for k1
    using assms(1) unfolding scsi_task_ok_def by blast
  show ?thesis
    using assms(2)
    by (auto simp: darwin_device_send_cmd_def Let_def rel dest!: laws cdb sg tm ex
        split: if_splits prod.splits Option.bind_splits)
qed

section \<open>Opening\<close>

definition get_mounted_device_from_path :: "iokit \<Rightarrow> darwindev \<Rightarrow> string \<Rightarrow> int \<times> darwindev" where
  "get_mounted_device_from_path E mmc path =
     (case io_statfs E path of
        None \<Rightarrow> (- 1, mmc)
      | Some f_mntfromname \<Rightarrow> (0, mmc\<lparr>dd_bsd_name := take MNAMELEN (basename f_mntfromname)\<rparr>))"

text \<open>The loop over the services: the one that is found stays held, 0 if there is none.\<close>

fun find_service :: "string \<Rightarrow> (nat \<times> string ptr) list \<Rightarrow> ref multiset \<Rightarrow> (nat \<times> ref multiset) ub" where
  "find_service bsd_name [] R = Some (0, R)"
| "find_service bsd_name ((service, data) # services) R =
     (let R = add_mset (Service service) R in
      if data = Some bsd_name then Some (service, R)
      else do {
        R \<leftarrow> give_back (Service service) R;
        find_service bsd_name services R
      })"

definition iokit_find_service_matching ::
    "iokit \<Rightarrow> darwindev \<Rightarrow> ref multiset \<Rightarrow> (int \<times> nat \<times> ref multiset) ub" where
  "iokit_find_service_matching E mmc R =
     (if \<not> io_matching E then Some (- 1, 0, R)
      else case io_services E of None \<Rightarrow> Some (- 1, 0, R)
      | Some services \<Rightarrow> do {
          (service, R) \<leftarrow> find_service (dd_bsd_name mmc) services (add_mset Iterator R);
          R \<leftarrow> give_back Iterator R;
          Some (if service \<noteq> 0 then 0 else - 1, service, R)
        })"

definition iokit_find_interfaces ::
    "iokit \<Rightarrow> darwindev \<Rightarrow> nat \<Rightarrow> ref multiset \<Rightarrow> int \<times> darwindev \<times> ref multiset" where
  "iokit_find_interfaces E mmc service R =
     (if \<not> io_plugin E service then (- 1, mmc, R)
      else let mmc = mmc\<lparr>dd_plugInInterface := True\<rparr>; R = add_mset PlugIn R in
      if \<not> io_mmc E then (- 1, mmc, R)
      else let mmc = mmc\<lparr>dd_mmcInterface := True\<rparr>; R = add_mset MmcInterface R in
      if \<not> io_task E then (- 1, mmc, R)
      else (0, mmc\<lparr>dd_taskInterface := True\<rparr>, add_mset TaskInterface R))"

definition iokit_da_init :: "iokit \<Rightarrow> darwindev \<Rightarrow> ref multiset \<Rightarrow> (int \<times> darwindev \<times> ref multiset) ub" where
  "iokit_da_init E mmc R =
     (if \<not> io_session E then Some (- 1, mmc, R)
      else let mmc = mmc\<lparr>dd_session := True\<rparr>; R = add_mset Session R in
      if \<not> io_disk E (dd_bsd_name mmc) then do {
        R \<leftarrow> give_back Session R;
        Some (- 1, mmc\<lparr>dd_session := False\<rparr>, R)
      } else
        Some (0, mmc\<lparr>dd_disk := True, dd_background_queue := True, dd_sync_sem := Some 0\<rparr>,
          R + {#Disk, Queue, Approval, Semaphore#}))"

definition zero_darwindev :: darwindev where
  "zero_darwindev = \<lparr>dd_plugInInterface = False, dd_mmcInterface = False, dd_taskInterface = False,
     dd_bsd_name = [], dd_disk = False, dd_session = False, dd_disk_state = disk_mounted,
     dd_sync_sem = None, dd_background_queue = False\<rparr>"

text \<open>\<open>mmc_open_iokit\<close> up to the first wait, on the object \<open>device_open\<close> allocates.\<close>

definition mmc_open_iokit :: "iokit \<Rightarrow> string \<Rightarrow> ref multiset \<Rightarrow> (int \<times> darwindev \<times> ref multiset) ub" where
  "mmc_open_iokit E path R =
     (let (rc, mmc) = get_mounted_device_from_path E zero_darwindev path in
      if rc \<noteq> 0 then Some (rc, mmc, R)
      else do {
        (rc, service, R) \<leftarrow> iokit_find_service_matching E mmc R;
        if rc \<noteq> 0 then Some (rc, mmc, R)
        else do {
          let (rc, mmc, R) = iokit_find_interfaces E mmc service R;
          R \<leftarrow> give_back (Service service) R;
          if rc \<noteq> 0 then Some (rc, mmc, R) else iokit_da_init E mmc R
        }
      })"

section \<open>Closing\<close>

definition iokit_da_destroy :: "darwindev \<Rightarrow> ref multiset \<Rightarrow> (darwindev \<times> ref multiset) ub" where
  "iokit_da_destroy mmc R = do {
     (mmc, R) \<leftarrow> (if dd_session mmc then do {
         R \<leftarrow> give_back Approval R;
         R \<leftarrow> give_back Session R;
         Some (mmc\<lparr>dd_session := False\<rparr>, R)
       } else Some (mmc, R));
     (mmc, R) \<leftarrow> (if dd_disk mmc then do {
         R \<leftarrow> give_back Disk R;
         Some (mmc\<lparr>dd_disk := False\<rparr>, R)
       } else Some (mmc, R));
     R \<leftarrow> give_back Semaphore R;
     Some (mmc, R)
   }"

text \<open>The first part of \<open>device_close\<close>: the interfaces, and with them the exclusive access.\<close>

definition close_interfaces :: "darwindev \<Rightarrow> ref multiset \<Rightarrow> (darwindev \<times> ref multiset) ub" where
  "close_interfaces mmc R = do {
     (mmc, R) \<leftarrow> (if dd_taskInterface mmc then do {
         R \<leftarrow> give_back TaskInterface R;
         Some (mmc\<lparr>dd_taskInterface := False\<rparr>, R)
       } else Some (mmc, R));
     (mmc, R) \<leftarrow> (if dd_mmcInterface mmc then do {
         R \<leftarrow> give_back MmcInterface R;
         Some (mmc\<lparr>dd_mmcInterface := False\<rparr>, R)
       } else Some (mmc, R));
     R \<leftarrow> (if dd_plugInInterface mmc then give_back PlugIn R else Some R);
     Some (mmc, R)
   }"

section \<open>Callbacks\<close>

definition signal :: "darwindev \<Rightarrow> darwindev" where
  "signal mmc = mmc\<lparr>dd_sync_sem := map_option Suc (dd_sync_sem mmc)\<rparr>"

text \<open>A dissenter refuses.\<close>

definition iokit_unmount_complete :: "bool \<Rightarrow> darwindev \<Rightarrow> darwindev" where
  "iokit_unmount_complete dissenter mmc =
     signal (if dissenter then mmc else mmc\<lparr>dd_disk_state := disk_unmounted\<rparr>)"

definition iokit_mount_complete :: "bool \<Rightarrow> darwindev \<Rightarrow> darwindev" where
  "iokit_mount_complete dissenter mmc =
     signal (if dissenter then mmc\<lparr>dd_disk_state := disk_unmounted\<rparr> else mmc\<lparr>dd_disk_state := disk_mounted\<rparr>)"

text \<open>\<open>ours\<close>: the disk to be mounted is the one of the device; the result tells whether it is refused.\<close>

definition iokit_mount_approval_cb :: "bool \<Rightarrow> darwindev \<Rightarrow> bool \<times> darwindev" where
  "iokit_mount_approval_cb ours mmc =
     (if dd_disk_state mmc = disk_mounted then (False, mmc)
      else if \<not> ours then (False, mmc)
      else if dd_disk_state mmc = disk_mounting then (False, mmc)
      else (True, signal (mmc\<lparr>dd_disk_state := disk_appeared\<rparr>)))"

section \<open>Library and callbacks\<close>

text \<open>
  Where the library is: before and in the wait of \<open>iokit_unmount\<close>, before \<open>ObtainExclusiveAccess\<close>,
  back in the application, at the beginning of \<open>device_close\<close>, in its wait, before its block on the
  queue, before \<open>iokit_mount\<close> and in its wait, and when the object is freed.
\<close>

datatype pc = AtUnmount | UnmountWait | AtExclusive | Opened | AtClose | AppearWait | AppearCheck
  | AtMount | MountWait | Closed

text \<open>\<open>ds_unmount\<close> and \<open>ds_mount\<close>: a request whose callback has not been called yet.\<close>

record dsys =
  ds_mmc :: darwindev
  ds_refs :: "ref multiset"
  ds_pc :: pc
  ds_unmount :: bool
  ds_mount :: bool
  ds_exclusive :: bool

definition state :: "dsys \<Rightarrow> disk_state" where "state s = dd_disk_state (ds_mmc s)"

text \<open>Blocked when the count is 0.\<close>

definition sem_wait :: "dsys \<Rightarrow> dsys option" where
  "sem_wait s =
     (case dd_sync_sem (ds_mmc s) of
        Some (Suc n) \<Rightarrow> Some (s\<lparr>ds_mmc := ds_mmc s\<lparr>dd_sync_sem := Some n\<rparr>\<rparr>)
      | _ \<Rightarrow> None)"

definition iokit_unmount_begin :: "dsys \<Rightarrow> dsys" where
  "iokit_unmount_begin s =
     (if state s = disk_unmounted then s\<lparr>ds_pc := AtExclusive\<rparr> else s\<lparr>ds_unmount := True, ds_pc := UnmountWait\<rparr>)"

definition iokit_unmount_end :: "dsys \<Rightarrow> dsys" where
  "iokit_unmount_end s = s\<lparr>ds_pc := (if state s = disk_unmounted then AtExclusive else AtClose)\<rparr>"

text \<open>The end of \<open>mmc_open_iokit\<close>; without exclusive access \<open>device_open\<close> closes the device.\<close>

definition obtain_exclusive :: "bool \<Rightarrow> dsys \<Rightarrow> dsys" where
  "obtain_exclusive ok s = s\<lparr>ds_exclusive := ok, ds_pc := (if ok then Opened else AtClose)\<rparr>"

definition close_finish :: "dsys \<Rightarrow> dsys ub" where
  "close_finish s = do {
     (mmc, R) \<leftarrow> iokit_da_destroy (ds_mmc s) (ds_refs s);
     Some (s\<lparr>ds_mmc := mmc, ds_refs := R, ds_pc := Closed\<rparr>)
   }"

definition close_begin :: "dsys \<Rightarrow> dsys ub" where
  "close_begin s = do {
     (mmc, R) \<leftarrow> close_interfaces (ds_mmc s) (ds_refs s);
     Some (s\<lparr>ds_mmc := mmc, ds_refs := R, ds_exclusive := False,
       ds_pc := (if dd_sync_sem mmc = None then Closed else AppearWait)\<rparr>)
   }"

definition close_check :: "dsys \<Rightarrow> dsys ub" where
  "close_check s = (if state s \<noteq> disk_appeared then close_finish s else Some (s\<lparr>ds_pc := AtMount\<rparr>))"

definition iokit_mount_begin :: "dsys \<Rightarrow> dsys ub" where
  "iokit_mount_begin s =
     (if state s \<noteq> disk_mounted \<and> dd_disk (ds_mmc s) \<and> dd_session (ds_mmc s)
      then Some (s\<lparr>ds_mmc := ds_mmc s\<lparr>dd_disk_state := disk_mounting\<rparr>, ds_mount := True, ds_pc := MountWait\<rparr>)
      else close_finish s)"

text \<open>What \<open>iokit_mount\<close> returns, which \<open>device_close\<close> ignores.\<close>

definition iokit_mount_result :: "dsys \<Rightarrow> int" where
  "iokit_mount_result s = (if state s = disk_unmounted then 0 else - 1)"

text \<open>
  \<open>Lib\<close> is a step of the library, \<open>Timeout\<close> the end of the 20 seconds, the others are the answer
  to \<open>ObtainExclusiveAccess\<close> and the callbacks: an operation that is done (with a dissenter or not)
  and a request to mount a disk (ours or another).  Callbacks come as long as the session is there.
\<close>

datatype event = Lib | Timeout | Exclusive bool | UnmountDone bool | MountDone bool | Request bool

inductive darwin_step :: "event \<Rightarrow> dsys \<Rightarrow> dsys \<Rightarrow> bool" where
  unmount: "ds_pc s = AtUnmount \<Longrightarrow> darwin_step Lib s (iokit_unmount_begin s)"
| unmount_wake: "ds_pc s = UnmountWait \<Longrightarrow> sem_wait s = Some s' \<Longrightarrow> darwin_step Lib s (iokit_unmount_end s')"
| exclusive: "ds_pc s = AtExclusive \<Longrightarrow>
    darwin_step (Exclusive ok) s (obtain_exclusive ok s)"
| close: "ds_pc s = Opened \<Longrightarrow> darwin_step Lib s (s\<lparr>ds_pc := AtClose\<rparr>)"
| close_begin: "ds_pc s = AtClose \<Longrightarrow> close_begin s = Some s' \<Longrightarrow> darwin_step Lib s s'"
| appear: "ds_pc s = AppearWait \<Longrightarrow> sem_wait s = Some s' \<Longrightarrow> darwin_step Lib s (s'\<lparr>ds_pc := AppearCheck\<rparr>)"
| timeout: "ds_pc s = AppearWait \<Longrightarrow> darwin_step Timeout s (s\<lparr>ds_pc := AppearCheck\<rparr>)"
| check: "ds_pc s = AppearCheck \<Longrightarrow> close_check s = Some s' \<Longrightarrow> darwin_step Lib s s'"
| mount: "ds_pc s = AtMount \<Longrightarrow> iokit_mount_begin s = Some s' \<Longrightarrow> darwin_step Lib s s'"
| mount_wake: "ds_pc s = MountWait \<Longrightarrow> sem_wait s = Some s1 \<Longrightarrow> close_finish s1 = Some s' \<Longrightarrow> darwin_step Lib s s'"
| unmount_done: "ds_unmount s \<Longrightarrow> dd_session (ds_mmc s) \<Longrightarrow>
    darwin_step (UnmountDone d) s (s\<lparr>ds_unmount := False, ds_mmc := iokit_unmount_complete d (ds_mmc s)\<rparr>)"
| mount_done: "ds_mount s \<Longrightarrow> dd_session (ds_mmc s) \<Longrightarrow>
    darwin_step (MountDone d) s (s\<lparr>ds_mount := False, ds_mmc := iokit_mount_complete d (ds_mmc s)\<rparr>)"
| request: "Approval \<in># ds_refs s \<Longrightarrow>
    darwin_step (Request ours) s (s\<lparr>ds_mmc := snd (iokit_mount_approval_cb ours (ds_mmc s))\<rparr>)"

inductive_cases darwin_stepE: "darwin_step e s s'"

inductive darwin_run :: "event list \<Rightarrow> dsys \<Rightarrow> dsys \<Rightarrow> bool" where
  none: "darwin_run [] s s"
| one_more: "darwin_run es s s' \<Longrightarrow> darwin_step e s' s'' \<Longrightarrow> darwin_run (es @ [e]) s s''"

text \<open>
  \<open>device_open\<close> up to the first wait: it goes on with unmounting, or to \<open>device_close\<close> when
  something failed.
\<close>

definition device_open_begin :: "iokit \<Rightarrow> string \<Rightarrow> dsys ub ptr" where
  "device_open_begin E path =
     (if \<not> io_alloc E SIZEOF_MMCDEV then None
      else Some (do {
        (rc, mmc, R) \<leftarrow> mmc_open_iokit E path {#};
        Some \<lparr>ds_mmc = mmc, ds_refs = R, ds_pc = (if rc \<noteq> 0 then AtClose else AtUnmount), ds_unmount = False,
          ds_mount = False, ds_exclusive = False\<rparr>
      }))"

section \<open>References\<close>

definition full_refs :: "ref multiset" where
  "full_refs = {#PlugIn, MmcInterface, TaskInterface, Session, Disk, Queue, Approval, Semaphore#}"

definition da_refs :: "ref multiset" where "da_refs = {#Session, Disk, Queue, Approval, Semaphore#}"

definition iface_refs :: "darwindev \<Rightarrow> ref multiset" where
  "iface_refs mmc = (if dd_plugInInterface mmc then {#PlugIn#} else {#}) +
     (if dd_mmcInterface mmc then {#MmcInterface#} else {#}) + (if dd_taskInterface mmc then {#TaskInterface#} else {#})"

lemmas ref_defs = full_refs_def da_refs_def iface_refs_def give_back_def

definition io_ok :: "iokit \<Rightarrow> bool" where
  "io_ok E \<longleftrightarrow> (\<forall>services. io_services E = Some services \<longrightarrow> (\<forall>(service, name) \<in> set services. service \<noteq> 0))"

lemma find_service_refs:
  "\<forall>(service, name) \<in> set services. service \<noteq> 0 \<Longrightarrow>
     (\<exists>service. service \<noteq> 0 \<and> find_service bsd services R = Some (service, add_mset (Service service) R)) \<or>
     find_service bsd services R = Some (0, R)"
proof (induction services)
  case (Cons entry services)
  obtain service data where entry: "entry = (service, data)" by fastforce
  with Cons show ?case by (cases "data = Some bsd") (auto simp: give_back_def Let_def)
qed simp

text \<open>The object after the first part of \<open>device_open\<close>: everything, or what was got before the failure.\<close>

definition failed :: "darwindev \<Rightarrow> ref multiset \<Rightarrow> bool" where
  "failed mmc R \<longleftrightarrow> dd_sync_sem mmc = None \<and> \<not> dd_session mmc \<and> \<not> dd_disk mmc \<and>
     dd_disk_state mmc = disk_mounted \<and> R = iface_refs mmc"

definition complete :: "darwindev \<Rightarrow> ref multiset \<Rightarrow> bool" where
  "complete mmc R \<longleftrightarrow> dd_sync_sem mmc \<noteq> None \<and> dd_session mmc \<and> dd_disk mmc \<and>
     dd_plugInInterface mmc \<and> dd_mmcInterface mmc \<and> dd_taskInterface mmc \<and> R = full_refs"

lemma mmc_open_iokit_refs:
  assumes "io_ok E"
  shows "\<exists>rc mmc R. mmc_open_iokit E path {#} = Some (rc, mmc, R) \<and>
    (if rc = 0 then complete mmc R \<and> dd_disk_state mmc = disk_mounted \<and> dd_sync_sem mmc = Some 0 else failed mmc R)"
proof -
  let ?F = "failed zero_darwindev {#}"
  have start: "get_mounted_device_from_path E zero_darwindev path = (- 1, zero_darwindev) \<or>
      (\<exists>n. get_mounted_device_from_path E zero_darwindev path = (0, zero_darwindev\<lparr>dd_bsd_name := n\<rparr>))"
    by (auto simp: get_mounted_device_from_path_def split: option.splits)
  have find: "(\<exists>service. iokit_find_service_matching E mmc {#} = Some (0, service, {#Service service#})) \<or>
      iokit_find_service_matching E mmc {#} = Some (- 1, 0, {#})" for mmc
  proof (cases "io_services E")
    case (Some services)
    then have "\<forall>(service, name) \<in> set services. service \<noteq> 0" using assms by (simp add: io_ok_def)
    from find_service_refs [OF this, of "dd_bsd_name mmc" "{#Iterator#}"] show ?thesis
      by (auto simp: iokit_find_service_matching_def give_back_def Some)
  qed (simp add: iokit_find_service_matching_def)
  have iface: "iokit_find_interfaces E (zero_darwindev\<lparr>dd_bsd_name := n\<rparr>) service {#Service service#} = (rc, mmc, R) \<Longrightarrow>
      R = iface_refs mmc + {#Service service#} \<and> dd_sync_sem mmc = None \<and> \<not> dd_session mmc \<and> \<not> dd_disk mmc \<and>
      dd_disk_state mmc = disk_mounted \<and>
      (rc = 0 \<longrightarrow> dd_plugInInterface mmc \<and> dd_mmcInterface mmc \<and> dd_taskInterface mmc)" for n service rc mmc R
    by (auto simp: iokit_find_interfaces_def zero_darwindev_def iface_refs_def Let_def split: if_splits)
  have da: "\<exists>rc mmc' R'. iokit_da_init E mmc (iface_refs mmc) = Some (rc, mmc', R') \<and>
      (if rc = 0 then complete mmc' R' \<and> dd_disk_state mmc' = disk_mounted \<and> dd_sync_sem mmc' = Some 0 else failed mmc' R')"
    if "dd_sync_sem mmc = None" "\<not> dd_session mmc" "\<not> dd_disk mmc" "dd_disk_state mmc = disk_mounted"
      "dd_plugInInterface mmc" "dd_mmcInterface mmc" "dd_taskInterface mmc" for mmc
    using that by (auto simp: iokit_da_init_def failed_def complete_def ref_defs Let_def)
  show ?thesis
  proof (cases "get_mounted_device_from_path E zero_darwindev path = (- 1, zero_darwindev)")
    case True
    then show ?thesis by (simp add: mmc_open_iokit_def) (simp add: failed_def zero_darwindev_def iface_refs_def)
  next
    case False
    then obtain n where n: "get_mounted_device_from_path E zero_darwindev path = (0, zero_darwindev\<lparr>dd_bsd_name := n\<rparr>)"
      using start by blast
    let ?mmc = "zero_darwindev\<lparr>dd_bsd_name := n\<rparr>"
    show ?thesis
    proof (cases "\<exists>service. iokit_find_service_matching E ?mmc {#} = Some (0, service, {#Service service#})")
      case False
      then have "iokit_find_service_matching E ?mmc {#} = Some (- 1, 0, {#})" using find by blast
      then show ?thesis by (simp add: mmc_open_iokit_def n) (simp add: failed_def zero_darwindev_def iface_refs_def)
    next
      case True
      then obtain service where service: "iokit_find_service_matching E ?mmc {#} = Some (0, service, {#Service service#})" by blast
      obtain rc mmc R where f: "iokit_find_interfaces E ?mmc service {#Service service#} = (rc, mmc, R)"
        by (metis prod_cases3)
      note i = iface [OF f]
      show ?thesis
        using i da [of mmc] by (cases "rc = 0") (auto simp: mmc_open_iokit_def n service f give_back_def failed_def)
    qed
  qed
qed

end
