(* ===== verification/DarwinMount.thy ===== *)
theory DarwinMount
  imports DeviceDarwin
begin

text \<open>
  The drive on macOS, continued: what holds however the callbacks are interleaved with the library.
  Nothing is lost but the queue, nothing blocks for good, and the disc is mounted again before
  \<open>device_close\<close> returns, unless the system asks twice.
\<close>

section \<open>Invariant\<close>

definition waiting :: "darwindev \<Rightarrow> ref multiset \<Rightarrow> bool" where
  "waiting mmc R \<longleftrightarrow> dd_sync_sem mmc \<noteq> None \<and> dd_session mmc \<and> dd_disk mmc \<and> R = da_refs"

definition darwin_inv :: "dsys \<Rightarrow> bool" where
  "darwin_inv s \<longleftrightarrow>
     (let mmc = ds_mmc s; R = ds_refs s; sem = dd_sync_sem mmc in
      (case ds_pc s of
         AtUnmount \<Rightarrow> complete mmc R \<and> state s = disk_mounted \<and> sem = Some 0
       | UnmountWait \<Rightarrow> complete mmc R \<and>
           (if ds_unmount s then state s = disk_mounted \<and> sem = Some 0 else state s \<noteq> disk_mounting \<and> sem \<noteq> Some 0)
       | AtExclusive \<Rightarrow> complete mmc R \<and> (state s = disk_unmounted \<or> state s = disk_appeared)
       | Opened \<Rightarrow> complete mmc R \<and> (state s = disk_unmounted \<or> state s = disk_appeared)
       | AtClose \<Rightarrow> complete mmc R \<and> state s \<noteq> disk_mounting \<or> failed mmc R
       | AppearWait \<Rightarrow> waiting mmc R \<and> state s \<noteq> disk_mounting
       | AppearCheck \<Rightarrow> waiting mmc R \<and> state s \<noteq> disk_mounting
       | AtMount \<Rightarrow> waiting mmc R \<and> state s = disk_appeared
       | MountWait \<Rightarrow> waiting mmc R \<and> (ds_mount s \<or> sem \<noteq> Some 0)
       | Closed \<Rightarrow> \<not> dd_session mmc \<and> R \<subseteq># {#Queue#}) \<and>
      (ds_unmount s \<longrightarrow> ds_pc s = UnmountWait) \<and> (ds_mount s \<longrightarrow> ds_pc s = MountWait \<or> ds_pc s = Closed) \<and>
      (ds_exclusive s \<longrightarrow> ds_pc s = Opened \<or> ds_pc s = AtClose \<and> complete mmc R) \<and>
      (ds_pc s = Opened \<longrightarrow> ds_exclusive s))"

lemma sem_wait_eq: "sem_wait s = Some s' \<longleftrightarrow>
    (\<exists>n. dd_sync_sem (ds_mmc s) = Some (Suc n) \<and> s' = s\<lparr>ds_mmc := ds_mmc s\<lparr>dd_sync_sem := Some n\<rparr>\<rparr>)"
  by (auto simp: sem_wait_def split: option.splits nat.splits)

lemma close_interfaces_complete:
  "complete mmc R \<Longrightarrow> close_interfaces mmc R =
     Some (mmc\<lparr>dd_taskInterface := False, dd_mmcInterface := False\<rparr>, da_refs)"
  by (simp add: close_interfaces_def complete_def ref_defs)

lemma close_interfaces_failed:
  "failed mmc R \<Longrightarrow> \<exists>mmc'. close_interfaces mmc R = Some (mmc', {#}) \<and> dd_sync_sem mmc' = None \<and> \<not> dd_session mmc' \<and>
     dd_disk_state mmc' = disk_mounted"
  by (cases "dd_taskInterface mmc"; cases "dd_mmcInterface mmc"; cases "dd_plugInInterface mmc")
    (simp_all add: close_interfaces_def failed_def ref_defs)

lemma da_destroy_waiting:
  "waiting mmc R \<Longrightarrow> iokit_da_destroy mmc R = Some (mmc\<lparr>dd_session := False, dd_disk := False\<rparr>, {#Queue#})"
  by (simp add: iokit_da_destroy_def waiting_def ref_defs)

lemma close_begin_eq:
  assumes "darwin_inv s" and "ds_pc s = AtClose"
  shows "\<exists>mmc R. close_begin s = Some (s\<lparr>ds_mmc := mmc, ds_refs := R, ds_exclusive := False,
      ds_pc := (if dd_sync_sem mmc = None then Closed else AppearWait)\<rparr>) \<and>
    (if dd_sync_sem mmc = None then R = {#} \<and> \<not> dd_session mmc \<and> dd_disk_state mmc = disk_mounted
     else waiting mmc R \<and> dd_disk_state mmc = state s \<and> state s \<noteq> disk_mounting \<and> dd_sync_sem mmc = dd_sync_sem (ds_mmc s))"
proof -
  have "complete (ds_mmc s) (ds_refs s) \<and> state s \<noteq> disk_mounting \<or> failed (ds_mmc s) (ds_refs s)"
    using assms by (simp add: darwin_inv_def Let_def)
  then show ?thesis
  proof
    assume "complete (ds_mmc s) (ds_refs s) \<and> state s \<noteq> disk_mounting"
    then show ?thesis
      using close_interfaces_complete [of "ds_mmc s" "ds_refs s"]
      by (intro exI [of _ "ds_mmc s\<lparr>dd_taskInterface := False, dd_mmcInterface := False\<rparr>"] exI [of _ da_refs])
        (auto simp: close_begin_def waiting_def complete_def state_def)
  next
    assume "failed (ds_mmc s) (ds_refs s)"
    then show ?thesis
      using close_interfaces_failed [of "ds_mmc s" "ds_refs s"] by (auto simp: close_begin_def)
  qed
qed

lemma close_finish_eq:
  "waiting (ds_mmc s) (ds_refs s) \<Longrightarrow> close_finish s = Some (s\<lparr>ds_refs := {#Queue#}, ds_pc := Closed,
     ds_mmc := ds_mmc s\<lparr>dd_session := False, dd_disk := False\<rparr>\<rparr>)"
  by (simp add: close_finish_def da_destroy_waiting)

lemma no_approval:
  "R \<subseteq># {#Queue#} \<Longrightarrow> Approval \<notin># R"
  by (auto dest: mset_subset_eqD)

lemma failed_no_approval: "failed mmc R \<Longrightarrow> Approval \<notin># R \<and> \<not> dd_session mmc"
  by (auto simp: failed_def iface_refs_def)

lemma darwin_inv_step:
  assumes "darwin_step e s s'" and "darwin_inv s"
  shows "darwin_inv s'"
  using assms(1)
proof cases
  case close_begin
  obtain mmc R where s': "s' = s\<lparr>ds_mmc := mmc, ds_refs := R, ds_exclusive := False,
      ds_pc := (if dd_sync_sem mmc = None then Closed else AppearWait)\<rparr>"
    and mmc: "if dd_sync_sem mmc = None then R = {#} \<and> \<not> dd_session mmc
      else waiting mmc R \<and> dd_disk_state mmc = state s \<and> state s \<noteq> disk_mounting"
    using close_begin_eq [OF assms(2)] close_begin by force
  have "\<not> ds_unmount s" "\<not> ds_mount s" using assms(2) close_begin by (auto simp: darwin_inv_def Let_def)
  then show ?thesis using mmc by (auto simp: s' darwin_inv_def Let_def state_def split: if_splits)
next
  case check
  then show ?thesis
    using assms(2) by (auto simp: darwin_inv_def Let_def close_check_def close_finish_eq state_def split: if_splits)
next
  case mount
  then show ?thesis
    using assms(2) by (auto simp: darwin_inv_def Let_def iokit_mount_begin_def close_finish_eq state_def waiting_def)
next
  case (mount_wake s1)
  moreover have "waiting (ds_mmc s1) (ds_refs s1)"
    using mount_wake assms(2) by (auto simp: darwin_inv_def Let_def sem_wait_eq waiting_def)
  ultimately show ?thesis
    using assms(2) by (auto simp: darwin_inv_def Let_def close_finish_eq sem_wait_eq)
next
  case (request ours)
  then show ?thesis
    using assms(2) no_approval failed_no_approval
    by (cases "ds_pc s")
      (auto simp: darwin_inv_def Let_def iokit_mount_approval_cb_def signal_def state_def waiting_def complete_def
        split: if_splits)
qed (use assms(2) in \<open>auto simp: darwin_inv_def Let_def iokit_unmount_begin_def iokit_unmount_end_def obtain_exclusive_def sem_wait_eq
    iokit_unmount_complete_def iokit_mount_complete_def signal_def state_def waiting_def complete_def
    dest: failed_no_approval split: pc.splits if_splits\<close>)

lemma darwin_inv_run: "darwin_run es s s' \<Longrightarrow> darwin_inv s \<Longrightarrow> darwin_inv s'"
  by (induction rule: darwin_run.induct) (auto intro: darwin_inv_step)

lemma darwin_inv_open:
  assumes "io_ok E" and "device_open_begin E path = Some (Some s)"
  shows "darwin_inv s"
  using assms mmc_open_iokit_refs [OF assms(1), of path]
  by (auto simp: device_open_begin_def darwin_inv_def Let_def state_def split: if_splits)

section \<open>Nothing is lost and nothing blocks\<close>


text \<open>How many steps of its own the library still has to make.\<close>

fun rank :: "pc \<Rightarrow> nat" where
  "rank AtUnmount = 9"
| "rank UnmountWait = 8"
| "rank AtExclusive = 7"
| "rank Opened = 6"
| "rank AtClose = 5"
| "rank AppearWait = 4"
| "rank AppearCheck = 3"
| "rank AtMount = 2"
| "rank MountWait = 1"
| "rank Closed = 0"

fun own :: "event \<Rightarrow> bool" where
  "own Lib = True"
| "own Timeout = True"
| "own (Exclusive ok) = True"
| "own _ = False"

lemma close_finish_pc: "close_finish s = Some s' \<Longrightarrow> ds_pc s' = Closed"
  by (auto simp: close_finish_def split: Option.bind_splits)

lemma close_begin_pc: "close_begin s = Some s' \<Longrightarrow> ds_pc s' = Closed \<or> ds_pc s' = AppearWait"
  by (auto simp: close_begin_def split: Option.bind_splits if_splits)

lemma rank_step:
  "darwin_step e s s' \<Longrightarrow> (if own e then rank (ds_pc s') < rank (ds_pc s) else ds_pc s' = ds_pc s)"
  by (induction rule: darwin_step.induct)
    (auto simp: iokit_unmount_begin_def iokit_unmount_end_def obtain_exclusive_def sem_wait_eq close_check_def iokit_mount_begin_def
      dest: close_finish_pc close_begin_pc split: if_splits)

lemma rank_run: "darwin_run es s s' \<Longrightarrow> length (filter own es) + rank (ds_pc s') \<le> rank (ds_pc s)"
proof (induction rule: darwin_run.induct)
  case (one_more es s s' e s'')
  then show ?case using rank_step [of e s' s''] by (auto split: if_splits)
qed simp

text \<open>
  The library can go on, at the latest after the callback of the request it made, and needs no
  request of the system to mount the disc.
\<close>

lemma lib_progress:
  assumes "darwin_inv s" and "ds_pc s \<noteq> Closed"
  shows "\<exists>es s'. darwin_run es s s' \<and> rank (ds_pc s') < rank (ds_pc s) \<and> (\<forall>e \<in> set es. \<forall>ours. e \<noteq> Request ours)"
proof -
  have one: ?thesis if "darwin_step e s s'" "own e" for e s'
    using that rank_step [OF that(1)] one_more [OF none that(1)]
    by (intro exI [of _ "[e]"] exI [of _ s']) auto
  have two: ?thesis if "darwin_step e s s1" "darwin_step Lib s1 s'" "e = UnmountDone False \<or> e = MountDone False" for e s1 s'
  proof -
    have "darwin_run ([e] @ [Lib]) s s'" using one_more [OF one_more [OF none that(1)] that(2)] by simp
    moreover have "rank (ds_pc s') < rank (ds_pc s)"
      using rank_step [OF that(1)] rank_step [OF that(2)] that(3) by auto
    ultimately show ?thesis using that(3) by (intro exI [of _ "[e] @ [Lib]"] exI [of _ s']) auto
  qed
  show ?thesis
  proof (cases "ds_pc s")
    case AtUnmount
    then show ?thesis by (rule one [OF unmount]) simp
  next
    case UnmountWait
    show ?thesis
    proof (cases "ds_unmount s")
      case True
      let ?s = "s\<lparr>ds_unmount := False, ds_mmc := iokit_unmount_complete False (ds_mmc s)\<rparr>"
      have sem: "dd_session (ds_mmc s)" "dd_sync_sem (ds_mmc s) = Some 0"
        using assms(1) UnmountWait True by (auto simp: darwin_inv_def Let_def complete_def)
      have "sem_wait ?s \<noteq> None" using sem(2) by (simp add: sem_wait_def iokit_unmount_complete_def signal_def)
      then obtain s1 where "sem_wait ?s = Some s1" by blast
      then show ?thesis using UnmountWait by (intro two [OF unmount_done [OF True sem(1)] unmount_wake]) auto
    next
      case False
      then have "sem_wait s \<noteq> None"
        using assms(1) UnmountWait by (auto simp: darwin_inv_def Let_def complete_def sem_wait_def split: nat.splits)
      then obtain s1 where "sem_wait s = Some s1" by blast
      from one [OF unmount_wake [OF UnmountWait this]] show ?thesis by simp
    qed
  next
    case AtExclusive
    then show ?thesis by (rule one [OF exclusive]) simp
  next
    case Opened
    then show ?thesis by (rule one [OF close]) simp
  next
    case AtClose
    then obtain s1 where "close_begin s = Some s1" using close_begin_eq [OF assms(1)] by blast
    from one [OF darwin_step.close_begin [OF AtClose this]] show ?thesis by simp
  next
    case AppearWait
    then show ?thesis by (rule one [OF timeout]) simp
  next
    case AppearCheck
    then have "waiting (ds_mmc s) (ds_refs s)" using assms(1) by (simp add: darwin_inv_def Let_def)
    then obtain s1 where "close_check s = Some s1" using close_finish_eq [of s] by (cases "state s = disk_appeared") (auto simp: close_check_def)
    from one [OF check [OF AppearCheck this]] show ?thesis by simp
  next
    case AtMount
    then have "waiting (ds_mmc s) (ds_refs s)" "state s = disk_appeared" using assms(1) by (simp_all add: darwin_inv_def Let_def)
    then obtain s1 where "iokit_mount_begin s = Some s1" by (auto simp: iokit_mount_begin_def waiting_def)
    from one [OF mount [OF AtMount this]] show ?thesis by simp
  next
    case MountWait
    then have w: "waiting (ds_mmc s) (ds_refs s)" using assms(1) by (simp add: darwin_inv_def Let_def)
    show ?thesis
    proof (cases "ds_mount s")
      case True
      let ?s = "s\<lparr>ds_mount := False, ds_mmc := iokit_mount_complete False (ds_mmc s)\<rparr>"
      have ses: "dd_session (ds_mmc s)" using w by (simp add: waiting_def)
      obtain n where "dd_sync_sem (ds_mmc s) = Some n" using w by (auto simp: waiting_def)
      then have "sem_wait ?s = Some (?s\<lparr>ds_mmc := ds_mmc ?s\<lparr>dd_sync_sem := Some n\<rparr>\<rparr>)"
        by (simp add: sem_wait_def iokit_mount_complete_def signal_def)
      moreover have "waiting (ds_mmc (?s\<lparr>ds_mmc := ds_mmc ?s\<lparr>dd_sync_sem := Some n\<rparr>\<rparr>)) (ds_refs ?s)"
        using w by (simp add: waiting_def iokit_mount_complete_def signal_def)
      ultimately show ?thesis
        using MountWait close_finish_eq by (intro two [OF mount_done [OF True ses] mount_wake]) auto
    next
      case False
      then have "sem_wait s \<noteq> None"
        using assms(1) MountWait w by (auto simp: darwin_inv_def Let_def waiting_def sem_wait_def split: nat.splits)
      then obtain s1 where s1: "sem_wait s = Some s1" by blast
      then have "waiting (ds_mmc s1) (ds_refs s1)" using w by (auto simp: sem_wait_eq waiting_def)
      then obtain s2 where "close_finish s1 = Some s2" using close_finish_eq by blast
      from one [OF mount_wake [OF MountWait s1 this]] show ?thesis by simp
    qed
  qed (use assms(2) in simp)
qed

lemma run_append: "darwin_run es' s' s'' \<Longrightarrow> darwin_run es s s' \<Longrightarrow> darwin_run (es @ es') s s''"
  by (induction rule: darwin_run.induct) (auto simp flip: append_assoc intro: darwin_run.intros)

text \<open>
  C25: opening and closing end.  Whatever has happened, the library can always run on until the
  object is freed, with nothing but the callbacks of its own requests, the answer to its request
  for exclusive access and the timeout, and it never makes more than 9 steps, whatever comes in between.
\<close>

theorem darwin_closes:
  assumes "io_ok E" and "device_open_begin E path = Some (Some s0)" and "darwin_run es s0 s"
  shows "(\<exists>es' s'. darwin_run es' s s' \<and> ds_pc s' = Closed \<and> (\<forall>e \<in> set es'. \<forall>ours. e \<noteq> Request ours)) \<and>
    length (filter own es) \<le> 9"
proof
  have "darwin_inv s" using darwin_inv_run [OF assms(3) darwin_inv_open [OF assms(1,2)]] .
  then show "\<exists>es' s'. darwin_run es' s s' \<and> ds_pc s' = Closed \<and> (\<forall>e \<in> set es'. \<forall>ours. e \<noteq> Request ours)"
  proof (induction "rank (ds_pc s)" arbitrary: s rule: less_induct)
    case less
    show ?case
    proof (cases "ds_pc s = Closed")
      case True
      then show ?thesis using none [of s] by force
    next
      case False
      obtain es1 s1 where p: "darwin_run es1 s s1" "rank (ds_pc s1) < rank (ds_pc s)"
        "\<forall>e \<in> set es1. \<forall>ours. e \<noteq> Request ours"
        using lib_progress [OF less.prems False] by blast
      obtain es2 s2 where "darwin_run es2 s1 s2" "ds_pc s2 = Closed" "\<forall>e \<in> set es2. \<forall>ours. e \<noteq> Request ours"
        using less.hyps [OF p(2) darwin_inv_run [OF p(1) less.prems]] by blast
      then show ?thesis using p run_append [of es2 s1 s2 es1 s] by (intro exI [of _ "es1 @ es2"] exI [of _ s2]) auto
    qed
  qed
  have "rank (ds_pc s0) \<le> 9" by (cases "ds_pc s0") simp_all
  then show "length (filter own es) \<le> 9" using rank_run [OF assms(3)] by linarith
qed

section \<open>Mounting again\<close>

text \<open>
  With at most one request refused and no timeout: the count of the semaphore tells exactly
  which callback it is that the library was not told of yet.
\<close>

definition calm :: "nat \<Rightarrow> dsys \<Rightarrow> bool" where
  "calm k s \<longleftrightarrow>
     (let sem = dd_sync_sem (ds_mmc s);
          quiet = (state s \<noteq> disk_mounting \<and> (if state s = disk_appeared then k = 1 \<and> sem = Some 1 else sem = Some 0)) in
      case ds_pc s of
        UnmountWait \<Rightarrow> (if ds_unmount s then state s = disk_mounted \<and> sem = Some 0
          else state s \<noteq> disk_mounting \<and> (if state s = disk_appeared then k = 1 \<and> sem = Some 2 else sem = Some 1))
      | AtUnmount \<Rightarrow> quiet | AtExclusive \<Rightarrow> quiet | Opened \<Rightarrow> quiet | AppearWait \<Rightarrow> quiet
      | AtClose \<Rightarrow> failed (ds_mmc s) (ds_refs s) \<or> complete (ds_mmc s) (ds_refs s) \<and> quiet
      | AppearCheck \<Rightarrow> state s = disk_appeared \<and> k = 1 \<and> sem = Some 0
      | AtMount \<Rightarrow> state s = disk_appeared \<and> k = 1 \<and> sem = Some 0
      | MountWait \<Rightarrow> k = 1 \<and>
          (if ds_mount s then state s = disk_mounting \<and> sem = Some 0
           else (state s = disk_mounted \<or> state s = disk_unmounted) \<and> sem = Some 1)
      | Closed \<Rightarrow> \<not> ds_mount s \<and> (state s = disk_mounted \<or> state s = disk_unmounted))"

fun refuses :: "event \<Rightarrow> dsys \<Rightarrow> bool" where
  "refuses (Request ours) s = fst (iokit_mount_approval_cb ours (ds_mmc s))"
| "refuses _ s = False"

text \<open>Runs without a timeout, with the number of requests that were refused.\<close>

inductive calm_run :: "nat \<Rightarrow> dsys \<Rightarrow> dsys \<Rightarrow> bool" where
  calm_none: "calm_run 0 s s"
| calm_more: "calm_run k s s' \<Longrightarrow> darwin_step e s' s'' \<Longrightarrow> e \<noteq> Timeout \<Longrightarrow>
    calm_run (k + (if refuses e s' then 1 else 0)) s s''"

lemma calm_step:
  assumes "darwin_step e s s'" and "e \<noteq> Timeout" and "darwin_inv s" and "calm k s"
    and "k + (if refuses e s then 1 else 0) \<le> 1"
  shows "calm (k + (if refuses e s then 1 else 0)) s'"
  using assms(1)
proof cases
  case close_begin
  obtain mmc R where s': "s' = s\<lparr>ds_mmc := mmc, ds_refs := R, ds_exclusive := False,
      ds_pc := (if dd_sync_sem mmc = None then Closed else AppearWait)\<rparr>"
    and mmc: "if dd_sync_sem mmc = None then R = {#} \<and> \<not> dd_session mmc \<and> dd_disk_state mmc = disk_mounted
      else waiting mmc R \<and> dd_disk_state mmc = state s \<and> state s \<noteq> disk_mounting \<and>
        dd_sync_sem mmc = dd_sync_sem (ds_mmc s)"
    using close_begin_eq [OF assms(3)] close_begin by force
  have "\<not> ds_mount s" using assms(3) close_begin by (auto simp: darwin_inv_def Let_def)
  then show ?thesis
    using mmc assms(4) close_begin by (auto simp: s' calm_def Let_def state_def failed_def split: if_splits)
next
  case check
  then show ?thesis using assms(4) by (auto simp: calm_def Let_def close_check_def state_def)
next
  case mount
  then show ?thesis
    using assms(3,4)
    by (auto simp: calm_def Let_def iokit_mount_begin_def state_def darwin_inv_def waiting_def)
next
  case (mount_wake s1)
  moreover have "waiting (ds_mmc s1) (ds_refs s1)"
    using mount_wake assms(3) by (auto simp: darwin_inv_def Let_def sem_wait_eq waiting_def)
  ultimately show ?thesis
    using assms(4) by (auto simp: calm_def Let_def close_finish_eq sem_wait_eq state_def split: if_splits)
next
  case (request ours)
  then show ?thesis
    using assms(3-5) no_approval failed_no_approval
    by (cases "ds_pc s")
      (auto simp: calm_def darwin_inv_def Let_def iokit_mount_approval_cb_def signal_def state_def complete_def
        waiting_def split: if_splits)
qed (use assms(2-4) in \<open>auto simp: calm_def darwin_inv_def Let_def iokit_unmount_begin_def iokit_unmount_end_def obtain_exclusive_def
    sem_wait_eq iokit_unmount_complete_def iokit_mount_complete_def signal_def state_def waiting_def complete_def
    split: pc.splits if_splits\<close>)

lemma calm_open:
  assumes "io_ok E" and "device_open_begin E path = Some (Some s)"
  shows "calm 0 s"
  using assms mmc_open_iokit_refs [OF assms(1), of path]
  by (auto simp: device_open_begin_def calm_def Let_def state_def split: if_splits)

lemma calm_run_run: "calm_run k s s' \<Longrightarrow> \<exists>es. darwin_run es s s'"
  by (induction rule: calm_run.induct) (blast intro: darwin_run.intros)+

lemma calm_run_calm:
  "calm_run k s s' \<Longrightarrow> darwin_inv s \<Longrightarrow> calm 0 s \<Longrightarrow> k \<le> 1 \<Longrightarrow> calm k s'"
proof (induction rule: calm_run.induct)
  case (calm_more k s s' e s'')
  have "darwin_inv s'" using calm_run_run [OF calm_more.hyps(1)] darwin_inv_run calm_more.prems(1) by blast
  moreover have "calm k s'" using calm_more by (simp split: if_splits)
  ultimately show ?case using calm_step calm_more by blast
qed

text \<open>
  C26: the disc is mounted again.  When at most one request to mount the disc is refused and it comes
  within the 20 seconds, then \<open>device_close\<close> returns after the mount it asked for is done, with
  the disc mounted unless the system refused that: no mount is left under way, and none was waited
  for without being asked for.
\<close>

theorem darwin_mounts:
  assumes "io_ok E" and "device_open_begin E path = Some (Some s0)" and "calm_run k s0 s" and "k \<le> 1"
  shows "(ds_pc s = Closed \<longrightarrow> \<not> ds_mount s \<and> (state s = disk_mounted \<or> state s = disk_unmounted)) \<and>
    (ds_pc s = MountWait \<longrightarrow> (ds_mount s \<longleftrightarrow> state s = disk_mounting) \<and> (ds_mount s \<longleftrightarrow> sem_wait s = None))"
proof -
  have "calm k s"
    by (rule calm_run_calm [OF assms(3) darwin_inv_open [OF assms(1,2)] calm_open [OF assms(1,2)] assms(4)])
  then show ?thesis by (auto simp: calm_def Let_def sem_wait_def split: if_splits)
qed

text \<open>
  C38: a second request.  When the system asks again after the library has seen the first request and
  before it has marked the disc as being mounted, the signal of the second refusal is still in the
  semaphore: the wait for the mount does not wait, and \<open>device_close\<close> destroys session and object
  with the mount under way.
\<close>

theorem darwin_second_request:
  assumes "io_ok E" and "device_open_begin E path = Some (Some s0)" and "darwin_run es s0 s" and "ds_pc s = AtMount"
  shows "\<exists>s'. darwin_run (((es @ [Request True]) @ [Lib]) @ [Lib]) s0 s' \<and> ds_pc s' = Closed \<and> ds_mount s' \<and>
    state s' = disk_mounting"
proof -
  have "darwin_inv s" using darwin_inv_run [OF assms(3) darwin_inv_open [OF assms(1,2)]] .
  then have w: "waiting (ds_mmc s) (ds_refs s)" and st: "state s = disk_appeared"
    using assms(4) by (simp_all add: darwin_inv_def Let_def)
  obtain n where n: "dd_sync_sem (ds_mmc s) = Some n" using w by (auto simp: waiting_def)
  let ?m1 = "signal (ds_mmc s\<lparr>dd_disk_state := disk_appeared\<rparr>)"
  let ?s1 = "s\<lparr>ds_mmc := ?m1\<rparr>"
  let ?s2 = "s\<lparr>ds_mmc := ?m1\<lparr>dd_disk_state := disk_mounting\<rparr>, ds_mount := True, ds_pc := MountWait\<rparr>"
  let ?s3 = "?s2\<lparr>ds_mmc := ds_mmc ?s2\<lparr>dd_sync_sem := Some n\<rparr>\<rparr>"
  let ?s4 = "?s3\<lparr>ds_refs := {#Queue#}, ds_pc := Closed, ds_mmc := ds_mmc ?s3\<lparr>dd_session := False, dd_disk := False\<rparr>\<rparr>"
  have "Approval \<in># ds_refs s" using w by (simp add: waiting_def da_refs_def)
  from darwin_step.request [OF this, of True] have 1: "darwin_step (Request True) s ?s1"
    using st by (simp add: iokit_mount_approval_cb_def state_def)
  have "iokit_mount_begin ?s1 = Some ?s2"
    using w by (simp add: iokit_mount_begin_def state_def signal_def waiting_def)
  then have 2: "darwin_step Lib ?s1 ?s2" by (intro darwin_step.mount) (use assms(4) in simp)
  have "sem_wait ?s2 = Some ?s3" by (simp add: sem_wait_eq signal_def n)
  moreover have "close_finish ?s3 = Some ?s4" using w by (intro close_finish_eq) (simp add: waiting_def signal_def)
  ultimately have 3: "darwin_step Lib ?s2 ?s4" by (intro darwin_step.mount_wake) simp_all
  from one_more [OF one_more [OF one_more [OF assms(3) 1] 2] 3] show ?thesis
    by (intro exI [of _ ?s4]) (simp add: state_def)
qed

text \<open>\<open>iokit_mount\<close> reports the mounted disc as a failure.\<close>

lemma mount_result_inverted: "state s = disk_mounted \<Longrightarrow> iokit_mount_result s = - 1"
  by (simp add: iokit_mount_result_def)

section \<open>A run\<close>

definition toy_iokit :: iokit where
  "toy_iokit = \<lparr>io_alloc = \<lambda>_. True, io_statfs = \<lambda>p. if p = ''/Volumes/BD'' then Some ''/dev/disk2'' else None,
     io_matching = True, io_services = Some [(7, Some ''disk1''), (8, None), (9, Some ''disk2'')],
     io_plugin = \<lambda>service. service = 9, io_mmc = True, io_task = True, io_session = True,
     io_disk = \<lambda>name. name = ''disk2''\<rparr>"

definition toy_dev :: "disk_state \<Rightarrow> nat \<Rightarrow> bool \<Rightarrow> darwindev" where
  "toy_dev st n acc = \<lparr>dd_plugInInterface = True, dd_mmcInterface = acc, dd_taskInterface = acc, dd_bsd_name = ''disk2'',
     dd_disk = True, dd_session = True, dd_disk_state = st, dd_sync_sem = Some n, dd_background_queue = True\<rparr>"

definition toy_sys :: "darwindev \<Rightarrow> pc \<Rightarrow> bool \<Rightarrow> dsys" where
  "toy_sys mmc p mounting = \<lparr>ds_mmc = mmc, ds_refs = (if dd_taskInterface mmc then full_refs else da_refs), ds_pc = p,
     ds_unmount = False, ds_mount = mounting, ds_exclusive = False\<rparr>"

lemma toy_io_ok: "io_ok toy_iokit"
  by (simp add: io_ok_def toy_iokit_def)

lemma toy_open: "device_open_begin toy_iokit ''/Volumes/BD'' = Some (Some (toy_sys (toy_dev disk_mounted 0 True) AtUnmount False))"
proof -
  have name: "take MNAMELEN (basename ''/dev/disk2'') = ''disk2''"
    by (simp add: basename_def strip_slashes_def MNAMELEN_def)
  show ?thesis
    by (simp add: device_open_begin_def mmc_open_iokit_def get_mounted_device_from_path_def name
        iokit_find_service_matching_def iokit_find_interfaces_def iokit_da_init_def zero_darwindev_def toy_iokit_def
        toy_sys_def toy_dev_def give_back_def full_refs_def Let_def)
qed

text \<open>The step relation as a function, for concrete runs.\<close>

fun advance :: "event \<Rightarrow> dsys \<Rightarrow> dsys option" where
  "advance Lib s = (case ds_pc s of
      AtUnmount \<Rightarrow> Some (iokit_unmount_begin s)
    | UnmountWait \<Rightarrow> map_option iokit_unmount_end (sem_wait s)
    | Opened \<Rightarrow> Some (s\<lparr>ds_pc := AtClose\<rparr>)
    | AtClose \<Rightarrow> close_begin s
    | AppearWait \<Rightarrow> map_option (\<lambda>s. s\<lparr>ds_pc := AppearCheck\<rparr>) (sem_wait s)
    | AppearCheck \<Rightarrow> close_check s
    | AtMount \<Rightarrow> iokit_mount_begin s
    | MountWait \<Rightarrow> Option.bind (sem_wait s) close_finish
    | _ \<Rightarrow> None)"
| "advance Timeout s = (if ds_pc s = AppearWait then Some (s\<lparr>ds_pc := AppearCheck\<rparr>) else None)"
| "advance (Exclusive ok) s = (if ds_pc s = AtExclusive
     then Some (obtain_exclusive ok s) else None)"
| "advance (UnmountDone d) s = (if ds_unmount s \<and> dd_session (ds_mmc s)
     then Some (s\<lparr>ds_unmount := False, ds_mmc := iokit_unmount_complete d (ds_mmc s)\<rparr>) else None)"
| "advance (MountDone d) s = (if ds_mount s \<and> dd_session (ds_mmc s)
     then Some (s\<lparr>ds_mount := False, ds_mmc := iokit_mount_complete d (ds_mmc s)\<rparr>) else None)"
| "advance (Request ours) s = (if Approval \<in># ds_refs s
     then Some (s\<lparr>ds_mmc := snd (iokit_mount_approval_cb ours (ds_mmc s))\<rparr>) else None)"

lemma advance_step: "advance e s = Some s' \<Longrightarrow> darwin_step e s s'"
  using exclusive [of s True] exclusive [of s False]
  by (cases e) (auto split: if_splits pc.splits Option.bind_splits intro: darwin_step.intros)

fun advances :: "event list \<Rightarrow> dsys \<Rightarrow> dsys option" where
  "advances [] s = Some s"
| "advances (e # es) s = Option.bind (advance e s) (advances es)"

lemma advances_run: "advances es s = Some s' \<Longrightarrow> darwin_run es s s'"
proof (induction es arbitrary: s)
  case (Cons e es)
  then obtain s1 where "advance e s = Some s1" "advances es s1 = Some s'" by (auto split: Option.bind_splits)
  then show ?case
    using Cons.IH run_append [of es s1 s' "[e]" s] one_more [OF none advance_step] by fastforce
qed (simp add: none)

text \<open>Opening, using, closing, with one request.\<close>

definition toy_events :: "event list" where
  "toy_events = [Lib, UnmountDone False, Lib, Exclusive True, Lib, Lib, Request True, Lib, Lib]"

lemmas toy_defs = toy_sys_def toy_dev_def iokit_unmount_begin_def iokit_unmount_end_def obtain_exclusive_def sem_wait_def state_def
  iokit_unmount_complete_def signal_def close_begin_def close_interfaces_def iokit_mount_approval_cb_def
  close_check_def iokit_mount_begin_def iokit_mount_complete_def close_finish_def iokit_da_destroy_def
  full_refs_def da_refs_def give_back_def

abbreviation toy_start :: dsys where
  "toy_start \<equiv> toy_sys (toy_dev disk_mounted 0 True) AtUnmount False"

lemma toy_run: "darwin_run toy_events toy_start (toy_sys (toy_dev disk_appeared 0 False) AtMount False)"
  by (rule advances_run) (simp add: toy_events_def toy_defs)


theorem darwin_closes_witness:
  "\<exists>es s. darwin_run (toy_events @ es) toy_start s \<and> ds_pc s = Closed \<and> (\<forall>e \<in> set es. e \<noteq> Request True)"
  using darwin_closes [OF toy_io_ok toy_open toy_run] run_append [OF _ toy_run] by metis

fun calm_advances :: "event list \<Rightarrow> nat \<Rightarrow> dsys \<Rightarrow> (nat \<times> dsys) option" where
  "calm_advances [] k s = Some (k, s)"
| "calm_advances (e # es) k s =
     (if e = Timeout then None
      else Option.bind (advance e s) (calm_advances es (k + (if refuses e s then 1 else 0))))"

lemma calm_advances_run:
  "calm_advances es k s = Some (k', s') \<Longrightarrow> calm_run k s0 s \<Longrightarrow> calm_run k' s0 s'"
proof (induction es arbitrary: k s)
  case (Cons e es)
  then obtain s1 where "advance e s = Some s1" "calm_advances es (k + (if refuses e s then 1 else 0)) s1 = Some (k', s')"
    and "e \<noteq> Timeout"
    by (auto split: Option.bind_splits if_splits)
  then show ?case using Cons.IH calm_more [OF Cons.prems(2) advance_step] by blast
qed simp

text \<open>While the mount is done the system asks for approval once more, which is not refused.\<close>

theorem darwin_mounts_witness:
  "\<exists>s. calm_run 1 toy_start s \<and> ds_pc s = Closed \<and> \<not> ds_mount s \<and> state s = disk_mounted"
proof -
  let ?s = "toy_sys (toy_dev disk_mounted 0 False\<lparr>dd_session := False, dd_disk := False\<rparr>) Closed False\<lparr>ds_refs := {#Queue#}\<rparr>"
  have "calm_advances (toy_events @ [Lib, Request True, MountDone False, Lib]) 0 toy_start = Some (1, ?s)"
    by (simp add: toy_events_def toy_defs)
  from calm_advances_run [OF this calm_none] have run: "calm_run 1 toy_start ?s" .
  from darwin_mounts [OF toy_io_ok toy_open run] run show ?thesis
    by (intro exI [of _ ?s]) (simp add: toy_sys_def toy_dev_def state_def)
qed

theorem darwin_second_request_witness:
  "\<exists>s. darwin_run (((toy_events @ [Request True]) @ [Lib]) @ [Lib]) toy_start s \<and> ds_pc s = Closed \<and> ds_mount s"
proof -
  have "ds_pc (toy_sys (toy_dev disk_appeared 0 False) AtMount False) = AtMount" by (simp add: toy_sys_def)
  from darwin_second_request [OF toy_io_ok toy_open toy_run this] show ?thesis by blast
qed

end
