(* ===== verification/Platforms.thy ===== *)
theory Platforms
  imports File
begin

text \<open>
  The directories and the file layer of the other platforms: \<^verbatim>\<open>file/dirs_darwin.c\<close>, and for the Windows
  desktop \<^verbatim>\<open>file/dirs_win32.c\<close> and \<^verbatim>\<open>file/file_win32.c\<close>.  The names carry a prefix for the platform,
  since the functions are the ones of \<open>File\<close>.
\<close>

section \<open>macOS\<close>

definition USER_CFG_DIR :: string where "USER_CFG_DIR = ''Library/Preferences''"
definition USER_CACHE_DIR :: string where "USER_CACHE_DIR = ''Library/Caches''"
definition USER_DATA_DIR :: string where "USER_DATA_DIR = ''Library''"
definition SYSTEM_CFG_DIR :: string where "SYSTEM_CFG_DIR = ''/Library/Preferences''"

definition darwin_home :: "fs_env \<Rightarrow> string \<Rightarrow> string ptr" where
  "darwin_home E sub =
     (case fe_getenv E ''HOME'' of
        Some (c # h) \<Rightarrow> str_printf (fe_alloc E) ((c # h) @ ''/'' @ sub)
      | _ \<Rightarrow> None)"

definition darwin_get_config_home :: "fs_env \<Rightarrow> string ptr" where
  "darwin_get_config_home E = darwin_home E USER_CFG_DIR"

definition darwin_get_data_home :: "fs_env \<Rightarrow> string ptr" where
  "darwin_get_data_home E = darwin_home E USER_DATA_DIR"

definition darwin_get_cache_home :: "fs_env \<Rightarrow> string ptr" where
  "darwin_get_cache_home E = darwin_home E USER_CACHE_DIR"

definition darwin_get_config_system :: "string ptr \<Rightarrow> string ptr" where
  "darwin_get_config_system dir = (if dir = None then Some SYSTEM_CFG_DIR else None)"

section \<open>Windows: directories\<close>

definition CSIDL_APPDATA :: nat where "CSIDL_APPDATA = 0x1a"
definition CSIDL_COMMON_APPDATA :: nat where "CSIDL_COMMON_APPDATA = 0x23"
definition CSIDL_FLAG_CREATE :: nat where "CSIDL_FLAG_CREATE = 0x8000"

text \<open>
  \<open>SHGetFolderPathW\<close> gives the folder, here in UTF-8, which is what \<open>WideCharToMultiByte\<close> makes of it
  together with the NUL at the end.
\<close>

record win_shell =
  ws_alloc :: "nat \<Rightarrow> bool"
  ws_folder :: "nat \<Rightarrow> string option"

definition win_folder :: "win_shell \<Rightarrow> nat \<Rightarrow> string ptr" where
  "win_folder W csidl =
     (case ws_folder W csidl of
        None \<Rightarrow> None
      | Some wdir \<Rightarrow> let len = length wdir + 1 in if ws_alloc W len then Some wdir else None)"

definition win_get_data_home :: "win_shell \<Rightarrow> string ptr" where
  "win_get_data_home W = win_folder W (CSIDL_APPDATA OR CSIDL_FLAG_CREATE)"

definition win_get_config_home :: "win_shell \<Rightarrow> string ptr" where
  "win_get_config_home W = win_get_data_home W"

definition win_get_cache_home :: "win_shell \<Rightarrow> string ptr" where
  "win_get_cache_home W = win_get_data_home W"

text \<open>The result and the new value of the static variable \<open>appdir\<close>.\<close>

definition win_get_config_system :: "win_shell \<Rightarrow> string ptr \<Rightarrow> string ptr \<Rightarrow> string ptr \<times> string ptr" where
  "win_get_config_system W appdir dir =
     (if dir = None then
        (if appdir \<noteq> None then (appdir, appdir)
         else case ws_folder W (CSIDL_COMMON_APPDATA OR CSIDL_FLAG_CREATE) of
             None \<Rightarrow> (None, appdir)
           | Some _ \<Rightarrow> (let appdir = win_folder W (CSIDL_COMMON_APPDATA OR CSIDL_FLAG_CREATE) in (appdir, appdir)))
      else (None, appdir))"

text \<open>
  The loop of the callers over the system directories: \<open>file_get_config_system\<close> is asked with what
  it gave before until it gives null.  On both platforms there is at most one directory, and on
  Windows the same one in every loop.
\<close>

lemma darwin_config_system_once:
  "darwin_get_config_system None = Some SYSTEM_CFG_DIR \<and> darwin_get_config_system (Some d) = None"
  by (simp add: darwin_get_config_system_def)

lemma win_config_system_once:
  assumes "win_get_config_system W appdir None = (Some d, appdir')"
  shows "win_get_config_system W appdir' (Some d) = (None, appdir') \<and>
    win_get_config_system W' appdir' None = (Some d, appdir')"
  using assms by (auto simp: win_get_config_system_def Let_def split: if_splits option.splits)

section \<open>Windows: files\<close>

definition MAX_PATH :: nat where "MAX_PATH = 260"
definition SIZEOF_AACS_FILE_H :: nat where "SIZEOF_AACS_FILE_H = 56"
definition BD_MAX_SSIZE :: int where "BD_MAX_SSIZE = 2 ^ 63 - 1"

text \<open>
  \<open>wf_wide strict s n\<close>: the string converts to at most \<open>n\<close> wide characters (\<open>strict\<close>: and is valid
  UTF-8); \<open>wf_fopen\<close> and \<open>wf_fclose\<close> are on a system of any type, \<open>wf_open\<close> are the open streams.
\<close>

record 'k win_files =
  wf_alloc :: "nat \<Rightarrow> bool"
  wf_wide :: "bool \<Rightarrow> string \<Rightarrow> nat \<Rightarrow> bool"
  wf_fopen :: "string \<Rightarrow> string \<Rightarrow> 'k \<Rightarrow> nat ptr \<times> 'k"
  wf_fclose :: "nat \<Rightarrow> 'k \<Rightarrow> 'k"
  wf_fread :: "nat \<Rightarrow> nat \<Rightarrow> 'k \<Rightarrow> byte list \<times> 'k"
  wf_fwrite :: "nat \<Rightarrow> byte list \<Rightarrow> 'k \<Rightarrow> nat \<times> 'k"
  wf_fflush :: "nat \<Rightarrow> 'k \<Rightarrow> bool \<times> 'k"
  wf_remove :: "string \<Rightarrow> 'k \<Rightarrow> int \<times> 'k"
  wf_exists :: "string \<Rightarrow> 'k \<Rightarrow> bool"
  wf_mkdir :: "string \<Rightarrow> 'k \<Rightarrow> bool \<times> 'k"
  wf_open :: "'k \<Rightarrow> nat set"

record win_file =
  wfile_internal :: nat

definition win_file_open :: "'k win_files \<Rightarrow> string \<Rightarrow> string \<Rightarrow> 'k \<Rightarrow> win_file ptr \<times> 'k" where
  "win_file_open W filename mode k =
     (if \<not> wf_wide W True filename MAX_PATH \<or> \<not> wf_wide W True mode 8 then (None, k)
      else case wf_fopen W filename mode k of
        (None, k) \<Rightarrow> (None, k)
      | (Some fp, k) \<Rightarrow>
          if \<not> wf_alloc W SIZEOF_AACS_FILE_H then (None, wf_fclose W fp k)
          else (Some \<lparr>wfile_internal = fp\<rparr>, k))"

definition win_file_close :: "'k win_files \<Rightarrow> win_file ptr \<Rightarrow> 'k \<Rightarrow> 'k" where
  "win_file_close W f k = (case f of None \<Rightarrow> k | Some f \<Rightarrow> wf_fclose W (wfile_internal f) k)"

text \<open>The number of bytes, the bytes and the system.\<close>

definition win_file_read :: "'k win_files \<Rightarrow> win_file \<Rightarrow> int \<Rightarrow> 'k \<Rightarrow> int \<times> byte list \<times> 'k" where
  "win_file_read W f sz k =
     (if sz > 0 \<and> sz < BD_MAX_SSIZE then
        let (bs, k) = wf_fread W (wfile_internal f) (nat sz) k in (int (length bs), bs, k)
      else (0, [], k))"

definition win_file_write :: "'k win_files \<Rightarrow> win_file \<Rightarrow> byte list \<Rightarrow> 'k \<Rightarrow> int \<times> 'k" where
  "win_file_write W f buf k =
     (let sz = int (length buf) in
      if sz > 0 \<and> sz < BD_MAX_SSIZE then
        let (n, k) = wf_fwrite W (wfile_internal f) buf k in (int n, k)
      else if sz = 0 then
        let (failed, k) = wf_fflush W (wfile_internal f) k in (if failed then - 1 else 0, k)
      else (0, k))"

definition win_file_unlink :: "'k win_files \<Rightarrow> string \<Rightarrow> 'k \<Rightarrow> int \<times> 'k" where
  "win_file_unlink W file k = (if \<not> wf_wide W False file MAX_PATH then (- 1, k) else wf_remove W file k)"

definition win_file_path_exists :: "'k win_files \<Rightarrow> string \<Rightarrow> 'k \<Rightarrow> int" where
  "win_file_path_exists W path k =
     (if \<not> wf_wide W False path MAX_PATH then - 1 else if wf_exists W path k then 0 else - 1)"

definition win_file_mkdir :: "'k win_files \<Rightarrow> string \<Rightarrow> 'k \<Rightarrow> int \<times> 'k" where
  "win_file_mkdir W dir k =
     (if \<not> wf_wide W False dir MAX_PATH then (- 1, k)
      else let (ok, k) = wf_mkdir W dir k in (if \<not> ok then - 1 else 0, k))"

text \<open>A stream is open after \<open>file_open\<close> exactly when it gave a file, and closed by its \<open>close\<close>.\<close>

lemma win_file_no_leak:
  assumes "\<And>p m k. case wf_fopen W p m k of
      (None, k') \<Rightarrow> wf_open W k' = wf_open W k
    | (Some fp, k') \<Rightarrow> fp \<notin> wf_open W k \<and> wf_open W k' = insert fp (wf_open W k)"
    and "\<And>fp k. wf_open W (wf_fclose W fp k) = wf_open W k - {fp}"
    and "win_file_open W filename mode k = (f, k')"
  shows "(f = None \<longrightarrow> wf_open W k' = wf_open W k) \<and> wf_open W (win_file_close W f k') = wf_open W k"
  using assms(1) [where p = filename and m = mode and k = k] assms(2,3)
  by (auto simp: win_file_open_def win_file_close_def split: if_splits option.splits prod.splits)

text \<open>A path that is too long for Windows is one that does not exist.\<close>

lemma win_path_too_long:
  "\<not> wf_wide W False p MAX_PATH \<Longrightarrow>
     win_file_path_exists W p k = - 1 \<and> win_file_unlink W p k = (- 1, k) \<and> win_file_mkdir W p k = (- 1, k)"
  by (simp add: win_file_path_exists_def win_file_unlink_def win_file_mkdir_def)

section \<open>The hook\<close>

text \<open>
  \<^verbatim>\<open>file/filesystem.c\<close>: the function for opening files is exchanged; the result is the old one and
  the new value of the variable \<open>file_open\<close>.
\<close>

definition aacs_register_file :: "'f \<Rightarrow> 'f \<Rightarrow> 'f \<times> 'f" where
  "aacs_register_file p file_open = (let old = file_open; file_open = p in (old, file_open))"

lemma register_file_back:
  "snd (aacs_register_file (fst (aacs_register_file p f)) (snd (aacs_register_file p f))) = f"
  by (simp add: aacs_register_file_def)

end
