(* ===== verification/KeydbBuffer.thy ===== *)
theory KeydbBuffer
  imports KeydbConfig
begin

text \<open>
  The buffers of the scanner in \<^verbatim>\<open>keydbcfg-lexer.c\<close>: the file is read in portions into a buffer
  whose content moves and grows.  Positions are indices into the buffer, where pointers point in C.
  The scanner uses one buffer, the only element of the stack \<open>yy_buffer_stack\<close>.  \<open>None\<close> stands for
  undefined behaviour and for \<open>YY_FATAL_ERROR\<close>, which exits.
\<close>

section \<open>State\<close>

definition YY_BUF_SIZE :: nat where "YY_BUF_SIZE = 16384"
definition YY_READ_BUF_SIZE :: nat where "YY_READ_BUF_SIZE = 8192"
definition SIZEOF_YY_BUFFER_STATE :: nat where "SIZEOF_YY_BUFFER_STATE = 64"

datatype yy_status = YY_BUFFER_NEW | YY_BUFFER_NORMAL | YY_BUFFER_EOF_PENDING
datatype eob_act = EOB_ACT_CONTINUE_SCAN | EOB_ACT_END_OF_FILE | EOB_ACT_LAST_MATCH

record yy_buffer_state =
  yy_ch_buf :: string
  yy_buf_pos :: nat
  yy_buf_size :: nat
  yyb_n_chars :: nat
  yy_fill_buffer :: bool
  yy_buffer_status :: yy_status

text \<open>\<open>yyin\<close> is what is left to read of the file.\<close>

record yyguts_t =
  yyin :: string
  yy_buffer :: "yy_buffer_state ptr"
  yy_hold_char :: char
  yy_n_chars :: nat
  yyleng :: nat
  yy_c_buf_p :: nat
  yy_init :: bool
  yy_start :: nat
  yy_last_accepting :: yy_last
  yytext_ptr :: nat

text \<open>
  Allocation, what is in fresh memory, and how many characters \<open>fread\<close> reads when it is asked for
  a number of them and some are left.
\<close>

record yy_env =
  ye_alloc :: "nat \<Rightarrow> bool"
  ye_junk :: "nat \<Rightarrow> char"
  ye_fread :: "nat \<Rightarrow> string \<Rightarrow> nat"

definition yy_fresh :: "yy_env \<Rightarrow> nat \<Rightarrow> nat \<Rightarrow> string" where
  "yy_fresh E a b = map (ye_junk E) [a..<b]"

definition yy_put :: "string \<Rightarrow> nat \<Rightarrow> char \<Rightarrow> string ub" where
  "yy_put buf i c = (if i < length buf then Some (buf[i := c]) else None)"

definition yy_get :: "string \<Rightarrow> nat \<Rightarrow> char ub" where
  "yy_get buf i = (if i < length buf then Some (buf ! i) else None)"

section \<open>Buffers\<close>

definition yy_flush_buffer :: "yy_buffer_state \<Rightarrow> yy_buffer_state ub" where
  "yy_flush_buffer b = do {
     ch \<leftarrow> yy_put (yy_ch_buf b) 0 (CHR 0x00);
     ch \<leftarrow> yy_put ch 1 (CHR 0x00);
     Some (b\<lparr>yyb_n_chars := 0, yy_ch_buf := ch, yy_buf_pos := 0, yy_buffer_status := YY_BUFFER_NEW\<rparr>)
   }"

definition yy_init_buffer :: "yy_buffer_state \<Rightarrow> yy_buffer_state ub" where
  "yy_init_buffer b = do { b \<leftarrow> yy_flush_buffer b; Some (b\<lparr>yy_fill_buffer := True\<rparr>) }"

definition yy_create_buffer :: "yy_env \<Rightarrow> nat \<Rightarrow> yy_buffer_state ub" where
  "yy_create_buffer E sz =
     (if ye_alloc E SIZEOF_YY_BUFFER_STATE \<and> ye_alloc E (sz + 2)
      then yy_init_buffer \<lparr>yy_ch_buf = yy_fresh E 0 (sz + 2), yy_buf_pos = 0, yy_buf_size = sz, yyb_n_chars = 0,
        yy_fill_buffer = False, yy_buffer_status = YY_BUFFER_NEW\<rparr>
      else None)"

definition yy_load_buffer_state :: "yyguts_t \<Rightarrow> yyguts_t ub" where
  "yy_load_buffer_state yyg = do {
     b \<leftarrow> yy_buffer yyg;
     c \<leftarrow> yy_get (yy_ch_buf b) (yy_buf_pos b);
     Some (yyg\<lparr>yy_n_chars := yyb_n_chars b, yytext_ptr := yy_buf_pos b, yy_c_buf_p := yy_buf_pos b, yy_hold_char := c\<rparr>)
   }"

text \<open>The stack has room for one buffer.\<close>

definition yyensure_buffer_stack :: "yy_env \<Rightarrow> unit ub" where
  "yyensure_buffer_stack E = (if ye_alloc E 8 then Some () else None)"

definition yyrestart :: "yy_env \<Rightarrow> yyguts_t \<Rightarrow> yyguts_t ub" where
  "yyrestart E yyg = do {
     b \<leftarrow> (case yy_buffer yyg of Some b \<Rightarrow> Some b
       | None \<Rightarrow> do { _ \<leftarrow> yyensure_buffer_stack E; yy_create_buffer E YY_BUF_SIZE });
     b \<leftarrow> yy_init_buffer b;
     yy_load_buffer_state (yyg\<lparr>yy_buffer := Some b\<rparr>)
   }"

section \<open>Reading more\<close>

text \<open>The characters are copied one by one to the beginning, which they may overlap.\<close>

definition yy_move :: "string \<Rightarrow> nat \<Rightarrow> nat \<Rightarrow> string ub" where
  "yy_move buf source n =
     (if source + n \<le> length buf then Some (fold (\<lambda>i buf. buf[i := buf ! (source + i)]) [0..<n] buf) else None)"

text \<open>
  The buffer grows until a character fits behind the \<open>number_to_move\<close> ones; \<open>yy_buf_size * 2\<close> must
  not overflow.
\<close>

partial_function (option) yy_grow :: "yy_env \<Rightarrow> nat \<Rightarrow> yy_buffer_state \<Rightarrow> yy_buffer_state option" where
  "yy_grow E number_to_move b =
     (if yy_buf_size b \<le> number_to_move + 1 then
        if 2 ^ 31 \<le> yy_buf_size b * 2 then None
        else do {
          let n = yy_buf_size b * 2;
          b \<leftarrow> (if ye_alloc E (n + 2)
             then Some (b\<lparr>yy_buf_size := n, yy_ch_buf := yy_ch_buf b @ yy_fresh E (length (yy_ch_buf b)) (n + 2)\<rparr>)
             else None);
          yy_grow E number_to_move b
        }
      else Some b)"

text \<open>\<open>YY_INPUT\<close>: the buffer with what was read at position \<open>i\<close>, its length, the rest of the file.\<close>

definition YY_INPUT :: "yy_env \<Rightarrow> string \<Rightarrow> nat \<Rightarrow> nat \<Rightarrow> string \<Rightarrow> (string \<times> nat \<times> string) ub" where
  "YY_INPUT E buf i max_size file =
     (let n = ye_fread E max_size file in
      if i + n \<le> length buf then Some (take i buf @ take n file @ drop (i + n) buf, n, drop n file) else None)"

definition yy_get_next_buffer :: "yy_env \<Rightarrow> yyguts_t \<Rightarrow> (eob_act \<times> yyguts_t) ub" where
  "yy_get_next_buffer E yyg = do {
     b \<leftarrow> yy_buffer yyg;
     if yy_n_chars yyg + 1 < yy_c_buf_p yyg then None
     else if \<not> yy_fill_buffer b then
       Some (if yy_c_buf_p yyg - yytext_ptr yyg = 1 then EOB_ACT_END_OF_FILE else EOB_ACT_LAST_MATCH, yyg)
     else do {
       let number_to_move = yy_c_buf_p yyg - yytext_ptr yyg - 1;
       ch \<leftarrow> yy_move (yy_ch_buf b) (yytext_ptr yyg) number_to_move;
       let b = b\<lparr>yy_ch_buf := ch\<rparr>;
       (b, n, rest) \<leftarrow> (if yy_buffer_status b = YY_BUFFER_EOF_PENDING then Some (b, 0, yyin yyg)
         else do {
           b \<leftarrow> yy_grow E number_to_move b;
           let num_to_read = min (yy_buf_size b - number_to_move - 1) YY_READ_BUF_SIZE;
           (ch, n, rest) \<leftarrow> YY_INPUT E (yy_ch_buf b) number_to_move num_to_read (yyin yyg);
           Some (b\<lparr>yy_ch_buf := ch\<rparr>, n, rest)
         });
       let b = b\<lparr>yyb_n_chars := n\<rparr>;
       let yyg = yyg\<lparr>yy_buffer := Some b, yy_n_chars := n, yyin := rest\<rparr>;
       (ret_val, yyg) \<leftarrow> (if n = 0 then
           if number_to_move = 0 then do { yyg \<leftarrow> yyrestart E yyg; Some (EOB_ACT_END_OF_FILE, yyg) }
           else Some (EOB_ACT_LAST_MATCH, yyg\<lparr>yy_buffer := Some (b\<lparr>yy_buffer_status := YY_BUFFER_EOF_PENDING\<rparr>)\<rparr>)
         else Some (EOB_ACT_CONTINUE_SCAN, yyg));
       b \<leftarrow> yy_buffer yyg;
       b \<leftarrow> (if yy_buf_size b < yy_n_chars yyg + number_to_move then
           let n = yy_n_chars yyg + number_to_move + yy_n_chars yyg div 2 in
           if ye_alloc E n
           then Some (b\<lparr>yy_ch_buf := take n (yy_ch_buf b @ yy_fresh E (length (yy_ch_buf b)) n), yy_buf_size := n - 2\<rparr>)
           else None
         else Some b);
       let n = yy_n_chars yyg + number_to_move;
       ch \<leftarrow> yy_put (yy_ch_buf b) n (CHR 0x00);
       ch \<leftarrow> yy_put ch (n + 1) (CHR 0x00);
       Some (ret_val, yyg\<lparr>yy_buffer := Some (b\<lparr>yy_ch_buf := ch\<rparr>), yy_n_chars := n, yytext_ptr := 0\<rparr>)
     }
   }"

section \<open>Scanning the buffer\<close>

text \<open>The loop of \<open>yy_match\<close> with the characters of the buffer.\<close>

partial_function (option) yy_match_buf :: "string \<Rightarrow> nat \<Rightarrow> nat \<Rightarrow> yy_last \<Rightarrow> (nat \<times> nat \<times> yy_last) ub" where
  "yy_match_buf buf yy_current_state yy_cp la = do {
     ch \<leftarrow> yy_get buf yy_cp;
     c \<leftarrow> yy_at yy_ec (of_char ch);
     la \<leftarrow> yy_note yy_current_state yy_cp la;
     s \<leftarrow> yy_find yy_current_state c;
     b \<leftarrow> yy_at yy_base s;
     if b \<noteq> YY_JAMBASE then yy_match_buf buf s (yy_cp + 1) la else Some (s, yy_cp + 1, la)
   }"

definition yy_set_char :: "yyguts_t \<Rightarrow> nat \<Rightarrow> char \<Rightarrow> yyguts_t ub" where
  "yy_set_char yyg i c = do {
     b \<leftarrow> yy_buffer yyg;
     ch \<leftarrow> yy_put (yy_ch_buf b) i c;
     Some (yyg\<lparr>yy_buffer := Some (b\<lparr>yy_ch_buf := ch\<rparr>)\<rparr>)
   }"

text \<open>\<open>YY_DO_BEFORE_ACTION\<close>: the token ends with a NUL character while its action runs.\<close>

definition YY_DO_BEFORE_ACTION :: "yyguts_t \<Rightarrow> nat \<Rightarrow> nat \<Rightarrow> yyguts_t ub" where
  "YY_DO_BEFORE_ACTION yyg yy_bp yy_cp = do {
     b \<leftarrow> yy_buffer yyg;
     c \<leftarrow> yy_get (yy_ch_buf b) yy_cp;
     yy_set_char (yyg\<lparr>yytext_ptr := yy_bp, yyleng := yy_cp - yy_bp, yy_hold_char := c, yy_c_buf_p := yy_cp\<rparr>) yy_cp (CHR 0x00)
   }"

text \<open>The state in front of \<open>yy_c_buf_p\<close>, from the beginning of the token on.\<close>

definition yy_previous :: "yyguts_t \<Rightarrow> (nat \<times> yyguts_t) ub" where
  "yy_previous yyg = do {
     b \<leftarrow> yy_buffer yyg;
     if length (yy_ch_buf b) < yy_c_buf_p yyg then None
     else do {
       (s, la) \<leftarrow> yy_get_previous_state (yy_start yyg) (yytext_ptr yyg)
         (drop (yytext_ptr yyg) (take (yy_c_buf_p yyg) (yy_ch_buf b))) (yy_last_accepting yyg);
       Some (s, yyg\<lparr>yy_last_accepting := la\<rparr>)
     }
   }"

text \<open>A new file: its number of characters is that of the buffer.\<close>

definition yy_new_input :: "yyguts_t \<Rightarrow> yyguts_t ub" where
  "yy_new_input yyg = do {
     b \<leftarrow> yy_buffer yyg;
     Some (if yy_buffer_status b = YY_BUFFER_NEW
       then yyg\<lparr>yy_n_chars := yyb_n_chars b, yy_buffer := Some (b\<lparr>yy_buffer_status := YY_BUFFER_NORMAL\<rparr>)\<rparr> else yyg)
   }"

text \<open>
  From \<open>yy_match\<close>, or from \<open>yy_find_action\<close> on, up to an action of a rule; \<open>None\<close> as the rule at the
  end of the file.
\<close>

partial_function (option) yy_scan_buf :: "yy_env \<Rightarrow> yyguts_t \<Rightarrow> nat \<Rightarrow> bool \<Rightarrow> nat \<Rightarrow> nat \<Rightarrow> (nat ptr \<times> yyguts_t) option" where
  "yy_scan_buf E yyg yy_bp m s yy_cp = do {
     b \<leftarrow> yy_buffer yyg;
     (s, yy_cp, la) \<leftarrow> (if m then yy_match_buf (yy_ch_buf b) s yy_cp (yy_last_accepting yyg)
       else Some (s, yy_cp, yy_last_accepting yyg));
     (yy_act, yy_cp) \<leftarrow> yy_find_action s yy_cp la;
     yyg \<leftarrow> YY_DO_BEFORE_ACTION (yyg\<lparr>yy_last_accepting := la\<rparr>) yy_bp yy_cp;
     if yy_act \<noteq> YY_END_OF_BUFFER then Some (Some yy_act, yyg)
     else do {
       let yy_amount_of_matched_text = yy_cp - yytext_ptr yyg - 1;
       yyg \<leftarrow> yy_set_char yyg yy_cp (yy_hold_char yyg);
       yyg \<leftarrow> yy_new_input yyg;
       if yy_c_buf_p yyg \<le> yy_n_chars yyg then do {
         (s, yyg) \<leftarrow> yy_previous (yyg\<lparr>yy_c_buf_p := yytext_ptr yyg + yy_amount_of_matched_text\<rparr>);
         (r, la) \<leftarrow> yy_try_NUL_trans s (yy_c_buf_p yyg) (yy_last_accepting yyg);
         let yyg = yyg\<lparr>yy_last_accepting := la\<rparr>;
         case r of
           Some s' \<Rightarrow> yy_scan_buf E (yyg\<lparr>yy_c_buf_p := yy_c_buf_p yyg + 1\<rparr>) (yytext_ptr yyg) True s' (yy_c_buf_p yyg + 1)
         | None \<Rightarrow> yy_scan_buf E yyg (yytext_ptr yyg) False s (yy_c_buf_p yyg)
       }
       else do {
         (act, yyg) \<leftarrow> yy_get_next_buffer E yyg;
         case act of
           EOB_ACT_END_OF_FILE \<Rightarrow> Some (None, yyg\<lparr>yy_c_buf_p := yytext_ptr yyg\<rparr>)
         | EOB_ACT_CONTINUE_SCAN \<Rightarrow> do {
             (s, yyg) \<leftarrow> yy_previous (yyg\<lparr>yy_c_buf_p := yytext_ptr yyg + yy_amount_of_matched_text\<rparr>);
             yy_scan_buf E yyg (yytext_ptr yyg) True s (yy_c_buf_p yyg)
           }
         | EOB_ACT_LAST_MATCH \<Rightarrow> do {
             (s, yyg) \<leftarrow> yy_previous (yyg\<lparr>yy_c_buf_p := yy_n_chars yyg\<rparr>);
             yy_scan_buf E yyg (yytext_ptr yyg) False s (yy_c_buf_p yyg)
           }
       }
     }
   }"

section \<open>Tokens\<close>

text \<open>\<open>yytext\<close>: the string at the beginning of the token, of \<open>yyleng\<close> characters.\<close>

definition yytext :: "yyguts_t \<Rightarrow> string ub" where
  "yytext yyg = do {
     b \<leftarrow> yy_buffer yyg;
     Some (take (yyleng yyg) (drop (yytext_ptr yyg) (yy_ch_buf b)))
   }"

definition yylex_start :: "yy_env \<Rightarrow> yyguts_t \<Rightarrow> yyguts_t ub" where
  "yylex_start E yyg =
     (if yy_init yyg then Some yyg
      else do {
        let yyg = yyg\<lparr>yy_init := True, yy_start := if yy_start yyg = 0 then 1 else yy_start yyg\<rparr>;
        b \<leftarrow> (case yy_buffer yyg of Some b \<Rightarrow> Some b
          | None \<Rightarrow> do { _ \<leftarrow> yyensure_buffer_stack E; yy_create_buffer E YY_BUF_SIZE });
        yy_load_buffer_state (yyg\<lparr>yy_buffer := Some b\<rparr>)
      })"

partial_function (option) yylex_loop :: "yy_env \<Rightarrow> yyguts_t \<Rightarrow> (token option \<times> yyguts_t) option" where
  "yylex_loop E yyg = do {
     yyg \<leftarrow> yy_set_char yyg (yy_c_buf_p yyg) (yy_hold_char yyg);
     (r, yyg) \<leftarrow> yy_scan_buf E yyg (yy_c_buf_p yyg) True (yy_start yyg) (yy_c_buf_p yyg);
     case r of None \<Rightarrow> Some (None, yyg)
     | Some yy_act \<Rightarrow> do {
         text \<leftarrow> yytext yyg;
         (t, start) \<leftarrow> yy_action yy_act text (yy_start yyg);
         let yyg = yyg\<lparr>yy_start := start\<rparr>;
         case t of None \<Rightarrow> yylex_loop E yyg | Some t \<Rightarrow> Some (Some t, yyg)
       }
   }"

definition yylex_buf :: "yy_env \<Rightarrow> yyguts_t \<Rightarrow> (token option \<times> yyguts_t) option" where
  "yylex_buf E yyg = do { yyg \<leftarrow> yylex_start E yyg; yylex_loop E yyg }"

text \<open>\<open>yylex_init\<close> and \<open>yyset_in\<close>: a scanner for a file.\<close>

definition yylex_init :: "yy_env \<Rightarrow> yyguts_t ptr" where
  "yylex_init E =
     (if ye_alloc E SIZEOF_YYGUTS
      then Some \<lparr>yyin = [], yy_buffer = None, yy_hold_char = CHR 0x00, yy_n_chars = 0, yyleng = 0, yy_c_buf_p = 0,
        yy_init = False, yy_start = 0, yy_last_accepting = None, yytext_ptr = 0\<rparr>
      else None)"

definition yyset_in :: "string \<Rightarrow> yyguts_t \<Rightarrow> yyguts_t" where
  "yyset_in file yyg = yyg\<lparr>yyin := file\<rparr>"

partial_function (option) yy_tokens_buf :: "yy_env \<Rightarrow> yyguts_t \<Rightarrow> token list option" where
  "yy_tokens_buf E yyg = do {
     (t, yyg) \<leftarrow> yylex_buf E yyg;
     case t of None \<Rightarrow> Some []
     | Some t \<Rightarrow> do { ts \<leftarrow> yy_tokens_buf E yyg; Some (t # ts) }
   }"

end
