(* ===== verification/KeydbRefill.thy ===== *)
theory KeydbRefill
  imports KeydbBuffer
begin

text \<open>
  The buffers of the scanner deliver the file: scanning through them, in whatever portions it is read,
  gives the tokens of \<open>KeydbLexer\<close>, which has the file in one piece.
\<close>

section \<open>Positions\<close>

definition shift :: "nat \<Rightarrow> yy_last \<Rightarrow> yy_last" where
  "shift b la = map_option (\<lambda>(t, k). (t, b + k)) la"

lemma shift_simps [simp]: "shift b None = None" "shift b (Some (t, k)) = Some (t, b + k)"
  by (simp_all add: shift_def)

lemma noted_shift: "noted s (b + k) (shift b la) = shift b (noted s k la)"
  by (simp add: noted_def)

lemma marks_shift: "marks s (b + k) xs (shift b la) = shift b (marks s k xs la)"
proof (induction xs arbitrary: s k la)
  case (Cons x xs)
  then show ?case
    using Cons.IH [of "yy_succ s x" "k + 1" "noted s k la"] by (simp add: noted_shift)
qed simp

lemma marks_start_at:
  assumes "yy_start_ok s0" and "xs \<noteq> []"
  shows "noted (yy_run s0 xs) k (marks s0 j xs la) = noted (yy_run s0 xs) k (marks s0 j xs la')"
proof -
  obtain ch ys where "xs = ch # ys"
    using assms(2) by (cases xs) auto
  then show ?thesis
    using marks_last [OF first_char [OF assms(1), of ch], of ys k "j + 1"] by simp
qed

text \<open>The last match as it is known behind \<open>xs\<close>, when the token begins at \<open>bp\<close>.\<close>

definition last_ok :: "nat \<Rightarrow> nat \<Rightarrow> string \<Rightarrow> yy_last \<Rightarrow> bool" where
  "last_ok s0 bp xs la \<longleftrightarrow> (xs \<noteq> [] \<longrightarrow>
     noted (yy_run s0 xs) (bp + length xs) la = shift bp (noted (yy_run s0 xs) (length xs) (marks s0 0 xs None)))"

lemma last_ok_Nil [simp]: "last_ok s0 bp [] la"
  by (simp add: last_ok_def)

lemma last_ok_marks:
  assumes "yy_start_ok s0"
  shows "last_ok s0 bp xs (marks s0 bp xs la)"
  using marks_start_at [OF assms, of xs "bp + length xs" bp la "shift bp None"]
    marks_shift [of s0 bp 0 xs None] noted_shift [of "yy_run s0 xs" bp "length xs"]
  by (auto simp: last_ok_def)

lemma last_ok_noted: "last_ok s0 bp xs la \<Longrightarrow> last_ok s0 bp xs (noted (yy_run s0 xs) (bp + length xs) la)"
  by (auto simp: last_ok_def noted_def)

lemma last_ok_snoc:
  assumes "yy_start_ok s0" and "last_ok s0 bp xs la"
  shows "last_ok s0 bp (xs @ [x]) (noted (yy_run s0 xs) (bp + length xs) la)"
proof (cases "xs = []")
  case True
  then show ?thesis
    using first_char [OF assms(1), of x] by (simp add: last_ok_def noted_def)
next
  case False
  then show ?thesis
    using assms(2) noted_shift [of "yy_run s0 (xs @ [x])" bp "Suc (length xs)"]
    by (simp add: last_ok_def marks_append)
qed

section \<open>The buffer\<close>

text \<open>
  The buffer of \<open>yyg\<close> has \<open>text\<close> from position \<open>bp\<close> on, followed by the two characters that mark the
  end, and there is nothing left to read once the end of the file was seen.
\<close>

definition buffer_has :: "yyguts_t \<Rightarrow> nat \<Rightarrow> string \<Rightarrow> bool" where
  "buffer_has yyg bp text \<longleftrightarrow> (\<exists>b before junk. yy_buffer yyg = Some b \<and>
     yy_ch_buf b = before @ text @ CHR 0x00 # CHR 0x00 # junk \<and> length before = bp \<and>
     yy_n_chars yyg = bp + length text \<and> length (yy_ch_buf b) = yy_buf_size b + 2 \<and> 0 < yy_buf_size b \<and>
     yy_fill_buffer b \<and> (yy_buffer_status b = YY_BUFFER_NEW \<longrightarrow> yyb_n_chars b = yy_n_chars yyg) \<and>
     (yy_buffer_status b = YY_BUFFER_EOF_PENDING \<longrightarrow> yyin yyg = []))"

lemma buffer_hasE:
  assumes "buffer_has yyg bp text"
  obtains b before junk where "yy_buffer yyg = Some b"
    "yy_ch_buf b = before @ text @ CHR 0x00 # CHR 0x00 # junk" "length before = bp"
    "yy_n_chars yyg = bp + length text" "length (yy_ch_buf b) = yy_buf_size b + 2" "0 < yy_buf_size b"
    "yy_fill_buffer b" "yy_buffer_status b = YY_BUFFER_NEW \<longrightarrow> yyb_n_chars b = yy_n_chars yyg"
    "yy_buffer_status b = YY_BUFFER_EOF_PENDING \<longrightarrow> yyin yyg = []"
  using assms unfolding buffer_has_def by blast

lemma buffer_content:
  assumes "buffer_has yyg bp text" and "yy_buffer yyg = Some b"
  obtains before junk where "yy_ch_buf b = before @ text @ CHR 0x00 # CHR 0x00 # junk" and "length before = bp"
proof -
  obtain b' before junk where "yy_buffer yyg = Some b'" "yy_ch_buf b' = before @ text @ CHR 0x00 # CHR 0x00 # junk"
    "length before = bp"
    using assms(1) by (rule buffer_hasE)
  then show thesis
    using assms(2) by (intro that) simp_all
qed

lemma buffer_has_cong:
  assumes "buffer_has yyg bp text" and "yy_buffer yyg' = yy_buffer yyg" and "yy_n_chars yyg' = yy_n_chars yyg"
    and "yyin yyg' = yyin yyg"
  shows "buffer_has yyg' bp text"
  using assms unfolding buffer_has_def by simp

lemma yy_match_buf_char:
  assumes "live s" and "k < length buf" and "buf ! k \<noteq> CHR 0x00"
  shows "yy_match_buf buf s k la = (let s' = yy_succ s (buf ! k) in
    if yy_base ! s' \<noteq> 296 then yy_match_buf buf s' (k + 1) (noted s k la) else Some (s', k + 1, noted s k la))"
  using assms live_succ [OF assms(1), of "buf ! k"]
  by (subst yy_match_buf.simps) (simp add: yy_get_def yy_ec_cls yy_note_noted yy_find_succ YY_JAMBASE_def Let_def live_def)

lemma yy_match_buf_end:
  assumes "live s" and "k + 1 < length buf" and "buf ! k = CHR 0x00"
  shows "yy_match_buf buf s k la = Some (205, k + 2, Some (5, k + 1))"
proof -
  have ec0: "yy_ec ! 0 = 0" by (simp add: yy_ec_at)
  have s: "yy_find s 0 = Some 5" "yy_note s k la = Some (noted s k la)"
    using yy_find_next [of s 0] yy_next_end [of s] assms(1) yy_note_noted by (auto simp: live_def)
  let ?ch = "buf ! (k + 1)"
  have "yy_ec ! of_char ?ch = (if ?ch = CHR 0x00 then 0 else yy_cls ?ch)" using yy_ec_cls [of ?ch] by simp
  then have f: "yy_find 5 (yy_ec ! of_char ?ch) = Some 205"
    using yy_find_next [of 5] yy_next_5 yy_cls_range [of ?ch] by auto
  have "yy_match_buf buf s k la = yy_match_buf buf 5 (k + 1) (noted s k la)"
    using assms s ec0 by (subst yy_match_buf.simps) (auto simp: yy_get_def YY_JAMBASE_def yy_base_at)
  also have "\<dots> = Some (205, k + 2, Some (5, k + 1))"
    using f assms(2) by (subst yy_match_buf.simps) (simp add: yy_get_def yy_note_def yy_accept_at yy_base_at YY_JAMBASE_def)
  finally show ?thesis .
qed

text \<open>Setting up the token, and undoing that.\<close>

definition token_set :: "yyguts_t \<Rightarrow> nat \<Rightarrow> nat \<Rightarrow> char \<Rightarrow> yyguts_t" where
  "token_set yyg bp cp c = yyg\<lparr>yytext_ptr := bp, yyleng := cp - bp, yy_hold_char := c, yy_c_buf_p := cp\<rparr>"

lemma token_set_simps [simp]:
  "yytext_ptr (token_set yyg bp cp c) = bp" "yyleng (token_set yyg bp cp c) = cp - bp"
  "yy_hold_char (token_set yyg bp cp c) = c" "yy_c_buf_p (token_set yyg bp cp c) = cp"
  "yyin (token_set yyg bp cp c) = yyin yyg" "yy_buffer (token_set yyg bp cp c) = yy_buffer yyg"
  "yy_n_chars (token_set yyg bp cp c) = yy_n_chars yyg" "yy_init (token_set yyg bp cp c) = yy_init yyg"
  "yy_start (token_set yyg bp cp c) = yy_start yyg"
  "yy_last_accepting (token_set yyg bp cp c) = yy_last_accepting yyg"
  by (simp_all add: token_set_def)

lemma before_action:
  assumes "yy_buffer yyg = Some b" and "cp < length (yy_ch_buf b)"
  shows "YY_DO_BEFORE_ACTION yyg bp cp =
      Some (token_set yyg bp cp (yy_ch_buf b ! cp)\<lparr>yy_buffer := Some (b\<lparr>yy_ch_buf := (yy_ch_buf b)[cp := CHR 0x00]\<rparr>)\<rparr>)"
    and "yy_set_char (token_set yyg bp cp (yy_ch_buf b ! cp)\<lparr>yy_buffer := Some (b\<lparr>yy_ch_buf := (yy_ch_buf b)[cp := CHR 0x00]\<rparr>)\<rparr>)
      cp (yy_ch_buf b ! cp) = Some (token_set yyg bp cp (yy_ch_buf b ! cp))"
  using assms by (simp_all add: YY_DO_BEFORE_ACTION_def yy_set_char_def yy_put_def yy_get_def token_set_def)

lemma yy_previous_run:
  assumes "yy_buffer yyg = Some b" and "yy_ch_buf b = before @ xs @ rest" and "yytext_ptr yyg = length before"
    and "yy_c_buf_p yyg = length before + length xs" and "live (yy_start yyg)"
  shows "yy_previous yyg = Some (yy_run (yy_start yyg) xs,
    yyg\<lparr>yy_last_accepting := marks (yy_start yyg) (length before) xs (yy_last_accepting yyg)\<rparr>)"
  using assms by (simp add: yy_previous_def yy_get_previous_state_run)

section \<open>Steps\<close>

text \<open>Scanning behind \<open>xs\<close> of a token that begins at \<open>bp\<close>, with \<open>ys\<close> next in the buffer.\<close>

definition scanning :: "yyguts_t \<Rightarrow> nat \<Rightarrow> nat \<Rightarrow> string \<Rightarrow> string \<Rightarrow> bool" where
  "scanning yyg s0 bp xs ys \<longleftrightarrow> yy_start yyg = s0 \<and> yy_init yyg \<and> buffer_has yyg bp (xs @ ys) \<and> last_ok s0 bp xs (yy_last_accepting yyg)"

lemma scan_buf_char:
  assumes "scanning yyg s0 bp xs (y # ys)" and "yy_start_ok s0" and "y \<noteq> CHR 0x00"
    and "s = yy_run s0 xs" and "yy_base ! yy_succ s y \<noteq> 296"
  shows "\<exists>yyg'. yy_scan_buf E yyg bp True s (bp + length xs) = yy_scan_buf E yyg' bp True (yy_succ s y) (bp + length (xs @ [y])) \<and>
    scanning yyg' s0 bp (xs @ [y]) ys \<and> yyin yyg' = yyin yyg"
proof -
  obtain b before junk where b: "yy_buffer yyg = Some b"
    "yy_ch_buf b = before @ (xs @ y # ys) @ CHR 0x00 # CHR 0x00 # junk" "length before = bp"
    using assms(1) unfolding scanning_def by (blast elim: buffer_hasE)
  let ?k = "bp + length xs"
  let ?g = "yyg\<lparr>yy_last_accepting := noted s ?k (yy_last_accepting yyg)\<rparr>"
  have l: "live s"
    unfolding assms(4) by (rule live_run [OF start_live [OF assms(2)]])
  have k: "?k < length (yy_ch_buf b)" "yy_ch_buf b ! ?k = y"
    by (simp_all add: b(2) b(3) [symmetric] nth_append)
  have m: "yy_match_buf (yy_ch_buf b) s ?k (yy_last_accepting yyg) =
      yy_match_buf (yy_ch_buf b) (yy_succ s y) (?k + 1) (noted s ?k (yy_last_accepting yyg))"
    using yy_match_buf_char [OF l k(1)] k(2) assms(3,5) by (simp add: Let_def)
  have "yy_scan_buf E yyg bp True s ?k = yy_scan_buf E ?g bp True (yy_succ s y) (?k + 1)"
    by (subst (1 2) yy_scan_buf.simps) (simp add: b(1) m [simplified])
  moreover have "scanning ?g s0 bp (xs @ [y]) ys"
    using assms(1,2,4) last_ok_snoc [of s0 bp xs "yy_last_accepting yyg" y]
    by (auto simp: scanning_def intro: buffer_has_cong)
  ultimately show ?thesis
    by (intro exI [of _ ?g]) simp
qed

text \<open>At a NUL character the matching loop ends with the action for the end of the buffer.\<close>

definition scan_nul :: "yy_env \<Rightarrow> yyguts_t \<Rightarrow> nat \<Rightarrow> (nat ptr \<times> yyguts_t) option" where
  "scan_nul E yyg k = do {
     (s, yyg) \<leftarrow> yy_previous (yyg\<lparr>yy_c_buf_p := k\<rparr>);
     (r, la) \<leftarrow> yy_try_NUL_trans s (yy_c_buf_p yyg) (yy_last_accepting yyg);
     let yyg = yyg\<lparr>yy_last_accepting := la\<rparr>;
     case r of
       Some s' \<Rightarrow> yy_scan_buf E (yyg\<lparr>yy_c_buf_p := yy_c_buf_p yyg + 1\<rparr>) (yytext_ptr yyg) True s' (yy_c_buf_p yyg + 1)
     | None \<Rightarrow> yy_scan_buf E yyg (yytext_ptr yyg) False s (yy_c_buf_p yyg)
   }"

definition scan_next :: "yy_env \<Rightarrow> yyguts_t \<Rightarrow> nat \<Rightarrow> (nat ptr \<times> yyguts_t) option" where
  "scan_next E yyg n = do {
     (act, yyg) \<leftarrow> yy_get_next_buffer E yyg;
     case act of
       EOB_ACT_END_OF_FILE \<Rightarrow> Some (None, yyg\<lparr>yy_c_buf_p := yytext_ptr yyg\<rparr>)
     | EOB_ACT_CONTINUE_SCAN \<Rightarrow> do {
         (s, yyg) \<leftarrow> yy_previous (yyg\<lparr>yy_c_buf_p := yytext_ptr yyg + n\<rparr>);
         yy_scan_buf E yyg (yytext_ptr yyg) True s (yy_c_buf_p yyg)
       }
     | EOB_ACT_LAST_MATCH \<Rightarrow> do {
         (s, yyg) \<leftarrow> yy_previous (yyg\<lparr>yy_c_buf_p := yy_n_chars yyg\<rparr>);
         yy_scan_buf E yyg (yytext_ptr yyg) False s (yy_c_buf_p yyg)
       }
   }"

definition eob_state :: "yyguts_t \<Rightarrow> yyguts_t \<Rightarrow> nat \<Rightarrow> nat \<Rightarrow> string \<Rightarrow> bool" where
  "eob_state yyg yyg' bp k text \<longleftrightarrow> buffer_has yyg' bp text \<and> yyin yyg' = yyin yyg \<and> yytext_ptr yyg' = bp \<and>
     yy_c_buf_p yyg' = k + 1 \<and> yy_start yyg' = yy_start yyg \<and> yy_init yyg' \<and>
     (\<forall>b. yy_buffer yyg' = Some b \<longrightarrow> yy_buffer_status b \<noteq> YY_BUFFER_NEW)"

lemma new_input_ok:
  assumes "buffer_has yyg bp text"
  obtains yyg' where "yy_new_input (token_set (yyg\<lparr>yy_last_accepting := la\<rparr>) bp cp c) = Some yyg'"
    and "buffer_has yyg' bp text" and "yyin yyg' = yyin yyg" and "yytext_ptr yyg' = bp" and "yy_c_buf_p yyg' = cp"
    and "yy_start yyg' = yy_start yyg" and "yy_init yyg' = yy_init yyg"
    and "\<forall>b. yy_buffer yyg' = Some b \<longrightarrow> yy_buffer_status b \<noteq> YY_BUFFER_NEW"
proof -
  obtain b before junk where b: "yy_buffer yyg = Some b"
    "yy_ch_buf b = before @ text @ CHR 0x00 # CHR 0x00 # junk" "length before = bp"
    "yy_n_chars yyg = bp + length text" "length (yy_ch_buf b) = yy_buf_size b + 2" "0 < yy_buf_size b"
    "yy_fill_buffer b" "yy_buffer_status b = YY_BUFFER_NEW \<longrightarrow> yyb_n_chars b = yy_n_chars yyg"
    "yy_buffer_status b = YY_BUFFER_EOF_PENDING \<longrightarrow> yyin yyg = []"
    using assms by (rule buffer_hasE)
  let ?g = "token_set (yyg\<lparr>yy_last_accepting := la\<rparr>) bp cp c"
  show thesis
  proof (cases "yy_buffer_status b = YY_BUFFER_NEW")
    case True
    let ?h = "?g\<lparr>yy_n_chars := yyb_n_chars b, yy_buffer := Some (b\<lparr>yy_buffer_status := YY_BUFFER_NORMAL\<rparr>)\<rparr>"
    have "buffer_has ?h bp text"
      using b True by (auto simp: buffer_has_def token_set_def)
    moreover have "yy_new_input ?g = Some ?h"
      using True b(1) by (simp add: yy_new_input_def token_set_def)
    ultimately show thesis
      by (intro that [of ?h]) (simp_all add: token_set_def)
  next
    case False
    have "buffer_has ?g bp text"
      using assms by (rule buffer_has_cong) (simp_all add: token_set_def)
    moreover have "yy_new_input ?g = Some ?g"
      using False b(1) by (simp add: yy_new_input_def token_set_def)
    ultimately show thesis
      using False b(1) by (intro that [of ?g]) (simp_all add: token_set_def)
  qed
qed

lemma scan_buf_eob:
  assumes "scanning yyg s0 bp xs ys" and "yy_start_ok s0" and "ys = [] \<or> hd ys = CHR 0x00"
    and "s = yy_run s0 xs" and "k = bp + length xs"
  obtains yyg' where "eob_state yyg yyg' bp k (xs @ ys)"
    and "yy_scan_buf E yyg bp True s k = (if ys = [] then scan_next E yyg' (length xs) else scan_nul E yyg' k)"
proof -
  have has: "buffer_has yyg bp (xs @ ys)" and init: "yy_init yyg"
    using assms(1) by (simp_all add: scanning_def)
  obtain b before junk where b: "yy_buffer yyg = Some b"
    "yy_ch_buf b = before @ (xs @ ys) @ CHR 0x00 # CHR 0x00 # junk" "length before = bp"
    using has by (blast elim: buffer_hasE)
  have l: "live s"
    unfolding assms(4) by (rule live_run [OF start_live [OF assms(2)]])
  have k: "k + 1 < length (yy_ch_buf b)" "yy_ch_buf b ! k = CHR 0x00"
    using assms(3) by (cases ys; simp add: b(2) b(3) [symmetric] nth_append assms(5))+
  have m: "yy_match_buf (yy_ch_buf b) s k (yy_last_accepting yyg) = Some (205, k + 2, Some (5, k + 1))"
    by (rule yy_match_buf_end [OF l k])
  have a: "yy_find_action 205 (k + 2) (Some (5, k + 1)) = Some (33, k + 1)"
    by (simp add: yy_find_action_def yy_accept_at)
  let ?g0 = "yyg\<lparr>yy_last_accepting := Some (5, k + 1)\<rparr>"
  let ?c = "yy_ch_buf b ! (k + 1)"
  have g0: "yy_buffer ?g0 = Some b"
    by (simp add: b(1))
  note before = before_action [OF g0 k(1), of bp]
  obtain g where g: "yy_new_input (token_set ?g0 bp (k + 1) ?c) = Some g"
    "buffer_has g bp (xs @ ys)" "yyin g = yyin yyg" "yytext_ptr g = bp" "yy_c_buf_p g = k + 1"
    "yy_start g = yy_start yyg" "yy_init g = yy_init yyg"
    "\<forall>b. yy_buffer g = Some b \<longrightarrow> yy_buffer_status b \<noteq> YY_BUFFER_NEW"
    using has by (rule new_input_ok)
  have n: "yy_n_chars g = bp + length (xs @ ys)"
    using g(2) by (blast elim: buffer_hasE)
  have len: "k - bp = length xs" "bp + length xs = k"
    using assms(5) by simp_all
  have "yy_scan_buf E yyg bp True s k = (if k + 1 \<le> yy_n_chars g then scan_nul E g k else scan_next E g (length xs))"
    using g(4,5) len
    by (subst yy_scan_buf.simps)
      (simp add: b(1) m [simplified] a [simplified] before [simplified] g(1) [simplified] YY_END_OF_BUFFER_def
        scan_nul_def scan_next_def Let_def cong: eob_act.case_cong)
  moreover have "k + 1 \<le> yy_n_chars g \<longleftrightarrow> ys \<noteq> []"
    using assms(5) by (cases ys) (simp_all add: n)
  moreover have "eob_state yyg g bp k (xs @ ys)"
    using g init by (simp add: eob_state_def)
  ultimately show thesis
    by (intro that [of g]) simp_all
qed

lemma scan_nul_step:
  assumes "eob_state yyg g bp k (xs @ CHR 0x00 # ys)" and "yy_start yyg = s0" and "yy_start_ok s0" and "k = bp + length xs"
    and "s = yy_run s0 xs"
  shows "\<exists>g'. scan_nul E g k = (if yy_succ s CHR 0x00 = 205 then yy_scan_buf E g' bp False s k
      else yy_scan_buf E g' bp True (yy_succ s CHR 0x00) (k + 1)) \<and> yyin g' = yyin yyg \<and>
    (if yy_succ s CHR 0x00 = 205 then scanning g' s0 bp xs (CHR 0x00 # ys) else scanning g' s0 bp (xs @ [CHR 0x00]) ys)"
proof -
  have g: "buffer_has g bp (xs @ CHR 0x00 # ys)" "yyin g = yyin yyg" "yytext_ptr g = bp" "yy_start g = s0" "yy_init g"
    using assms(1,2) by (simp_all add: eob_state_def)
  obtain b before junk where b: "yy_buffer g = Some b"
    "yy_ch_buf b = before @ (xs @ CHR 0x00 # ys) @ CHR 0x00 # CHR 0x00 # junk" "length before = bp"
    using g(1) by (blast elim: buffer_hasE)
  have l: "live s" "live s0"
    unfolding assms(5) using start_live [OF assms(3)] live_run by blast+
  let ?g = "g\<lparr>yy_c_buf_p := k\<rparr>"
  let ?la = "noted s k (marks s0 bp xs (yy_last_accepting g))"
  let ?g1 = "?g\<lparr>yy_last_accepting := ?la\<rparr>"
  let ?g2 = "?g1\<lparr>yy_c_buf_p := k + 1\<rparr>"
  have prev: "yy_previous ?g = Some (s, ?g\<lparr>yy_last_accepting := marks s0 bp xs (yy_last_accepting g)\<rparr>)"
    using yy_previous_run [of ?g b before xs "CHR 0x00 # ys @ CHR 0x00 # CHR 0x00 # junk"] b g l(2) assms(4,5) by simp
  have nul: "yy_try_NUL_trans s k la = Some (if yy_succ s CHR 0x00 = 205 then None else Some (yy_succ s CHR 0x00), noted s k la)" for la
    by (rule yy_try_NUL [OF l(1)])
  have la: "last_ok s0 bp xs (marks s0 bp xs (yy_last_accepting g))"
    by (rule last_ok_marks [OF assms(3)])
  have "scanning ?g1 s0 bp xs (CHR 0x00 # ys)"
    using g last_ok_noted [OF la] assms(4,5) by (auto simp: scanning_def intro: buffer_has_cong)
  moreover have "scanning ?g2 s0 bp (xs @ [CHR 0x00]) ys"
    using g last_ok_snoc [OF assms(3) la] assms(4,5) by (auto simp: scanning_def intro: buffer_has_cong)
  moreover have "scan_nul E g k = (if yy_succ s CHR 0x00 = 205 then yy_scan_buf E ?g1 bp False s k
      else yy_scan_buf E ?g2 bp True (yy_succ s CHR 0x00) (k + 1))"
    using g(3) by (simp add: scan_nul_def prev nul)
  ultimately show ?thesis
    using g(2) by (cases "yy_succ s CHR 0x00 = 205") (auto intro: exI [of _ ?g1] exI [of _ ?g2])
qed

section \<open>Refilling\<close>

lemma yy_move_eq:
  assumes "source + n \<le> length buf"
  shows "yy_move buf source n = Some (take n (drop source buf) @ drop n buf)"
proof -
  have "fold (\<lambda>i buf. buf[i := buf ! (source + i)]) [0..<m] buf = take m (drop source buf) @ drop m buf" if "m \<le> n" for m
    using that
  proof (induction m)
    case (Suc m)
    let ?f = "take m (drop source buf) @ drop m buf"
    have len: "source + m < length buf" "length (take m (drop source buf)) = m"
      using Suc.prems assms by simp_all
    then have "?f ! (source + m) = buf ! (source + m)"
      by (simp add: nth_append add.commute [of m])
    moreover have "?f[m := c] = take m (drop source buf) @ c # drop (Suc m) buf" for c
      using len by (simp add: list_update_append Cons_nth_drop_Suc [symmetric])
    moreover have "take (Suc m) (drop source buf) = take m (drop source buf) @ [buf ! (source + m)]"
      using len(1) take_Suc_conv_app_nth [of m "drop source buf"] by (simp add: add.commute [of source m])
    ultimately show ?case
      using Suc by simp
  qed simp
  then show ?thesis
    using assms by (simp add: yy_move_def)
qed

definition env_ok :: "yy_env \<Rightarrow> bool" where
  "env_ok E \<longleftrightarrow> (\<forall>n. ye_alloc E n) \<and> (\<forall>n file. ye_fread E n file \<le> n \<and> ye_fread E n file \<le> length file \<and>
     (0 < n \<and> file \<noteq> [] \<longrightarrow> 0 < ye_fread E n file))"

lemma fread_ok:
  assumes "env_ok E"
  shows "ye_fread E n file \<le> n" and "ye_fread E n file \<le> length file"
    and "0 < n \<Longrightarrow> file \<noteq> [] \<Longrightarrow> 0 < ye_fread E n file"
  using assms by (simp_all add: env_ok_def)

lemma yy_grow_ok:
  assumes "env_ok E" and "2 * (n + 1) < 2 ^ 31" and "length (yy_ch_buf b) = yy_buf_size b + 2" and "0 < yy_buf_size b"
  shows "\<exists>m junk. yy_grow E n b = Some (b\<lparr>yy_buf_size := m, yy_ch_buf := yy_ch_buf b @ junk\<rparr>) \<and>
    length (yy_ch_buf b @ junk) = m + 2 \<and> n + 1 < m"
  using assms(3,4)
proof (induction "n + 2 - yy_buf_size b" arbitrary: b rule: less_induct)
  case less
  show ?case
  proof (cases "yy_buf_size b \<le> n + 1")
    case False
    then show ?thesis
      using less.prems by (intro exI [of _ "yy_buf_size b"] exI [of _ "[]"]) (simp add: yy_grow.simps [of E n b])
  next
    case True
    let ?m = "yy_buf_size b * 2"
    let ?j = "yy_fresh E (length (yy_ch_buf b)) (?m + 2)"
    let ?b = "b\<lparr>yy_buf_size := ?m, yy_ch_buf := yy_ch_buf b @ ?j\<rparr>"
    have "yy_grow E n b = yy_grow E n ?b"
      using True assms(1,2) by (subst yy_grow.simps) (auto simp: env_ok_def Let_def)
    moreover have "length (yy_ch_buf ?b) = yy_buf_size ?b + 2" "0 < yy_buf_size ?b"
      using less.prems by (auto simp: yy_fresh_def)
    moreover have "n + 2 - yy_buf_size ?b < n + 2 - yy_buf_size b"
      using True less.prems(2) by simp
    ultimately obtain m junk where "yy_grow E n b = Some (?b\<lparr>yy_buf_size := m, yy_ch_buf := yy_ch_buf ?b @ junk\<rparr>)"
      "length (yy_ch_buf ?b @ junk) = m + 2" "n + 1 < m"
      using less.hyps [of ?b] by auto
    then show ?thesis
      by (intro exI [of _ m] exI [of _ "?j @ junk"]) simp
  qed
qed

text \<open>Behind the end of the buffer: the token so far moves to the beginning.\<close>

lemma eob_buffer:
  assumes "eob_state yyg g bp k xs" and "k = bp + length xs"
  obtains b where "yy_buffer g = Some b" and "yy_move (yy_ch_buf b) bp (length xs) = Some (xs @ drop (length xs) (yy_ch_buf b))"
    and "bp + length xs + 2 \<le> length (yy_ch_buf b)" and "length (yy_ch_buf b) = yy_buf_size b + 2" and "0 < yy_buf_size b"
    and "yy_fill_buffer b" and "yy_buffer_status b = YY_BUFFER_EOF_PENDING \<longrightarrow> yyin g = []"
    and "yy_n_chars g = k" and "yy_buffer_status b \<noteq> YY_BUFFER_NEW"
proof -
  have g: "buffer_has g bp xs" "\<forall>b. yy_buffer g = Some b \<longrightarrow> yy_buffer_status b \<noteq> YY_BUFFER_NEW"
    using assms(1) by (simp_all add: eob_state_def)
  obtain b before junk where b: "yy_buffer g = Some b" "yy_ch_buf b = before @ xs @ CHR 0x00 # CHR 0x00 # junk"
    "length before = bp" "yy_n_chars g = bp + length xs" "length (yy_ch_buf b) = yy_buf_size b + 2" "0 < yy_buf_size b"
    "yy_fill_buffer b" "yy_buffer_status b = YY_BUFFER_EOF_PENDING \<longrightarrow> yyin g = []"
    using g(1) by (rule buffer_hasE)
  have "take (length xs) (drop bp (yy_ch_buf b)) = xs" and le: "bp + length xs + 2 \<le> length (yy_ch_buf b)"
    using b(2,3) by simp_all
  then have m: "yy_move (yy_ch_buf b) bp (length xs) = Some (xs @ drop (length xs) (yy_ch_buf b))"
    using yy_move_eq [of bp "length xs" "yy_ch_buf b"] by simp
  show thesis
    by (rule that [OF b(1) m le b(5-8)]) (use b(1,4) g(2) assms(2) in auto)
qed

lemma end_marks:
  assumes "n + 2 \<le> length buf" and "take n buf = text" and "length text = n"
  shows "yy_put buf n (CHR 0x00) = Some (text @ CHR 0x00 # drop (n + 1) buf)"
    and "yy_put (text @ CHR 0x00 # drop (n + 1) buf) (n + 1) (CHR 0x00) = Some (text @ CHR 0x00 # CHR 0x00 # drop (n + 2) buf)"
proof -
  obtain r where "drop n buf = r"
    by blast
  moreover from this obtain a c r' where "r = a # c # r'"
    using assms(1) by (cases r; cases "tl r") (auto simp: drop_Cons' dest: arg_cong [of _ _ length])
  ultimately have "buf = text @ a # c # r'"
    using assms(2) append_take_drop_id [of n buf] by simp
  then show "yy_put buf n (CHR 0x00) = Some (text @ CHR 0x00 # drop (n + 1) buf)"
    and "yy_put (text @ CHR 0x00 # drop (n + 1) buf) (n + 1) (CHR 0x00) = Some (text @ CHR 0x00 # CHR 0x00 # drop (n + 2) buf)"
    using assms(3) by (simp_all add: yy_put_def list_update_append)
qed

definition read_step :: "yy_env \<Rightarrow> nat \<Rightarrow> yy_buffer_state \<Rightarrow> string \<Rightarrow> (yy_buffer_state \<times> nat \<times> string) option" where
  "read_step E number_to_move b file =
     (if yy_buffer_status b = YY_BUFFER_EOF_PENDING then Some (b, 0, file)
      else do {
        b \<leftarrow> yy_grow E number_to_move b;
        let num_to_read = min (yy_buf_size b - number_to_move - 1) YY_READ_BUF_SIZE;
        (ch, n, rest) \<leftarrow> YY_INPUT E (yy_ch_buf b) number_to_move num_to_read file;
        Some (b\<lparr>yy_ch_buf := ch\<rparr>, n, rest)
      })"

lemma read_step_ok:
  assumes "env_ok E" and "2 * (length xs + 1) < 2 ^ 31" and "yy_ch_buf b = xs @ junk"
    and "length (yy_ch_buf b) = yy_buf_size b + 2" and "0 < yy_buf_size b" and "2 \<le> length junk"
    and "yy_buffer_status b = YY_BUFFER_EOF_PENDING \<longrightarrow> file = []"
  obtains b' n where "read_step E (length xs) b file = Some (b', n, drop n file)" and "n \<le> length file"
    and "file \<noteq> [] \<Longrightarrow> 0 < n" and "take (length xs + n) (yy_ch_buf b') = xs @ take n file"
    and "length xs + n + 2 \<le> length (yy_ch_buf b')" and "length (yy_ch_buf b') = yy_buf_size b' + 2" and "0 < yy_buf_size b'"
    and "yy_fill_buffer b' = yy_fill_buffer b" and "yy_buffer_status b' = yy_buffer_status b"
proof (cases "yy_buffer_status b = YY_BUFFER_EOF_PENDING")
  case True
  then show thesis
    using assms by (intro that [of b 0]) (simp_all add: read_step_def)
next
  case False
  obtain m junk' where grow: "yy_grow E (length xs) b = Some (b\<lparr>yy_buf_size := m, yy_ch_buf := yy_ch_buf b @ junk'\<rparr>)"
    "length (yy_ch_buf b @ junk') = m + 2" "length xs + 1 < m"
    using yy_grow_ok [OF assms(1,2,4,5)] by blast
  let ?c = "yy_ch_buf b @ junk'"
  let ?max = "min (m - length xs - 1) YY_READ_BUF_SIZE"
  let ?n = "ye_fread E ?max file"
  let ?d = "xs @ take ?n file @ drop (length xs + ?n) ?c"
  note n = fread_ok [OF assms(1)]
  have max: "0 < ?max" "?max \<le> m - length xs - 1"
    using grow(3) by (auto simp: YY_READ_BUF_SIZE_def)
  have room: "length xs + ?n + 2 \<le> length ?c"
    using n(1) [of ?max "file"] max(2) grow(2,3) by linarith
  have "YY_INPUT E ?c (length xs) ?max file = Some (?d, ?n, drop ?n file)"
    using room assms(3) by (simp add: YY_INPUT_def Let_def)
  then have step: "read_step E (length xs) b file = Some (b\<lparr>yy_buf_size := m, yy_ch_buf := ?d\<rparr>, ?n, drop ?n file)"
    using False by (simp add: read_step_def grow(1))
  have len: "length ?d = length ?c"
  proof -
    have "length ?d = length xs + (length (take ?n file) + length (drop (length xs + ?n) ?c))"
      by (simp only: length_append)
    moreover have "length (drop (length xs + ?n) ?c) = length ?c - (length xs + ?n)"
      by (rule length_drop)
    moreover have "length (take ?n file) = ?n"
      using n(2) [of ?max "file"] by simp
    ultimately show ?thesis
      using room by linarith
  qed
  have tk: "take (length xs + ?n) ?d = xs @ take ?n file"
    using n(2) [of ?max "file"] by (simp only: take_append take_add) simp
  have "0 < ?n" if "file \<noteq> []"
    by (rule n(3) [OF max(1) that])
  then obtain d k where d: "read_step E (length xs) b file = Some (b\<lparr>yy_buf_size := m, yy_ch_buf := d\<rparr>, k, drop k file)"
    "length d = m + 2" "take (length xs + k) d = xs @ take k file" "length xs + k + 2 \<le> m + 2"
    "file \<noteq> [] \<longrightarrow> 0 < k" "k \<le> length file"
    using step len tk room grow(2) n(2) [of ?max "file"] by metis
  then show thesis
    using grow(3) by (intro that [OF d(1)]) simp_all
qed

definition finish_step :: "yy_env \<Rightarrow> yyguts_t \<Rightarrow> nat \<Rightarrow> yy_buffer_state \<Rightarrow> nat \<Rightarrow> (eob_act \<times> yyguts_t) option" where
  "finish_step E yyg number_to_move b n = do {
     let yyg = yyg\<lparr>yy_buffer := Some b, yy_n_chars := n, yyin := drop n (yyin yyg)\<rparr>;
     (ret_val, yyg) \<leftarrow> (if n = 0 then
         if number_to_move = 0 then do { yyg \<leftarrow> yyrestart E yyg; Some (EOB_ACT_END_OF_FILE, yyg) }
         else Some (EOB_ACT_LAST_MATCH, yyg\<lparr>yy_buffer := Some (b\<lparr>yy_buffer_status := YY_BUFFER_EOF_PENDING\<rparr>)\<rparr>)
       else Some (EOB_ACT_CONTINUE_SCAN, yyg));
     b \<leftarrow> yy_buffer yyg;
     b \<leftarrow> (if yy_buf_size b < yy_n_chars yyg + number_to_move then
         let n = yy_n_chars yyg + number_to_move + yy_n_chars yyg div 2 in
         if ye_alloc E n
         then Some (b\<lparr>yy_ch_buf := take n (yy_ch_buf b @ yy_fresh E (length (yy_ch_buf b)) n), yy_buf_size := n - 2\<rparr>)
         else None
       else Some b);
     let n = yy_n_chars yyg + number_to_move;
     ch \<leftarrow> yy_put (yy_ch_buf b) n (CHR 0x00);
     ch \<leftarrow> yy_put ch (n + 1) (CHR 0x00);
     Some (ret_val, yyg\<lparr>yy_buffer := Some (b\<lparr>yy_ch_buf := ch\<rparr>), yy_n_chars := n, yytext_ptr := 0\<rparr>)
   }"

lemma get_next_buffer_step:
  assumes "eob_state yyg g bp k xs" and "k = bp + length xs" and "env_ok E" and "2 * (length xs + 1) < 2 ^ 31"
  obtains b n where "yy_get_next_buffer E g = finish_step E g (length xs) b n"
    and "n \<le> length (yyin g)" and "yyin g \<noteq> [] \<longrightarrow> 0 < n" and "take (length xs + n) (yy_ch_buf b) = xs @ take n (yyin g)"
    and "length xs + n + 2 \<le> length (yy_ch_buf b)" and "length (yy_ch_buf b) = yy_buf_size b + 2" and "0 < yy_buf_size b"
    and "yy_fill_buffer b" and "yy_buffer_status b \<noteq> YY_BUFFER_NEW"
    and "yy_buffer_status b = YY_BUFFER_EOF_PENDING \<longrightarrow> yyin g = []"
proof -
  obtain b where b: "yy_buffer g = Some b" "yy_move (yy_ch_buf b) bp (length xs) = Some (xs @ drop (length xs) (yy_ch_buf b))"
    "bp + length xs + 2 \<le> length (yy_ch_buf b)" "length (yy_ch_buf b) = yy_buf_size b + 2" "0 < yy_buf_size b"
    "yy_fill_buffer b" "yy_buffer_status b = YY_BUFFER_EOF_PENDING \<longrightarrow> yyin g = []"
    "yy_n_chars g = k" "yy_buffer_status b \<noteq> YY_BUFFER_NEW"
    using assms(1,2) by (rule eob_buffer)
  have g: "yytext_ptr g = bp" "yy_c_buf_p g = k + 1"
    using assms(1) by (simp_all add: eob_state_def)
  let ?b = "b\<lparr>yy_ch_buf := xs @ drop (length xs) (yy_ch_buf b)\<rparr>"
  obtain b' n where r: "read_step E (length xs) ?b (yyin g) = Some (b', n, drop n (yyin g))" "n \<le> length (yyin g)"
    "yyin g \<noteq> [] \<Longrightarrow> 0 < n" "take (length xs + n) (yy_ch_buf b') = xs @ take n (yyin g)"
    "length xs + n + 2 \<le> length (yy_ch_buf b')" "length (yy_ch_buf b') = yy_buf_size b' + 2" "0 < yy_buf_size b'"
    "yy_fill_buffer b' = yy_fill_buffer ?b" "yy_buffer_status b' = yy_buffer_status ?b"
    by (rule read_step_ok [OF assms(3,4), of ?b "drop (length xs) (yy_ch_buf b)" "yyin g"])
      (use b in \<open>simp_all\<close>)
  let ?c = "b'\<lparr>yyb_n_chars := n\<rparr>"
  have m: "yy_c_buf_p g - bp - 1 = length xs" "\<not> yy_n_chars g + 1 < yy_c_buf_p g"
    using g b(8) assms(2) by simp_all
  have "yy_get_next_buffer E g = do {
      (b, n, rest) \<leftarrow> read_step E (length xs) ?b (yyin g);
      let b = b\<lparr>yyb_n_chars := n\<rparr>;
      let yyg = g\<lparr>yy_buffer := Some b, yy_n_chars := n, yyin := rest\<rparr>;
      (ret_val, yyg) \<leftarrow> (if n = 0 then
          if length xs = 0 then do { yyg \<leftarrow> yyrestart E yyg; Some (EOB_ACT_END_OF_FILE, yyg) }
          else Some (EOB_ACT_LAST_MATCH, yyg\<lparr>yy_buffer := Some (b\<lparr>yy_buffer_status := YY_BUFFER_EOF_PENDING\<rparr>)\<rparr>)
        else Some (EOB_ACT_CONTINUE_SCAN, yyg));
      b \<leftarrow> yy_buffer yyg;
      b \<leftarrow> (if yy_buf_size b < yy_n_chars yyg + length xs then
          let n = yy_n_chars yyg + length xs + yy_n_chars yyg div 2 in
          if ye_alloc E n
          then Some (b\<lparr>yy_ch_buf := take n (yy_ch_buf b @ yy_fresh E (length (yy_ch_buf b)) n), yy_buf_size := n - 2\<rparr>)
          else None
        else Some b);
      let n = yy_n_chars yyg + length xs;
      ch \<leftarrow> yy_put (yy_ch_buf b) n (CHR 0x00);
      ch \<leftarrow> yy_put ch (n + 1) (CHR 0x00);
      Some (ret_val, yyg\<lparr>yy_buffer := Some (b\<lparr>yy_ch_buf := ch\<rparr>), yy_n_chars := n, yytext_ptr := 0\<rparr>)
    }"
    unfolding yy_get_next_buffer_def read_step_def b(1) m(1) g(1)
    using m(2) b(6) by (simp only: bind.bind_lunit b(2) Let_def if_False not_True_eq_False)
  also have "\<dots> = finish_step E g (length xs) ?c n"
    by (simp add: r(1) finish_step_def Let_def)
  finally show thesis
    by (rule that) (use r b in \<open>simp_all\<close>)
qed

lemma next_buffer_more:
  assumes "eob_state yyg g bp k xs" and "k = bp + length xs" and "env_ok E" and "2 * (length xs + 1) < 2 ^ 31"
    and "yyin g \<noteq> []"
  obtains g' c where "yy_get_next_buffer E g = Some (EOB_ACT_CONTINUE_SCAN, g')" and "c \<noteq> []"
    and "buffer_has g' 0 (xs @ c)" and "c @ yyin g' = yyin g" and "yytext_ptr g' = 0" and "yy_start g' = yy_start yyg"
    and "yy_init g'"
proof -
  obtain b n where b: "yy_get_next_buffer E g = finish_step E g (length xs) b n"
    "n \<le> length (yyin g)" "yyin g \<noteq> [] \<longrightarrow> 0 < n" "take (length xs + n) (yy_ch_buf b) = xs @ take n (yyin g)"
    "length xs + n + 2 \<le> length (yy_ch_buf b)" "length (yy_ch_buf b) = yy_buf_size b + 2" "0 < yy_buf_size b"
    "yy_fill_buffer b" "yy_buffer_status b \<noteq> YY_BUFFER_NEW"
    "yy_buffer_status b = YY_BUFFER_EOF_PENDING \<longrightarrow> yyin g = []"
    by (rule get_next_buffer_step [OF assms(1-4)])
  let ?c = "take n (yyin g)"
  let ?n = "n + length xs"
  have marks: "yy_put (yy_ch_buf b) ?n (CHR 0x00) = Some ((xs @ ?c) @ CHR 0x00 # drop (?n + 1) (yy_ch_buf b))"
    "yy_put ((xs @ ?c) @ CHR 0x00 # drop (?n + 1) (yy_ch_buf b)) (?n + 1) (CHR 0x00) =
       Some ((xs @ ?c) @ CHR 0x00 # CHR 0x00 # drop (?n + 2) (yy_ch_buf b))"
    by (rule end_marks; use b(2,4,5) in \<open>simp add: add.commute\<close>)+
  let ?b = "b\<lparr>yy_ch_buf := (xs @ ?c) @ CHR 0x00 # CHR 0x00 # drop (?n + 2) (yy_ch_buf b)\<rparr>"
  let ?g = "g\<lparr>yy_n_chars := ?n, yyin := drop n (yyin g), yy_buffer := Some ?b, yytext_ptr := 0\<rparr>"
  have "finish_step E g (length xs) b n = Some (EOB_ACT_CONTINUE_SCAN, ?g)"
    using b(3,5,6) assms(5) by (simp add: finish_step_def marks [simplified] Let_def)
  moreover have "buffer_has ?g 0 (xs @ ?c)"
    using b(2,5-10) assms(5) by (simp add: buffer_has_def)
  moreover have "yy_start g = yy_start yyg" "yy_init g"
    using assms(1) by (simp_all add: eob_state_def)
  ultimately show thesis
    using b(1,3) assms(5) by (intro that [of ?g ?c]) simp_all
qed

lemma next_buffer_last:
  assumes "eob_state yyg g bp k xs" and "k = bp + length xs" and "env_ok E" and "2 * (length xs + 1) < 2 ^ 31"
    and "yyin g = []" and "xs \<noteq> []"
  obtains g' where "yy_get_next_buffer E g = Some (EOB_ACT_LAST_MATCH, g')"
    and "buffer_has g' 0 xs" and "yyin g' = []" and "yytext_ptr g' = 0" and "yy_start g' = yy_start yyg" and "yy_init g'"
proof -
  obtain b n where b: "yy_get_next_buffer E g = finish_step E g (length xs) b n"
    "n \<le> length (yyin g)" "yyin g \<noteq> [] \<longrightarrow> 0 < n" "take (length xs + n) (yy_ch_buf b) = xs @ take n (yyin g)"
    "length xs + n + 2 \<le> length (yy_ch_buf b)" "length (yy_ch_buf b) = yy_buf_size b + 2" "0 < yy_buf_size b"
    "yy_fill_buffer b" "yy_buffer_status b \<noteq> YY_BUFFER_NEW"
    "yy_buffer_status b = YY_BUFFER_EOF_PENDING \<longrightarrow> yyin g = []"
    by (rule get_next_buffer_step [OF assms(1-4)])
  have n: "n = 0"
    using b(2) assms(5) by simp
  have marks: "yy_put (yy_ch_buf b) (length xs) (CHR 0x00) = Some (xs @ CHR 0x00 # drop (length xs + 1) (yy_ch_buf b))"
    "yy_put (xs @ CHR 0x00 # drop (length xs + 1) (yy_ch_buf b)) (length xs + 1) (CHR 0x00) =
       Some (xs @ CHR 0x00 # CHR 0x00 # drop (length xs + 2) (yy_ch_buf b))"
    by (rule end_marks; use b(4,5) n in simp)+
  let ?b = "b\<lparr>yy_buffer_status := YY_BUFFER_EOF_PENDING, yy_ch_buf := xs @ CHR 0x00 # CHR 0x00 # drop (length xs + 2) (yy_ch_buf b)\<rparr>"
  let ?g = "g\<lparr>yy_n_chars := length xs, yyin := [], yy_buffer := Some ?b, yytext_ptr := 0\<rparr>"
  have "finish_step E g (length xs) b n = Some (EOB_ACT_LAST_MATCH, ?g)"
    using b(5,6) assms(5,6) by (simp add: finish_step_def n marks [simplified] Let_def)
  moreover have "buffer_has ?g 0 xs"
    using b(5-10) by (simp add: n buffer_has_def)
  moreover have "yy_start g = yy_start yyg" "yy_init g"
    using assms(1) by (simp_all add: eob_state_def)
  ultimately show thesis
    using b(1) by (intro that [of ?g]) simp_all
qed

lemma next_buffer_eof:
  assumes "eob_state yyg g bp k []" and "k = bp" and "env_ok E" and "yyin g = []"
  obtains g' where "yy_get_next_buffer E g = Some (EOB_ACT_END_OF_FILE, g')"
proof -
  obtain b n where b: "yy_get_next_buffer E g = finish_step E g (length ([] :: string)) b n"
    "n \<le> length (yyin g)" "length ([] :: string) + n + 2 \<le> length (yy_ch_buf b)" "length (yy_ch_buf b) = yy_buf_size b + 2"
    by (rule get_next_buffer_step [of yyg g bp k "[]" E]) (use assms in simp_all)
  have n: "n = 0"
    using b(2) assms(4) by simp
  obtain a c r where r: "yy_ch_buf b = a # c # r"
    using b(3) by (cases "yy_ch_buf b"; cases "tl (yy_ch_buf b)") auto
  have "\<exists>g'. finish_step E g (length ([] :: string)) b n = Some (EOB_ACT_END_OF_FILE, g')"
    by (simp add: finish_step_def n assms(4) yyrestart_def yy_init_buffer_def yy_flush_buffer_def yy_put_def
        yy_load_buffer_state_def yy_get_def r)
  then show thesis
    using b(1) that by auto
qed

section \<open>Tokens\<close>

text \<open>
  The first \<open>k\<close> characters of \<open>text\<close> are set up as a token, and the character behind it, which its
  end marker replaces, is kept.
\<close>

definition token_at :: "yyguts_t \<Rightarrow> nat \<Rightarrow> nat \<Rightarrow> string \<Rightarrow> bool" where
  "token_at yyg s0 k text \<longleftrightarrow> yy_start yyg = s0 \<and> yy_init yyg \<and> yytext yyg = Some (take k text) \<and>
     (\<exists>yyg' rest. yy_set_char yyg (yy_c_buf_p yyg) (yy_hold_char yyg) = Some yyg' \<and>
        buffer_has yyg' (yy_c_buf_p yyg) rest \<and> rest @ yyin yyg = drop k text)"

lemma yy_set_char_fields:
  assumes "yy_set_char yyg i c = Some yyg'"
  shows "yy_start yyg' = yy_start yyg" "yy_init yyg' = yy_init yyg" "yyin yyg' = yyin yyg"
    "yy_c_buf_p yyg' = yy_c_buf_p yyg"
  using assms by (auto simp: yy_set_char_def split: Option.bind_splits)

lemma token_set_at:
  assumes "buffer_has yyg bp text" and "yy_buffer yyg = Some b" and "j \<le> length text" and "yy_init yyg"
    and "g' = token_set yyg bp (bp + j) (yy_ch_buf b ! (bp + j))\<lparr>yy_buffer := Some (b\<lparr>yy_ch_buf := (yy_ch_buf b)[bp + j := CHR 0x00]\<rparr>)\<rparr>"
  shows "token_at g' (yy_start yyg) j (text @ yyin yyg)"
proof -
  obtain b' before junk where b': "yy_buffer yyg = Some b'" "yy_ch_buf b' = before @ text @ CHR 0x00 # CHR 0x00 # junk"
    "length before = bp" "yy_n_chars yyg = bp + length text" "length (yy_ch_buf b') = yy_buf_size b' + 2" "0 < yy_buf_size b'"
    "yy_fill_buffer b'" "yy_buffer_status b' = YY_BUFFER_NEW \<longrightarrow> yyb_n_chars b' = yy_n_chars yyg"
    "yy_buffer_status b' = YY_BUFFER_EOF_PENDING \<longrightarrow> yyin yyg = []"
    using assms(1) by (rule buffer_hasE)
  have "b' = b"
    using b'(1) assms(2) by simp
  note b = b'(2-) [unfolded this]
  have lt: "bp + j < length (yy_ch_buf b)"
    using b assms(3) by simp
  have set: "yy_set_char g' (bp + j) (yy_ch_buf b ! (bp + j)) = Some (token_set yyg bp (bp + j) (yy_ch_buf b ! (bp + j)))"
    unfolding assms(5) by (rule before_action(2) [OF assms(2) lt])
  have "buffer_has (token_set yyg bp (bp + j) c) (bp + j) (drop j text)" for c
  proof -
    have "yy_ch_buf b = (before @ take j text) @ drop j text @ CHR 0x00 # CHR 0x00 # junk" "length (before @ take j text) = bp + j"
      using b(1,2) assms(3) by simp_all
    then show ?thesis
      using b(3-) assms(2,3) unfolding buffer_has_def
      by (intro exI [of _ b] exI [of _ "before @ take j text"] exI [of _ junk] conjI) simp_all
  qed
  moreover have "yytext g' = Some (take j text)"
    using assms(3) by (simp add: yytext_def assms(5) b list_update_append split: nat.split)
  ultimately show ?thesis
    using set assms(3,4) by (auto simp: token_at_def assms(5))
qed

lemma scan_buf_finish:
  assumes "buffer_has yyg bp text" and "yy_init yyg" and "yy_buffer yyg = Some b"
    and "(if m then yy_match_buf (yy_ch_buf b) s cp (yy_last_accepting yyg) else Some (s, cp, yy_last_accepting yyg)) = Some (s', cp', la')"
    and "yy_find_action s' cp' la' = Some (a, bp + j)" and "a \<noteq> 33" and "j \<le> length text"
  shows "\<exists>g'. yy_scan_buf E yyg bp m s cp = Some (Some a, g') \<and> token_at g' (yy_start yyg) j (text @ yyin yyg)"
proof -
  let ?g = "yyg\<lparr>yy_last_accepting := la'\<rparr>"
  let ?h = "token_set ?g bp (bp + j) (yy_ch_buf b ! (bp + j))\<lparr>yy_buffer := Some (b\<lparr>yy_ch_buf := (yy_ch_buf b)[bp + j := CHR 0x00]\<rparr>)\<rparr>"
  have has: "buffer_has ?g bp text" and g: "yy_buffer ?g = Some b"
    using assms(1,3) by (auto intro: buffer_has_cong)
  have "bp + j < length (yy_ch_buf b)"
    using assms(1,3,7) by (auto elim: buffer_hasE)
  note before = before_action(1) [OF g this, of bp]
  have "yy_scan_buf E yyg bp m s cp = Some (Some a, ?h)"
    using assms(4-6) by (subst yy_scan_buf.simps) (simp add: assms(3) before YY_END_OF_BUFFER_def)
  moreover have "token_at ?h (yy_start ?g) j (text @ yyin ?g)"
    by (rule token_set_at [OF has g assms(7) _ refl]) (simp add: assms(2))
  ultimately show ?thesis
    by auto
qed

text \<open>The match is known at the end of \<open>xs\<close>.\<close>

lemma last_ok_stop:
  assumes "yy_start_ok s0" and "last_ok s0 bp xs la" and "xs \<noteq> []" and "yy_run s0 xs \<noteq> 205"
    and "ys = [] \<or> yy_succ (yy_run s0 xs) (hd ys) = 205"
    and "scan_result s0 (xs @ ys) = Some (Some (a, j))"
  shows "\<exists>t. noted (yy_run s0 xs) (bp + length xs) la = Some (t, bp + j) \<and> live t \<and> a = yy_accept ! t \<and> a \<noteq> 33 \<and> j \<le> length xs"
proof -
  obtain t k where t: "noted (yy_run s0 xs) (length xs) (marks s0 0 xs None) = Some (t, k)" "live t" "k \<le> length xs"
    using noted_start [OF assms(1,3)] by blast
  obtain t' j' where "noted (yy_run s0 xs) (length xs) (marks s0 0 xs None) = Some (t', j')" "live t'"
    "scan_result s0 (xs @ ys) = Some (Some (yy_accept ! t', j'))"
    using scan_stop(2) [OF assms(1,3,4) refl assms(5)] by blast
  then have "t' = t" "j' = k" "a = yy_accept ! t" "j = k"
    using t assms(6) by simp_all
  then show ?thesis
    using assms(2,3) t accept_live [OF t(2)] by (simp add: last_ok_def)
qed

lemma scanning_parts:
  assumes "scanning yyg s0 bp xs ys"
  obtains b where "yy_buffer yyg = Some b" and "buffer_has yyg bp (xs @ ys)" and "yy_init yyg" and "yy_start yyg = s0"
    and "last_ok s0 bp xs (yy_last_accepting yyg)"
  using assms unfolding scanning_def by (blast elim: buffer_hasE)

text \<open>Stopping at \<open>yy_find_action\<close> behind \<open>xs\<close>.\<close>

lemma scan_buf_stop:
  assumes "scanning yyg s0 bp xs ys" and "yy_start_ok s0" and "xs \<noteq> []" and "yy_run s0 xs \<noteq> 205"
    and "ys @ yyin yyg = [] \<or> yy_succ (yy_run s0 xs) (hd (ys @ yyin yyg)) = 205"
    and "scan_result s0 (xs @ ys @ yyin yyg) = Some (Some (a, j))"
  shows "\<exists>g'. yy_scan_buf E yyg bp False (yy_run s0 xs) (bp + length xs) = Some (Some a, g') \<and>
    token_at g' s0 j (xs @ ys @ yyin yyg)"
proof -
  obtain b where b: "yy_buffer yyg = Some b" "buffer_has yyg bp (xs @ ys)" "yy_init yyg" "yy_start yyg = s0"
    "last_ok s0 bp xs (yy_last_accepting yyg)"
    using assms(1) by (rule scanning_parts)
  obtain t where t: "noted (yy_run s0 xs) (bp + length xs) (yy_last_accepting yyg) = Some (t, bp + j)" "live t"
    "a = yy_accept ! t" "a \<noteq> 33" "j \<le> length xs"
    using last_ok_stop [OF assms(2) b(5) assms(3-6)] by blast
  have "yy_find_action (yy_run s0 xs) (bp + length xs) (yy_last_accepting yyg) = Some (a, bp + j)"
    using find_action_noted [OF live_run [OF start_live [OF assms(2)]] t(1,2)] t(3) by simp
  then show ?thesis
    using scan_buf_finish [OF b(2,3,1), of False _ _ _ _ _ a j E] t(4,5) b(4) by simp
qed

text \<open>The match ends with the character \<open>y\<close>, or in front of it.\<close>

lemma scan_buf_jam:
  assumes "scanning yyg s0 bp xs (y # ys)" and "yy_start_ok s0" and "yy_run s0 xs \<noteq> 205" and "y \<noteq> CHR 0x00"
    and "yy_base ! yy_succ (yy_run s0 xs) y = 296"
    and "scan_result s0 (xs @ (y # ys) @ yyin yyg) = Some (Some (a, j))"
  shows "\<exists>g'. yy_scan_buf E yyg bp True (yy_run s0 xs) (bp + length xs) = Some (Some a, g') \<and>
    token_at g' s0 j (xs @ (y # ys) @ yyin yyg)"
proof -
  let ?s = "yy_run s0 xs"
  let ?k = "bp + length xs"
  obtain b where b: "yy_buffer yyg = Some b" "buffer_has yyg bp (xs @ y # ys)" "yy_init yyg" "yy_start yyg = s0"
    "last_ok s0 bp xs (yy_last_accepting yyg)"
    using assms(1) by (rule scanning_parts)
  obtain before junk where ch: "yy_ch_buf b = before @ (xs @ y # ys) @ CHR 0x00 # CHR 0x00 # junk" "length before = bp"
    using b(2,1) by (rule buffer_content)
  have k: "?k < length (yy_ch_buf b)" "yy_ch_buf b ! ?k = y"
    by (simp_all add: ch(1) ch(2) [symmetric] nth_append)
  have l: "live ?s"
    by (rule live_run [OF start_live [OF assms(2)]])
  let ?la = "noted ?s ?k (yy_last_accepting yyg)"
  have m: "yy_match_buf (yy_ch_buf b) ?s ?k (yy_last_accepting yyg) = Some (yy_succ ?s y, ?k + 1, ?la)"
    using yy_match_buf_char [OF l k(1)] k(2) assms(4,5) by (simp add: Let_def)
  have "yy_find_action (yy_succ ?s y) (?k + 1) ?la = Some (a, bp + j) \<and> a \<noteq> 33 \<and> j \<le> length (xs @ y # ys)"
  proof (cases "yy_succ ?s y = 205")
    case True
    then have x: "xs \<noteq> []"
      using first_not_jam [OF assms(2), of y] by auto
    obtain t where "?la = Some (t, bp + j)" "live t" "a = yy_accept ! t" "a \<noteq> 33" "j \<le> length xs"
      using last_ok_stop [OF assms(2) b(5) x assms(3) _ assms(6)] True by auto
    then show ?thesis
      using True find_action_jam by simp
  next
    case False
    have l': "live (yy_succ ?s y)"
      by (rule live_succ [OF l])
    have "ys @ yyin yyg = [] \<or> yy_succ (yy_run s0 (xs @ [y])) (hd (ys @ yyin yyg)) = 205"
      using yy_next_jam [of "yy_succ ?s y" "yy_cls (hd (ys @ yyin yyg))"] yy_cls_range [of "hd (ys @ yyin yyg)"] l' assms(5)
      by (simp add: live_def yy_succ_def)
    moreover have "last_ok s0 bp (xs @ [y]) ?la"
      by (rule last_ok_snoc [OF assms(2) b(5)])
    ultimately obtain t where "noted (yy_run s0 (xs @ [y])) (bp + length (xs @ [y])) ?la = Some (t, bp + j)" "live t"
      "a = yy_accept ! t" "a \<noteq> 33" "j \<le> length (xs @ [y])"
      using last_ok_stop [OF assms(2), of bp "xs @ [y]" ?la "ys @ yyin yyg" a j] False assms(6) by auto
    then show ?thesis
      using find_action_noted [OF l', of "?k + 1" ?la t "bp + j"] by simp
  qed
  then show ?thesis
    using scan_buf_finish [OF b(2,3,1), of True ?s ?k _ _ _ a j E] m b(4) by auto
qed

lemma scan_buf_munch:
  assumes "yy_start_ok s0" and "env_ok E" and "length full + 2 < 2 ^ 30" and "full \<noteq> []"
    and "scan_result s0 full = Some (Some (a, j))"
    and "scanning yyg s0 bp xs ys" and "full = xs @ ys @ yyin yyg" and "yy_run s0 xs \<noteq> 205"
  shows "\<exists>g'. yy_scan_buf E yyg bp True (yy_run s0 xs) (bp + length xs) = Some (Some a, g') \<and> token_at g' s0 j full"
  using assms(6-8)
proof (induction "2 * length (yyin yyg) + length ys" arbitrary: yyg bp xs ys rule: less_induct)
  case less
  let ?s = "yy_run s0 xs"
  let ?k = "bp + length xs"
  note start = assms(1)
  have room: "2 * (length xs + 1) < (2 :: nat) ^ 31"
    using assms(3) less.prems(2) by simp
  have sl: "live s0"
    by (rule start_live [OF start])
  consider (End) "ys = []" | (Nul) ys' where "ys = CHR 0x00 # ys'" | (Char) y ys' where "ys = y # ys'" "y \<noteq> CHR 0x00"
    by (cases ys) auto
  then show ?case
  proof cases
    case End
    obtain g where eob: "eob_state yyg g bp ?k (xs @ ys)"
      "yy_scan_buf E yyg bp True ?s ?k = (if ys = [] then scan_next E g (length xs) else scan_nul E g ?k)"
      using scan_buf_eob [OF less.prems(1) start _ refl refl] End by blast
    have e: "eob_state yyg g bp ?k xs" "yy_scan_buf E yyg bp True ?s ?k = scan_next E g (length xs)" "yyin g = yyin yyg"
      "yy_start yyg = s0"
      using eob End less.prems(1) by (simp_all add: eob_state_def scanning_def)
    show ?thesis
    proof (cases "yyin yyg = []")
      case False
      obtain g' c where g': "yy_get_next_buffer E g = Some (EOB_ACT_CONTINUE_SCAN, g')" "c \<noteq> []"
        "buffer_has g' 0 (xs @ c)" "c @ yyin g' = yyin g" "yytext_ptr g' = 0" "yy_start g' = yy_start yyg" "yy_init g'"
        using next_buffer_more [OF e(1) refl assms(2) room] False e(3) by auto
      let ?h = "g'\<lparr>yy_c_buf_p := length xs\<rparr>"
      let ?h' = "?h\<lparr>yy_last_accepting := marks s0 0 xs (yy_last_accepting g')\<rparr>"
      obtain b junk where b: "yy_buffer g' = Some b" "yy_ch_buf b = [] @ xs @ c @ CHR 0x00 # CHR 0x00 # junk"
        using g'(3) by (auto elim: buffer_hasE)
      have "yy_previous ?h = Some (?s, ?h')"
        using yy_previous_run [of ?h b "[]" xs] b g'(5,6) e(4) sl by simp
      then have "yy_scan_buf E yyg bp True ?s ?k = yy_scan_buf E ?h' 0 True ?s (0 + length xs)"
        by (simp add: e(2) scan_next_def g'(1,5))
      moreover have "scanning ?h' s0 0 xs c"
        using g'(3,6,7) e(4) last_ok_marks [OF start, of 0 xs] by (auto simp: scanning_def intro: buffer_has_cong)
      moreover have "2 * length (yyin ?h') + length c < 2 * length (yyin yyg) + length ys"
      proof -
        have "length (yyin yyg) = length c + length (yyin g')"
          using g'(4) e(3) by (metis length_append)
        then show ?thesis
          using g'(2) by simp
      qed
      moreover have "full = xs @ c @ yyin ?h'"
        using less.prems(2) End g'(4) e(3) by simp
      ultimately show ?thesis
        using less.hyps [of ?h' c 0 xs] less.prems(3) by simp
    next
      case True
      then have x: "xs \<noteq> []" and full: "full = xs"
        using assms(4) less.prems(2) End by auto
      obtain g' where g': "yy_get_next_buffer E g = Some (EOB_ACT_LAST_MATCH, g')" "buffer_has g' 0 xs" "yyin g' = []"
        "yytext_ptr g' = 0" "yy_start g' = yy_start yyg" "yy_init g'"
        using next_buffer_last [OF e(1) refl assms(2) room _ x] True e(3) by auto
      let ?h = "g'\<lparr>yy_c_buf_p := length xs\<rparr>"
      let ?h' = "?h\<lparr>yy_last_accepting := marks s0 0 xs (yy_last_accepting g')\<rparr>"
      obtain b junk where b: "yy_buffer g' = Some b" "yy_ch_buf b = [] @ xs @ CHR 0x00 # CHR 0x00 # junk"
        "yy_n_chars g' = length xs"
        using g'(2) by (auto elim: buffer_hasE)
      have "yy_previous ?h = Some (?s, ?h')"
        using yy_previous_run [of ?h b "[]" xs] b g'(4,5) e(4) sl by simp
      then have "yy_scan_buf E yyg bp True ?s ?k = yy_scan_buf E ?h' 0 False ?s (0 + length xs)"
        by (simp add: e(2) scan_next_def g'(1,4) b(3))
      moreover have "scanning ?h' s0 0 xs []"
        using g'(2,5,6) e(4) last_ok_marks [OF start, of 0 xs] by (auto simp: scanning_def intro: buffer_has_cong)
      ultimately show ?thesis
        using scan_buf_stop [of ?h' s0 0 xs "[]" a j E] start x less.prems(3) g'(3) assms(5) full by simp
    qed
  next
    case Nul
    obtain g where eob: "eob_state yyg g bp ?k (xs @ ys)"
      "yy_scan_buf E yyg bp True ?s ?k = (if ys = [] then scan_next E g (length xs) else scan_nul E g ?k)"
      using scan_buf_eob [OF less.prems(1) start _ refl refl] Nul by auto
    have st: "yy_start yyg = s0"
      using less.prems(1) by (simp add: scanning_def)
    obtain g' where g': "yy_scan_buf E yyg bp True ?s ?k = (if yy_succ ?s CHR 0x00 = 205 then yy_scan_buf E g' bp False ?s ?k
        else yy_scan_buf E g' bp True (yy_succ ?s CHR 0x00) (?k + 1))" "yyin g' = yyin yyg"
      "if yy_succ ?s CHR 0x00 = 205 then scanning g' s0 bp xs (CHR 0x00 # ys') else scanning g' s0 bp (xs @ [CHR 0x00]) ys'"
      using scan_nul_step [of yyg g bp ?k xs ys' s0 ?s E] eob Nul st start by auto
    show ?thesis
    proof (cases "yy_succ ?s CHR 0x00 = 205")
      case True
      then have "xs \<noteq> []"
        using first_not_jam [OF start, of "CHR 0x00"] by auto
      then show ?thesis
        using scan_buf_stop [of g' s0 bp xs "CHR 0x00 # ys'" a j E] g' True start less.prems(2,3) assms(5) Nul by simp
    next
      case False
      then show ?thesis
        using less.hyps [of g' ys' bp "xs @ [CHR 0x00]"] g' less.prems(2) Nul by simp
    qed
  next
    case Char
    show ?thesis
    proof (cases "yy_base ! yy_succ ?s y = 296")
      case True
      then show ?thesis
        using scan_buf_jam [of yyg s0 bp xs y ys' a j E] less.prems Char start assms(5) by simp
    next
      case False
      obtain g' where g': "yy_scan_buf E yyg bp True ?s ?k = yy_scan_buf E g' bp True (yy_succ ?s y) (bp + length (xs @ [y]))"
        "scanning g' s0 bp (xs @ [y]) ys'" "yyin g' = yyin yyg"
        using scan_buf_char [OF _ start Char(2) refl False, of yyg bp ys' E] less.prems(1) Char(1) by auto
      have "yy_succ ?s y \<noteq> 205"
        using False by (auto simp: yy_base_at)
      then show ?thesis
        using less.hyps [of g' ys' bp "xs @ [y]"] g' less.prems(2) Char(1) by simp
    qed
  qed
qed

section \<open>The scanner as the parser calls it\<close>

definition ready :: "yyguts_t \<Rightarrow> nat \<Rightarrow> string \<Rightarrow> bool" where
  "ready yyg s0 text \<longleftrightarrow> yy_init yyg \<and> yy_start yyg = s0 \<and>
     (\<exists>yyg' rest. yy_set_char yyg (yy_c_buf_p yyg) (yy_hold_char yyg) = Some yyg' \<and>
        buffer_has yyg' (yy_c_buf_p yyg) rest \<and> rest @ yyin yyg = text)"

lemma ready_scanning:
  assumes "ready yyg s0 text"
  obtains yyg' rest where "yy_set_char yyg (yy_c_buf_p yyg) (yy_hold_char yyg) = Some yyg'"
    and "scanning yyg' s0 (yy_c_buf_p yyg') [] rest" and "text = [] @ rest @ yyin yyg'" and "yy_start yyg' = s0"
proof -
  obtain yyg' rest where g: "yy_init yyg" "yy_start yyg = s0"
    "yy_set_char yyg (yy_c_buf_p yyg) (yy_hold_char yyg) = Some yyg'"
    "buffer_has yyg' (yy_c_buf_p yyg) rest" "rest @ yyin yyg = text"
    using assms unfolding ready_def by blast
  show thesis
    by (rule that [OF g(3), of rest])
      (use g yy_set_char_fields [OF g(3)] in \<open>simp_all add: scanning_def\<close>)
qed

lemma token_at_ready:
  assumes "token_at yyg s0 k text"
  shows "ready (yyg\<lparr>yy_start := s1\<rparr>) s1 (drop k text)"
proof -
  obtain yyg' rest where g: "yy_set_char yyg (yy_c_buf_p yyg) (yy_hold_char yyg) = Some yyg'"
    "buffer_has yyg' (yy_c_buf_p yyg) rest" "rest @ yyin yyg = drop k text" "yy_init yyg"
    using assms unfolding token_at_def by blast
  have "yy_set_char (yyg\<lparr>yy_start := s1\<rparr>) (yy_c_buf_p yyg) (yy_hold_char yyg) = Some (yyg'\<lparr>yy_start := s1\<rparr>)"
    using g(1) by (auto simp: yy_set_char_def split: Option.bind_splits)
  moreover have "buffer_has (yyg'\<lparr>yy_start := s1\<rparr>) (yy_c_buf_p yyg) rest"
    using g(2) by (auto intro: buffer_has_cong)
  ultimately show ?thesis
    using g(3,4) by (auto simp: ready_def)
qed

lemma scan_buf_empty:
  assumes "scanning yyg s0 bp [] []" and "yy_start_ok s0" and "env_ok E" and "yyin yyg = []"
  shows "\<exists>g'. yy_scan_buf E yyg bp True s0 bp = Some (None, g')"
proof -
  obtain g where g: "eob_state yyg g bp bp ([] @ [])" "yy_scan_buf E yyg bp True s0 bp = scan_next E g (length ([] :: string))"
    using scan_buf_eob [OF assms(1,2), of s0 bp E] by auto
  have "eob_state yyg g bp bp []" and "yyin g = []"
    using g(1) assms(4) by (simp_all add: eob_state_def)
  then obtain g' where "yy_get_next_buffer E g = Some (EOB_ACT_END_OF_FILE, g')"
    using next_buffer_eof [OF _ refl assms(3)] by blast
  then show ?thesis
    using g(2) by (simp add: scan_next_def)
qed

lemma yylex_loop_refines:
  assumes "env_ok E" and "length text + 2 < 2 ^ 30" and "yy_start_ok s0" and "ready yyg s0 text"
    and "yylex s0 text = Some (tok, s1, rest)"
  shows "\<exists>yyg'. yylex_loop E yyg = Some (tok, yyg') \<and> (tok \<noteq> None \<longrightarrow> ready yyg' s1 rest)"
  using assms(2-5)
proof (induction "text" arbitrary: s0 yyg rule: measure_induct_rule [of length])
  case (less "text")
  obtain g r where g: "yy_set_char yyg (yy_c_buf_p yyg) (yy_hold_char yyg) = Some g"
    "scanning g s0 (yy_c_buf_p g) [] r" "text = [] @ r @ yyin g" "yy_start g = s0"
    using less.prems(3) by (rule ready_scanning)
  have s0: "s0 \<noteq> 205"
    using less.prems(2) by (auto simp: yy_start_ok_def INITIAL_def TITLE_STATE_def)
  show ?case
  proof (cases "text = []")
    case True
    then have "r = []" "yyin g = []"
      using g(3) by simp_all
    then obtain g' where "yy_scan_buf E g (yy_c_buf_p g) True s0 (yy_c_buf_p g) = Some (None, g')"
      using scan_buf_empty [OF _ less.prems(2) assms(1), of g "yy_c_buf_p g"] g(2) by auto
    moreover have "tok = None"
      using less.prems(4) yylex_empty [OF less.prems(2)] True by simp
    ultimately show ?thesis
      by (subst yylex_loop.simps) (simp add: g(1,4))
  next
    case False
    obtain t k where m: "munch s0 0 text None = Some (t, k)" "live t" "yy_accept ! t \<noteq> 0" "0 < k" "k \<le> length text"
      using munch_start [OF less.prems(2) False] by blast
    then have sr: "scan_result s0 text = Some (Some (yy_accept ! t, k))"
      by (simp add: scan_result_def)
    obtain g' where g': "yy_scan_buf E g (yy_c_buf_p g) True s0 (yy_c_buf_p g) = Some (Some (yy_accept ! t), g')"
      "token_at g' s0 k text"
      using scan_buf_munch [OF less.prems(2) assms(1) less.prems(1) False sr g(2,3)] s0 by auto
    obtain x s2 where a: "yy_action (yy_accept ! t) (take k text) s0 = Some (x, s2)" "yy_start_ok s2"
      using yy_action_ok [OF m(2,3) less.prems(2)] by blast
    have step: "yylex_loop E yyg = (case x of None \<Rightarrow> yylex_loop E (g'\<lparr>yy_start := s2\<rparr>) | Some t \<Rightarrow> Some (Some t, g'\<lparr>yy_start := s2\<rparr>))"
      using g'(2) a(1) by (subst yylex_loop.simps) (simp add: g(1,4) g'(1) token_at_def Let_def)
    have next': "ready (g'\<lparr>yy_start := s2\<rparr>) s2 (drop k text)"
      by (rule token_at_ready [OF g'(2)])
    note ref = yylex_step [OF less.prems(2) False m(1)]
    show ?thesis
    proof (cases x)
      case None
      then show ?thesis
        using less.IH [of "drop k text" s2 "g'\<lparr>yy_start := s2\<rparr>"] next' a less.prems(1,4) ref step m(4) False by simp
    next
      case (Some y)
      then show ?thesis
        using next' a less.prems(4) ref step by auto
    qed
  qed
qed

lemma yy_tokens_refines:
  assumes "env_ok E" and "length text + 2 < 2 ^ 30" and "yy_start_ok s0" and "ready yyg s0 text"
  shows "yy_tokens_buf E yyg = yy_tokens s0 text"
  using assms(2-4)
proof (induction "text" arbitrary: s0 yyg rule: measure_induct_rule [of length])
  case (less "text")
  obtain tok s1 rest where l: "yylex s0 text = Some (tok, s1, rest)" "yy_start_ok s1" "tok \<noteq> None \<longrightarrow> length rest < length text"
    using yylex_total [OF less.prems(2)] by blast
  obtain g where g: "yylex_loop E yyg = Some (tok, g)" "tok \<noteq> None \<longrightarrow> ready g s1 rest"
    using yylex_loop_refines [OF assms(1) less.prems l(1)] by blast
  have "yy_init yyg"
    using less.prems(3) by (simp add: ready_def)
  then have b: "yylex_buf E yyg = Some (tok, g)"
    using g(1) by (simp add: yylex_buf_def yylex_start_def)
  show ?case
  proof (cases tok)
    case None
    then show ?thesis
      using l(1) b by (simp add: yy_tokens_buf.simps [of E yyg] yy_tokens.simps [of s0 "text"])
  next
    case (Some t)
    then have "yy_tokens_buf E g = yy_tokens s1 rest"
      using less.IH [of rest s1 g] l(2,3) g(2) less.prems(1) by simp
    then show ?thesis
      using l(1) b Some by (simp add: yy_tokens_buf.simps [of E yyg] yy_tokens.simps [of s0 "text"])
  qed
qed

text \<open>The first call makes the buffer.\<close>

lemma yylex_start_ready:
  assumes "env_ok E" and "yylex_init E = Some yyg"
  obtains g where "yylex_start E (yyset_in file yyg) = Some g" and "ready g INITIAL file"
proof -
  have len: "length (yy_fresh E 0 (YY_BUF_SIZE + 2)) = YY_BUF_SIZE + 2"
    by (simp add: yy_fresh_def)
  obtain r a c where r: "yy_fresh E 0 (YY_BUF_SIZE + 2) = a # c # r"
    using len by (cases "yy_fresh E 0 (YY_BUF_SIZE + 2)"; cases "tl (yy_fresh E 0 (YY_BUF_SIZE + 2))") (simp_all add: YY_BUF_SIZE_def)
  have rl: "length r = YY_BUF_SIZE"
    using len by (simp add: r [simplified])
  let ?b = "\<lparr>yy_ch_buf = CHR 0x00 # CHR 0x00 # r, yy_buf_pos = 0, yy_buf_size = YY_BUF_SIZE, yyb_n_chars = 0,
    yy_fill_buffer = True, yy_buffer_status = YY_BUFFER_NEW\<rparr>"
  let ?g = "(yyset_in file yyg)\<lparr>yy_init := True, yy_start := 1, yy_buffer := Some ?b, yy_n_chars := 0, yytext_ptr := 0,
    yy_c_buf_p := 0, yy_hold_char := CHR 0x00\<rparr>"
  have g0: "yy_init yyg = False" "yy_start yyg = 0" "yy_buffer yyg = None"
    using assms(2) by (auto simp: yylex_init_def split: if_splits)
  have all: "ye_alloc E n" for n
    using assms(1) by (simp add: env_ok_def)
  have "yy_create_buffer E YY_BUF_SIZE = Some ?b"
    by (simp add: yy_create_buffer_def all yy_init_buffer_def yy_flush_buffer_def yy_put_def r [simplified])
  then have "yylex_start E (yyset_in file yyg) = Some ?g"
    by (simp add: yylex_start_def g0 yyset_in_def yyensure_buffer_stack_def all yy_load_buffer_state_def yy_get_def)
  moreover have "buffer_has ?g 0 []"
    by (simp add: buffer_has_def rl YY_BUF_SIZE_def)
  then have "ready ?g INITIAL file"
    by (auto simp: ready_def INITIAL_def yy_set_char_def yy_put_def yyset_in_def intro!: exI [of _ "[]"] elim: buffer_has_cong)
  ultimately show thesis
    by (rule that)
qed

text \<open>
  C12: reading the file in portions, into a buffer whose content is moved, grown and refilled whenever its
  end marker is met in the middle of a token, makes no difference: with enough memory, whatever
  \<open>fread\<close> returns at a time, the tokens are those of the scanner that has the file in one piece.
\<close>

theorem scanner_refills:
  assumes "env_ok E" and "length file + 2 < 2 ^ 30" and "yylex_init E = Some yyg"
  shows "yy_tokens_buf E (yyset_in file yyg) = yy_tokens INITIAL file"
proof -
  obtain g where g: "yylex_start E (yyset_in file yyg) = Some g" "ready g INITIAL file"
    using yylex_start_ready [OF assms(1,3)] by blast
  then have "yy_init g"
    by (simp add: ready_def)
  then have "yylex_buf E (yyset_in file yyg) = yylex_buf E g"
    using g(1) by (simp add: yylex_buf_def yylex_start_def)
  then have "yy_tokens_buf E (yyset_in file yyg) = yy_tokens_buf E g"
    by (simp add: yy_tokens_buf.simps [of E "yyset_in file yyg"] yy_tokens_buf.simps [of E g])
  then show ?thesis
    using yy_tokens_refines [OF assms(1,2) _ g(2)] by (simp add: yy_start_ok_def)
qed

text \<open>One character at a time.\<close>

definition toy_yy_env :: yy_env where
  "toy_yy_env = \<lparr>ye_alloc = \<lambda>_. True, ye_junk = \<lambda>_. CHR ''x'', ye_fread = \<lambda>n file. min n (min 1 (length file))\<rparr>"

theorem scanner_refills_witness:
  "\<exists>yyg. yylex_init toy_yy_env = Some yyg \<and>
     yy_tokens_buf toy_yy_env (yyset_in ''--'' yyg) = Some [PUNCT_HYPHEN, PUNCT_HYPHEN]"
proof -
  have ok: "env_ok toy_yy_env"
    by (auto simp: env_ok_def toy_yy_env_def)
  obtain yyg where i: "yylex_init toy_yy_env = Some yyg"
    by (simp add: yylex_init_def toy_yy_env_def)
  have "yy_tokens INITIAL ''--'' = Some [PUNCT_HYPHEN, PUNCT_HYPHEN]"
    by (simp add: INITIAL_def lex_hyphen [simplified] yy_tokens_empty [of 1, simplified] yy_start_ok_def)
  then show ?thesis
    using scanner_refills [OF ok _ i, of "''--''"] i by simp
qed

end
